(* ===== verification/Prelude.thy ===== *)
theory Prelude
  imports Main "HOL-Library.Word"
begin

unbundle bit_operations_syntax

section \<open>Shared notions of the development\<close>

text \<open>
  What every component of the robot firmware shares: the machine integers of the
  STM32F4 target (\<open>unsigned int\<close>, \<open>size_t\<close> and pointers are 32 bits wide), the outcome
  of a C function that may do something the C standard leaves undefined or may never
  return, the C library's \<open>memcpy\<close> on byte arrays, and the generic lemmas on lists and
  words that the component theories use.
\<close>

type_synonym u8 = "8 word"
type_synonym u16 = "16 word"
type_synonym u32 = "32 word"

text \<open>
  A call either returns (\<open>Inr\<close>) or ends in a fault: an access outside an object, a
  dereference of the null pointer, an access through a pointer to a freed block, a copy
  between overlapping regions, a shift by at least the width, a division by zero, a
  floating-point value that does not fit the integer it is converted to, an overflow of a
  signed integer, a variable read before it is set, or a busy loop
  that never ends (\<open>while (1);\<close>, \<open>BUG_ON\<close>).
\<close>

datatype fault =
    OutOfBounds
  | NullDeref
  | UseAfterFree
  | Overlap
  | BadShift
  | DivByZero
  | BadConversion
  | SignedOverflow
  | Indeterminate
  | BusyLoop

type_synonym 'a res = "fault + 'a"

definition bind_res :: "'a res \<Rightarrow> ('a \<Rightarrow> 'b res) \<Rightarrow> 'b res" where
  "bind_res m f = (case m of Inl e \<Rightarrow> Inl e | Inr x \<Rightarrow> f x)"

named_theorems res_simps \<open>evaluation of the outcome type\<close>
named_theorems inv_intros \<open>preservation of the components' invariants\<close>

lemma bind_res_Inl [simp, res_simps]: "bind_res (Inl e) f = Inl e"
  by (simp add: bind_res_def)

lemma bind_res_Inr [simp, res_simps]: "bind_res (Inr x) f = f x"
  by (simp add: bind_res_def)

lemma bind_res_eq_Inr [simp]:
  "bind_res m f = Inr y \<longleftrightarrow> (\<exists>x. m = Inr x \<and> f x = Inr y)"
  by (cases m) (auto simp: bind_res_def)

lemma bind_res_cong [fundef_cong]:
  "m = m' \<Longrightarrow> (\<And>x. m' = Inr x \<Longrightarrow> f x = g x) \<Longrightarrow> bind_res m f = bind_res m' g"
  by (cases m') (auto simp: bind_res_def)

subsection \<open>The C library's memcpy\<close>

text \<open>
  \<open>memcpy dst doff src soff n\<close> copies \<open>n\<close> elements of the object \<open>src\<close>, from offset
  \<open>soff\<close>, into the object \<open>dst\<close> at offset \<open>doff\<close>. The two objects are distinct arrays
  here. A copy of nothing touches neither object; any other copy must stay inside both.
\<close>

definition blit :: "'a list \<Rightarrow> nat \<Rightarrow> 'a list \<Rightarrow> 'a list" where
  "blit dst off xs = take off dst @ xs @ drop (off + length xs) dst"

definition memcpy :: "'a list \<Rightarrow> nat \<Rightarrow> 'a list \<Rightarrow> nat \<Rightarrow> nat \<Rightarrow> 'a list res" where
  "memcpy dst doff src soff n =
     (if n = 0 then Inr dst
      else if doff + n \<le> length dst \<and> soff + n \<le> length src
      then Inr (blit dst doff (take n (drop soff src)))
      else Inl OutOfBounds)"

lemma length_blit [simp]: "off + length xs \<le> length dst \<Longrightarrow> length (blit dst off xs) = length dst"
  by (simp add: blit_def)

lemma blit_Nil [simp]: "blit dst off [] = dst"
  by (simp add: blit_def)

lemma nth_blit:
  "off + length xs \<le> length dst \<Longrightarrow> i < length dst \<Longrightarrow>
   blit dst off xs ! i = (if off \<le> i \<and> i < off + length xs then xs ! (i - off) else dst ! i)"
  by (auto simp: blit_def nth_append min_def)

lemma memcpy_ok:
  "doff + n \<le> length dst \<Longrightarrow> soff + n \<le> length src \<Longrightarrow>
   memcpy dst doff src soff n = Inr (blit dst doff (take n (drop soff src)))"
  by (simp add: memcpy_def)

subsection \<open>Words\<close>

definition cmin :: "'a::len word \<Rightarrow> 'a word \<Rightarrow> 'a word" where
  "cmin a b = (if a < b then a else b)"

lemma unat_cmin [simp]: "unat (cmin a b) = min (unat a) (unat b)"
  by (auto simp: cmin_def word_less_nat_alt)

lemma unat_and_mask:
  assumes "m = 2 ^ k" and "k < LENGTH('a)"
  shows "unat ((x::'a::len word) AND (m - 1)) = unat x mod 2 ^ k"
proof -
  have "x AND (m - 1) = take_bit k x"
    by (simp add: assms mask_eq_decr_exp take_bit_eq_mask)
  then have "unat (x AND (m - 1)) = take_bit k (unat x)"
    by (simp add: unsigned_take_bit_eq)
  then show ?thesis
    by (simp add: take_bit_eq_mod)
qed

lemma unat_sub_le: "b \<le> (a::'a::len word) \<Longrightarrow> unat (a - b) = unat a - unat b"
  by (simp add: unat_sub)

lemma unat_pow2:
  assumes "k < LENGTH('a)"
  shows "unat (2 ^ k :: 'a::len word) = 2 ^ k"
proof -
  have "(2::nat) ^ k < 2 ^ LENGTH('a)"
    using assms by (rule power_strict_increasing) simp
  then have "unat (of_nat (2 ^ k) :: 'a word) = 2 ^ k"
    by (simp add: unat_of_nat take_bit_eq_mod del: of_nat_power)
  then show ?thesis by simp
qed

lemma pow2_less_32: "(2::nat) ^ k < 2 ^ 32 \<Longrightarrow> k < 32"
  using power_strict_increasing_iff [of "2::nat" k 32] by simp

lemma unat_of_nat_u32: "n < 2 ^ 32 \<Longrightarrow> unat (of_nat n :: u32) = n"
  by (simp add: unat_of_nat take_bit_eq_mod)

end
