(* ===== verification/Cvector.thy ===== *)
theory Cvector
  imports Prelude
begin

section \<open>The growable array (statemachine/cvector.c)\<close>

text \<open>
  A vector of elements of \<open>cv_size\<close> bytes in one heap block that \<open>realloc\<close> may move. The
  block's bytes are a list and its address a 32-bit word; iterators are addresses, and an
  access through an address outside the present block is a fault. Lengths are \<open>size_t\<close>,
  32 bits wide, with the wrap-around of the C code. The allocator is a parameter: it fails,
  or delivers an address and the bytes that were there before.
\<close>

subsection \<open>Data and memory access\<close>

definition MIN_LEN :: u32 where "MIN_LEN = 256"
definition CVEFAILED :: int where "CVEFAILED = - 1"
definition CVESUCCESS :: int where "CVESUCCESS = 0"
definition CVEPUSHBACK :: int where "CVEPUSHBACK = 1"
definition CVEPOPBACK :: int where "CVEPOPBACK = 2"
definition CVEINSERT :: int where "CVEINSERT = 3"
definition CVERM :: int where "CVERM = 4"
definition EXPANED_VAL :: nat where "EXPANED_VAL = 1"
definition REDUSED_VAL :: nat where "REDUSED_VAL = 2"

lemmas cv_codes = CVEFAILED_def CVESUCCESS_def CVEPUSHBACK_def CVEPOPBACK_def CVEINSERT_def
  CVERM_def EXPANED_VAL_def REDUSED_VAL_def MIN_LEN_def

record cvector =
  cv_self :: u32
  cv_pdata :: u32
  cv_block :: "u8 list"
  cv_len :: u32
  cv_tot_len :: u32
  cv_size :: u32

type_synonym allocator = "u32 \<Rightarrow> u32 \<Rightarrow> (u32 \<times> (nat \<Rightarrow> u8)) option"

text \<open>Reading and writing through an address: the range must lie in the present block.\<close>

definition in_block :: "cvector \<Rightarrow> u32 \<Rightarrow> nat \<Rightarrow> bool" where
  "in_block cv p n \<longleftrightarrow> unat (cv_pdata cv) \<le> unat p \<and>
     unat p + n \<le> unat (cv_pdata cv) + length (cv_block cv)"

definition load :: "cvector \<Rightarrow> u32 \<Rightarrow> nat \<Rightarrow> u8 list res" where
  "load cv p n =
     (if in_block cv p n then Inr (take n (drop (unat p - unat (cv_pdata cv)) (cv_block cv)))
      else Inl OutOfBounds)"

definition store :: "cvector \<Rightarrow> u32 \<Rightarrow> u8 list \<Rightarrow> cvector res" where
  "store cv p bs =
     (if in_block cv p (length bs)
      then Inr (cv\<lparr>cv_block := blit (cv_block cv) (unat p - unat (cv_pdata cv)) bs\<rparr>)
      else Inl OutOfBounds)"

text \<open>Copying one element from or to an object of the caller.\<close>

definition copy_in :: "cvector \<Rightarrow> u32 \<Rightarrow> u8 list \<Rightarrow> cvector res" where
  "copy_in cv p memb =
     (if unat (cv_size cv) \<le> length memb then store cv p (take (unat (cv_size cv)) memb)
      else Inl OutOfBounds)"

definition copy_out :: "cvector \<Rightarrow> u32 \<Rightarrow> u8 list \<Rightarrow> u8 list res" where
  "copy_out cv p memb =
     (if unat (cv_size cv) \<le> length memb
      then bind_res (load cv p (unat (cv_size cv))) (\<lambda>bs. Inr (bs @ drop (length bs) memb))
      else Inl OutOfBounds)"

text \<open>
  \<open>cv->cv_pdata = realloc (cv->cv_pdata, cv->cv_tot_len * cv->cv_size)\<close>: the old bytes are
  kept as far as the new block reaches.
\<close>

definition cv_realloc :: "allocator \<Rightarrow> cvector \<Rightarrow> cvector option" where
  "cv_realloc realloc cv =
     (case realloc (cv_pdata cv) (cv_tot_len cv * cv_size cv) of
        None \<Rightarrow> None
      | Some (a, junk) \<Rightarrow>
          let n = unat (cv_tot_len cv * cv_size cv) in
          Some (cv\<lparr>cv_pdata := a,
                   cv_block := take n (cv_block cv) @ map junk [length (cv_block cv)..<n]\<rparr>))"

subsection \<open>Operations\<close>

text \<open>
  \<open>cvector_create\<close>: the second component lists the addresses given back with \<open>free\<close>;
  \<open>sizeof (struct _cvector)\<close> is 16. The first argument of the allocator is unused by
  \<open>malloc\<close>.
\<close>

definition cvector_create :: "allocator \<Rightarrow> u32 \<Rightarrow> cvector option \<times> u32 list" where
  "cvector_create malloc esize =
     (case malloc 0 16 of
        None \<Rightarrow> (None, [])
      | Some (cv, _) \<Rightarrow>
          (case malloc cv (MIN_LEN * esize) of
             None \<Rightarrow> (None, [cv])
           | Some (a, junk) \<Rightarrow>
               (Some \<lparr>cv_self = cv, cv_pdata = a, cv_block = map junk [0..<unat (MIN_LEN * esize)],
                      cv_len = 0, cv_tot_len = MIN_LEN, cv_size = esize\<rparr>, [])))"

definition cvector_destroy :: "cvector \<Rightarrow> u32 list" where
  "cvector_destroy cv = [cv_pdata cv, cv_self cv]"

definition cvector_length :: "cvector \<Rightarrow> u32" where
  "cvector_length cv = cv_len cv"

text \<open>Growing as \<open>cvector_pushback\<close> and \<open>cvector_insert\<close> do: \<open>None\<close> when memory is short.\<close>

definition cv_grow :: "allocator \<Rightarrow> cvector \<Rightarrow> cvector \<times> bool" where
  "cv_grow realloc cv =
     (if cv_len cv \<ge> cv_tot_len cv then
        let cv1 = cv\<lparr>cv_tot_len := push_bit EXPANED_VAL (cv_tot_len cv)\<rparr> in
        case cv_realloc realloc cv1 of
          None \<Rightarrow> (cv1\<lparr>cv_tot_len := drop_bit EXPANED_VAL (cv_tot_len cv1)\<rparr>, False)
        | Some cv2 \<Rightarrow> (cv2, True)
      else (cv, True))"

definition cvector_pushback :: "allocator \<Rightarrow> cvector \<Rightarrow> u8 list \<Rightarrow> (int \<times> cvector) res" where
  "cvector_pushback realloc cv memb =
     (let (cv1, fine) = cv_grow realloc cv in
      if \<not> fine then Inr (CVEPUSHBACK, cv1)
      else bind_res (copy_in cv1 (cv_pdata cv1 + cv_len cv1 * cv_size cv1) memb) (\<lambda>cv2.
           Inr (CVESUCCESS, cv2\<lparr>cv_len := cv_len cv2 + 1\<rparr>)))"

text \<open>Shrinking as \<open>cvector_popback\<close> and \<open>cvector_rm\<close> do.\<close>

definition cv_shrink :: "allocator \<Rightarrow> cvector \<Rightarrow> cvector \<times> bool" where
  "cv_shrink realloc cv =
     (if cv_tot_len cv \<ge> push_bit REDUSED_VAL MIN_LEN \<and>
         cv_len cv \<le> drop_bit REDUSED_VAL (cv_tot_len cv) then
        let cv1 = cv\<lparr>cv_tot_len := drop_bit EXPANED_VAL (cv_tot_len cv)\<rparr> in
        case cv_realloc realloc cv1 of
          None \<Rightarrow> (cv1\<lparr>cv_tot_len := push_bit EXPANED_VAL (cv_tot_len cv1)\<rparr>, False)
        | Some cv2 \<Rightarrow> (cv2, True)
      else (cv, True))"

definition cvector_popback ::
    "allocator \<Rightarrow> cvector \<Rightarrow> u8 list \<Rightarrow> (int \<times> u8 list \<times> cvector) res" where
  "cvector_popback realloc cv memb =
     (if cv_len cv \<le> 0 then Inr (CVEPOPBACK, memb, cv)
      else
        let cv1 = cv\<lparr>cv_len := cv_len cv - 1\<rparr> in
        bind_res (copy_out cv1 (cv_pdata cv1 + cv_len cv1 * cv_size cv1) memb) (\<lambda>memb'.
        let (cv2, fine) = cv_shrink realloc cv1 in
        Inr (if fine then CVESUCCESS else CVEPOPBACK, memb', cv2)))"

definition cvector_begin :: "cvector \<Rightarrow> u32" where
  "cvector_begin cv = cv_pdata cv"

definition cvector_end :: "cvector \<Rightarrow> u32" where
  "cvector_end cv = cv_pdata cv + cv_size cv * cv_len cv"

definition cvector_next :: "cvector \<Rightarrow> u32 \<Rightarrow> u32" where
  "cvector_next cv iter = iter + cv_size cv"

definition CWARNING_ITER :: "cvector \<Rightarrow> u32 \<Rightarrow> bool" where
  "CWARNING_ITER cv iter \<longleftrightarrow> cvector_begin cv > iter \<or> cvector_end cv \<le> iter"

text \<open>\<open>cvector_iter_at\<close> returns \<open>CVEFAILED\<close> as a \<open>size_t\<close>.\<close>

definition cvector_iter_at :: "cvector \<Rightarrow> u32 \<Rightarrow> u32 res" where
  "cvector_iter_at cv iter =
     (if CWARNING_ITER cv iter then Inr (of_int CVEFAILED)
      else if cv_size cv = 0 then Inl DivByZero
      else Inr ((iter - cv_pdata cv) div cv_size cv))"

definition cvector_iter_val :: "cvector \<Rightarrow> u32 \<Rightarrow> u8 list \<Rightarrow> (int \<times> u8 list) res" where
  "cvector_iter_val cv iter memb =
     (if CWARNING_ITER cv iter then Inr (CVEFAILED, memb)
      else bind_res (copy_out cv iter memb) (\<lambda>memb'. Inr (0, memb')))"

definition cvector_val :: "cvector \<Rightarrow> u32 \<Rightarrow> u8 list \<Rightarrow> (int \<times> u8 list) res" where
  "cvector_val cv iter memb = bind_res (copy_out cv iter memb) (\<lambda>memb'. Inr (0, memb'))"

definition cvector_val_at :: "cvector \<Rightarrow> u32 \<Rightarrow> u8 list \<Rightarrow> (int \<times> u8 list) res" where
  "cvector_val_at cv index memb =
     bind_res (copy_out cv (cv_pdata cv + index * cv_size cv) memb) (\<lambda>memb'. Inr (0, memb'))"

definition cvector_at :: "cvector \<Rightarrow> u32 \<Rightarrow> u32 option" where
  "cvector_at cv index =
     (if index \<ge> cv_len cv then None else Some (cv_pdata cv + index * cv_size cv))"

text \<open>
  \<open>cvmemove_foreward\<close> moves the elements from \<open>from\<close> up to and including the one at \<open>to\<close> by
  one place, from the back. \<open>None\<close> is a loop that never ends: \<open>p\<close> wraps below \<open>from\<close>.
\<close>

partial_function (option) cvmemove_foreward_loop ::
    "cvector \<Rightarrow> u32 \<Rightarrow> u32 \<Rightarrow> cvector res option" where
  "cvmemove_foreward_loop cv from p =
     (if p \<ge> from then
        (case bind_res (load cv p (unat (cv_size cv))) (\<lambda>bs. store cv (p + cv_size cv) bs) of
           Inl e \<Rightarrow> Some (Inl e)
         | Inr cv1 \<Rightarrow> cvmemove_foreward_loop cv1 from (p - cv_size cv))
      else Some (Inr cv))"

definition cvmemove_foreward :: "cvector \<Rightarrow> u32 \<Rightarrow> u32 \<Rightarrow> cvector res option" where
  "cvmemove_foreward cv from to = cvmemove_foreward_loop cv from to"

definition cvector_insert ::
    "allocator \<Rightarrow> cvector \<Rightarrow> u32 \<Rightarrow> u8 list \<Rightarrow> (int \<times> cvector) res option" where
  "cvector_insert realloc cv iter memb =
     (if CWARNING_ITER cv iter then Some (Inr (CVEFAILED, cv))
      else
        let (cv1, fine) = cv_grow realloc cv in
        if \<not> fine then Some (Inr (CVEINSERT, cv1))
        else Option.bind (cvmemove_foreward cv1 iter (cv_pdata cv1 + cv_len cv1 * cv_size cv1))
          (\<lambda>r. Some (bind_res r (\<lambda>cv2.
             bind_res (copy_in cv2 iter memb) (\<lambda>cv3.
             Inr (CVESUCCESS, cv3\<lparr>cv_len := cv_len cv3 + 1\<rparr>))))))"

text \<open>The doubling loop of \<open>cvector_insert_at\<close>; it never ends once the shift has reached 0.\<close>

partial_function (option) double_until :: "u32 \<Rightarrow> u32 \<Rightarrow> u32 option" where
  "double_until len tot =
     (if len \<ge> tot then double_until len (push_bit EXPANED_VAL tot) else Some tot)"

definition cvector_insert_at ::
    "allocator \<Rightarrow> cvector \<Rightarrow> u32 \<Rightarrow> u8 list \<Rightarrow> (int \<times> cvector) res option" where
  "cvector_insert_at realloc cv index memb =
     (if index \<ge> cv_tot_len cv then
        let cv1 = cv\<lparr>cv_len := index + 1\<rparr> in
        Option.bind (double_until (cv_len cv1) (cv_tot_len cv1)) (\<lambda>tot.
          let cv2 = cv1\<lparr>cv_tot_len := tot\<rparr> in
          Some (case cv_realloc realloc cv2 of
                  None \<Rightarrow> Inl NullDeref
                | Some cv3 \<Rightarrow>
                    bind_res (copy_in cv3 (cv_pdata cv3 + cv_size cv3 * index) memb)
                      (\<lambda>cv4. Inr (0, cv4))))
      else
        Option.bind (cvector_insert realloc cv (cv_pdata cv + cv_size cv * index) memb)
          (\<lambda>r. Some (bind_res r (\<lambda>(_, cv1). Inr (0, cv1)))))"

text \<open>
  A \<open>memcpy\<close> inside the block. On overlapping ranges the C standard gives it no meaning;
  with \<open>upwards\<close> the platform's routine is taken to copy byte after byte upwards, which for
  a destination below the source is the copy of the original bytes.
\<close>

definition move_down :: "bool \<Rightarrow> cvector \<Rightarrow> u32 \<Rightarrow> u32 \<Rightarrow> u32 \<Rightarrow> cvector res" where
  "move_down upwards cv dst src n =
     (if \<not> upwards \<and> dst < src \<and> unat src < unat dst + unat n then Inl Overlap
      else bind_res (load cv src (unat n)) (\<lambda>bs. store cv dst bs))"

definition cvmemove_backward :: "bool \<Rightarrow> cvector \<Rightarrow> u32 \<Rightarrow> u32 \<Rightarrow> cvector res" where
  "cvmemove_backward upwards cv from to = move_down upwards cv from (from + cv_size cv) (to - from)"

definition cvector_rm :: "bool \<Rightarrow> allocator \<Rightarrow> cvector \<Rightarrow> u32 \<Rightarrow> (int \<times> cvector) res" where
  "cvector_rm upwards realloc cv iter =
     (if CWARNING_ITER cv iter then Inr (CVEFAILED, cv)
      else
        bind_res (move_down upwards cv iter (iter + cv_size cv) (cvector_end cv - iter)) (\<lambda>cv1.
        let (cv2, fine) = cv_shrink realloc (cv1\<lparr>cv_len := cv_len cv1 - 1\<rparr>) in
        Inr (if fine then CVESUCCESS else CVERM, cv2)))"

definition cvector_rm_at :: "bool \<Rightarrow> allocator \<Rightarrow> cvector \<Rightarrow> u32 \<Rightarrow> (int \<times> cvector) res" where
  "cvector_rm_at upwards realloc cv index =
     (let iter = cv_pdata cv + cv_size cv * index in
      if CWARNING_ITER cv iter then Inr (CVEFAILED, cv)
      else cvector_rm upwards realloc cv iter)"

subsection \<open>Invariant and elements\<close>

text \<open>
  The heap lies in the SRAM of the STM32F4, between \<open>0x10000000\<close> and \<open>0x80000000\<close>, so a
  block and twice its size fit in 32 bits and no element is as large as its address.
\<close>

definition cv_inv :: "cvector \<Rightarrow> bool" where
  "cv_inv cv \<longleftrightarrow> 0 < unat (cv_size cv) \<and> (\<exists>k. unat (cv_tot_len cv) = 256 * 2 ^ k) \<and>
     length (cv_block cv) = unat (cv_tot_len cv) * unat (cv_size cv) \<and>
     unat (cv_len cv) \<le> unat (cv_tot_len cv) \<and>
     2 ^ 28 \<le> unat (cv_pdata cv) \<and> unat (cv_pdata cv) + length (cv_block cv) < 2 ^ 31"

definition alloc_ok :: "allocator \<Rightarrow> bool" where
  "alloc_ok al \<longleftrightarrow> (\<forall>p n a junk. al p n = Some (a, junk) \<longrightarrow>
     2 ^ 28 \<le> unat a \<and> unat a + unat n < 2 ^ 31)"

definition elem :: "cvector \<Rightarrow> nat \<Rightarrow> u8 list" where
  "elem cv i = take (unat (cv_size cv)) (drop (i * unat (cv_size cv)) (cv_block cv))"

definition elems :: "cvector \<Rightarrow> u8 list list" where
  "elems cv = map (elem cv) [0..<unat (cv_len cv)]"

lemma length_elems [simp]: "length (elems cv) = unat (cv_len cv)"
  by (simp add: elems_def)

lemma nth_elems: "i < unat (cv_len cv) \<Longrightarrow> elems cv ! i = elem cv i"
  by (simp add: elems_def)

lemma cv_inv_bounds:
  assumes "cv_inv cv" and "i \<le> unat (cv_tot_len cv)"
  shows "i * unat (cv_size cv) \<le> length (cv_block cv)" "i * unat (cv_size cv) < 2 ^ 31"
    "unat (cv_pdata cv) + i * unat (cv_size cv) < 2 ^ 31" "i < 2 ^ 31"
proof -
  show 1: "i * unat (cv_size cv) \<le> length (cv_block cv)" using assms by (simp add: cv_inv_def)
  have 2: "unat (cv_pdata cv) + length (cv_block cv) < 2 ^ 31" using assms(1) by (simp add: cv_inv_def)
  with 1 show "i * unat (cv_size cv) < 2 ^ 31"
    "unat (cv_pdata cv) + i * unat (cv_size cv) < 2 ^ 31" by linarith+
  have "i \<le> i * unat (cv_size cv)" using assms(1) by (simp add: cv_inv_def)
  with 1 2 show "i < 2 ^ 31" by linarith
qed

text \<open>The address of the element \<open>i\<close>, in both spellings of the code.\<close>

lemma unat_addr:
  assumes "cv_inv cv" and "unat i \<le> unat (cv_tot_len cv)"
  shows "unat (cv_pdata cv + i * cv_size cv) = unat (cv_pdata cv) + unat i * unat (cv_size cv)"
    "unat (cv_pdata cv + cv_size cv * i) = unat (cv_pdata cv) + unat i * unat (cv_size cv)"
proof -
  note b = cv_inv_bounds [OF assms]
  have "unat (i * cv_size cv) = unat i * unat (cv_size cv)"
    using b(2) by (simp add: unat_word_ariths)
  with b(3) show "unat (cv_pdata cv + i * cv_size cv) = unat (cv_pdata cv) + unat i * unat (cv_size cv)"
    by (simp add: unat_word_ariths)
  then show "unat (cv_pdata cv + cv_size cv * i) = unat (cv_pdata cv) + unat i * unat (cv_size cv)"
    by (simp add: mult.commute)
qed

lemma elem_block:
  "i < unat (cv_tot_len cv) \<Longrightarrow> cv_inv cv \<Longrightarrow> length (elem cv i) = unat (cv_size cv)"
  using cv_inv_bounds(1) [of cv "Suc i"] by (simp add: elem_def)

lemma in_block_elem:
  assumes "cv_inv cv" and "i < unat (cv_tot_len cv)"
    and "unat p = unat (cv_pdata cv) + i * unat (cv_size cv)"
  shows "in_block cv p (unat (cv_size cv))" "unat p - unat (cv_pdata cv) = i * unat (cv_size cv)"
  using cv_inv_bounds(1) [of cv "Suc (i)"] assms by (auto simp: in_block_def)

text \<open>Writing one element changes that element and no other.\<close>

definition put_elem :: "cvector \<Rightarrow> nat \<Rightarrow> u8 list \<Rightarrow> cvector" where
  "put_elem cv i bs = cv\<lparr>cv_block := blit (cv_block cv) (i * unat (cv_size cv)) bs\<rparr>"

lemma put_elem_sel [simp]:
  "cv_len (put_elem cv i bs) = cv_len cv" "cv_tot_len (put_elem cv i bs) = cv_tot_len cv"
  "cv_size (put_elem cv i bs) = cv_size cv" "cv_pdata (put_elem cv i bs) = cv_pdata cv"
  "cv_self (put_elem cv i bs) = cv_self cv"
  by (simp_all add: put_elem_def)

lemma put_elem_ok:
  assumes "cv_inv cv" and "i < unat (cv_tot_len cv)" and "length bs = unat (cv_size cv)"
  shows "cv_inv (put_elem cv i bs)" "elem (put_elem cv i bs) j = (if j = i then bs else elem cv j)"
proof -
  let ?z = "unat (cv_size cv)"
  have b: "i * ?z + length bs \<le> length (cv_block cv)"
    using cv_inv_bounds(1) [of cv "Suc i"] assms by simp
  then show "cv_inv (put_elem cv i bs)"
    using assms by (auto simp: cv_inv_def put_elem_def)
  have "take ?z (drop (j * ?z) (blit (cv_block cv) (i * ?z) bs)) =
      (if j = i then bs else take ?z (drop (j * ?z) (cv_block cv)))"
  proof (cases j i rule: linorder_cases)
    case less
    then have "Suc j * ?z \<le> i * ?z" by (intro mult_le_mono1) simp
    then have "j * ?z + ?z \<le> i * ?z" by simp
    with b less show ?thesis
      by (auto simp: blit_def take_drop min_absorb1)
  next
    case equal
    with b assms(3) show ?thesis by (auto simp: blit_def)
  next
    case greater
    then have "Suc i * ?z \<le> j * ?z" by (intro mult_le_mono1) simp
    then have "i * ?z + ?z \<le> j * ?z" by simp
    with b greater assms(3) show ?thesis
      by (auto simp: blit_def min_absorb2)
  qed
  then show "elem (put_elem cv i bs) j = (if j = i then bs else elem cv j)"
    by (simp add: elem_def put_elem_def)
qed

lemma store_elem:
  assumes "cv_inv cv" and "i < unat (cv_tot_len cv)" and "length bs = unat (cv_size cv)"
    and "unat p = unat (cv_pdata cv) + i * unat (cv_size cv)"
  shows "store cv p bs = Inr (put_elem cv (i) bs)"
  using in_block_elem [OF assms(1,2,4)] assms(3) by (simp add: store_def put_elem_def)

lemma load_elem:
  assumes "cv_inv cv" and "i < unat (cv_tot_len cv)"
    and "unat p = unat (cv_pdata cv) + i * unat (cv_size cv)"
  shows "load cv p (unat (cv_size cv)) = Inr (elem cv (i))"
  using in_block_elem [OF assms] by (simp add: load_def elem_def)

subsection \<open>Growing and shrinking\<close>

lemma unat_push_bit_1: "unat x < 2 ^ 31 \<Longrightarrow> unat (push_bit 1 (x::u32)) = 2 * unat x"
  by (simp add: push_bit_eq_mult unat_word_ariths)

lemma cv_realloc_ok:
  assumes "cv_inv cv" and "alloc_ok al" and "cv_realloc al (cv\<lparr>cv_tot_len := t\<rparr>) = Some cv'"
    and "unat t = 256 * 2 ^ k" and "unat (cv_len cv) \<le> unat t"
    and "unat t * unat (cv_size cv) < 2 ^ 32"
  shows "cv_inv cv'" "cv_len cv' = cv_len cv" "cv_tot_len cv' = t" "cv_size cv' = cv_size cv"
    "elems cv' = elems cv"
proof -
  let ?z = "unat (cv_size cv)"
  from assms(3) obtain a junk where r: "al (cv_pdata cv) (t * cv_size cv) = Some (a, junk)"
    "cv' = cv\<lparr>cv_tot_len := t, cv_pdata := a,
       cv_block := take (unat (t * cv_size cv)) (cv_block cv) @
         map junk [length (cv_block cv)..<unat (t * cv_size cv)]\<rparr>"
    by (auto simp: cv_realloc_def Let_def split: option.splits)
  have n: "unat (t * cv_size cv) = unat t * ?z" using assms(6) by (simp add: unat_word_ariths)
  have len: "length (cv_block cv') = unat t * ?z" using r(2) n by auto
  moreover have "2 ^ 28 \<le> unat a \<and> unat a + unat t * ?z < 2 ^ 31"
    using assms(2) r(1) unfolding alloc_ok_def n [symmetric] by blast
  ultimately show "cv_inv cv'"
    using assms(1,4,5) r(2) by (auto simp: cv_inv_def simp del: length_append)
  show "cv_len cv' = cv_len cv" "cv_tot_len cv' = t" "cv_size cv' = cv_size cv"
    using r(2) by auto
  have "elem cv' i = elem cv i" if "i < unat (cv_len cv)" for i
  proof -
    have "Suc i * ?z \<le> unat t * ?z" using that assms(5) by (intro mult_le_mono1) simp
    then have 1: "i * ?z + ?z \<le> unat t * ?z" by simp
    have 2: "i * ?z + ?z \<le> length (cv_block cv)"
      using cv_inv_bounds(1) [of cv "Suc i"] assms(1) that by (auto simp: cv_inv_def)
    show ?thesis using 1 2 r(2) n by (simp add: elem_def take_drop min_absorb1)
  qed
  then show "elems cv' = elems cv" using r(2) by (simp add: elems_def)
qed

lemma cv_grow_ok:
  assumes "cv_inv cv" and "alloc_ok al"
  obtains cv' where "cv_grow al cv = (cv', True)" "cv_inv cv'" "elems cv' = elems cv"
      "cv_len cv' = cv_len cv" "cv_size cv' = cv_size cv" "unat (cv_len cv') < unat (cv_tot_len cv')"
      "cv_len cv < cv_tot_len cv \<Longrightarrow> cv' = cv"
    | "cv_grow al cv = (cv, False)" "cv_len cv = cv_tot_len cv"
proof (cases "cv_len cv \<ge> cv_tot_len cv")
  case False
  then show thesis using that(1) [of cv] assms by (simp add: cv_grow_def word_le_nat_alt)
next
  case True
  then have full: "cv_len cv = cv_tot_len cv" using assms(1)
    by (simp add: cv_inv_def word_le_nat_alt word_unat_eq_iff)
  define t where "t = push_bit 1 (cv_tot_len cv)"
  have "unat (cv_tot_len cv) < 2 ^ 31" using cv_inv_bounds(4) [OF assms(1)] by blast
  then have t: "unat t = 2 * unat (cv_tot_len cv)" unfolding t_def by (rule unat_push_bit_1)
  have restore: "drop_bit 1 t = cv_tot_len cv"
    unfolding word_unat_eq_iff unat_drop_bit_eq using t by (simp add: drop_bit_eq_div)
  from assms(1) obtain k where k: "unat (cv_tot_len cv) = 256 * 2 ^ k" by (auto simp: cv_inv_def)
  have small: "unat t * unat (cv_size cv) < 2 ^ 32"
    using cv_inv_bounds(2) [OF assms(1) le_refl] t by (simp add: mult.commute)
  show thesis
  proof (cases "cv_realloc al (cv\<lparr>cv_tot_len := t\<rparr>)")
    case None
    then show thesis using that(2) True full restore
      by (simp add: cv_grow_def EXPANED_VAL_def flip: t_def One_nat_def)
  next
    case (Some cv')
    note r = cv_realloc_ok [OF assms Some, of "Suc k"]
    have "unat (cv_len cv) < unat t" using full t k by simp
    with r t k small Some True that(1) [of cv'] show thesis
      by (simp add: cv_grow_def EXPANED_VAL_def flip: t_def One_nat_def)
  qed
qed

lemma cv_shrink_ok:
  assumes "cv_inv cv" and "alloc_ok al"
  obtains cv' fine where "cv_shrink al cv = (cv', fine)" "cv_inv cv'" "elems cv' = elems cv"
    "cv_size cv' = cv_size cv" "\<not> fine \<Longrightarrow> cv' = cv"
proof (cases "cv_tot_len cv \<ge> push_bit REDUSED_VAL MIN_LEN \<and>
              cv_len cv \<le> drop_bit REDUSED_VAL (cv_tot_len cv)")
  case False
  then have "cv_shrink al cv = (cv, True)" unfolding cv_shrink_def by (rule if_not_P)
  then show thesis using that [of cv True] assms by simp
next
  case True
  define t where "t = drop_bit 1 (cv_tot_len cv)"
  have big: "1024 \<le> unat (cv_tot_len cv)"
    using True by (simp add: REDUSED_VAL_def MIN_LEN_def push_bit_eq_mult word_le_nat_alt)
  from assms(1) obtain k where k: "unat (cv_tot_len cv) = 256 * 2 ^ k" by (auto simp: cv_inv_def)
  with big obtain k' where k': "k = Suc k'" by (cases k) auto
  have t: "unat t = 256 * 2 ^ k'"
    unfolding t_def unat_drop_bit_eq using k k' by (simp add: drop_bit_eq_div)
  have "unat t < 2 ^ 31" using t k k' cv_inv_bounds(4) [OF assms(1) le_refl] by simp
  then have restore: "push_bit 1 t = cv_tot_len cv"
    using t k k' unfolding word_unat_eq_iff by (subst unat_push_bit_1) simp_all
  have len: "unat (cv_len cv) \<le> unat t"
    using True t k k' unfolding word_le_nat_alt unat_drop_bit_eq
    by (auto simp: REDUSED_VAL_def drop_bit_eq_div)
  have "unat t * unat (cv_size cv) \<le> unat (cv_tot_len cv) * unat (cv_size cv)"
    using t k k' by simp
  also have "\<dots> < 2 ^ 31" by (rule cv_inv_bounds(2) [OF assms(1) le_refl])
  also have "\<dots> < (2::nat) ^ 32" by simp
  finally have small: "unat t * unat (cv_size cv) < 2 ^ 32" .
  show thesis
  proof (cases "cv_realloc al (cv\<lparr>cv_tot_len := t\<rparr>)")
    case None
    then have "cv_shrink al cv = (cv, False)" using True restore
      unfolding cv_shrink_def EXPANED_VAL_def t_def [symmetric] by (simp add: Let_def)
    then show thesis using that [of cv False] assms by simp
  next
    case (Some cv')
    note r = cv_realloc_ok [OF assms Some t len small]
    from Some have "cv_shrink al cv = (cv', True)" using True
      unfolding cv_shrink_def EXPANED_VAL_def t_def [symmetric] by (simp add: Let_def)
    then show thesis using that [of cv' True] r by simp
  qed
qed

subsection \<open>Appending and removing at the end\<close>

lemma elems_Suc:
  "cv_len cv' = cv_len cv + 1 \<Longrightarrow> unat (cv_len cv) < 2 ^ 31 \<Longrightarrow>
   elems cv' = map (elem cv') [0..<unat (cv_len cv)] @ [elem cv' (unat (cv_len cv))]"
  by (simp add: elems_def unat_word_ariths)

lemma elem_len_upd [simp]: "elem (cv\<lparr>cv_len := l\<rparr>) = elem cv"
  by (simp add: elem_def fun_eq_iff)

lemma cv_inv_len: "cv_inv cv \<Longrightarrow> unat l \<le> unat (cv_tot_len cv) \<Longrightarrow> cv_inv (cv\<lparr>cv_len := l\<rparr>)"
  by (simp add: cv_inv_def)

lemma pushback_cases:
  assumes "cv_inv cv" and "alloc_ok al" and "length memb = unat (cv_size cv)"
  obtains cv' where "cvector_pushback al cv memb = Inr (CVESUCCESS, cv')" "cv_inv cv'"
      "elems cv' = elems cv @ [memb]" "cv_size cv' = cv_size cv"
    | "cvector_pushback al cv memb = Inr (CVEPUSHBACK, cv)" "cv_len cv = cv_tot_len cv"
proof (cases rule: cv_grow_ok [OF assms(1,2)])
  case (1 cv1)
  define cv2 where "cv2 = put_elem cv1 (unat (cv_len cv1)) memb"
  define cv3 where "cv3 = cv2\<lparr>cv_len := cv_len cv2 + 1\<rparr>"
  have copy: "copy_in cv1 (cv_pdata cv1 + cv_len cv1 * cv_size cv1) memb = Inr cv2"
    unfolding copy_in_def cv2_def
    using store_elem [OF 1(2,6) _ unat_addr(1) [OF 1(2), of "cv_len cv1"], of memb] 1 assms(3)
    by simp
  note pe = put_elem_ok [OF 1(2,6), of memb]
  have small: "unat (cv_len cv) < 2 ^ 31" using cv_inv_bounds(4) [OF 1(2), of "unat (cv_len cv1)"] 1 by simp
  have l: "unat (cv_len cv1 + 1) = Suc (unat (cv_len cv1))" using small 1(4) by (simp add: unat_word_ariths)
  have "cv_inv cv2" using pe(1) assms(3) 1(5) by (simp add: cv2_def)
  then have "cv_inv cv3"
    unfolding cv3_def by (rule cv_inv_len) (use l 1(6) in \<open>simp add: cv2_def\<close>)
  moreover have "elems cv3 = elems cv @ [memb]"
  proof -
    have "elems cv3 = map (elem cv2) [0..<unat (cv_len cv)] @ [elem cv2 (unat (cv_len cv))]"
      using elems_Suc [of cv3 cv] 1(4) small by (simp add: cv3_def cv2_def)
    also have "map (elem cv2) [0..<unat (cv_len cv)] = elems cv1"
      using pe(2) assms(3) 1(4,5) by (simp add: elems_def cv2_def)
    also have "elem cv2 (unat (cv_len cv)) = memb"
      using pe(2) assms(3) 1(4,5) by (simp add: cv2_def)
    finally show ?thesis using 1(3) by simp
  qed
  moreover have "cvector_pushback al cv memb = Inr (CVESUCCESS, cv3)"
    using 1(1) copy by (simp add: cvector_pushback_def cv3_def)
  moreover have "cv_size cv3 = cv_size cv" using 1(5) by (simp add: cv3_def cv2_def)
  ultimately show thesis using that(1) by blast
next
  case 2
  then show thesis using that(2) by (simp add: cvector_pushback_def)
qed

lemma copy_out_elem:
  assumes "cv_inv cv" and "unat i < unat (cv_tot_len cv)" and "length memb = unat (cv_size cv)"
  shows "copy_out cv (cv_pdata cv + i * cv_size cv) memb = Inr (elem cv (unat i))"
  using load_elem [OF assms(1,2) unat_addr(1) [OF assms(1)]] assms elem_block [OF assms(2,1)]
  by (simp add: copy_out_def)

lemma popback_cases:
  assumes "cv_inv cv" and "alloc_ok al" and "length memb = unat (cv_size cv)"
  obtains "elems cv = []" "cvector_popback al cv memb = Inr (CVEPOPBACK, memb, cv)"
    | cv' code where "elems cv \<noteq> []" "cvector_popback al cv memb = Inr (code, last (elems cv), cv')"
      "code \<in> {CVESUCCESS, CVEPOPBACK}" "cv_inv cv'" "elems cv' = butlast (elems cv)"
      "cv_size cv' = cv_size cv"
proof (cases "cv_len cv = 0")
  case True
  then show thesis using that(1) by (simp add: cvector_popback_def elems_def)
next
  case False
  then have pos: "0 < unat (cv_len cv)" by (simp add: unat_gt_0)
  define cv1 where "cv1 = cv\<lparr>cv_len := cv_len cv - 1\<rparr>"
  have l: "unat (cv_len cv1) = unat (cv_len cv) - 1"
    using False by (simp add: cv1_def unat_minus_one)
  have inv1: "cv_inv cv1"
    unfolding cv1_def using l assms(1) by (intro cv_inv_len) (auto simp: cv_inv_def cv1_def)
  have e1: "elems cv = elems cv1 @ [elem cv (unat (cv_len cv1))]"
    using pos l by (cases "unat (cv_len cv)") (auto simp: elems_def cv1_def)
  have lt: "unat (cv_len cv1) < unat (cv_tot_len cv1)"
    using l pos assms(1) by (auto simp: cv_inv_def cv1_def)
  have out: "copy_out cv1 (cv_pdata cv1 + cv_len cv1 * cv_size cv1) memb = Inr (last (elems cv))"
    using copy_out_elem [OF inv1 lt] assms(3) e1 by (simp add: cv1_def)
  obtain cv2 fine where s: "cv_shrink al cv1 = (cv2, fine)" "cv_inv cv2" "elems cv2 = elems cv1"
    "cv_size cv2 = cv_size cv1" by (rule cv_shrink_ok [OF inv1 assms(2)])
  have "cvector_popback al cv memb =
      Inr (if fine then CVESUCCESS else CVEPOPBACK, last (elems cv), cv2)"
    using pos out s(1) by (simp add: cvector_popback_def word_le_nat_alt flip: cv1_def)
  then show thesis
    using that(2) [of "if fine then CVESUCCESS else CVEPOPBACK" cv2] s e1 pos
    by (auto simp: cv1_def)
qed

subsection \<open>Inserting and removing in the middle\<close>

lemma size_le_pdata:
  assumes "cv_inv cv"
  shows "unat (cv_size cv) < unat (cv_pdata cv)"
proof -
  have "256 \<le> unat (cv_tot_len cv)" "2 ^ 28 \<le> unat (cv_pdata cv)"
    using assms by (auto simp: cv_inv_def)
  with cv_inv_bounds(2) [OF assms, of 256] show ?thesis by simp
qed

text \<open>The moving loop, started on the element below \<open>i + n\<close>: it moves \<open>n\<close> elements up.\<close>

lemma foreward_loop_ok:
  assumes "cv_inv cv" and "i + n < unat (cv_tot_len cv)"
    and "unat from = unat (cv_pdata cv) + i * unat (cv_size cv)"
    and "unat p + unat (cv_size cv) = unat (cv_pdata cv) + (i + n) * unat (cv_size cv)"
  shows "\<exists>cv'. cvmemove_foreward_loop cv from p = Some (Inr cv') \<and> cv_inv cv' \<and>
           cv_len cv' = cv_len cv \<and> cv_tot_len cv' = cv_tot_len cv \<and> cv_size cv' = cv_size cv \<and>
           cv_pdata cv' = cv_pdata cv \<and>
           (\<forall>k. elem cv' k = (if i < k \<and> k \<le> i + n then elem cv (k - 1) else elem cv k))"
  using assms
proof (induction n arbitrary: cv p)
  case 0
  then have "p < from" using 0(1) by (simp add: word_less_nat_alt cv_inv_def)
  then show ?case using 0 by (subst cvmemove_foreward_loop.simps) auto
next
  case (Suc n)
  let ?z = "unat (cv_size cv)"
  have z: "0 < ?z" using Suc.prems(1) by (simp add: cv_inv_def)
  have p: "unat p = unat (cv_pdata cv) + (i + n) * ?z" using Suc.prems(4) by simp
  have q: "unat (p + cv_size cv) = unat (cv_pdata cv) + Suc (i + n) * ?z"
    using p cv_inv_bounds(3) [OF Suc.prems(1), of "Suc (i + n)"] Suc.prems(2)
    by (simp add: unat_word_ariths)
  define cv1 where "cv1 = put_elem cv (Suc (i + n)) (elem cv (i + n))"
  have le: "length (elem cv (i + n)) = ?z" using elem_block Suc.prems(1,2) by simp
  have step: "bind_res (load cv p ?z) (\<lambda>bs. store cv (p + cv_size cv) bs) = Inr cv1"
    using load_elem [OF Suc.prems(1) _ p] store_elem [OF Suc.prems(1) _ le q] Suc.prems(2)
    by (simp add: cv1_def)
  note pe = put_elem_ok [OF Suc.prems(1), of "Suc (i + n)" "elem cv (i + n)"]
  have inv1: "cv_inv cv1" and e1: "elem cv1 j = (if j = Suc (i + n) then elem cv (i + n) else elem cv j)" for j
    using pe Suc.prems(2) le by (simp_all add: cv1_def)
  have "?z \<le> unat p" using p size_le_pdata [OF Suc.prems(1)] by simp
  then have "unat (p - cv_size cv) = unat p - ?z" by (simp add: unat_sub word_le_nat_alt)
  with p \<open>?z \<le> unat p\<close> have "unat (p - cv_size cv) + ?z = unat (cv_pdata cv) + (i + n) * ?z" by simp
  with Suc.IH [OF inv1, of "p - cv_size cv"] Suc.prems(2,3) obtain cv2 where
    cv2: "cvmemove_foreward_loop cv1 from (p - cv_size cv) = Some (Inr cv2)" "cv_inv cv2"
      "cv_len cv2 = cv_len cv" "cv_tot_len cv2 = cv_tot_len cv" "cv_size cv2 = cv_size cv"
      "cv_pdata cv2 = cv_pdata cv"
      "\<forall>k. elem cv2 k = (if i < k \<and> k \<le> i + n then elem cv1 (k - 1) else elem cv1 k)"
    by (auto simp: cv1_def)
  have "p \<ge> from" using p Suc.prems(3) by (simp add: word_le_nat_alt)
  with step cv2(1) have "cvmemove_foreward_loop cv from p = Some (Inr cv2)"
    by (subst cvmemove_foreward_loop.simps) (simp del: bind_res_eq_Inr)
  moreover have "elem cv2 k = (if i < k \<and> k \<le> i + Suc n then elem cv (k - 1) else elem cv k)" for k
    using cv2(7) by (auto simp: e1)
  ultimately show ?case using cv2(2-6) by blast
qed

lemma iter_valid:
  assumes "cv_inv cv" and "i < unat (cv_len cv)"
    and "unat iter = unat (cv_pdata cv) + i * unat (cv_size cv)"
  shows "\<not> CWARNING_ITER cv iter"
proof -
  have "unat (cvector_end cv) = unat (cv_pdata cv) + unat (cv_len cv) * unat (cv_size cv)"
    using unat_addr(2) [OF assms(1), of "cv_len cv"] assms(1) by (simp add: cvector_end_def cv_inv_def)
  with assms show ?thesis
    by (simp add: CWARNING_ITER_def cvector_begin_def word_less_nat_alt word_le_nat_alt cv_inv_def)
qed

lemma iter_invalid:
  assumes "cv_inv cv" and "unat (cv_len cv) \<le> unat i" and "unat i \<le> unat (cv_tot_len cv)"
  shows "CWARNING_ITER cv (cv_pdata cv + cv_size cv * i)"
proof -
  have "unat (cvector_end cv) \<le> unat (cv_pdata cv + cv_size cv * i)"
    using unat_addr(2) [OF assms(1), of "cv_len cv"] unat_addr(2) [OF assms(1,3)] assms
    by (simp add: cvector_end_def cv_inv_def)
  then show ?thesis by (simp add: CWARNING_ITER_def word_le_nat_alt)
qed

lemma insert_elems:
  assumes "\<And>k. elem cv2 k = (if i < k \<and> k \<le> n then elem cv (k - 1) else if k = i then b else elem cv k)"
    and "unat (cv_len cv2) = Suc (unat (cv_len cv))" and "n = Suc (unat (cv_len cv))" and "i \<le> unat (cv_len cv)"
  shows "elems cv2 = take i (elems cv) @ b # drop i (elems cv)"
proof (rule nth_equalityI)
  show "length (elems cv2) = length (take i (elems cv) @ b # drop i (elems cv))"
    using assms by simp
next
  fix k
  assume k: "k < length (elems cv2)"
  then show "elems cv2 ! k = (take i (elems cv) @ b # drop i (elems cv)) ! k"
    using assms by (auto simp: nth_elems nth_append nth_Cons' min_def)
qed

subsection \<open>Interface: a vector of pointers\<close>

text \<open>
  What the state machine relies on: a push appends or fails without a trace, and reading
  an index gives the element pushed there, or nothing behind the last one.
\<close>

locale pointer_vector =
  fixes push :: "'v \<Rightarrow> 'e \<Rightarrow> (int \<times> 'v) res"
    and read :: "'v \<Rightarrow> nat \<Rightarrow> 'e option res"
    and items :: "'v \<Rightarrow> 'e list"
    and invar :: "'v \<Rightarrow> bool"
    and fits :: "'v \<Rightarrow> 'e \<Rightarrow> bool"
  assumes push_ok: "invar v \<Longrightarrow> fits v e \<Longrightarrow>
      (\<exists>v'. push v e = Inr (CVESUCCESS, v') \<and> invar v' \<and> items v' = items v @ [e] \<and> fits v' = fits v) \<or>
      push v e = Inr (CVEPUSHBACK, v)"
    and read_ok: "invar v \<Longrightarrow> i < 2 ^ 32 \<Longrightarrow>
      read v i = Inr (if i < length (items v) then Some (items v ! i) else None)"
begin

fun push_all :: "'v \<Rightarrow> 'e list \<Rightarrow> 'v res" where
  "push_all v [] = Inr v"
| "push_all v (e # es) = bind_res (push v e) (\<lambda>(_, v'). push_all v' es)"

text \<open>
  Clients that ignore the result of the push, as the state machine does, lose elements
  when memory is short, but keep the order of the others and what was there.
\<close>

lemma push_all_ok:
  assumes "invar v" and "list_all (fits v) es"
  shows "\<exists>v' ys. push_all v es = Inr v' \<and> invar v' \<and> items v' = items v @ ys \<and> set ys \<subseteq> set es"
  using assms
proof (induction es arbitrary: v)
  case Nil
  then show ?case by simp
next
  case (Cons e es)
  then have e: "fits v e" "list_all (fits v) es" by simp_all
  from push_ok [OF Cons.prems(1) e(1)] show ?case
  proof (elim disjE exE conjE)
    fix v1
    assume v1: "push v e = Inr (CVESUCCESS, v1)" "invar v1" "items v1 = items v @ [e]" "fits v1 = fits v"
    from Cons.IH [OF v1(2)] e(2) v1(4) obtain v' ys where
      "push_all v1 es = Inr v'" "invar v'" "items v' = items v1 @ ys" "set ys \<subseteq> set es" by auto
    with v1 show ?thesis by (intro exI [of _ v'] exI [of _ "e # ys"]) auto
  next
    assume "push v e = Inr (CVEPUSHBACK, v)"
    with Cons.IH [OF Cons.prems(1) e(2)] show ?thesis by auto
  qed
qed

end

text \<open>\<open>*(T **) cvector_at (v, i)\<close>: the element an index points to.\<close>

definition read_at :: "cvector \<Rightarrow> nat \<Rightarrow> u8 list option res" where
  "read_at cv i =
     (case cvector_at cv (of_nat i) of
        None \<Rightarrow> Inr None
      | Some p \<Rightarrow> bind_res (load cv p (unat (cv_size cv))) (\<lambda>bs. Inr (Some bs)))"

interpretation cvec: pointer_vector
    "\<lambda>(al, cv) b. bind_res (cvector_pushback al cv b) (\<lambda>(c, cv'). Inr (c, al, cv'))"
    "\<lambda>(al, cv). read_at cv" "\<lambda>(al, cv). elems cv" "\<lambda>(al, cv). alloc_ok al \<and> cv_inv cv"
    "\<lambda>(al, cv) b. length b = unat (cv_size cv)"
proof (unfold_locales, goal_cases)
  case (1 v b)
  obtain al cv where v: "v = (al, cv)" by (cases v)
  with 1 have a: "cv_inv cv" "alloc_ok al" "length b = unat (cv_size cv)" by auto
  from a(2) show ?case by (cases rule: pushback_cases [OF a]) (auto simp: v)
next
  case (2 v i)
  obtain al cv where v: "v = (al, cv)" by (cases v)
  with 2 have inv: "cv_inv cv" and i: "unat (of_nat i :: u32) = i"
    using unat_of_nat_u32 [of i] by auto
  show ?case
  proof (cases "i < unat (cv_len cv)")
    case True
    then have lt: "i < unat (cv_tot_len cv)" using inv by (auto simp: cv_inv_def)
    note a = unat_addr(1) [OF inv, of "of_nat i", unfolded i]
    have "cvector_at cv (of_nat i) = Some (cv_pdata cv + of_nat i * cv_size cv)"
      using True i by (simp add: cvector_at_def word_le_nat_alt)
    with load_elem [OF inv lt a] lt True show ?thesis
      by (simp add: v read_at_def nth_elems)
  next
    case False
    then show ?thesis using i by (simp add: v read_at_def cvector_at_def word_le_nat_alt)
  qed
qed

subsection \<open>Properties\<close>

datatype vec_op = PushBack "u8 list" | PopBack

fun vec_step :: "allocator \<Rightarrow> cvector \<Rightarrow> vec_op \<Rightarrow> ((int \<times> u8 list) \<times> cvector) res" where
  "vec_step al cv (PushBack b) =
     bind_res (cvector_pushback al cv b) (\<lambda>(c, cv'). Inr ((c, []), cv'))"
| "vec_step al cv PopBack =
     bind_res (cvector_popback al cv (replicate (unat (cv_size cv)) 0))
       (\<lambda>(c, m, cv'). Inr ((c, m), cv'))"

fun vec_run :: "allocator \<Rightarrow> cvector \<Rightarrow> vec_op list \<Rightarrow> ((int \<times> u8 list) list \<times> cvector) res" where
  "vec_run al cv [] = Inr ([], cv)"
| "vec_run al cv (op # ops) =
     bind_res (vec_step al cv op) (\<lambda>(o1, cv1).
     bind_res (vec_run al cv1 ops) (\<lambda>(os, cv2). Inr (o1 # os, cv2)))"

text \<open>The stack a client sees: what an operation may answer, and the elements afterwards.\<close>

fun stack_step :: "u8 list list \<Rightarrow> vec_op \<Rightarrow> int \<times> u8 list \<Rightarrow> u8 list list option" where
  "stack_step xs (PushBack b) (c, m) =
     (if c = CVESUCCESS then Some (xs @ [b]) else if c = CVEPUSHBACK then Some xs else None)"
| "stack_step xs PopBack (c, m) =
     (if xs = [] then (if c = CVEPOPBACK then Some [] else None)
      else if m = last xs \<and> (c = CVESUCCESS \<or> c = CVEPOPBACK) then Some (butlast xs) else None)"

fun stack_run :: "u8 list list \<Rightarrow> vec_op list \<Rightarrow> (int \<times> u8 list) list \<Rightarrow> u8 list list option" where
  "stack_run xs [] [] = Some xs"
| "stack_run xs (op # ops) (r # rs) = Option.bind (stack_step xs op r) (\<lambda>ys. stack_run ys ops rs)"
| "stack_run xs _ _ = None"

fun vec_op_ok :: "nat \<Rightarrow> vec_op \<Rightarrow> bool" where
  "vec_op_ok z (PushBack b) \<longleftrightarrow> length b = z"
| "vec_op_ok z PopBack \<longleftrightarrow> True"

lemma vec_step_ok:
  assumes "cv_inv cv" and "alloc_ok al" and "vec_op_ok (unat (cv_size cv)) op"
  obtains r cv' where "vec_step al cv op = Inr (r, cv')" "cv_inv cv'" "cv_size cv' = cv_size cv"
    "stack_step (elems cv) op r = Some (elems cv')"
proof (cases op)
  case (PushBack b)
  then have "length b = unat (cv_size cv)" using assms(3) by simp
  then show thesis
    using assms(1) that by (cases rule: pushback_cases [OF assms(1,2)]) (auto simp: PushBack cv_codes)
next
  case PopBack
  have z: "length (replicate (unat (cv_size cv)) (0::u8)) = unat (cv_size cv)" by simp
  then show thesis
    using assms(1) that by (cases rule: popback_cases [OF assms(1,2) z]) (auto simp: PopBack)
qed

text \<open>
  C21: Any sequence of \<open>cvector_pushback\<close> and \<open>cvector_popback\<close> on a well-formed vector, with
  any allocator, through all growing, moving and shrinking of the block, stays inside the
  block and answers as a stack: a push appends the element or reports \<open>CVEPUSHBACK\<close> and
  changes nothing, a pop delivers and removes the last element, and only an empty vector
  delivers nothing.
\<close>

theorem cvector_run_refines_stack:
  assumes "cv_inv cv" and "alloc_ok al" and "list_all (vec_op_ok (unat (cv_size cv))) ops"
  shows "\<exists>rs cv'. vec_run al cv ops = Inr (rs, cv') \<and> cv_inv cv' \<and>
           stack_run (elems cv) ops rs = Some (elems cv')"
  using assms
proof (induction ops arbitrary: cv)
  case Nil
  then show ?case by simp
next
  case (Cons op ops)
  obtain r cv1 where r: "vec_step al cv op = Inr (r, cv1)" "cv_inv cv1" "cv_size cv1 = cv_size cv"
    "stack_step (elems cv) op r = Some (elems cv1)"
    by (rule vec_step_ok [OF Cons.prems(1,2), of op]) (use Cons.prems(3) in auto)
  with Cons.IH [OF r(2) Cons.prems(2)] Cons.prems(3) obtain rs cv2 where
    "vec_run al cv1 ops = Inr (rs, cv2)" "cv_inv cv2" "stack_run (elems cv1) ops rs = Some (elems cv2)"
    by auto
  with r show ?case by auto
qed

definition sram_alloc :: allocator where
  "sram_alloc p n = (if n < 0x1000000 then Some (0x20000000, \<lambda>_. 0) else None)"

definition demo_cv :: cvector where
  "demo_cv = \<lparr>cv_self = 0x20001000, cv_pdata = 0x20000000, cv_block = replicate 512 7, cv_len = 2,
              cv_tot_len = 256, cv_size = 2\<rparr>"

lemma demo_cv_inv: "cv_inv demo_cv"
  by (auto simp: cv_inv_def demo_cv_def intro: exI [of _ 0])

lemma replicate_2: "replicate 2 x = [x, x]"
  by (simp add: numeral_2_eq_2)

lemma demo_elems: "elems demo_cv = [[7, 7], [7, 7]]"
  by (simp add: elems_def elem_def demo_cv_def upt_rec replicate_2)

lemma sram_alloc_ok: "alloc_ok sram_alloc"
  by (auto simp: alloc_ok_def sram_alloc_def word_less_nat_alt)

theorem cvector_run_refines_stack_witness:
  "\<exists>rs cv'. vec_run sram_alloc demo_cv [PushBack [1, 2], PopBack, PopBack] = Inr (rs, cv') \<and>
     stack_run (elems demo_cv) [PushBack [1, 2], PopBack, PopBack] rs = Some (elems cv')"
  using cvector_run_refines_stack [OF demo_cv_inv sram_alloc_ok, of "[PushBack [1, 2], PopBack, PopBack]"]
  by (auto simp: demo_cv_def)

text \<open>
  Inserting before element \<open>i\<close> puts the new element there and keeps the order of the
  others, as long as two places are free. With exactly one free place the moving loop,
  which starts one place behind the last element, writes behind the block.
\<close>

theorem cvector_insert_spec:
  assumes "cv_inv cv" and "i < unat (cv_len cv)" and "length memb = unat (cv_size cv)"
    and "unat iter = unat (cv_pdata cv) + i * unat (cv_size cv)"
  shows "(unat (cv_len cv) + 1 < unat (cv_tot_len cv) \<longrightarrow>
          (\<exists>cv'. cvector_insert al cv iter memb = Some (Inr (CVESUCCESS, cv')) \<and> cv_inv cv' \<and>
             elems cv' = take i (elems cv) @ memb # drop i (elems cv))) \<and>
         (unat (cv_len cv) + 1 = unat (cv_tot_len cv) \<longrightarrow>
          cvector_insert al cv iter memb = Some (Inl OutOfBounds))"
proof (intro conjI impI)
  let ?z = "unat (cv_size cv)" and ?l = "unat (cv_len cv)"
  let ?to = "cv_pdata cv + cv_len cv * cv_size cv"
  have valid: "\<not> CWARNING_ITER cv iter" by (rule iter_valid [OF assms(1,2,4)])
  have lt: "?l \<le> unat (cv_tot_len cv)" using assms(1) by (simp add: cv_inv_def)
  note to = unat_addr(1) [OF assms(1) lt]
  show "\<exists>cv'. cvector_insert al cv iter memb = Some (Inr (CVESUCCESS, cv')) \<and> cv_inv cv' \<and>
          elems cv' = take i (elems cv) @ memb # drop i (elems cv)"
    if free: "?l + 1 < unat (cv_tot_len cv)"
  proof -
    have grow: "cv_grow al cv = (cv, True)" using free by (simp add: cv_grow_def word_le_nat_alt)
    have "i + (?l + 1 - i) < unat (cv_tot_len cv)" "?l + 1 = i + (?l + 1 - i)"
      using free assms(2) by simp_all
    moreover have "unat ?to + ?z = unat (cv_pdata cv) + (i + (?l + 1 - i)) * ?z"
      using to calculation(2) [symmetric] by simp
    ultimately obtain cv2 where cv2: "cvmemove_foreward cv iter ?to = Some (Inr cv2)" "cv_inv cv2"
      "cv_len cv2 = cv_len cv" "cv_tot_len cv2 = cv_tot_len cv" "cv_size cv2 = cv_size cv"
      "cv_pdata cv2 = cv_pdata cv"
      "\<forall>k. elem cv2 k = (if i < k \<and> k \<le> ?l + 1 then elem cv (k - 1) else elem cv k)"
      using foreward_loop_ok [OF assms(1) _ assms(4)] unfolding cvmemove_foreward_def by metis
    have i: "i < unat (cv_tot_len cv2)" using cv2(4) assms(2) lt by simp
    define cv3 where "cv3 = put_elem cv2 i memb"
    have st: "store cv2 iter memb = Inr cv3"
      using store_elem [OF cv2(2) i, of memb iter] assms(3,4) cv2(5,6) by (simp add: cv3_def)
    have pe: "cv_inv cv3" "elem cv3 k = (if k = i then memb else elem cv2 k)" for k
      using put_elem_ok [OF cv2(2) i, of memb] assms(3) cv2(5) by (simp_all add: cv3_def)
    have l3: "unat (cv_len cv3 + 1) = Suc ?l"
      using free cv_inv_bounds(4) [OF assms(1) lt] cv2(3) by (simp add: cv3_def unat_word_ariths)
    have "cv_inv (cv3\<lparr>cv_len := cv_len cv3 + 1\<rparr>)"
      using pe(1) l3 free cv2(4) by (intro cv_inv_len) (simp_all add: cv3_def)
    moreover have "elems (cv3\<lparr>cv_len := cv_len cv3 + 1\<rparr>) = take i (elems cv) @ memb # drop i (elems cv)"
      using pe(2) cv2(7) l3 assms(2) by (intro insert_elems [where n = "Suc ?l"]) auto
    moreover have "cvector_insert al cv iter memb = Some (Inr (CVESUCCESS, cv3\<lparr>cv_len := cv_len cv3 + 1\<rparr>))"
      using valid grow cv2(1,5) st assms(3) by (simp add: cvector_insert_def copy_in_def)
    ultimately show ?thesis by blast
  qed
  show "cvector_insert al cv iter memb = Some (Inl OutOfBounds)"
    if one: "?l + 1 = unat (cv_tot_len cv)"
  proof -
    have grow: "cv_grow al cv = (cv, True)" using one by (simp add: cv_grow_def word_le_nat_alt)
    have ld: "load cv ?to ?z = Inr (elem cv ?l)" using load_elem [OF assms(1) _ to] one by simp
    have "length (cv_block cv) = (?l + 1) * ?z" "0 < ?z" using assms(1) one by (simp_all add: cv_inv_def)
    moreover have "unat (?to + cv_size cv) = unat (cv_pdata cv) + (?l + 1) * ?z"
      using to cv_inv_bounds(3) [OF assms(1), of "?l + 1"] one
      by (simp add: unat_word_ariths flip: one)
    ultimately have "store cv (?to + cv_size cv) (elem cv ?l) = Inl OutOfBounds"
      using elem_block [of ?l cv] assms(1) one by (simp add: store_def in_block_def)
    moreover have "?to \<ge> iter" using to assms(2,4) by (simp add: word_le_nat_alt)
    ultimately have "cvmemove_foreward cv iter ?to = Some (Inl OutOfBounds)"
      unfolding cvmemove_foreward_def using ld
      by (subst cvmemove_foreward_loop.simps) simp
    then show ?thesis using valid grow by (simp add: cvector_insert_def)
  qed
qed

theorem cvector_insert_spec_witness:
  "(\<exists>cv'. cvector_insert sram_alloc demo_cv 0x20000002 [1, 2] = Some (Inr (CVESUCCESS, cv')) \<and>
      elems cv' = [[7, 7], [1, 2], [7, 7]]) \<and>
   cvector_insert sram_alloc (demo_cv\<lparr>cv_len := 255\<rparr>) 0x20000002 [1, 2] = Some (Inl OutOfBounds)"
proof -
  have i: "cv_inv (demo_cv\<lparr>cv_len := 255\<rparr>)"
    by (rule cv_inv_len [OF demo_cv_inv]) (simp add: demo_cv_def)
  show ?thesis
    using cvector_insert_spec [OF demo_cv_inv, of 1 "[1, 2]" "0x20000002" sram_alloc]
      cvector_insert_spec [OF i, of 1 "[1, 2]" "0x20000002" sram_alloc] demo_elems
    by (auto simp: demo_cv_def)
qed

lemma take_drop_prefix:
  "m + z \<le> n \<Longrightarrow> n \<le> length X \<Longrightarrow> take z (drop m (take n X @ Y)) = take z (drop m X)"
  by (simp add: take_drop min_absorb1)

lemma rm_elems:
  assumes "cv_inv cv" and "i < unat (cv_len cv)" and "unat (cv_len cv) < unat (cv_tot_len cv)"
    and "z = unat (cv_size cv)" and "l = unat (cv_len cv)"
    and "B = blit (cv_block cv) (i * z) (take ((l - i) * z) (drop (Suc i * z) (cv_block cv)))"
    and "k < l - 1"
  shows "elem (cv\<lparr>cv_block := B\<rparr>) k = (if k < i then elem cv k else elem cv (Suc k))"
proof -
  have len: "Suc l * z \<le> length (cv_block cv)"
    using cv_inv_bounds(1) [OF assms(1), of "Suc l"] assms(3,4,5) by simp
  have n: "Suc i * z + (l - i) * z = Suc l * z"
    using assms(2,5) by (simp add: add_mult_distrib [symmetric])
  show ?thesis
  proof (cases "k < i")
    case True
    then have "Suc k * z \<le> i * z" by (intro mult_le_mono1) simp
    moreover have "Suc i * z \<le> length (cv_block cv)"
      using n len by linarith
    ultimately show ?thesis
      using True assms(4,6) by (simp add: elem_def blit_def take_drop min_absorb1)
  next
    case False
    have "Suc (k - i) * z \<le> (l - i) * z" using False assms(7) by (intro mult_le_mono1) simp
    then have a: "(k - i) * z + z \<le> (l - i) * z" by simp
    have b: "i * z + (k - i) * z = k * z" "Suc i * z + (k - i) * z = Suc k * z"
      using False by (simp_all add: add_mult_distrib [symmetric])
    have "drop (i * z) B =
        take ((l - i) * z) (drop (Suc i * z) (cv_block cv)) @ drop (i * z + (l - i) * z) (cv_block cv)"
      using len n unfolding assms(6) blit_def by (simp add: min_absorb1 min_absorb2)
    then have "drop (k * z) B = drop ((k - i) * z)
        (take ((l - i) * z) (drop (Suc i * z) (cv_block cv)) @ drop (i * z + (l - i) * z) (cv_block cv))"
      by (metis b(1) add.commute drop_drop)
    also have "take z \<dots> = take z (drop ((k - i) * z) (drop (Suc i * z) (cv_block cv)))"
      by (rule take_drop_prefix) (use a len n in auto)
    also have "drop ((k - i) * z) (drop (Suc i * z) (cv_block cv)) = drop (Suc k * z) (cv_block cv)"
      unfolding drop_drop b(2) [symmetric] by (simp add: add.commute)
    finally show ?thesis
      using False assms(4) by (simp add: elem_def)
  qed
qed

text \<open>
  Removing element \<open>i\<close>. The code copies one element more than there is: with a full
  vector it reads behind the block. Otherwise, on a platform whose \<open>memcpy\<close> copies upwards,
  exactly element \<open>i\<close> disappears; by the C standard the copy has no meaning as soon as the
  element is not the last one, because source and destination overlap.
\<close>

theorem cvector_rm_spec:
  assumes "cv_inv cv" and "alloc_ok al" and "i < unat (cv_len cv)"
    and "unat iter = unat (cv_pdata cv) + i * unat (cv_size cv)"
  shows "(unat (cv_len cv) < unat (cv_tot_len cv) \<longrightarrow>
          (\<exists>code cv'. cvector_rm True al cv iter = Inr (code, cv') \<and> code \<in> {CVESUCCESS, CVERM} \<and>
             cv_inv cv' \<and> elems cv' = take i (elems cv) @ drop (Suc i) (elems cv))) \<and>
         (unat (cv_len cv) = unat (cv_tot_len cv) \<longrightarrow>
          cvector_rm True al cv iter = Inl OutOfBounds) \<and>
         (Suc i < unat (cv_len cv) \<longrightarrow> cvector_rm False al cv iter = Inl Overlap)"
proof (intro conjI impI)
  let ?z = "unat (cv_size cv)" and ?l = "unat (cv_len cv)"
  have valid: "\<not> CWARNING_ITER cv iter" by (rule iter_valid [OF assms(1,3,4)])
  have lt: "?l \<le> unat (cv_tot_len cv)" using assms(1) by (simp add: cv_inv_def)
  have "i * ?z \<le> ?l * ?z" using assms(3) by simp
  then have n: "unat (cvector_end cv - iter) = (?l - i) * ?z"
    using unat_addr(2) [OF assms(1) lt] assms(4)
    by (simp add: cvector_end_def unat_sub word_le_nat_alt diff_mult_distrib)
  have src: "unat (iter + cv_size cv) = unat (cv_pdata cv) + Suc i * ?z"
    using cv_inv_bounds(3) [OF assms(1), of "Suc i"] assms(3,4) lt by (simp add: unat_word_ariths)
  have sum: "Suc i * ?z + (?l - i) * ?z = Suc ?l * ?z"
    using assms(3) by (simp add: add_mult_distrib [symmetric])
  have z: "0 < ?z" using assms(1) by (simp add: cv_inv_def)
  show "\<exists>code cv'. cvector_rm True al cv iter = Inr (code, cv') \<and> code \<in> {CVESUCCESS, CVERM} \<and>
      cv_inv cv' \<and> elems cv' = take i (elems cv) @ drop (Suc i) (elems cv)"
    if free: "?l < unat (cv_tot_len cv)"
  proof -
    have cap: "Suc ?l * ?z \<le> length (cv_block cv)" by (rule cv_inv_bounds(1) [OF assms(1)]) (use free in simp)
    define bs where "bs = take ((?l - i) * ?z) (drop (Suc i * ?z) (cv_block cv))"
    define B where "B = blit (cv_block cv) (i * ?z) bs"
    have len: "length bs = (?l - i) * ?z" using cap sum by (simp add: bs_def)
    have "i * ?z + length bs \<le> length (cv_block cv)" using len cap sum by simp
    then have mv: "move_down True cv iter (iter + cv_size cv) (cvector_end cv - iter) = Inr (cv\<lparr>cv_block := B\<rparr>)"
      and lB: "length B = length (cv_block cv)"
      using n src cap sum assms(4) len
      by (simp_all add: move_down_def load_def store_def in_block_def bs_def B_def)
    define cv1 where "cv1 = cv\<lparr>cv_block := B, cv_len := cv_len cv - 1\<rparr>"
    have l1: "unat (cv_len cv1) = ?l - 1"
      using assms(3) by (simp add: cv1_def unat_minus_one unat_gt_0 [symmetric])
    have "cv_inv (cv\<lparr>cv_block := B\<rparr>)" using assms(1) lB by (simp add: cv_inv_def)
    then have inv1: "cv_inv cv1"
      using cv_inv_len [of "cv\<lparr>cv_block := B\<rparr>" "cv_len cv - 1"] l1 lt by (simp add: cv1_def)
    have e: "elem cv1 k = (if k < i then elem cv k else elem cv (Suc k))" if "k < ?l - 1" for k
      using rm_elems [OF assms(1,3) free refl refl _ that] by (simp add: cv1_def B_def bs_def elem_def)
    have "elems cv1 = take i (elems cv) @ drop (Suc i) (elems cv)"
      using assms(3) l1 e by (intro nth_equalityI) (auto simp: nth_elems nth_append min_def)
    moreover obtain cv2 fine where "cv_shrink al cv1 = (cv2, fine)" "cv_inv cv2" "elems cv2 = elems cv1"
      by (rule cv_shrink_ok [OF inv1 assms(2)])
    ultimately show ?thesis using valid mv by (simp add: cvector_rm_def cv1_def)
  qed
  show "cvector_rm True al cv iter = Inl OutOfBounds" if "?l = unat (cv_tot_len cv)"
    using that valid n src sum z assms(1)
    by (simp add: cvector_rm_def move_down_def load_def in_block_def cv_inv_def)
  show "cvector_rm False al cv iter = Inl Overlap" if "Suc i < ?l"
  proof -
    have "2 * ?z \<le> (?l - i) * ?z" using that by (intro mult_le_mono1) simp
    with valid n src assms(4) z show ?thesis
      by (simp add: cvector_rm_def move_down_def word_less_nat_alt)
  qed
qed

theorem cvector_rm_spec_witness:
  "(\<exists>code cv'. cvector_rm True sram_alloc demo_cv 0x20000000 = Inr (code, cv') \<and>
      elems cv' = [[7, 7]]) \<and>
   cvector_rm False sram_alloc demo_cv 0x20000000 = Inl Overlap"
proof -
  show ?thesis
    using cvector_rm_spec [OF demo_cv_inv sram_alloc_ok, of 0 "0x20000000"] demo_elems
    by (auto simp: demo_cv_def)
qed

text \<open>
  \<open>cvector_insert_at\<close> with an index behind the last element but inside the capacity
  inserts nothing and still reports success, and a later \<open>cvector_at\<close> of that index is null.
\<close>

theorem cvector_insert_at_ignored:
  assumes "cv_inv cv" and "unat (cv_len cv) \<le> unat i" and "unat i < unat (cv_tot_len cv)"
  shows "cvector_insert_at al cv i memb = Some (Inr (0, cv)) \<and> cvector_at cv i = None"
  using iter_invalid [OF assms(1,2)] assms(2,3)
  by (simp add: cvector_insert_at_def cvector_insert_def cvector_at_def word_le_nat_alt)

theorem cvector_insert_at_ignored_witness:
  "cvector_insert_at sram_alloc demo_cv 2 [1, 2] = Some (Inr (0, demo_cv))"
  using cvector_insert_at_ignored [OF demo_cv_inv, of 2 sram_alloc "[1, 2]"]
  by (simp add: demo_cv_def)

end
