(* ===== verification/Statemachine.thy ===== *)
theory Statemachine
  imports Cvector
begin

section \<open>The state machine library (statemachine/statemachine.c)\<close>

text \<open>
  States are objects named by pointers: the ones the user declares and the default finish
  state inside the machine. Function pointers of states and of conditions are names, and
  two parameters give them their meaning: \<open>run\<close> calls a state function on the world outside
  the machine, \<open>check\<close> a condition. The vectors of pointers are lists here, with a
  parameter \<open>mem\<close> that says whether a push onto a vector of that length finds memory; they
  satisfy the same vector interface as the growable array. A vector whose creation failed
  is \<open>None\<close>. Logging is left out.
\<close>

subsection \<open>Data\<close>

definition stateNone :: int where "stateNone = 0"
definition statePause :: int where "statePause = 1"
definition stateFinish :: int where "stateFinish = 2"

datatype sptr = UserState nat | DefaultFinishState

record 'c transition =
  trigger :: bool
  to_state :: sptr
  condition_fn :: "'c option"

record ('f, 'c) aState =
  entry_fn :: "'f option"
  excution_fn :: "'f option"
  exit_fn :: "'f option"
  st_name :: nat
  transitions :: "'c transition list option"

record ('f, 'c) aStateMachine =
  sm_name :: nat
  states :: "sptr list option"
  current :: "sptr option"
  previous :: "sptr option"
  started :: bool
  finished :: bool
  state :: "sptr \<Rightarrow> ('f, 'c) aState"

definition vec_push :: "(nat \<Rightarrow> bool) \<Rightarrow> 'a list \<Rightarrow> 'a \<Rightarrow> (int \<times> 'a list) res" where
  "vec_push mem xs x = Inr (if mem (length xs) then (CVESUCCESS, xs @ [x]) else (CVEPUSHBACK, xs))"

definition vec_read :: "'a list \<Rightarrow> nat \<Rightarrow> 'a option res" where
  "vec_read xs i = Inr (if i < length xs then Some (xs ! i) else None)"

interpretation lvec: pointer_vector "\<lambda>(mem, xs) x. bind_res (vec_push mem xs x) (\<lambda>(c, ys). Inr (c, mem, ys))"
    "\<lambda>(mem, xs). vec_read xs" "\<lambda>(mem, xs). xs" "\<lambda>_. True" "\<lambda>_ _. True"
  by unfold_locales (auto simp: vec_push_def vec_read_def split: if_splits)

text \<open>\<open>cvector_pushback (v, &x)\<close> with the result ignored, through a possibly null vector.\<close>

definition vec_add :: "(nat \<Rightarrow> bool) \<Rightarrow> 'a list option \<Rightarrow> 'a \<Rightarrow> 'a list option res" where
  "vec_add mem v x =
     (case v of
        None \<Rightarrow> Inl NullDeref
      | Some xs \<Rightarrow> bind_res (vec_push mem xs x) (\<lambda>(_, ys). Inr (Some ys)))"

subsection \<open>States and transitions\<close>

definition transition_Init :: "sptr \<Rightarrow> 'c option \<Rightarrow> 'c transition" where
  "transition_Init to cond = \<lparr>trigger = True, to_state = to, condition_fn = cond\<rparr>"

definition aState_Init ::
    "bool \<Rightarrow> nat \<Rightarrow> 'f option \<Rightarrow> 'f option \<Rightarrow> 'f option \<Rightarrow> ('f, 'c) aState" where
  "aState_Init made name excution entry ext =
     \<lparr>entry_fn = entry, excution_fn = excution, exit_fn = ext, st_name = name,
      transitions = (if made then Some [] else None)\<rparr>"

definition aState_excution :: "('f, 'c) aState \<Rightarrow> int" where
  "aState_excution s = stateNone"

definition aState_entry :: "('f, 'c) aState \<Rightarrow> int" where
  "aState_entry s = stateNone"

definition aState_exit :: "('f, 'c) aState \<Rightarrow> int" where
  "aState_exit s = stateNone"

definition aState_getName :: "('f, 'c) aState \<Rightarrow> nat" where
  "aState_getName s = st_name s"

definition aState_addTransition ::
    "(nat \<Rightarrow> bool) \<Rightarrow> ('f, 'c) aState \<Rightarrow> 'c transition \<Rightarrow> ('f, 'c) aState res" where
  "aState_addTransition mem s t =
     bind_res (vec_add mem (transitions s) t) (\<lambda>v. Inr (s\<lparr>transitions := v\<rparr>))"

subsection \<open>Building a machine\<close>

text \<open>
  \<open>aStateMachine_Init\<close>: \<open>made1\<close> and \<open>made2\<close> say whether the two vectors could be created,
  \<open>fin_name\<close> is the address of the literal \<open>finish\<close>.
\<close>

definition aStateMachine_Init ::
    "bool \<Rightarrow> bool \<Rightarrow> nat \<Rightarrow> ('f, 'c) aStateMachine \<Rightarrow> nat \<Rightarrow> ('f, 'c) aStateMachine" where
  "aStateMachine_Init made1 made2 fin_name sm name =
     sm\<lparr>sm_name := name, current := None, previous := None, started := False, finished := False,
        state := (state sm)(DefaultFinishState := aState_Init made1 fin_name None None None),
        states := (if made2 then Some [] else None)\<rparr>"

definition defaultFinishState_excution :: "('f, 'c) aState \<Rightarrow> int" where
  "defaultFinishState_excution s = stateFinish"

definition aStateMachine_finish :: "('f, 'c) aStateMachine \<Rightarrow> ('f, 'c) aStateMachine" where
  "aStateMachine_finish sm = sm\<lparr>finished := True\<rparr>"

fun convert_loop :: "('f, 'c) aStateMachine \<Rightarrow> nat \<Rightarrow> sptr list \<Rightarrow> sptr option" where
  "convert_loop sm name [] = None"
| "convert_loop sm name (s # ss) =
     (if aState_getName (state sm s) = name then Some s else convert_loop sm name ss)"

definition aStateMachine_convert_state :: "('f, 'c) aStateMachine \<Rightarrow> nat \<Rightarrow> sptr option res" where
  "aStateMachine_convert_state sm name =
     (case states sm of None \<Rightarrow> Inl NullDeref | Some ss \<Rightarrow> Inr (convert_loop sm name ss))"

definition aStateMachine_convert_name :: "('f, 'c) aState \<Rightarrow> nat" where
  "aStateMachine_convert_name s = aState_getName s"

definition aStateMachine_addState ::
    "(nat \<Rightarrow> bool) \<Rightarrow> ('f, 'c) aStateMachine \<Rightarrow> sptr \<Rightarrow> ('f, 'c) aStateMachine res" where
  "aStateMachine_addState mem sm s =
     bind_res (vec_add mem (states sm) s) (\<lambda>v. Inr (sm\<lparr>states := v\<rparr>))"

text \<open>
  \<open>aStateMachine_addTransition1\<close>: \<open>got\<close> says whether \<open>malloc\<close> delivers the transition, which
  is not tested. A \<open>from\<close> that is not a state of the machine is only logged.
\<close>

definition aStateMachine_addTransition1 ::
    "bool \<Rightarrow> (nat \<Rightarrow> bool) \<Rightarrow> ('f, 'c) aStateMachine \<Rightarrow> sptr option \<Rightarrow> sptr option \<Rightarrow> 'c option \<Rightarrow>
     ('f, 'c) aStateMachine res" where
  "aStateMachine_addTransition1 got mem sm from to cond =
     (let to' = (case to of None \<Rightarrow> DefaultFinishState | Some t \<Rightarrow> t) in
      case states sm of
        None \<Rightarrow> Inl NullDeref
      | Some ss \<Rightarrow>
          (case from of
             None \<Rightarrow> Inr sm
           | Some f \<Rightarrow>
               if f \<in> set ss then
                 if got then
                   bind_res (aState_addTransition mem (state sm f) (transition_Init to' cond))
                     (\<lambda>s. Inr (sm\<lparr>state := (state sm)(f := s)\<rparr>))
                 else Inl NullDeref
               else Inr sm))"

definition condition :: "('f, 'c) aStateMachine \<Rightarrow> bool" where
  "condition sm = True"

definition aStateMachine_addTransition2 ::
    "bool \<Rightarrow> (nat \<Rightarrow> bool) \<Rightarrow> ('f, 'c) aStateMachine \<Rightarrow> nat \<Rightarrow> nat \<Rightarrow> 'c option \<Rightarrow>
     ('f, 'c) aStateMachine res" where
  "aStateMachine_addTransition2 got mem sm fromName toName cond =
     bind_res (aStateMachine_convert_state sm fromName) (\<lambda>from.
     bind_res (aStateMachine_convert_state sm toName) (\<lambda>to.
     aStateMachine_addTransition1 got mem sm from to cond))"

definition aStateMachine_addTransition3 ::
    "bool \<Rightarrow> (nat \<Rightarrow> bool) \<Rightarrow> ('f, 'c) aStateMachine \<Rightarrow> sptr option \<Rightarrow> nat \<Rightarrow> 'c option \<Rightarrow>
     ('f, 'c) aStateMachine res" where
  "aStateMachine_addTransition3 got mem sm from toName cond =
     bind_res (aStateMachine_convert_state sm toName) (\<lambda>to.
     aStateMachine_addTransition1 got mem sm from to cond)"

definition aStateMachine_addTransition4 ::
    "bool \<Rightarrow> (nat \<Rightarrow> bool) \<Rightarrow> ('f, 'c) aStateMachine \<Rightarrow> nat \<Rightarrow> sptr option \<Rightarrow> 'c option \<Rightarrow>
     ('f, 'c) aStateMachine res" where
  "aStateMachine_addTransition4 got mem sm fromName to cond =
     bind_res (aStateMachine_convert_state sm fromName) (\<lambda>from.
     aStateMachine_addTransition1 got mem sm from to cond)"

subsection \<open>Running a machine\<close>

definition call_fn :: "('f \<Rightarrow> sptr \<Rightarrow> 'w \<Rightarrow> int \<times> 'w) \<Rightarrow> 'f option \<Rightarrow> sptr \<Rightarrow> 'w \<Rightarrow> 'w" where
  "call_fn run f s w = (case f of None \<Rightarrow> w | Some g \<Rightarrow> snd (run g s w))"

definition aStateMachine_start ::
    "('f \<Rightarrow> sptr \<Rightarrow> 'w \<Rightarrow> int \<times> 'w) \<Rightarrow> ('f, 'c) aStateMachine \<Rightarrow> sptr \<Rightarrow> 'w \<Rightarrow>
     ('f, 'c) aStateMachine \<times> 'w" where
  "aStateMachine_start run sm s w =
     (if started sm then (sm, w)
      else (sm\<lparr>started := True, current := Some s, previous := None\<rparr>,
            call_fn run (entry_fn (state sm s)) s w))"

definition aStateMachine_restart ::
    "('f \<Rightarrow> sptr \<Rightarrow> 'w \<Rightarrow> int \<times> 'w) \<Rightarrow> ('f, 'c) aStateMachine \<Rightarrow> sptr \<Rightarrow> 'w \<Rightarrow>
     ('f, 'c) aStateMachine \<times> 'w" where
  "aStateMachine_restart run sm s w =
     (sm\<lparr>started := False, finished := False, current := Some s, previous := None\<rparr>,
      call_fn run (entry_fn (state sm s)) s w)"

text \<open>The loop over the transitions of the current state \<open>c\<close>; it breaks after the first one taken.\<close>

fun transition_loop ::
    "('f \<Rightarrow> sptr \<Rightarrow> 'w \<Rightarrow> int \<times> 'w) \<Rightarrow> ('c \<Rightarrow> ('f, 'c) aStateMachine \<Rightarrow> 'w \<Rightarrow> bool \<times> 'w) \<Rightarrow>
     ('f, 'c) aStateMachine \<Rightarrow> sptr \<Rightarrow> 'c transition list \<Rightarrow> 'w \<Rightarrow>
     (('f, 'c) aStateMachine \<times> 'w) res" where
  "transition_loop run check sm c [] w = Inr (sm, w)"
| "transition_loop run check sm c (t # ts) w =
     (if trigger t then
        (case condition_fn t of
           None \<Rightarrow> Inl NullDeref
         | Some k \<Rightarrow>
             let (holds, w1) = check k sm w in
             if holds then
               let w2 = call_fn run (exit_fn (state sm c)) c w1;
                   sm1 = sm\<lparr>previous := Some c, current := Some (to_state t)\<rparr>
               in Inr (sm1, call_fn run (entry_fn (state sm (to_state t))) (to_state t) w2)
             else transition_loop run check sm c ts w1)
      else transition_loop run check sm c ts w)"

definition aStateMachine_update ::
    "('f \<Rightarrow> sptr \<Rightarrow> 'w \<Rightarrow> int \<times> 'w) \<Rightarrow> ('c \<Rightarrow> ('f, 'c) aStateMachine \<Rightarrow> 'w \<Rightarrow> bool \<times> 'w) \<Rightarrow>
     ('f, 'c) aStateMachine \<Rightarrow> 'w \<Rightarrow> (('f, 'c) aStateMachine \<times> 'w) res" where
  "aStateMachine_update run check sm w =
     (if \<not> started sm then Inr (sm, w)
      else if finished sm then Inr (sm, w)
      else
        (case current sm of
           Some c \<Rightarrow>
             let (sm1, w1) =
               (case excution_fn (state sm c) of
                  None \<Rightarrow> (sm, w)
                | Some f \<Rightarrow>
                    let (r, w1) = run f c w in
                    (if r = stateFinish then aStateMachine_finish sm else sm, w1))
             in (case transitions (state sm1 c) of
                   None \<Rightarrow> Inl NullDeref
                 | Some ts \<Rightarrow> transition_loop run check sm1 c ts w1)
         | None \<Rightarrow>
             if started sm = False then
               (case states sm of
                  None \<Rightarrow> Inl NullDeref
                | Some [] \<Rightarrow> Inl NullDeref
                | Some (s # _) \<Rightarrow> Inr (aStateMachine_start run sm s w))
             else Inr (sm, w)))"

subsection \<open>Runs\<close>

text \<open>A run of a machine: any number of updates that return.\<close>

inductive machine_run ::
    "('f \<Rightarrow> sptr \<Rightarrow> 'w \<Rightarrow> int \<times> 'w) \<Rightarrow> ('c \<Rightarrow> ('f, 'c) aStateMachine \<Rightarrow> 'w \<Rightarrow> bool \<times> 'w) \<Rightarrow>
     ('f, 'c) aStateMachine \<times> 'w \<Rightarrow> ('f, 'c) aStateMachine \<times> 'w \<Rightarrow> bool"
  for run check a where
    run_refl: "machine_run run check a a"
  | run_update: "machine_run run check a (sm, w) \<Longrightarrow>
      aStateMachine_update run check sm w = Inr b \<Longrightarrow> machine_run run check a b"

inductive_cases machine_runE: "machine_run run check a b"

definition edges :: "('f, 'c) aStateMachine \<Rightarrow> (sptr \<times> sptr) set" where
  "edges sm = {(s, to_state t) | s t ts. transitions (state sm s) = Some ts \<and> t \<in> set ts}"

definition enabled ::
    "('c \<Rightarrow> ('f, 'c) aStateMachine \<Rightarrow> 'w \<Rightarrow> bool \<times> 'w) \<Rightarrow> ('f, 'c) aStateMachine \<Rightarrow> 'w \<Rightarrow>
     'c transition \<Rightarrow> bool" where
  "enabled check sm w t \<longleftrightarrow>
     trigger t \<and> (case condition_fn t of None \<Rightarrow> False | Some k \<Rightarrow> fst (check k sm w))"

lemma transition_loop_find:
  assumes "\<forall>t \<in> set ts. condition_fn t \<noteq> None" and "\<forall>k sm w. snd (check k sm w) = w"
  shows "transition_loop run check sm c ts w =
    Inr (case List.find (enabled check sm w) ts of
           None \<Rightarrow> (sm, w)
         | Some t \<Rightarrow>
             (sm\<lparr>previous := Some c, current := Some (to_state t)\<rparr>,
              call_fn run (entry_fn (state sm (to_state t))) (to_state t)
                (call_fn run (exit_fn (state sm c)) c w)))"
  using assms(1)
proof (induction ts)
  case Nil
  then show ?case by simp
next
  case (Cons t ts)
  then obtain k where k: "condition_fn t = Some k" by auto
  obtain b where "check k sm w = (b, w)" using assms(2) by (metis prod.collapse)
  then show ?case using Cons k by (simp add: enabled_def)
qed

lemma transition_loop_edge:
  assumes "transition_loop run check sm c ts w = Inr (sm', w')"
  shows "(\<exists>t \<in> set ts. sm' = sm\<lparr>previous := Some c, current := Some (to_state t)\<rparr>) \<or> sm' = sm"
  using assms
  by (induction run check sm c ts w rule: transition_loop.induct)
    (auto simp: Let_def split: if_splits option.splits prod.splits)

text \<open>One update of a started machine: the states are kept, and the current state stays or moves along an edge.\<close>

lemma update_edge:
  assumes "aStateMachine_update run check sm w = Inr (sm', w')" and "started sm" and "current sm = Some c"
  shows "started sm' \<and> state sm' = state sm \<and> (\<exists>c'. current sm' = Some c' \<and>
    (c' = c \<and> previous sm' = previous sm \<or> (c, c') \<in> edges sm \<and> previous sm' = Some c))"
proof (cases "finished sm")
  case True
  then show ?thesis using assms by (simp add: aStateMachine_update_def)
next
  case False
  define e where "e = (case excution_fn (state sm c) of None \<Rightarrow> (sm, w)
      | Some f \<Rightarrow> let (r, w1) = run f c w in
          (if r = stateFinish then aStateMachine_finish sm else sm, w1))"
  obtain sm1 w1 where e': "e = (sm1, w1)" by (cases e)
  then have 0: "sm1 = sm \<or> sm1 = aStateMachine_finish sm"
    by (auto simp: e_def Let_def split: option.splits prod.splits if_splits)
  then have st: "state sm1 = state sm" by (auto simp: aStateMachine_finish_def)
  from False assms(2,3) have u: "aStateMachine_update run check sm w =
      (case transitions (state sm1 c) of None \<Rightarrow> Inl NullDeref
       | Some ts \<Rightarrow> transition_loop run check sm1 c ts w1)"
    unfolding aStateMachine_update_def by (simp add: e' flip: e_def)
  with assms(1) st obtain ts where 1: "sm1 = sm \<or> sm1 = aStateMachine_finish sm"
    "transitions (state sm c) = Some ts" "transition_loop run check sm1 c ts w1 = Inr (sm', w')"
    using 0 by (cases "transitions (state sm c)") auto
  from transition_loop_edge [OF 1(3)] 1(1,2) assms show ?thesis
    by (fastforce simp: edges_def aStateMachine_finish_def)
qed

lemma run_edges:
  assumes "machine_run run check a b" and "started (fst a)" and "current (fst a) = Some s"
    and "previous (fst a) = None"
  shows "started (fst b) \<and> state (fst b) = state (fst a) \<and>
    (\<exists>c. current (fst b) = Some c \<and> (s, c) \<in> (edges (fst a))\<^sup>* \<and>
         (\<forall>p. previous (fst b) = Some p \<longrightarrow> (p, c) \<in> edges (fst a)))"
  using assms
proof (induction rule: machine_run.induct)
  case run_refl
  then show ?case by simp
next
  case (run_update sm1 w1 b)
  then obtain c where c: "started sm1" "state sm1 = state (fst a)" "current sm1 = Some c"
    "(s, c) \<in> (edges (fst a))\<^sup>*" "\<forall>p. previous sm1 = Some p \<longrightarrow> (p, c) \<in> edges (fst a)" by auto
  have e: "edges sm1 = edges (fst a)" using c(2) by (simp add: edges_def)
  obtain sm2 w2 where b: "b = (sm2, w2)" by (cases b)
  with update_edge [of run check sm1 w1 sm2 w2 c] run_update.hyps(2) c e show ?case
    by (auto intro: rtrancl.rtrancl_into_rtrancl)
qed

subsection \<open>Properties\<close>

text \<open>
  C20: One update of a running machine whose conditions only look: the current state's
  \<open>excution\<close> runs first and marks the machine finished exactly when it returns
  \<open>stateFinish\<close>; then the first transition, in the order they were added, that is triggered
  and whose condition holds is taken: the old state's \<open>exit\<close> runs, then the new state's
  \<open>entry\<close>, the old state is remembered; without such a transition the state stays.
\<close>

theorem aStateMachine_update_takes_first:
  assumes "started sm" and "\<not> finished sm" and "current sm = Some c"
    and "transitions (state sm c) = Some ts" and "\<forall>t \<in> set ts. condition_fn t \<noteq> None"
    and "\<forall>k sm w. snd (check k sm w) = w"
    and "w1 = call_fn run (excution_fn (state sm c)) c w"
    and "sm1 = sm\<lparr>finished := (case excution_fn (state sm c) of
                                None \<Rightarrow> False | Some f \<Rightarrow> fst (run f c w) = stateFinish)\<rparr>"
  shows "aStateMachine_update run check sm w =
    Inr (case List.find (enabled check sm1 w1) ts of
           None \<Rightarrow> (sm1, w1)
         | Some t \<Rightarrow>
             (sm1\<lparr>previous := Some c, current := Some (to_state t)\<rparr>,
              call_fn run (entry_fn (state sm (to_state t))) (to_state t)
                (call_fn run (exit_fn (state sm c)) c w1)))"
proof -
  have fin: "sm\<lparr>finished := False\<rparr> = sm" using assms(2) by (cases sm) simp
  have "(case excution_fn (state sm c) of None \<Rightarrow> (sm, w)
         | Some f \<Rightarrow> let (r, w1) = run f c w in
             (if r = stateFinish then aStateMachine_finish sm else sm, w1)) = (sm1, w1)"
    using assms(7,8) fin
    by (auto simp: call_fn_def aStateMachine_finish_def Let_def split: option.splits prod.splits)
  moreover have "state sm1 = state sm" by (simp add: assms(8))
  ultimately show ?thesis
    using assms(1-4) transition_loop_find [OF assms(5,6), of run sm1 c w1]
    by (simp add: aStateMachine_update_def split: option.split)
qed

text \<open>A machine with two states; conditions are constants and state functions leave a trace.\<close>

definition demo_run :: "nat \<Rightarrow> sptr \<Rightarrow> (nat \<times> sptr) list \<Rightarrow> int \<times> (nat \<times> sptr) list" where
  "demo_run f s w = (if f = 9 then stateFinish else stateNone, w @ [(f, s)])"

definition demo_check :: "bool \<Rightarrow> (nat, bool) aStateMachine \<Rightarrow> 'w \<Rightarrow> bool \<times> 'w" where
  "demo_check k sm w = (k, w)"

definition demo_sm :: "(nat, bool) aStateMachine" where
  "demo_sm = \<lparr>sm_name = 1, states = Some [UserState 0, UserState 1], current = Some (UserState 0),
     previous = None, started = True, finished = False,
     state = (\<lambda>_. aState_Init True 3 None None None)
       (UserState 0 := \<lparr>entry_fn = Some 1, excution_fn = Some 2, exit_fn = Some 3, st_name = 7,
          transitions = Some [transition_Init (UserState 1) (Some False),
                              transition_Init (UserState 1) (Some True)]\<rparr>,
        UserState 1 := \<lparr>entry_fn = Some 4, excution_fn = Some 9, exit_fn = None, st_name = 8,
          transitions = Some []\<rparr>)\<rparr>"

theorem aStateMachine_update_takes_first_witness:
  "aStateMachine_update demo_run demo_check demo_sm [] =
     Inr (demo_sm\<lparr>previous := Some (UserState 0), current := Some (UserState 1)\<rparr>,
          [(2, UserState 0), (3, UserState 0), (4, UserState 1)])"
  using aStateMachine_update_takes_first [of demo_sm "UserState 0"
      "[transition_Init (UserState 1) (Some False), transition_Init (UserState 1) (Some True)]"
      demo_check "[(2, UserState 0)]" demo_run "[]" demo_sm]
  by (simp add: demo_sm_def demo_check_def demo_run_def transition_Init_def call_fn_def enabled_def
      stateNone_def stateFinish_def ex_bool_eq)



lemma stuck_run:
  assumes "machine_run run check a b" and "aStateMachine_update run check (fst a) (snd a) = Inr a"
  shows "b = a"
  using assms by (induction rule: machine_run.induct) auto

text \<open>
  \<open>aStateMachine_restart\<close> leaves the machine stopped: it runs the entry function of the
  given state and clears \<open>started\<close>, so every later update returns without doing anything.
\<close>

theorem aStateMachine_restart_stops:
  assumes "machine_run run check (aStateMachine_restart run sm s w) b"
  shows "b = aStateMachine_restart run sm s w \<and> \<not> started (fst b) \<and> current (fst b) = Some s"
  using stuck_run [OF assms]
  by (simp add: aStateMachine_update_def aStateMachine_restart_def)

theorem aStateMachine_restart_stops_witness:
  "\<not> started (fst (aStateMachine_restart demo_run demo_sm (UserState 0) [])) \<and>
   aStateMachine_restart demo_run demo_sm (UserState 0) [] =
     (demo_sm\<lparr>started := False, current := Some (UserState 0)\<rparr>, [(1, UserState 0)])"
  using aStateMachine_restart_stops [OF run_refl, of demo_run demo_sm "UserState 0" "[]"]
  by (simp add: aStateMachine_restart_def call_fn_def demo_sm_def demo_run_def)

text \<open>
  The default finish state does not finish the machine: \<open>aStateMachine_Init\<close> installs it
  without an \<open>excution\<close> function, so a machine that has arrived there stays there for ever
  with \<open>finished\<close> unset, although \<open>defaultFinishState_excution\<close> returns \<open>stateFinish\<close>.
\<close>

theorem default_finish_never_finishes:
  assumes "started sm" and "\<not> finished sm" and "current sm = Some DefaultFinishState"
    and "state sm DefaultFinishState = state (aStateMachine_Init True made fin_name sm0 name) DefaultFinishState"
    and "machine_run run check (sm, w) (sm', w')"
  shows "sm' = sm \<and> w' = w \<and> \<not> finished sm' \<and>
    defaultFinishState_excution (state sm DefaultFinishState) = stateFinish"
  using stuck_run [OF assms(5)] assms(1-4)
  by (simp add: aStateMachine_update_def aStateMachine_Init_def aState_Init_def
      defaultFinishState_excution_def)


theorem default_finish_never_finishes_witness:
  "aStateMachine_update demo_run demo_check (demo_sm\<lparr>current := Some DefaultFinishState\<rparr>) [] =
     Inr (demo_sm\<lparr>current := Some DefaultFinishState\<rparr>, []) \<and>
   \<not> finished (demo_sm\<lparr>current := Some DefaultFinishState\<rparr>)"
proof -
  let ?sm = "demo_sm\<lparr>current := Some DefaultFinishState\<rparr>"
  have u: "aStateMachine_update demo_run demo_check ?sm [] = Inr (?sm, [])"
    by (simp add: aStateMachine_update_def demo_sm_def aState_Init_def)
  have "machine_run demo_run demo_check (?sm, []) (?sm, [])"
    by (rule run_update [OF run_refl u])
  from default_finish_never_finishes [OF _ _ _ _ this, of True 3 demo_sm 1] u show ?thesis
    by (simp add: demo_sm_def aStateMachine_Init_def)
qed

end
