(* ===== verification/Varcmd.thy ===== *)
theory Varcmd
  imports Prelude
begin

section \<open>The shell's variable command (apid_exfunc.c)\<close>

text \<open>
  Variables are registered with a name, an address and a type in a linked list, and the
  shell command \<open>var\<close> shows them, sets them to a number or copies one to another. The
  linked list is the list of its nodes in order; memory is a map from addresses to bytes.
  Parsing numbers (\<open>atoi\<close>, \<open>atof\<close>) and the representation of floating-point numbers are
  parameters. What the command logs is its result.
\<close>

subsection \<open>Data\<close>

datatype var_type_e = Var8 | Var16 | Var32 | Var64 | VarF | VarLf

fun type_size :: "var_type_e \<Rightarrow> nat" where
  "type_size Var8 = 1"
| "type_size Var16 = 2"
| "type_size Var32 = 4"
| "type_size Var64 = 8"
| "type_size VarF = 4"
| "type_size VarLf = 8"

record var_list_t =
  v_name :: string
  v_body :: nat
  v_type :: var_type_e

record var_state =
  var_nodes :: "var_list_t list"
  var_mem :: "nat \<Rightarrow> u8"

record numbers =
  atoi :: "string \<Rightarrow> int"
  atof_float :: "string \<Rightarrow> u8 list"
  atof_double :: "string \<Rightarrow> u8 list"

datatype var_out =
    ListedAll "string list"
  | ParamError
  | NoSuchVariable
  | NoSuchSecond
  | Shown string "u8 list"

definition peek_mem :: "(nat \<Rightarrow> u8) \<Rightarrow> nat \<Rightarrow> nat \<Rightarrow> u8 list" where
  "peek_mem h a n = map h [a..<a + n]"

definition poke_mem :: "(nat \<Rightarrow> u8) \<Rightarrow> nat \<Rightarrow> u8 list \<Rightarrow> nat \<Rightarrow> u8" where
  "poke_mem h a bs = (\<lambda>x. if a \<le> x \<and> x < a + length bs then bs ! (x - a) else h x)"

text \<open>The \<open>n\<close> low bytes of a two's complement number, least significant first.\<close>

definition le_bytes :: "nat \<Rightarrow> int \<Rightarrow> u8 list" where
  "le_bytes n i = map (\<lambda>k. of_int (i div 256 ^ k)) [0..<n]"

subsection \<open>Registration\<close>

text \<open>
  \<open>got_node\<close> and \<open>got_name\<close> say whether the two allocations succeed; the second is not
  tested before the name is copied into it. A null address or name is ignored.
\<close>

definition var_register ::
    "bool \<Rightarrow> bool \<Rightarrow> var_state \<Rightarrow> nat option \<Rightarrow> string option \<Rightarrow> var_type_e \<Rightarrow> var_state res" where
  "var_register got_node got_name st var name ty =
     (if \<not> got_node then Inr st
      else
        (case var of
           None \<Rightarrow> Inr st
         | Some a \<Rightarrow>
             (case name of
                None \<Rightarrow> Inr st
              | Some n \<Rightarrow>
                  if \<not> got_name then Inl NullDeref
                  else Inr (st\<lparr>var_nodes := var_nodes st @ [\<lparr>v_name = n, v_body = a, v_type = ty\<rparr>]\<rparr>))))"

text \<open>\<open>%d\<close> of a number that is not negative.\<close>

fun dec :: "nat \<Rightarrow> string" where
  "dec n = (if n < 10 then [char_of (48 + n)] else dec (n div 10) @ [char_of (48 + n mod 10)])"

declare dec.simps [simp del]

text \<open>\<open>sprintf (name1, "%s[%d]", name, i)\<close> into a buffer of 20 characters, with the final zero.\<close>

definition element_name :: "string \<Rightarrow> nat \<Rightarrow> string res" where
  "element_name name i =
     (let s = name @ ''['' @ dec i @ '']'' in
      if length s + 1 \<le> 20 then Inr s else Inl OutOfBounds)"

fun arr_loop :: "(nat \<Rightarrow> bool \<times> bool) \<Rightarrow> var_state \<Rightarrow> nat \<Rightarrow> string \<Rightarrow> var_type_e \<Rightarrow> nat list \<Rightarrow> var_state res" where
  "arr_loop got st a name ty [] = Inr st"
| "arr_loop got st a name ty (i # is) =
     bind_res (element_name name i) (\<lambda>n.
     bind_res (var_register (fst (got i)) (snd (got i)) st (Some (a + i * type_size ty)) (Some n) ty) (\<lambda>st'.
     arr_loop got st' a name ty is))"

definition var_arr_register ::
    "(nat \<Rightarrow> bool \<times> bool) \<Rightarrow> var_state \<Rightarrow> nat \<Rightarrow> string \<Rightarrow> var_type_e \<Rightarrow> int \<Rightarrow> var_state res" where
  "var_arr_register got st a name ty sz = arr_loop got st a name ty [0..<nat sz]"

subsection \<open>The command\<close>

text \<open>
  The two searches: \<open>while (0 != strcmp (name, v->name))\<close> with the end of the list tested only
  after a step, so that an empty list is dereferenced.
\<close>

fun var_search :: "string \<Rightarrow> var_list_t list \<Rightarrow> var_list_t option res" where
  "var_search name [] = Inl NullDeref"
| "var_search name (v # vs) =
     (if name = v_name v then Inr (Some v)
      else if vs = [] then Inr None
      else var_search name vs)"

definition parsed :: "numbers \<Rightarrow> var_type_e \<Rightarrow> string \<Rightarrow> u8 list" where
  "parsed num ty s =
     (case ty of
        Var8 \<Rightarrow> le_bytes 1 (atoi num s)
      | Var16 \<Rightarrow> le_bytes 2 (atoi num s)
      | Var32 \<Rightarrow> le_bytes 4 (atoi num s)
      | Var64 \<Rightarrow> le_bytes 8 (atoi num s)
      | VarF \<Rightarrow> atof_float num s
      | VarLf \<Rightarrow> atof_double num s)"

text \<open>A 64-bit variable is logged as its low 32 bits.\<close>

definition shown_size :: "var_type_e \<Rightarrow> nat" where
  "shown_size ty = (if ty = Var64 then 4 else type_size ty)"

definition var_access ::
    "numbers \<Rightarrow> var_state \<Rightarrow> string list \<Rightarrow> var_list_t \<Rightarrow> var_list_t option \<Rightarrow> var_out \<times> var_state" where
  "var_access num st argv v second =
     (let st' =
        (case second of
           None \<Rightarrow>
             if length argv = 3
             then st\<lparr>var_mem := poke_mem (var_mem st) (v_body v) (parsed num (v_type v) (argv ! 2))\<rparr>
             else st
         | Some w \<Rightarrow>
             st\<lparr>var_mem := poke_mem (var_mem st) (v_body v)
                              (peek_mem (var_mem st) (v_body w) (type_size (v_type v)))\<rparr>)
      in (Shown (v_name v) (peek_mem (var_mem st') (v_body v) (shown_size (v_type v))), st'))"

definition var :: "numbers \<Rightarrow> var_state \<Rightarrow> string list \<Rightarrow> (var_out \<times> var_state) res" where
  "var num st argv =
     (if length argv = 1 then Inr (ListedAll (map v_name (var_nodes st)), st)
      else if length argv > 4 then Inr (ParamError, st)
      else if length argv = 0 then Inl OutOfBounds
      else if argv ! 1 = ''all'' then Inr (ListedAll (map v_name (var_nodes st)), st)
      else
        bind_res (var_search (argv ! 1) (var_nodes st)) (\<lambda>r.
        case r of
          None \<Rightarrow> Inr (NoSuchVariable, st)
        | Some v \<Rightarrow>
            if length argv = 4 \<and> argv ! 2 = ''='' then
              bind_res (var_search (argv ! 3) (var_nodes st)) (\<lambda>r2.
              case r2 of
                None \<Rightarrow> Inr (NoSuchSecond, st)
              | Some w \<Rightarrow> Inr (var_access num st argv v (Some w)))
            else Inr (var_access num st argv v None)))"

subsection \<open>Lemmas\<close>

lemma var_search_find:
  "vs \<noteq> [] \<Longrightarrow> var_search name vs = Inr (List.find (\<lambda>v. v_name v = name) vs)"
  by (induction name vs rule: var_search.induct) auto

lemma length_parsed:
  assumes "length (atof_float num s) = 4" and "length (atof_double num s) = 8"
  shows "length (parsed num ty s) = type_size ty"
  using assms by (cases ty) (simp_all add: parsed_def le_bytes_def)

lemma length_peek [simp]: "length (peek_mem h a n) = n"
  by (simp add: peek_mem_def)

lemma peek_poke: "length bs = n \<Longrightarrow> peek_mem (poke_mem h a bs) a n = bs"
  by (auto simp: peek_mem_def poke_mem_def intro: nth_equalityI)

lemma poke_other: "x < a \<or> a + length bs \<le> x \<Longrightarrow> poke_mem h a bs x = h x"
  by (auto simp: poke_mem_def)

subsection \<open>Properties\<close>

text \<open>
  C40: After registering a variable under a name that no earlier one has, \<open>var name number\<close>
  finds it and stores the number, truncated to the variable's type, in exactly the bytes of
  that variable; every other byte of memory and the list of variables stay as they were.
  \<open>var name = other\<close> copies as many bytes as the first variable has from the other one.
\<close>

theorem var_sets_registered:
  assumes "list_all (\<lambda>v. v_name v \<noteq> name) (var_nodes st)" and "name \<noteq> ''all''"
    and "\<forall>s. length (atof_float num s) = 4 \<and> length (atof_double num s) = 8"
    and "w \<in> set (var_nodes st)" and "distinct (map v_name (var_nodes st))"
  shows "\<exists>st1 out st2 out' st3. var_register True True st (Some a) (Some name) ty = Inr st1 \<and>
    var num st1 [cmd, name, s] = Inr (out, st2) \<and>
    peek_mem (var_mem st2) a (type_size ty) = parsed num ty s \<and>
    (\<forall>x. x < a \<or> a + type_size ty \<le> x \<longrightarrow> var_mem st2 x = var_mem st x) \<and>
    var_nodes st2 = var_nodes st @ [\<lparr>v_name = name, v_body = a, v_type = ty\<rparr>] \<and>
    var num st1 [cmd, name, ''='', v_name w] = Inr (out', st3) \<and>
    peek_mem (var_mem st3) a (type_size ty) = peek_mem (var_mem st) (v_body w) (type_size ty) \<and>
    (\<forall>x. x < a \<or> a + type_size ty \<le> x \<longrightarrow> var_mem st3 x = var_mem st x)"
proof -
  let ?v = "\<lparr>v_name = name, v_body = a, v_type = ty\<rparr>"
  let ?st1 = "st\<lparr>var_nodes := var_nodes st @ [?v]\<rparr>"
  have l: "length (parsed num ty s) = type_size ty" using length_parsed assms(3) by blast
  have "List.find (\<lambda>v. v_name v = name) (vs @ [?v]) = Some ?v"
    if "list_all (\<lambda>v. v_name v \<noteq> name) vs" for vs using that by (induction vs) auto
  then have f: "var_search name (var_nodes st @ [?v]) = Inr (Some ?v)"
    using assms(1) by (simp add: var_search_find)
  have "List.find (\<lambda>v. v_name v = v_name w) (vs @ [?v]) = Some w"
    if "w \<in> set vs" "distinct (map v_name vs)" for vs
    using that by (induction vs) (auto simp: image_iff)
  then have g: "var_search (v_name w) (var_nodes st @ [?v]) = Inr (Some w)"
    using assms(4,5) by (simp add: var_search_find)
  have "var_register True True st (Some a) (Some name) ty = Inr ?st1" by (simp add: var_register_def)
  moreover have "var num ?st1 [cmd, name, s] =
      Inr (Shown name (peek_mem (poke_mem (var_mem st) a (parsed num ty s)) a (shown_size ty)),
           ?st1\<lparr>var_mem := poke_mem (var_mem st) a (parsed num ty s)\<rparr>)"
    using f assms(2) by (simp add: var_def var_access_def Let_def)
  moreover have "\<exists>out'. var num ?st1 [cmd, name, ''='', v_name w] =
      Inr (out', ?st1\<lparr>var_mem := poke_mem (var_mem st) a (peek_mem (var_mem st) (v_body w) (type_size ty))\<rparr>)"
    using f g assms(2) by (simp add: var_def var_access_def Let_def)
  ultimately show ?thesis
    using l by (fastforce simp: peek_poke poke_other)
qed

definition demo_num :: numbers where
  "demo_num = \<lparr>atoi = (\<lambda>s. int (length s)), atof_float = (\<lambda>_. [0, 0, 128, 63]),
               atof_double = (\<lambda>_. replicate 8 0)\<rparr>"

definition demo_vars :: var_state where
  "demo_vars = \<lparr>var_nodes = [\<lparr>v_name = ''kp'', v_body = 0, v_type = VarF\<rparr>], var_mem = (\<lambda>_. 9)\<rparr>"

theorem var_sets_registered_witness:
  "\<exists>st1 out st2. var_register True True demo_vars (Some 100) (Some ''speed'') Var16 = Inr st1 \<and>
     var demo_num st1 [''var'', ''speed'', ''123''] = Inr (out, st2) \<and>
     peek_mem (var_mem st2) 100 2 = parsed demo_num Var16 ''123''"
  using var_sets_registered [of "''speed''" demo_vars demo_num "\<lparr>v_name = ''kp'', v_body = 0, v_type = VarF\<rparr>"
      100 Var16 "''var''" "''123''"]
  by (auto simp: demo_vars_def demo_num_def)

text \<open>
  The unchecked cases: with no variable registered, asking for one by name reads through
  a null pointer; and registering an array whose name has 17 or more characters writes behind
  the 20-character buffer of the element names.
\<close>

theorem var_unchecked_cases:
  "(var_nodes st = [] \<and> length argv \<in> {2, 3, 4} \<and> argv ! 1 \<noteq> ''all'' \<longrightarrow>
      var num st argv = Inl NullDeref) \<and>
   (17 \<le> length name \<and> 0 < n \<longrightarrow> var_arr_register got st a name ty n = Inl OutOfBounds)"
proof (intro conjI impI)
  show "var num st argv = Inl NullDeref"
    if "var_nodes st = [] \<and> length argv \<in> {2, 3, 4} \<and> argv ! 1 \<noteq> ''all''"
    using that by (auto simp: var_def)
  assume "17 \<le> length name \<and> 0 < n"
  then have "[0..<nat n] = 0 # [1..<nat n]" "element_name name 0 = Inl OutOfBounds"
    by (simp_all add: upt_rec element_name_def dec.simps)
  then show "var_arr_register got st a name ty n = Inl OutOfBounds"
    by (simp add: var_arr_register_def)
qed

theorem var_unchecked_cases_witness:
  "var demo_num (demo_vars\<lparr>var_nodes := []\<rparr>) [''var'', ''kp''] = Inl NullDeref \<and>
   var_arr_register (\<lambda>_. (True, True)) demo_vars 0 ''chassis_motor_pid'' VarF 4 = Inl OutOfBounds"
  using var_unchecked_cases [of "demo_vars\<lparr>var_nodes := []\<rparr>" "[''var'', ''kp'']" demo_num]
    var_unchecked_cases [of demo_vars "[]" demo_num "''chassis_motor_pid''" 4 "\<lambda>_. (True, True)" 0 VarF]
  by simp

end
