(* ===== verification/Action.thy ===== *)
theory Action
  imports Prelude
begin

section \<open>The receiver of the positioning sensor (drv_action.c)\<close>

text \<open>
  The sensor sends frames \<open>0d 0a\<close>, 24 bytes, \<open>0a 0d\<close>. \<open>Data_Analyse\<close> is a state machine fed
  byte by byte; its static variables and the six floats of the module are the record below.
  A float is the list of the four bytes the sensor sent for it. The serial device is a
  parameter: \<open>read\<close> delivers the next byte, if there is one.
\<close>

subsection \<open>Data and operations\<close>

record action_state =
  pos_x :: "u8 list"
  pos_y :: "u8 list"
  zangle :: "u8 list"
  xangle :: "u8 list"
  yangle :: "u8 list"
  w_z :: "u8 list"
  an_ch :: u8
  an_date :: "u8 list"
  an_count :: u8
  an_i :: u8

definition action_zero :: action_state where
  "action_zero = \<lparr>pos_x = replicate 4 0, pos_y = replicate 4 0, zangle = replicate 4 0,
     xangle = replicate 4 0, yangle = replicate 4 0, w_z = replicate 4 0,
     an_ch = 0, an_date = replicate 24 0, an_count = 0, an_i = 0\<rparr>"

text \<open>\<open>posture.ActVal[k]\<close>: the four bytes of the union at that float.\<close>

definition ActVal :: "action_state \<Rightarrow> nat \<Rightarrow> u8 list" where
  "ActVal s k = take 4 (drop (4 * k) (an_date s))"

definition Data_Analyse :: "action_state \<Rightarrow> u8 \<Rightarrow> action_state res" where
  "Data_Analyse s0 rec =
     (let s = s0\<lparr>an_ch := rec\<rparr>; ch = an_ch s in
      if an_count s = 0 then
        Inr (if ch = 0x0d then s\<lparr>an_count := an_count s + 1\<rparr> else s\<lparr>an_count := 0\<rparr>)
      else if an_count s = 1 then
        Inr (if ch = 0x0a then s\<lparr>an_i := 0, an_count := an_count s + 1\<rparr>
             else if ch = 0x0d then s
             else s\<lparr>an_count := 0\<rparr>)
      else if an_count s = 2 then
        (if unat (an_i s) < length (an_date s) then
           let s1 = s\<lparr>an_date := (an_date s)[unat (an_i s) := ch], an_i := an_i s + 1\<rparr> in
           Inr (if an_i s1 \<ge> 24 then s1\<lparr>an_i := 0, an_count := an_count s1 + 1\<rparr> else s1)
         else Inl OutOfBounds)
      else if an_count s = 3 then
        Inr (if ch = 0x0a then s\<lparr>an_count := an_count s + 1\<rparr> else s\<lparr>an_count := 0\<rparr>)
      else if an_count s = 4 then
        let s1 = (if ch = 0x0d then
                    s\<lparr>zangle := ActVal s 0, xangle := ActVal s 1, yangle := ActVal s 2,
                      pos_x := ActVal s 3, pos_y := ActVal s 4, w_z := ActVal s 5\<rparr>
                  else s)
        in Inr (s1\<lparr>an_count := 0\<rparr>)
      else Inr (s\<lparr>an_count := 0\<rparr>))"

text \<open>The interrupt handler: it reads \<open>size\<close> bytes, or stops when the device has no more.\<close>

fun action_rx_ind :: "('d \<Rightarrow> (u8 \<times> 'd) option) \<Rightarrow> 'd \<Rightarrow> action_state \<Rightarrow> nat \<Rightarrow> (action_state \<times> 'd) res" where
  "action_rx_ind read dev s 0 = Inr (s, dev)"
| "action_rx_ind read dev s (Suc sz) =
     (case read dev of
        None \<Rightarrow> Inr (s, dev)
      | Some (b, dev') \<Rightarrow> bind_res (Data_Analyse s b) (\<lambda>s'. action_rx_ind read dev' s' sz))"

text \<open>\<open>Action_set_zero\<close> writes the four letters and, with \<open>sizeof\<close>, the final zero.\<close>

definition Action_set_zero :: "u8 list" where
  "Action_set_zero = [0x41, 0x43, 0x54, 0x4f, 0x00]"

text \<open>\<open>Action_Init\<close>: the result and whether the handler was installed.\<close>

definition Action_Init :: "bool \<Rightarrow> bool \<Rightarrow> bool \<Rightarrow> int \<times> bool" where
  "Action_Init found opened set_rx =
     (if \<not> found then (- 1, False)
      else if \<not> opened then (- 1, False)
      else if \<not> set_rx then (- 1, False)
      else (0, True))"

fun feed :: "action_state \<Rightarrow> u8 list \<Rightarrow> action_state res" where
  "feed s [] = Inr s"
| "feed s (b # bs) = bind_res (Data_Analyse s b) (\<lambda>s'. feed s' bs)"

subsection \<open>Invariant\<close>

definition floats :: "action_state \<Rightarrow> u8 list list" where
  "floats s = [zangle s, xangle s, yangle s, pos_x s, pos_y s, w_z s]"

definition action_inv :: "action_state \<Rightarrow> bool" where
  "action_inv s \<longleftrightarrow> length (an_date s) = 24 \<and> unat (an_count s) \<le> 4 \<and> unat (an_i s) < 24"

lemma less_24: "unat (i::u8) < 24 \<Longrightarrow> unat (i + 1) = unat i + 1"
  by (simp add: unat_word_ariths)

lemma Data_Analyse_inv [inv_intros]:
  assumes "action_inv s"
  shows "\<exists>s'. Data_Analyse s b = Inr s' \<and> action_inv s'"
proof -
  have i: "unat (an_i s + 1) = unat (an_i s) + 1" using assms by (simp add: action_inv_def less_24)
  show ?thesis
    using assms i by (auto simp: Data_Analyse_def Let_def action_inv_def word_le_nat_alt)
qed

lemma feed_append: "feed s (xs @ ys) = bind_res (feed s xs) (\<lambda>s'. feed s' ys)"
  by (induction xs arbitrary: s) (auto simp: bind_res_def split: sum.splits)

text \<open>Feeding the payload fills the buffer from the front.\<close>

lemma feed_payload:
  assumes "an_count s = 2" and "length (an_date s) = 24" and "unat (an_i s) + length ds = 24" and "ds \<noteq> []"
  shows "\<exists>s'. feed s ds = Inr s' \<and> an_count s' = 3 \<and> an_date s' = take (unat (an_i s)) (an_date s) @ ds \<and>
    floats s' = floats s \<and> an_i s' = 0"
  using assms
proof (induction ds arbitrary: s)
  case Nil
  then show ?case by simp
next
  case (Cons d ds)
  have lt: "unat (an_i s) < 24" using Cons.prems(3) by simp
  note i = less_24 [OF lt]
  let ?s1 = "s\<lparr>an_ch := d, an_date := (an_date s)[unat (an_i s) := d], an_i := an_i s + 1\<rparr>"
  show ?case
  proof (cases "ds = []")
    case True
    then have "unat (an_i s) = 23" using Cons.prems(3) by simp
    moreover have "(an_date s)[23 := d] = take 23 (an_date s) @ [d]"
      using Cons.prems(2) by (simp add: upd_conv_take_nth_drop)
    ultimately show ?thesis
      using True Cons.prems(1,2) i by (simp add: Data_Analyse_def word_le_nat_alt floats_def)
  next
    case False
    then have small: "unat (an_i s) + 1 < 24" using Cons.prems(3) by (cases ds) auto
    then have step: "Data_Analyse s d = Inr ?s1"
      using Cons.prems(1,2) i lt by (simp add: Data_Analyse_def word_le_nat_alt)
    have "take (unat (an_i s) + 1) ((an_date s)[unat (an_i s) := d]) = take (unat (an_i s)) (an_date s) @ [d]"
      using Cons.prems(2) lt by (simp add: take_Suc_conv_app_nth)
    with Cons.IH [of ?s1] Cons.prems False i step show ?thesis by (simp add: floats_def)
  qed
qed

lemma feed_junk:
  assumes "action_inv s" and "an_count s = 0" and "0x0d \<notin> set junk"
  shows "\<exists>s1. feed s junk = Inr s1 \<and> an_count s1 = 0 \<and> action_inv s1 \<and> floats s1 = floats s"
  using assms
proof (induction junk arbitrary: s)
  case Nil
  then show ?case by simp
next
  case (Cons b junk)
  let ?s = "s\<lparr>an_ch := b, an_count := 0\<rparr>"
  have "Data_Analyse s b = Inr ?s" using Cons.prems by (auto simp: Data_Analyse_def)
  moreover have "action_inv ?s" "floats ?s = floats s"
    using Cons.prems(1) by (simp_all add: action_inv_def floats_def)
  ultimately show ?case using Cons.IH [of ?s] Cons.prems(3) by auto
qed

subsection \<open>Properties\<close>

text \<open>
  Whatever bytes arrive, the receiver never writes outside its 24-byte buffer: from any
  well-formed state, in particular the initial one, every byte sequence is consumed and
  leaves a well-formed state.
\<close>

theorem action_feed_safe:
  assumes "action_inv s"
  shows "\<exists>s'. feed s bs = Inr s' \<and> action_inv s' \<and> action_inv action_zero"
  using assms
proof (induction bs arbitrary: s)
  case Nil
  then show ?case by (simp add: action_inv_def action_zero_def)
next
  case (Cons b bs)
  from Data_Analyse_inv [OF Cons.prems, of b] obtain s1 where
    "Data_Analyse s b = Inr s1" "action_inv s1" by blast
  with Cons.IH show ?case by auto
qed

theorem action_feed_safe_witness:
  "\<exists>s'. feed action_zero [0x0d, 0x0d, 0x0a, 7] = Inr s' \<and> action_inv s'"
  using action_feed_safe [of action_zero "[0x0d, 0x0d, 0x0a, 7]"]
  by (auto simp: action_inv_def action_zero_def)

text \<open>
  C23: A frame is decoded: from a waiting receiver, after any bytes without \<open>0d\<close>, the header,
  24 payload bytes and the trailer set the six floats to the six groups of four payload bytes
  in the order z angle, x angle, y angle, x, y, z rate, and the receiver waits for the next
  frame; with any other byte in the place of the last one the floats keep their values.
\<close>

theorem action_frame_decoded:
  assumes "action_inv s" and "an_count s = 0" and "0x0d \<notin> set junk" and "length ds = 24"
  shows "\<exists>s'. feed s (junk @ [0x0d, 0x0a] @ ds @ [0x0a, b]) = Inr s' \<and> an_count s' = 0 \<and> action_inv s' \<and>
    (b = 0x0d \<longrightarrow> floats s' = map (\<lambda>k. take 4 (drop (4 * k) ds)) [0..<6]) \<and>
    (b \<noteq> 0x0d \<longrightarrow> floats s' = floats s)"
proof -
  obtain s1 where s1: "feed s junk = Inr s1" "an_count s1 = 0" "action_inv s1" "floats s1 = floats s"
    using feed_junk [OF assms(1-3)] by blast
  let ?s2 = "s1\<lparr>an_ch := 0x0a, an_count := 2, an_i := 0\<rparr>"
  have head: "feed s1 [0x0d, 0x0a] = Inr ?s2"
    using s1(2) by (simp add: Data_Analyse_def)
  have len: "length (an_date ?s2) = 24" using s1(3) by (simp add: action_inv_def)
  have "ds \<noteq> []" using assms(4) by auto
  with feed_payload [of ?s2 ds] len assms(4) obtain s3 where
    s3: "feed ?s2 ds = Inr s3" "an_count s3 = 3" "an_date s3 = ds" "floats s3 = floats s" "an_i s3 = 0"
    using s1(4) by (auto simp: floats_def)
  have tail: "\<exists>s'. feed s3 [0x0a, b] = Inr s' \<and> an_count s' = 0 \<and> action_inv s' \<and>
    (b = 0x0d \<longrightarrow> floats s' = map (\<lambda>k. take 4 (drop (4 * k) ds)) [0..<6]) \<and> (b \<noteq> 0x0d \<longrightarrow> floats s' = floats s)"
    using s3 assms(4) by (simp add: Data_Analyse_def ActVal_def action_inv_def floats_def upt_rec Let_def)
  show ?thesis
    using s1(1) head s3(1) tail by (simp only: feed_append bind_res_Inr)
qed

theorem action_frame_decoded_witness:
  "\<exists>s'. feed action_zero ([1, 2] @ [0x0d, 0x0a] @ replicate 24 5 @ [0x0a, 0x0d]) = Inr s' \<and>
     an_count s' = 0"
  using action_frame_decoded [of action_zero "[1, 2]" "replicate 24 5" "0x0d"]
  by (force simp: action_inv_def action_zero_def)

end
