(* ===== verification/Sbus.thy ===== *)
theory Sbus
  imports Prelude
begin

section \<open>The remote control receiver (bsp_sbus.c)\<close>

text \<open>
  An SBUS frame is the byte \<open>0f\<close>, 22 bytes with sixteen channels of 11 bits, least
  significant bit first, and two more bytes. The configuration \<open>DJI == 0\<close> is modelled. The
  serial device is a parameter: \<open>read dev n\<close> delivers up to \<open>n\<close> bytes and the device
  afterwards. Channels are \<open>int16_t\<close>, words of 16 bits read as signed.
\<close>

subsection \<open>Data\<close>

record rc_info_t =
  ch1 :: u16
  ch2 :: u16
  ch3 :: u16
  ch4 :: u16
  ch5 :: u16
  ch6 :: u16
  ch7 :: u16
  ch8 :: u16
  ch9 :: u16
  ch10 :: u16
  ch11 :: u16
  ch12 :: u16
  ch13 :: u16
  ch14 :: u16
  ch15 :: u16
  ch16 :: u16
  sw1 :: u8
  sw2 :: u8

definition DBUS_MAX_LEN :: nat where "DBUS_MAX_LEN = 25"

subsection \<open>Decoding\<close>

text \<open>The three-position switch a channel stands for, and the dead zone of a stick.\<close>

definition sw_value :: "u16 \<Rightarrow> u16" where
  "sw_value c = (if sint c > 1600 then 1 else if sint c < 400 then 3 else 2)"

definition sw_judge :: "rc_info_t \<Rightarrow> rc_info_t" where
  "sw_judge rc = rc\<lparr>ch5 := sw_value (ch5 rc), ch6 := sw_value (ch6 rc), ch7 := sw_value (ch7 rc),
     ch8 := sw_value (ch8 rc), ch9 := sw_value (ch9 rc), ch10 := sw_value (ch10 rc),
     ch11 := sw_value (ch11 rc), ch12 := sw_value (ch12 rc)\<rparr>"

definition dead_zone :: "u16 \<Rightarrow> u16" where
  "dead_zone c = (if sint c < 15 \<and> sint c > - 15 then 0 else c)"

definition raw_channels :: "u8 list \<Rightarrow> u16 list" where
  "raw_channels buff =
     (let b = (\<lambda>i m. ucast (buff ! i AND m) :: u16);
          shr = (\<lambda>i m n. ucast (drop_bit n (buff ! i AND m)) :: u16)
      in
      [ucast (buff ! 1) OR push_bit 8 (b 2 0x07),
       shr 2 0xf8 3 OR push_bit 5 (b 3 0x3f),
       shr 3 0xc0 6 OR push_bit 2 (ucast (buff ! 4)) OR push_bit 10 (b 5 0x01),
       shr 5 0xfe 1 OR push_bit 7 (b 6 0x0f),
       shr 6 0xf0 4 OR push_bit 4 (b 7 0x7f),
       shr 7 0x80 7 OR push_bit 1 (ucast (buff ! 8)) OR push_bit 9 (b 9 0x03),
       shr 9 0xfc 2 OR push_bit 6 (b 10 0x1f),
       shr 10 0xe0 5 OR push_bit 3 (ucast (buff ! 11)),
       ucast (buff ! 12) OR push_bit 8 (b 13 0x07),
       shr 13 0xf8 3 OR push_bit 5 (b 14 0x3f),
       shr 14 0xc0 6 OR push_bit 2 (ucast (buff ! 15)) OR push_bit 10 (b 16 0x01),
       shr 16 0xfe 1 OR push_bit 7 (b 17 0x0f),
       shr 17 0xf0 4 OR push_bit 4 (b 18 0x7f),
       shr 18 0x80 7 OR push_bit 1 (ucast (buff ! 19)) OR push_bit 9 (b 20 0x03),
       shr 20 0xfc 2 OR push_bit 6 (b 21 0x1f),
       shr 21 0xe0 5 OR push_bit 3 (ucast (buff ! 22))])"

definition rc_callback_handler :: "rc_info_t \<Rightarrow> u8 list \<Rightarrow> rc_info_t res" where
  "rc_callback_handler rc0 buff =
     (if length buff < 23 then Inl OutOfBounds
      else
        let c = raw_channels buff;
            rc = rc0\<lparr>ch1 := c ! 0 - 1024, ch2 := c ! 1 - 1024, ch3 := c ! 2 - 1024,
                     ch4 := c ! 3 - 1024, ch5 := c ! 4, ch6 := c ! 5, ch7 := c ! 6, ch8 := c ! 7,
                     ch9 := c ! 8, ch10 := c ! 9, ch11 := c ! 10, ch12 := c ! 11,
                     ch13 := c ! 12 - 1024, ch14 := c ! 13 - 1024, ch15 := c ! 14 - 1024,
                     ch16 := c ! 15 - 1024\<rparr>;
            rc1 = sw_judge rc
        in Inr (rc1\<lparr>ch1 := dead_zone (ch1 rc1), ch2 := dead_zone (ch2 rc1),
                    ch3 := dead_zone (ch3 rc1), ch4 := dead_zone (ch4 rc1)\<rparr>))"

subsection \<open>Receiving\<close>

record sbus_state =
  dbus_buf :: "u8 list"
  rc_data :: rc_info_t
  rx_state :: u8

text \<open>The interrupt handler; \<open>avail\<close> is the number of bytes the device holds.\<close>

definition dbus_uart_rx_ind ::
    "('d \<Rightarrow> nat \<Rightarrow> u8 list \<times> 'd) \<Rightarrow> 'd \<Rightarrow> sbus_state \<Rightarrow> nat \<Rightarrow> (sbus_state \<times> 'd) res" where
  "dbus_uart_rx_ind read dev s avail =
     (if rx_state s = 0 then
        let (bs, dev') = read dev 1 in
        bind_res (memcpy (dbus_buf s) 0 bs 0 (length bs)) (\<lambda>buf.
        let s1 = s\<lparr>dbus_buf := buf\<rparr> in
        Inr (if dbus_buf s1 ! 0 = 0x0f then s1\<lparr>rx_state := 1\<rparr> else s1, dev'))
      else if rx_state s = 1 then
        (if avail \<ge> 24 then
           let (bs, dev') = read dev 24 in
           bind_res (memcpy (dbus_buf s) 1 bs 0 (length bs)) (\<lambda>buf.
           bind_res (rc_callback_handler (rc_data s) buf) (\<lambda>rc.
           Inr (s\<lparr>dbus_buf := buf, rx_state := 0, rc_data := rc\<rparr>, dev')))
         else Inr (s, dev))
      else Inr (s, dev))"

definition get_remote_control_point :: "sbus_state \<Rightarrow> rc_info_t" where
  "get_remote_control_point s = rc_data s"

definition dbus_uart_init :: "bool \<Rightarrow> bool \<Rightarrow> bool \<Rightarrow> bool \<Rightarrow> int \<times> bool" where
  "dbus_uart_init found opened configured set_rx =
     (if \<not> found then (- 1, False)
      else if \<not> opened then (- 1, False)
      else if \<not> set_rx then (- 1, False)
      else (0, True))"

subsection \<open>Encoding, as the transmitter does\<close>

definition frame_bit :: "u16 list \<Rightarrow> nat \<Rightarrow> bool" where
  "frame_bit cs n = bit (cs ! (n div 11)) (n mod 11)"

definition frame_byte :: "u16 list \<Rightarrow> nat \<Rightarrow> u8" where
  "frame_byte cs k = horner_sum of_bool 2 (map (\<lambda>j. frame_bit cs (8 * k + j)) [0..<8])"

definition sbus_frame :: "u16 list \<Rightarrow> u8 list \<Rightarrow> u8 list" where
  "sbus_frame cs rest = 0x0f # map (frame_byte cs) [0..<22] @ rest"

lemma bit_frame_byte: "bit (frame_byte cs k) j \<longleftrightarrow> j < 8 \<and> frame_bit cs (8 * k + j)"
  by (auto simp: frame_byte_def bit_horner_sum_bit_word_iff)

lemma nth_sbus_frame: "k < 22 \<Longrightarrow> sbus_frame cs rest ! Suc k = frame_byte cs k"
  by (simp add: sbus_frame_def nth_append)

lemma eq_u16:
  "bit a 0 = bit b 0 \<Longrightarrow>
   bit a 1 = bit b 1 \<Longrightarrow>
   bit a 2 = bit b 2 \<Longrightarrow>
   bit a 3 = bit b 3 \<Longrightarrow>
   bit a 4 = bit b 4 \<Longrightarrow>
   bit a 5 = bit b 5 \<Longrightarrow>
   bit a 6 = bit b 6 \<Longrightarrow>
   bit a 7 = bit b 7 \<Longrightarrow>
   bit a 8 = bit b 8 \<Longrightarrow>
   bit a 9 = bit b 9 \<Longrightarrow>
   bit a 10 = bit b 10 \<Longrightarrow>
   bit a 11 = bit b 11 \<Longrightarrow>
   bit a 12 = bit b 12 \<Longrightarrow>
   bit a 13 = bit b 13 \<Longrightarrow>
   bit a 14 = bit b 14 \<Longrightarrow>
   bit a 15 = bit b 15 \<Longrightarrow>
   a = (b::u16)"
proof (rule bit_word_eqI)
  fix n
  assume all: "bit a 0 = bit b 0" "bit a 1 = bit b 1" "bit a 2 = bit b 2" "bit a 3 = bit b 3" "bit a 4 = bit b 4" "bit a 5 = bit b 5" "bit a 6 = bit b 6" "bit a 7 = bit b 7"
    "bit a 8 = bit b 8" "bit a 9 = bit b 9" "bit a 10 = bit b 10" "bit a 11 = bit b 11" "bit a 12 = bit b 12" "bit a 13 = bit b 13" "bit a 14 = bit b 14" "bit a 15 = bit b 15"
    and "n < LENGTH(16)"
  then have "n < 16" by simp
  then consider "n < 8" | "n = 8" | "n = 9" | "n = 10" | "n = 11" | "n = 12" | "n = 13" | "n = 14" | "n = 15"
    by linarith
  then show "bit a n = bit b n"
  proof cases
    case 1
    then consider "n = 0" | "n = 1" | "n = 2" | "n = 3" | "n = 4" | "n = 5" | "n = 6" | "n = 7" by linarith
    then show ?thesis by cases (simp_all only: all)
  qed (simp_all only: all)
qed

lemma high_bits: "(c::u16) < 2048 \<Longrightarrow> 11 \<le> n \<Longrightarrow> \<not> bit c n"
proof -
  assume c: "c < 2048" and n: "11 \<le> n"
  then have "take_bit 11 c = c"
    by (simp add: word_unat_eq_iff unsigned_take_bit_eq take_bit_nat_eq_self word_less_nat_alt)
  then have "bit c n \<longleftrightarrow> bit (take_bit 11 c) n" by simp
  with n show "\<not> bit c n" by (simp add: bit_take_bit_iff)
qed

text \<open>The eight channels of eleven bytes, read back from the bytes that carry them.\<close>

lemma unpack_half:
  fixes B :: "nat \<Rightarrow> u8"
  assumes "\<And>k j. k < 11 \<Longrightarrow> bit (B k) j \<longleftrightarrow> j < 8 \<and> bit (X ! ((8 * k + j) div 11)) ((8 * k + j) mod 11)"
    and "\<And>k. k < 8 \<Longrightarrow> X ! k < 2048"
  shows "ucast (B 0) OR push_bit 8 (ucast (B 1 AND 0x07)) = (X ! 0 :: u16)"
    "ucast (drop_bit 3 (B 1 AND 0xf8)) OR push_bit 5 (ucast (B 2 AND 0x3f)) = (X ! 1 :: u16)"
    "ucast (drop_bit 6 (B 2 AND 0xc0)) OR push_bit 2 (ucast (B 3)) OR push_bit 10 (ucast (B 4 AND 0x01)) = (X ! 2 :: u16)"
    "ucast (drop_bit 1 (B 4 AND 0xfe)) OR push_bit 7 (ucast (B 5 AND 0x0f)) = (X ! 3 :: u16)"
    "ucast (drop_bit 4 (B 5 AND 0xf0)) OR push_bit 4 (ucast (B 6 AND 0x7f)) = (X ! 4 :: u16)"
    "ucast (drop_bit 7 (B 6 AND 0x80)) OR push_bit 1 (ucast (B 7)) OR push_bit 9 (ucast (B 8 AND 0x03)) = (X ! 5 :: u16)"
    "ucast (drop_bit 2 (B 8 AND 0xfc)) OR push_bit 6 (ucast (B 9 AND 0x1f)) = (X ! 6 :: u16)"
    "ucast (drop_bit 5 (B 9 AND 0xe0)) OR push_bit 3 (ucast (B 10)) = (X ! 7 :: u16)"
  by (rule eq_u16;
      simp add: bit_simps assms(1) high_bits assms(2) numeral_2_eq_2 [symmetric]
        del: push_bit_Suc)+

lemma nth_frame:
  "sbus_frame cs rest ! 1 = frame_byte cs 0" "k < 22 \<Longrightarrow> sbus_frame cs rest ! (Suc k) = frame_byte cs k"
  "(0::nat) < k \<Longrightarrow> k \<le> 22 \<Longrightarrow> sbus_frame cs rest ! k = frame_byte cs (k - 1)"
  by (cases k; simp add: sbus_frame_def nth_append)+

lemma raw_channels_frame:
  assumes "length cs = 16" and "\<forall>c \<in> set cs. c < 2048"
  shows "raw_channels (sbus_frame cs rest) = cs"
proof -
  have 1: "bit (frame_byte cs k) j \<longleftrightarrow> j < 8 \<and> bit (cs ! ((8 * k + j) div 11)) ((8 * k + j) mod 11)" for k j
    by (simp add: bit_frame_byte frame_bit_def)
  have 2: "bit (frame_byte cs (11 + k)) j \<longleftrightarrow>
      j < 8 \<and> bit (drop 8 cs ! ((8 * k + j) div 11)) ((8 * k + j) mod 11)" for k j
  proof -
    have "8 * (11 + k) + j = (8 * k + j) + 11 * 8" by simp
    then have "(8 * (11 + k) + j) div 11 = 8 + (8 * k + j) div 11"
      "(8 * (11 + k) + j) mod 11 = (8 * k + j) mod 11"
      by (simp_all only: div_mult_self2 mod_mult_self2)
    then show ?thesis using assms(1) by (simp add: bit_frame_byte frame_bit_def)
  qed
  have h1: "cs ! k < 2048" if "k < 8" for k using assms that by simp
  have h2: "drop 8 cs ! k < 2048" if "k < 8" for k using assms that by simp
  note u1 = unpack_half [OF 1 h1] and u2 = unpack_half [OF 2 h2]
  have "raw_channels (sbus_frame cs rest) = map ((!) cs) [0..<16]"
    using u1 u2 assms(1) unfolding raw_channels_def Let_def
    by (simp add: nth_frame(3) upt_rec numeral_2_eq_2 [symmetric] del: push_bit_Suc)
  also have "\<dots> = cs" using assms(1) by (metis map_nth)
  finally show ?thesis .
qed

subsection \<open>Properties\<close>

text \<open>
  C22: The decoder inverts the encoding of the transmitter: from the frame of sixteen channel
  values below 2048, whatever the last two bytes are, channels 1 to 4 come out as the value
  minus 1024, with the values below 15 in magnitude set to 0, channels 5 to 12 as the
  position of a three-way switch, and channels 13 to 16 as the value minus 1024.
\<close>

theorem sbus_decode_roundtrip:
  assumes "length cs = 16" and "\<forall>c \<in> set cs. c < 2048" and "length rest = 2"
  shows "rc_callback_handler rc (sbus_frame cs rest) = Inr (rc\<lparr>
      ch1 := dead_zone (cs ! 0 - 1024), ch2 := dead_zone (cs ! 1 - 1024),
      ch3 := dead_zone (cs ! 2 - 1024), ch4 := dead_zone (cs ! 3 - 1024),
      ch5 := sw_value (cs ! 4), ch6 := sw_value (cs ! 5), ch7 := sw_value (cs ! 6),
      ch8 := sw_value (cs ! 7), ch9 := sw_value (cs ! 8), ch10 := sw_value (cs ! 9),
      ch11 := sw_value (cs ! 10), ch12 := sw_value (cs ! 11),
      ch13 := cs ! 12 - 1024, ch14 := cs ! 13 - 1024, ch15 := cs ! 14 - 1024, ch16 := cs ! 15 - 1024\<rparr>)"
proof -
  have "\<not> length (sbus_frame cs rest) < 23" using assms(3) by (simp add: sbus_frame_def)
  then show ?thesis
    by (simp add: rc_callback_handler_def raw_channels_frame [OF assms(1,2)] sw_judge_def Let_def)
qed

definition rc_zero :: rc_info_t where
  "rc_zero = \<lparr>ch1 = 0, ch2 = 0, ch3 = 0, ch4 = 0, ch5 = 0, ch6 = 0, ch7 = 0, ch8 = 0, ch9 = 0, ch10 = 0,
     ch11 = 0, ch12 = 0, ch13 = 0, ch14 = 0, ch15 = 0, ch16 = 0, sw1 = 0, sw2 = 0\<rparr>"

theorem sbus_decode_roundtrip_witness:
  "\<exists>rc. rc_callback_handler rc_zero (sbus_frame (replicate 4 1030 @ replicate 12 1700) [0, 0]) = Inr rc \<and>
     ch1 rc = 0 \<and> ch5 rc = 1 \<and> ch16 rc = 676"
  using sbus_decode_roundtrip [of "replicate 4 1030 @ replicate 12 1700" "[0, 0]" rc_zero]
  by (simp add: nth_append dead_zone_def sw_value_def)

text \<open>One byte arrives at the device, and the interrupt handler is called.\<close>

fun sbus_feed :: "sbus_state \<Rightarrow> u8 list \<Rightarrow> u8 list \<Rightarrow> (sbus_state \<times> u8 list) res" where
  "sbus_feed s q [] = Inr (s, q)"
| "sbus_feed s q (b # bs) =
     bind_res (dbus_uart_rx_ind (\<lambda>q n. (take n q, drop n q)) (q @ [b]) s (length (q @ [b])))
       (\<lambda>(s', q'). sbus_feed s' q' bs)"

lemma sbus_feed_append:
  "sbus_feed s q (xs @ ys) = bind_res (sbus_feed s q xs) (\<lambda>(s', q'). sbus_feed s' q' ys)"
  by (induction xs arbitrary: s q) (auto simp: bind_res_def split: sum.splits)

lemma sbus_feed_junk:
  assumes "rx_state s = 0" and "length (dbus_buf s) = 25" and "0x0f \<notin> set junk"
  shows "\<exists>buf. sbus_feed s [] junk = Inr (s\<lparr>dbus_buf := buf\<rparr>, []) \<and> length buf = 25"
  using assms
proof (induction junk arbitrary: s)
  case Nil
  then show ?case by (intro exI [of _ "dbus_buf s"]) simp
next
  case (Cons b bs)
  let ?s = "s\<lparr>dbus_buf := blit (dbus_buf s) 0 [b]\<rparr>"
  have "dbus_uart_rx_ind (\<lambda>q n. (take n q, drop n q)) [b] s 1 = Inr (?s, [])"
    using Cons.prems by (auto simp: dbus_uart_rx_ind_def memcpy_def blit_def)
  with Cons.IH [of ?s] Cons.prems show ?case by auto
qed

lemma sbus_feed_wait:
  assumes "rx_state s = 1" and "length q + length ds < 24"
  shows "sbus_feed s q ds = Inr (s, q @ ds)"
  using assms by (induction ds arbitrary: q) (auto simp: dbus_uart_rx_ind_def)

text \<open>
  Reception: bytes other than \<open>0f\<close> are skipped, the \<open>0f\<close> starts a frame, nothing is
  decoded until 24 more bytes have arrived, and then the 25 bytes are decoded together and the
  receiver waits for the next frame with an empty device.
\<close>

theorem sbus_frame_received:
  assumes "rx_state s = 0" and "length (dbus_buf s) = 25" and "0x0f \<notin> set junk" and "length ds = 24"
  shows "\<exists>rc. rc_callback_handler (rc_data s) (0x0f # ds) = Inr rc \<and>
    sbus_feed s [] (junk @ 0x0f # ds) =
      Inr (s\<lparr>dbus_buf := 0x0f # ds, rx_state := 0, rc_data := rc\<rparr>, [])"
proof -
  obtain rc where rc: "rc_callback_handler (rc_data s) (0x0f # ds) = Inr rc"
    using assms(4) by (simp add: rc_callback_handler_def Let_def)
  obtain buf where buf: "sbus_feed s [] junk = Inr (s\<lparr>dbus_buf := buf\<rparr>, [])" "length buf = 25"
    using sbus_feed_junk [OF assms(1-3)] by blast
  let ?s1 = "s\<lparr>dbus_buf := blit buf 0 [0x0f], rx_state := 1\<rparr>"
  obtain es e where ds: "ds = es @ [e]" "length es = 23"
    using assms(4) by (cases ds rule: rev_cases) auto
  have head: "sbus_feed (s\<lparr>dbus_buf := buf\<rparr>) [] [0x0f] = Inr (?s1, [])"
    using assms(1) buf(2) by (simp add: dbus_uart_rx_ind_def memcpy_def blit_def)
  have wait: "sbus_feed ?s1 [] es = Inr (?s1, es)"
    using sbus_feed_wait [of ?s1 "[]" es] ds(2) by simp
  have whole: "blit (blit buf 0 [0x0f]) 1 ds = 0x0f # ds"
    using buf(2) assms(4) by (simp add: blit_def)
  have "sbus_feed ?s1 es [e] = Inr (s\<lparr>dbus_buf := 0x0f # ds, rx_state := 0, rc_data := rc\<rparr>, [])"
    using assms(4) rc ds whole buf(2)
    by (simp add: dbus_uart_rx_ind_def memcpy_def)
  moreover have "junk @ 0x0f # ds = junk @ [0x0f] @ es @ [e]" using ds(1) by simp
  ultimately show ?thesis
    using buf(1) head wait rc by (simp only: sbus_feed_append bind_res_Inr prod.case) simp
qed

theorem sbus_frame_received_witness:
  "\<exists>s. sbus_feed \<lparr>dbus_buf = replicate 25 0, rc_data = rc_zero, rx_state = 0\<rparr> []
     ([1, 2] @ 0x0f # replicate 24 0) = Inr (s, []) \<and> rx_state s = 0"
proof -
  let ?s = "\<lparr>dbus_buf = replicate 25 0, rc_data = rc_zero, rx_state = 0\<rparr>"
  have "\<exists>rc. rc_callback_handler (rc_data ?s) (0x0f # replicate 24 0) = Inr rc \<and>
      sbus_feed ?s [] ([1, 2] @ 0x0f # replicate 24 0) =
        Inr (?s\<lparr>dbus_buf := 0x0f # replicate 24 0, rx_state := 0, rc_data := rc\<rparr>, [])"
    by (rule sbus_frame_received) simp_all
  then show ?thesis
    by (elim exE conjE, intro exI conjI) (assumption, simp)
qed

end
