(* ===== verification/Cyclic.thy ===== *)
theory Cyclic
  imports Prelude
begin

section \<open>Ring arithmetic on indices\<close>

text \<open>
  Both byte queues of the firmware, the bus's \<open>afifo\<close> and RT-Thread's \<open>rt_ringbuffer\<close>, keep
  their bytes in an array that is read and written cyclically, with at most two copies per
  transfer. \<open>ring B p n\<close> are the \<open>n\<close> cells from index \<open>p\<close> on, \<open>ring_put B p xs\<close> is the array
  after writing \<open>xs\<close> from index \<open>p\<close> on; the lemmas relate the two copies to these.
\<close>

definition ring :: "'a list \<Rightarrow> nat \<Rightarrow> nat \<Rightarrow> 'a list" where
  "ring B p n = map (\<lambda>j. B ! ((p + j) mod length B)) [0..<n]"

lemma length_ring [simp]: "length (ring B p n) = n"
  by (simp add: ring_def)

lemma nth_ring: "i < n \<Longrightarrow> ring B p n ! i = B ! ((p + i) mod length B)"
  by (simp add: ring_def)

lemma ring_mod [simp]: "ring B (p mod length B) n = ring B p n"
  by (simp add: ring_def mod_add_left_eq)

lemma take_ring: "m \<le> n \<Longrightarrow> take m (ring B p n) = ring B p m"
  by (rule nth_equalityI) (auto simp: nth_ring)

lemma drop_ring: "m \<le> n \<Longrightarrow> drop m (ring B p n) = ring B (p + m) (n - m)"
  by (rule nth_equalityI) (auto simp: nth_ring add.assoc)

text \<open>Reading \<open>n\<close> bytes from index \<open>p\<close>: first to the buffer's end, the rest from its start.\<close>

lemma ring_read:
  assumes "p < length B" and "n \<le> length B" and l: "l = min n (length B - p)"
  shows "take l (drop p B) @ take (n - l) B = ring B p n"
proof (rule nth_equalityI)
  show "length (take l (drop p B) @ take (n - l) B) = length (ring B p n)"
    using assms by auto
  fix i
  assume "i < length (take l (drop p B) @ take (n - l) B)"
  then have i: "i < n"
    using assms by auto
  have wrap: "(p + i) mod length B = (if i < l then p + i else i - l)"
  proof (cases "i < l")
    case True
    then have "p + i < length B" using l by auto
    with True show ?thesis by simp
  next
    case False
    then have "l = length B - p" using i l by auto
    with False i assms have "p + i = length B + (i - l)" and "i - l < length B" by auto
    with False show ?thesis by (metis mod_add_self1 mod_less)
  qed
  show "(take l (drop p B) @ take (n - l) B) ! i = ring B p n ! i"
    using i assms by (auto simp: nth_ring wrap nth_append min_def)
qed

definition ring_put :: "'a list \<Rightarrow> nat \<Rightarrow> 'a list \<Rightarrow> 'a list" where
  "ring_put B p xs =
     (let l = min (length xs) (length B - p) in blit (blit B p (take l xs)) 0 (drop l xs))"

lemma length_ring_put [simp]:
  "p < length B \<Longrightarrow> length xs \<le> length B \<Longrightarrow> length (ring_put B p xs) = length B"
  by (auto simp: ring_put_def Let_def)

text \<open>Writing \<open>xs\<close> from index \<open>p\<close>: the written cells hold \<open>xs\<close>, the others are kept.\<close>

lemma nth_ring_put:
  assumes p: "p < length B" and xs: "length xs \<le> length B" and j: "j < length B"
  shows "ring_put B p xs ! ((p + j) mod length B) =
           (if j < length xs then xs ! j else B ! ((p + j) mod length B))"
proof -
  define l where "l = min (length xs) (length B - p)"
  have r: "ring_put B p xs = blit (blit B p (take l xs)) 0 (drop l xs)"
    by (simp add: ring_put_def l_def Let_def)
  have l1: "l \<le> length xs" "l \<le> length B - p" "length xs - l \<le> p"
    using xs by (auto simp: l_def)
  have n1: "blit B p (take l xs) ! i = (if p \<le> i \<and> i < p + l then xs ! (i - p) else B ! i)"
    if "i < length B" for i
    using that l1 p by (subst nth_blit) auto
  have n2: "ring_put B p xs ! i =
              (if i < length xs - l then xs ! (l + i) else blit B p (take l xs) ! i)"
    if "i < length B" for i
    unfolding r using that l1 p by (subst nth_blit) auto
  show ?thesis
  proof (cases "j < length B - p")
    case True
    then have "(p + j) mod length B = p + j" by simp
    with True show ?thesis
      using l1 n1 [of "p + j"] n2 [of "p + j"] by (auto simp: l_def)
  next
    case False
    then have lt: "p + j - length B < p" and ge: "length B \<le> p + j"
      using j p by auto
    have w: "(p + j) mod length B = p + j - length B"
      using lt ge p by (simp add: le_mod_geq)
    with lt show ?thesis
      using False l1 xs p n1 [of "p + j - length B"] n2 [of "p + j - length B"]
      by (auto simp: l_def)
  qed
qed

lemma ring_ring_put_new:
  assumes "p < length B" and "length xs \<le> length B"
  shows "ring (ring_put B p xs) p (length xs) = xs"
  using assms by (intro nth_equalityI) (auto simp: nth_ring nth_ring_put)

lemma ring_ring_put_old:
  assumes "q < length B" and "n + length xs \<le> length B" and p: "p = (q + n) mod length B"
  shows "ring (ring_put B p xs) q n = ring B q n"
proof (rule nth_equalityI)
  fix i
  assume "i < length (ring (ring_put B p xs) q n)"
  then have i: "i < n" by simp
  let ?N = "length B"
  define j where "j = ?N - n + i"
  have j: "j < ?N" "\<not> j < length xs"
    using assms i by (auto simp: j_def)
  have "(p + j) mod ?N = (q + n + j) mod ?N"
    by (simp add: p mod_add_left_eq)
  also have "q + n + j = q + i + ?N"
    using assms i by (simp add: j_def)
  finally have at: "(p + j) mod ?N = (q + i) mod ?N" by simp
  have "p < ?N" using p assms(1) by (metis gr_implies_not0 mod_less_divisor not_gr_zero)
  with nth_ring_put [of p B xs j] assms(2) j
  show "ring (ring_put B p xs) q n ! i = ring B q n ! i"
    using i by (simp add: nth_ring at)
qed simp

lemma ring_append: "ring B p n @ ring B (p + n) m = ring B p (n + m)"
  by (rule nth_equalityI) (auto simp: nth_ring nth_append add.assoc)

end
