(* ===== verification/Afifo.thy ===== *)
theory Afifo
  imports Cyclic
begin

section \<open>The byte FIFO of the message bus (abus/afifo.h, abus/afifo.c)\<close>

text \<open>
  A ring buffer of bytes whose size is a power of two. \<open>inp\<close> and \<open>outp\<close> count all the
  bytes ever written and read; they wrap around at \<open>2^32\<close> and are reduced to an index
  with \<open>& (size - 1)\<close>. The spin lock of the source is a stub (its two functions return
  their argument), kept here as such. \<open>BUG_ON\<close> is a busy loop.
\<close>

subsection \<open>Data and operations\<close>

record afifo =
  buffer :: "u8 list"
  fsize :: u32
  inp :: u32
  outp :: u32
  lock :: u32

definition spin_lock_irqrestore :: "u32 \<Rightarrow> u32 \<Rightarrow> u32" where
  "spin_lock_irqrestore lk flags = flags"

definition spin_unlock_irqrestore :: "u32 \<Rightarrow> u32 \<Rightarrow> u32" where
  "spin_unlock_irqrestore lk flags = flags"

definition BUG_ON :: "bool \<Rightarrow> unit res" where
  "BUG_ON b = (if b then Inl BusyLoop else Inr ())"

text \<open>
  The loop of \<open>is_power_of_2\<close>: the argument is a C \<open>int\<close>, positive when the loop is
  entered, so \<open>%\<close> and \<open>/\<close> agree with \<open>mod\<close> and \<open>div\<close>.
\<close>

function is_power_of_2_loop :: "int \<Rightarrow> bool" where
  "is_power_of_2_loop n =
     (if n \<le> 1 then n = 1
      else if n mod 2 = 0 then is_power_of_2_loop (n div 2)
      else False)"
  by pat_completeness auto
termination
  by (relation "measure nat") auto

declare is_power_of_2_loop.simps [simp del]

definition is_power_of_2 :: "int \<Rightarrow> bool" where
  "is_power_of_2 n =
     (if n \<le> 0 then False
      else if n = 1 then True
      else is_power_of_2_loop n)"

text \<open>\<open>fls\<close> counts how often \<open>x >> 1\<close> can be halved before it is zero.\<close>

function fls_loop :: "u32 \<Rightarrow> u32 \<Rightarrow> u32" where
  "fls_loop i position = (if i = 0 then position else fls_loop (drop_bit 1 i) (position + 1))"
  by pat_completeness auto
termination
proof (relation "measure (\<lambda>(i, position). unat i)")
  fix i position :: u32
  assume "i \<noteq> 0"
  then have "0 < unat i"
    by (simp add: unat_gt_0)
  then show "((drop_bit 1 i, position + 1), (i, position)) \<in> measure (\<lambda>(i, position). unat i)"
    by (simp add: drop_bit_eq_div unat_div)
qed simp

declare fls_loop.simps [simp del]

definition fls :: "u32 \<Rightarrow> u32" where
  "fls x = (if x \<noteq> 0 then fls_loop (drop_bit 1 x) 0 + 1 else (- 1) + 1)"

text \<open>\<open>1UL << n\<close> is undefined for \<open>n\<close> at least the width of \<open>unsigned long\<close>, 32 here.\<close>

definition roundup_pow_of_two :: "u32 \<Rightarrow> u32 res" where
  "roundup_pow_of_two n =
     (let s = fls (n - 1) in
      if unat s < 32 then Inr (push_bit (unat s) 1) else Inl BadShift)"

text \<open>
  \<open>kmalloc\<close> is \<open>rt_malloc\<close> of the RTOS: whether a request succeeds is the parameter
  \<open>rt_malloc\<close>, from the bytes asked for to the block delivered. \<open>sizeof (struct afifo)\<close>
  is 20 on the target. The call \<open>is_power_of_2(size)\<close> converts the unsigned size to a
  C \<open>int\<close>.
\<close>

definition sizeof_afifo :: u32 where
  "sizeof_afifo = 20"

definition afifo_init ::
    "(u32 \<Rightarrow> 'b option) \<Rightarrow> u8 list \<Rightarrow> u32 \<Rightarrow> u32 \<Rightarrow> afifo option res" where
  "afifo_init rt_malloc buf sz lk =
     bind_res (BUG_ON (\<not> is_power_of_2 (sint sz))) (\<lambda>_.
       case rt_malloc sizeof_afifo of
         None \<Rightarrow> Inr None
       | Some _ \<Rightarrow>
           Inr (Some \<lparr>buffer = buf, fsize = sz, inp = 0, outp = 0, lock = lk\<rparr>))"

text \<open>
  \<open>afifo_alloc\<close>: the buffer's initial bytes are whatever the allocator delivers, the
  parameter \<open>fresh\<close>. The second component is the list of blocks given back with
  \<open>kfree\<close>: the buffer when the control block cannot be allocated.
\<close>

definition afifo_alloc ::
    "(u32 \<Rightarrow> 'b option) \<Rightarrow> ('b \<Rightarrow> nat \<Rightarrow> u8 list) \<Rightarrow> u32 \<Rightarrow> u32 \<Rightarrow> (afifo option \<times> 'b list) res" where
  "afifo_alloc rt_malloc fresh sz lk =
     bind_res
       (if \<not> is_power_of_2 (sint sz) then
          bind_res (BUG_ON (sz > 0x80000000)) (\<lambda>_. roundup_pow_of_two sz)
        else Inr sz)
       (\<lambda>sz'.
          case rt_malloc sz' of
            None \<Rightarrow> Inr (None, [])
          | Some b \<Rightarrow>
              bind_res (afifo_init rt_malloc (fresh b (unat sz')) sz' lk) (\<lambda>ret.
                Inr (ret, if ret = None then [b] else [])))"

definition afifo_get_used :: "afifo \<Rightarrow> u32" where
  "afifo_get_used f = inp f - outp f"

definition afifo_get_free :: "afifo \<Rightarrow> u32" where
  "afifo_get_free f = fsize f - afifo_get_used f"

text \<open>
  The source defines \<open>__afifo_in\<close> and \<open>__afifo_in_data\<close> with the same body, and
  \<open>__afifo_out\<close> and \<open>__afifo_out_data\<close> with bodies that differ in the last statement:
  \<open>__afifo_out_data\<close> does not advance \<open>outp\<close>. The leading underscores are dropped.
\<close>

definition u_afifo_in :: "afifo \<Rightarrow> u8 list \<Rightarrow> u32 \<Rightarrow> (u32 \<times> afifo) res" where
  "u_afifo_in f buf len0 =
     (let len = cmin len0 (fsize f - inp f + outp f);
          off = inp f AND (fsize f - 1);
          l = cmin len (fsize f - off)
      in bind_res (memcpy (buffer f) (unat off) buf 0 (unat l)) (\<lambda>b1.
         bind_res (memcpy b1 0 buf (unat l) (unat (len - l))) (\<lambda>b2.
         Inr (len, f\<lparr>buffer := b2, inp := inp f + len\<rparr>))))"

definition u_afifo_in_data :: "afifo \<Rightarrow> u8 list \<Rightarrow> u32 \<Rightarrow> (u32 \<times> afifo) res" where
  "u_afifo_in_data f buf len0 =
     (let len = cmin len0 (fsize f - inp f + outp f);
          off = inp f AND (fsize f - 1);
          l = cmin len (fsize f - off)
      in bind_res (memcpy (buffer f) (unat off) buf 0 (unat l)) (\<lambda>b1.
         bind_res (memcpy b1 0 buf (unat l) (unat (len - l))) (\<lambda>b2.
         Inr (len, f\<lparr>buffer := b2, inp := inp f + len\<rparr>))))"

definition u_afifo_out_data :: "afifo \<Rightarrow> u8 list \<Rightarrow> u32 \<Rightarrow> (u32 \<times> u8 list) res" where
  "u_afifo_out_data f dst len0 =
     (let len = cmin len0 (inp f - outp f);
          off = outp f AND (fsize f - 1);
          l = cmin len (fsize f - off)
      in bind_res (memcpy dst 0 (buffer f) (unat off) (unat l)) (\<lambda>d1.
         bind_res (memcpy d1 (unat l) (buffer f) 0 (unat (len - l))) (\<lambda>d2.
         Inr (len, d2))))"

definition u_afifo_out :: "afifo \<Rightarrow> u8 list \<Rightarrow> u32 \<Rightarrow> (u32 \<times> u8 list \<times> afifo) res" where
  "u_afifo_out f dst len0 =
     (let len = cmin len0 (inp f - outp f);
          off = outp f AND (fsize f - 1);
          l = cmin len (fsize f - off)
      in bind_res (memcpy dst 0 (buffer f) (unat off) (unat l)) (\<lambda>d1.
         bind_res (memcpy d1 (unat l) (buffer f) 0 (unat (len - l))) (\<lambda>d2.
         Inr (len, d2, f\<lparr>outp := outp f + len\<rparr>))))"

text \<open>The public operations: the same under the (stub) lock.\<close>

definition afifo_in :: "afifo \<Rightarrow> u8 list \<Rightarrow> u32 \<Rightarrow> (u32 \<times> afifo) res" where
  "afifo_in f buf len =
     (let flags = spin_lock_irqrestore (lock f) 0 in
      bind_res (u_afifo_in f buf len) (\<lambda>ret.
      let flags' = spin_unlock_irqrestore (lock f) flags in Inr ret))"

definition afifo_in_data :: "afifo \<Rightarrow> u8 list \<Rightarrow> u32 \<Rightarrow> (u32 \<times> afifo) res" where
  "afifo_in_data f buf len =
     (let flags = spin_lock_irqrestore (lock f) 0 in
      bind_res (u_afifo_in_data f buf len) (\<lambda>ret.
      let flags' = spin_unlock_irqrestore (lock f) flags in Inr ret))"

definition afifo_out :: "afifo \<Rightarrow> u8 list \<Rightarrow> u32 \<Rightarrow> (u32 \<times> u8 list \<times> afifo) res" where
  "afifo_out f dst len =
     (let flags = spin_lock_irqrestore (lock f) 0 in
      bind_res (u_afifo_out f dst len) (\<lambda>ret.
      let flags' = spin_unlock_irqrestore (lock f) flags in Inr ret))"

definition afifo_out_data :: "afifo \<Rightarrow> u8 list \<Rightarrow> u32 \<Rightarrow> (u32 \<times> u8 list) res" where
  "afifo_out_data f dst len =
     (let flags = spin_lock_irqrestore (lock f) 0 in
      bind_res (u_afifo_out_data f dst len) (\<lambda>ret.
      let flags' = spin_unlock_irqrestore (lock f) flags in Inr ret))"

definition afifo_add_in :: "afifo \<Rightarrow> u32 \<Rightarrow> u32 \<times> afifo" where
  "afifo_add_in f len0 =
     (let len = cmin len0 (fsize f - inp f + outp f) in (len, f\<lparr>inp := inp f + len\<rparr>))"

definition afifo_add_out :: "afifo \<Rightarrow> u32 \<Rightarrow> u32 \<times> afifo" where
  "afifo_add_out f len0 =
     (let len = cmin len0 (inp f - outp f) in (len, f\<lparr>outp := outp f + len\<rparr>))"

text \<open>The two pointer functions return an address inside the buffer: here its index.\<close>

definition afifo_get_in_pointer :: "afifo \<Rightarrow> nat" where
  "afifo_get_in_pointer f = unat (inp f AND (fsize f - 1))"

definition afifo_get_out_pointer :: "afifo \<Rightarrow> nat" where
  "afifo_get_out_pointer f = unat (outp f AND (fsize f - 1))"

definition afifo_get_free_block :: "afifo \<Rightarrow> u32" where
  "afifo_get_free_block f = fsize f - (outp f AND (fsize f - 1))"

definition afifo_size :: "afifo \<Rightarrow> u32" where
  "afifo_size f = fsize f"

definition afifo_reset :: "afifo \<Rightarrow> afifo" where
  "afifo_reset f =
     (let flags = spin_lock_irqrestore (lock f) 0;
          f' = f\<lparr>inp := 0, outp := 0\<rparr>;
          flags' = spin_unlock_irqrestore (lock f) flags
      in f')"

lemmas afifo_lock_defs =
  afifo_in_def afifo_in_data_def afifo_out_def afifo_out_data_def Let_def

subsection \<open>Invariant and contents\<close>

definition afifo_inv :: "afifo \<Rightarrow> bool" where
  "afifo_inv f \<longleftrightarrow>
     (\<exists>k < 32. fsize f = 2 ^ k) \<and>
     length (buffer f) = unat (fsize f) \<and>
     unat (inp f - outp f) \<le> unat (fsize f)"

definition contents :: "afifo \<Rightarrow> u8 list" where
  "contents f =
     map (\<lambda>i. buffer f ! ((unat (outp f) + i) mod unat (fsize f))) [0..<unat (inp f - outp f)]"

subsection \<open>From words to indices\<close>

lemma afifo_inv_size:
  assumes "afifo_inv f"
  obtains k where "k < 32" "fsize f = 2 ^ k" "length (buffer f) = 2 ^ k" "unat (fsize f) = 2 ^ k"
proof -
  from assms obtain k where k: "k < 32" "fsize f = 2 ^ k"
    by (auto simp: afifo_inv_def)
  then have "unat (fsize f) = 2 ^ k"
    by (simp add: unat_pow2)
  with assms k that show thesis
    by (simp add: afifo_inv_def)
qed

lemma used_le: "afifo_inv f \<Longrightarrow> unat (inp f - outp f) \<le> length (buffer f)"
  by (simp add: afifo_inv_def)

lemma used_le_word: "afifo_inv f \<Longrightarrow> inp f - outp f \<le> fsize f"
  by (simp add: afifo_inv_def word_le_nat_alt)

lemma afifo_inv_length: "afifo_inv f \<Longrightarrow> unat (fsize f) = length (buffer f)"
  by (simp add: afifo_inv_def)

lemma afifo_inv_pos: "afifo_inv f \<Longrightarrow> 0 < length (buffer f)"
  by (metis afifo_inv_size zero_less_numeral zero_less_power)

lemma afifo_inv_upd [inv_intros]:
  "afifo_inv f \<Longrightarrow> length (buffer f') = length (buffer f) \<Longrightarrow> fsize f' = fsize f \<Longrightarrow>
   unat (inp f' - outp f') \<le> length (buffer f) \<Longrightarrow> afifo_inv f'"
  by (auto simp: afifo_inv_def)

lemma length_buffer_less:
  assumes "afifo_inv f"
  shows "length (buffer f) < 2 ^ 32"
proof -
  have "unat (fsize f) < 2 ^ LENGTH(32)"
    by (rule unsigned_less)
  with assms show ?thesis by (simp add: afifo_inv_length)
qed

lemma unat_index:
  assumes "afifo_inv f"
  shows "unat (x AND (fsize f - 1)) = unat x mod length (buffer f)"
proof -
  from assms obtain k where k: "k < 32" "fsize f = 2 ^ k" "length (buffer f) = 2 ^ k"
    by (rule afifo_inv_size)
  have "unat (x AND (fsize f - 1)) = unat x mod 2 ^ k"
    by (rule unat_and_mask) (use k in simp_all)
  with k show ?thesis by simp
qed

lemma unat_to_end:
  assumes "afifo_inv f"
  shows "unat (fsize f - (x AND (fsize f - 1))) = length (buffer f) - unat x mod length (buffer f)"
proof -
  have "unat x mod length (buffer f) < length (buffer f)"
    using assms afifo_inv_pos by simp
  then have "x AND (fsize f - 1) \<le> fsize f"
    using assms by (simp add: word_le_nat_alt unat_index afifo_inv_length)
  with assms show ?thesis
    by (simp add: unat_sub unat_index afifo_inv_length)
qed

lemma unat_free:
  assumes "afifo_inv f"
  shows "unat (fsize f - inp f + outp f) = length (buffer f) - unat (inp f - outp f)"
proof -
  have "unat (fsize f - (inp f - outp f)) = length (buffer f) - unat (inp f - outp f)"
    using assms by (simp only: unat_sub [OF used_le_word] afifo_inv_length)
  then show ?thesis by (simp only: diff_diff_eq2 diff_add_eq)
qed

text \<open>The counters wrap at \<open>2^32\<close>, a multiple of the size, so the indices do not notice.\<close>

lemma mod_wrap:
  assumes "afifo_inv f"
  shows "unat (x + y :: u32) mod length (buffer f) = (unat x + unat y) mod length (buffer f)"
proof -
  from assms obtain k where k: "k < 32" "length (buffer f) = 2 ^ k"
    by (rule afifo_inv_size)
  then have "length (buffer f) dvd 2 ^ 32"
    using le_imp_power_dvd [of k 32 "2::nat"] by simp
  then show ?thesis
    by (simp add: unat_word_ariths mod_mod_cancel)
qed

lemma inp_index:
  assumes "afifo_inv f"
  shows "unat (inp f) mod length (buffer f) =
         (unat (outp f) + unat (inp f - outp f)) mod length (buffer f)"
  using mod_wrap [OF assms, of "outp f" "inp f - outp f"] by simp

lemma contents_ring:
  "afifo_inv f \<Longrightarrow> contents f = ring (buffer f) (unat (outp f)) (unat (inp f - outp f))"
  by (simp add: contents_def ring_def afifo_inv_length)

lemma length_contents [simp]: "length (contents f) = unat (inp f - outp f)"
  by (simp add: contents_def)

subsection \<open>What the operations do\<close>

lemma unat_rest: "unat (len - cmin len m) = unat len - min (unat len) (unat (m::u32))"
proof -
  have "cmin len m \<le> len"
    by (simp add: word_le_nat_alt)
  then show ?thesis
    by (simp add: unat_sub)
qed

lemma u_afifo_in_steps:
  assumes inv: "afifo_inv f" and src: "unat len \<le> length src"
  defines "n \<equiv> cmin len (fsize f - inp f + outp f)"
  shows "u_afifo_in f src len =
           Inr (n, f\<lparr>buffer := ring_put (buffer f) (unat (inp f) mod length (buffer f)) (take (unat n) src),
                     inp := inp f + n\<rparr>)"
proof -
  let ?B = "buffer f" and ?p = "unat (inp f) mod length (buffer f)"
  define l where "l = min (unat n) (length ?B - ?p)"
  have p: "?p < length ?B"
    using afifo_inv_pos [OF inv] by simp
  have n: "unat n \<le> length src" "unat n \<le> length ?B"
    using src inv by (auto simp: n_def unat_free)
  have l: "l \<le> unat n" "?p + l \<le> length ?B" "unat n - l \<le> length ?B"
    using p n by (auto simp: l_def)
  have len_l: "unat (cmin n (fsize f - (inp f AND (fsize f - 1)))) = l"
    "unat (n - cmin n (fsize f - (inp f AND (fsize f - 1)))) = unat n - l"
    by (simp_all add: unat_rest unat_to_end [OF inv] l_def)
  have rp: "ring_put ?B ?p (take (unat n) src) =
        blit (blit ?B ?p (take l src)) 0 (take (unat n - l) (drop l src))"
    using n l by (simp add: ring_put_def Let_def min_absorb1 min_absorb2 drop_take l_def [symmetric])
  have "memcpy ?B ?p src 0 l = Inr (blit ?B ?p (take l src))"
    using n l by (subst memcpy_ok) auto
  moreover have "memcpy (blit ?B ?p (take l src)) 0 src l (unat n - l) =
      Inr (blit (blit ?B ?p (take l src)) 0 (take (unat n - l) (drop l src)))"
    using n l by (subst memcpy_ok) auto
  ultimately show ?thesis
    unfolding u_afifo_in_def Let_def n_def [symmetric] len_l unat_index [OF inv] rp
    by simp
qed

lemma u_afifo_in_inv:
  assumes inv: "afifo_inv f" and src: "unat len \<le> length src"
    and r: "u_afifo_in f src len = Inr (n, f')"
  shows "unat n = min (unat len) (length (buffer f) - length (contents f))"
    and "afifo_inv f'" and "contents f' = contents f @ take (unat n) src"
proof -
  let ?B = "buffer f" and ?p = "unat (inp f) mod length (buffer f)"
  let ?u = "unat (inp f - outp f)"
  from r have n: "n = cmin len (fsize f - inp f + outp f)"
    and f': "f' = f\<lparr>buffer := ring_put ?B ?p (take (unat n) src), inp := inp f + n\<rparr>"
    by (auto simp: u_afifo_in_steps [OF inv src])
  show un: "unat n = min (unat len) (length ?B - length (contents f))"
    by (simp add: n unat_free [OF inv])
  have p: "?p < length ?B"
    using afifo_inv_pos [OF inv] by simp
  have fits: "?u + unat n \<le> length ?B" and len_n: "unat n \<le> length src"
    using un used_le [OF inv] src by auto
  have lB: "length (ring_put ?B ?p (take (unat n) src)) = length ?B"
    using p fits len_n by simp
  note lt = length_buffer_less [OF inv]
  have "unat (inp f - outp f + n) = ?u + unat n"
    using fits lt by (simp add: unat_word_ariths)
  then have used: "unat (inp f + n - outp f) = ?u + unat n"
    by (simp only: diff_add_eq)
  show inv': "afifo_inv f'"
    by (rule afifo_inv_upd [OF inv]) (simp_all add: f' lB used fits)
  have q: "unat (outp f) mod length ?B < length ?B"
    using afifo_inv_pos [OF inv] by simp
  let ?R = "ring_put ?B ?p (take (unat n) src)"
  have idx: "?p = (unat (outp f) mod length ?B + ?u) mod length ?B"
    by (simp only: inp_index [OF inv] mod_add_left_eq)
  have old: "ring ?R (unat (outp f)) ?u = contents f"
    using ring_ring_put_old [OF q _ idx, of "take (unat n) src"] fits len_n
      ring_mod [of ?R "unat (outp f)" ?u]
    by (simp add: lB contents_ring [OF inv])
  have "ring ?R (unat (outp f) + ?u) (unat n) = ring ?R ((unat (outp f) + ?u) mod length ?R) (unat n)"
    by (simp only: ring_mod)
  also have "\<dots> = ring ?R ?p (unat n)"
    by (simp only: lB inp_index [OF inv, symmetric])
  also have "\<dots> = take (unat n) src"
    using ring_ring_put_new [OF p, of "take (unat n) src"] fits len_n by simp
  finally have new: "ring ?R (unat (outp f) + ?u) (unat n) = take (unat n) src" .
  have "contents f' = ring ?R (unat (outp f)) (?u + unat n)"
    unfolding contents_ring [OF inv'] by (simp add: f' used)
  then show "contents f' = contents f @ take (unat n) src"
    by (simp only: ring_append [symmetric] old new)
qed

lemma u_afifo_out_data_steps:
  assumes inv: "afifo_inv f" and dst: "unat len \<le> length dst"
  defines "n \<equiv> cmin len (inp f - outp f)"
  shows "u_afifo_out_data f dst len =
           Inr (n, take (unat n) (contents f) @ drop (unat n) dst)"
proof -
  let ?B = "buffer f" and ?p = "unat (outp f) mod length (buffer f)"
  define l where "l = min (unat n) (length ?B - ?p)"
  have p: "?p < length ?B"
    using afifo_inv_pos [OF inv] by simp
  have n: "unat n \<le> length dst" "unat n \<le> length ?B" "unat n \<le> unat (inp f - outp f)"
    using dst used_le [OF inv] by (auto simp: n_def)
  have l: "l \<le> unat n" "?p + l \<le> length ?B" "unat n - l \<le> length ?B"
    using p n by (auto simp: l_def)
  have len_l: "unat (cmin n (fsize f - (outp f AND (fsize f - 1)))) = l"
    "unat (n - cmin n (fsize f - (outp f AND (fsize f - 1)))) = unat n - l"
    by (simp_all add: unat_rest unat_to_end [OF inv] l_def)
  let ?d = "blit dst 0 (take l (drop ?p ?B))"
  have m1: "memcpy dst 0 ?B ?p l = Inr ?d"
    using n l by (subst memcpy_ok) auto
  have m2: "memcpy ?d l ?B 0 (unat n - l) = Inr (blit ?d l (take (unat n - l) ?B))"
    using n l by (subst memcpy_ok) auto
  have "blit ?d l (take (unat n - l) ?B) =
        (take l (drop ?p ?B) @ take (unat n - l) ?B) @ drop (unat n) dst"
    using n l by (simp add: blit_def)
  also have "\<dots> = ring ?B ?p (unat n) @ drop (unat n) dst"
    by (simp only: ring_read [OF p n(2) l_def])
  also have "ring ?B ?p (unat n) = take (unat n) (contents f)"
    by (simp add: contents_ring [OF inv] take_ring [OF n(3)])
  finally show ?thesis
    unfolding u_afifo_out_data_def Let_def n_def [symmetric] len_l unat_index [OF inv]
    by (simp add: m1 m2)
qed

lemma u_afifo_out_eq:
  "u_afifo_out f dst len =
     bind_res (u_afifo_out_data f dst len) (\<lambda>(n, d). Inr (n, d, f\<lparr>outp := outp f + n\<rparr>))"
  by (simp add: u_afifo_out_def u_afifo_out_data_def Let_def bind_res_def split: sum.splits)

text \<open>Advancing \<open>outp\<close> by at most the bytes in use drops them from the front.\<close>

lemma advance_out:
  assumes inv: "afifo_inv f" and n: "unat n \<le> length (contents f)"
  defines "f' \<equiv> f\<lparr>outp := outp f + n\<rparr>"
  shows "afifo_inv f'" and "contents f' = drop (unat n) (contents f)"
proof -
  have "unat (inp f - outp f - n) = unat (inp f - outp f) - unat n"
    using n by (simp add: unat_sub word_le_nat_alt)
  then have used: "unat (inp f - (outp f + n)) = unat (inp f - outp f) - unat n"
    by (simp only: diff_diff_eq)
  show inv': "afifo_inv f'"
    by (rule afifo_inv_upd [OF inv]) (use used_le [OF inv] in \<open>simp_all add: f'_def used\<close>)
  have "contents f' = ring (buffer f) (unat (outp f + n)) (unat (inp f - outp f) - unat n)"
    unfolding contents_ring [OF inv'] by (simp add: f'_def used)
  also have "\<dots> = ring (buffer f) (unat (outp f) + unat n) (unat (inp f - outp f) - unat n)"
    by (metis mod_wrap [OF inv] ring_mod)
  also have "\<dots> = drop (unat n) (contents f)"
    using n by (simp add: contents_ring [OF inv] drop_ring)
  finally show "contents f' = drop (unat n) (contents f)" .
qed

lemma u_afifo_in_data_eq: "u_afifo_in_data = u_afifo_in"
  by (simp add: fun_eq_iff u_afifo_in_data_def u_afifo_in_def)

lemma public_eq:
  "afifo_in = u_afifo_in" "afifo_in_data = u_afifo_in"
  "afifo_out = u_afifo_out" "afifo_out_data = u_afifo_out_data"
  by (simp_all add: fun_eq_iff afifo_lock_defs u_afifo_in_data_eq bind_res_def split: sum.splits)

subsection \<open>Powers of two\<close>

lemma is_power_of_2_loop_iff: "is_power_of_2_loop n \<longleftrightarrow> (\<exists>k. n = 2 ^ k)"
proof (induction n rule: is_power_of_2_loop.induct)
  case (1 n)
  consider "n \<le> 1" | "1 < n" "even n" | "1 < n" "odd n" by linarith
  then show ?case
  proof cases
    case 1
    have "n = 1" if "n = 2 ^ k" for k
      using 1 that one_le_power [of "2::int" k] by linarith
    with 1 show ?thesis
      by (auto simp: is_power_of_2_loop.simps [of n] intro: exI [of _ 0])
  next
    case 2
    have "n div 2 = 2 ^ k \<longleftrightarrow> n = 2 ^ Suc k" for k
      using 2 by auto
    moreover have "n \<noteq> 2 ^ 0" using 2 by simp
    ultimately have "(\<exists>k. n div 2 = 2 ^ k) \<longleftrightarrow> (\<exists>k. n = 2 ^ k)"
      by (metis not0_implies_Suc)
    with 2 "1.IH" show ?thesis
      by (simp add: is_power_of_2_loop.simps [of n] even_iff_mod_2_eq_zero)
  next
    case 3
    have "n \<noteq> 2 ^ k" for k
      using 3 by (cases k) auto
    with 3 show ?thesis
      by (simp add: is_power_of_2_loop.simps [of n] odd_iff_mod_2_eq_one)
  qed
qed

lemma is_power_of_2_iff: "is_power_of_2 n \<longleftrightarrow> (\<exists>k. n = 2 ^ k)"
proof -
  have "n = 2 ^ 0" if "n = 1" using that by simp
  moreover have "0 < n" if "n = 2 ^ k" for k using that by simp
  ultimately show ?thesis
    unfolding is_power_of_2_def is_power_of_2_loop_iff by (auto simp: not_le intro: exI [of _ 0])
qed

lemma fls_loop_bits:
  "\<exists>k \<le> 32. fls_loop i pos = pos + of_nat k \<and> unat i < 2 ^ k \<and> (k \<noteq> 0 \<longrightarrow> 2 ^ (k - 1) \<le> unat i)"
proof (induction i pos rule: fls_loop.induct)
  case (1 i pos)
  show ?case
  proof (cases "i = 0")
    case True
    then show ?thesis by (intro exI [of _ 0]) (simp add: fls_loop.simps [of 0])
  next
    case False
    have half: "unat (drop_bit 1 i) = unat i div 2"
      by (simp add: drop_bit_eq_div unat_div)
    from "1.IH" [OF False] half obtain k where k: "k \<le> 32"
      "fls_loop (drop_bit 1 i) (pos + 1) = pos + 1 + of_nat k" "unat i div 2 < 2 ^ k"
      "k \<noteq> 0 \<longrightarrow> 2 ^ (k - 1) \<le> unat i div 2" by auto
    have "0 < unat i" using False by (simp add: unat_gt_0)
    moreover have "unat i < 2 ^ LENGTH(32)" by (rule unsigned_less)
    ultimately have "unat i < 2 ^ Suc k" "2 ^ k \<le> unat i" "Suc k \<le> 32"
    proof -
      show "unat i < 2 ^ Suc k" using k(3) by simp
      show ge: "2 ^ k \<le> unat i"
        using k(4) \<open>0 < unat i\<close> by (cases k) auto
      have "(2::nat) ^ k < 2 ^ 32" using ge \<open>unat i < 2 ^ LENGTH(32)\<close> by simp
      then show "Suc k \<le> 32" using pow2_less_32 [of k] by simp
    qed
    with False k(2) show ?thesis
      by (intro exI [of _ "Suc k"]) (simp add: fls_loop.simps [of i] add.assoc)
  qed
qed

text \<open>\<open>fls x\<close> is the number of significant bits of \<open>x\<close>.\<close>

lemma fls_bits:
  "unat (fls x) \<le> 32 \<and> unat x < 2 ^ unat (fls x) \<and> (x \<noteq> 0 \<longrightarrow> 2 ^ (unat (fls x) - 1) \<le> unat x)"
proof (cases "x = 0")
  case True
  then show ?thesis by (simp add: fls_def)
next
  case False
  have half: "unat (drop_bit 1 x) = unat x div 2"
    by (simp add: drop_bit_eq_div unat_div)
  from fls_loop_bits [of "drop_bit 1 x" 0] half obtain k where k: "k \<le> 32"
    "fls_loop (drop_bit 1 x) 0 = of_nat k" "unat x div 2 < 2 ^ k"
    "k \<noteq> 0 \<longrightarrow> 2 ^ (k - 1) \<le> unat x div 2" by auto
  have pos: "0 < unat x" using False by (simp add: unat_gt_0)
  have ge: "2 ^ k \<le> unat x"
    using k(4) pos by (cases k) auto
  have "unat x < 2 ^ LENGTH(32)" by (rule unsigned_less)
  then have "(2::nat) ^ k < 2 ^ 32" using ge by simp
  then have "k < 32" by (rule pow2_less_32)
  have "fls x = of_nat (Suc k)"
    using False k(2) by (simp add: fls_def add.commute)
  moreover have "unat (of_nat (Suc k) :: u32) = Suc k"
    using \<open>k < 32\<close> by (simp add: unat_of_nat take_bit_eq_mod del: of_nat_Suc)
  ultimately have "unat (fls x) = Suc k" by simp
  then show ?thesis using ge k(3) \<open>k < 32\<close> by simp
qed

subsection \<open>The interface of a byte queue\<close>

text \<open>
  What the message bus relies on: putting appends as many bytes as fit, reading without
  removing returns the front, skipping removes from the front. \<open>get\<close> is reading and
  skipping in one call.
\<close>

locale byte_queue =
  fixes put :: "'q \<Rightarrow> u8 list \<Rightarrow> u32 \<Rightarrow> (u32 \<times> 'q) res"
    and peek :: "'q \<Rightarrow> u8 list \<Rightarrow> u32 \<Rightarrow> (u32 \<times> u8 list) res"
    and skip :: "'q \<Rightarrow> u32 \<Rightarrow> u32 \<times> 'q"
    and cap :: "'q \<Rightarrow> nat"
    and list :: "'q \<Rightarrow> u8 list"
    and invar :: "'q \<Rightarrow> bool"
  assumes put_ok: "invar q \<Longrightarrow> unat n \<le> length src \<Longrightarrow> \<exists>m q'. put q src n = Inr (m, q') \<and>
      unat m = min (unat n) (cap q - length (list q)) \<and>
      invar q' \<and> cap q' = cap q \<and> list q' = list q @ take (unat m) src"
    and peek_ok: "invar q \<Longrightarrow> unat n \<le> length dst \<Longrightarrow> \<exists>m. peek q dst n =
      Inr (m, take (unat m) (list q) @ drop (unat m) dst) \<and> unat m = min (unat n) (length (list q))"
    and skip_ok: "invar q \<Longrightarrow> \<exists>m q'. skip q n = (m, q') \<and>
      unat m = min (unat n) (length (list q)) \<and>
      invar q' \<and> cap q' = cap q \<and> list q' = drop (unat m) (list q)"
    and list_le_cap: "invar q \<Longrightarrow> length (list q) \<le> cap q"
begin

text \<open>A message that fits is stored whole, and is read back when the queue was empty.\<close>

lemma put_fits:
  assumes "invar q" and "unat n = length msg" and "length (list q) + length msg \<le> cap q"
  obtains q' where "put q msg n = Inr (n, q')" "invar q'" "cap q' = cap q" "list q' = list q @ msg"
proof -
  from put_ok [OF assms(1), of n msg] assms(2) obtain m q' where
    q': "put q msg n = Inr (m, q')" "unat m = min (unat n) (cap q - length (list q))"
    "invar q'" "cap q' = cap q" "list q' = list q @ take (unat m) msg" by auto
  with assms have "unat m = unat n" by simp
  then have "m = n" by (simp add: word_unat_eq_iff)
  with q' assms that show thesis by simp
qed

lemma peek_front:
  assumes "invar q" and "unat n = length msg" and "list q = msg @ rest" and "length dst = length msg"
  shows "peek q dst n = Inr (n, msg)"
proof -
  from peek_ok [OF assms(1), of n dst] assms(2,4) obtain m where
    m: "peek q dst n = Inr (m, take (unat m) (list q) @ drop (unat m) dst)"
    "unat m = min (unat n) (length (list q))" by auto
  with assms have "unat m = unat n" by simp
  then have "m = n" by (simp add: word_unat_eq_iff)
  with m assms show ?thesis by simp
qed

lemma skip_front:
  assumes "invar q" and "unat n = length msg" and "list q = msg @ rest"
  obtains q' where "skip q n = (n, q')" "invar q'" "cap q' = cap q" "list q' = rest"
proof -
  from skip_ok [OF assms(1), of n] obtain m q' where
    q': "skip q n = (m, q')" "unat m = min (unat n) (length (list q))"
    "invar q'" "cap q' = cap q" "list q' = drop (unat m) (list q)" by auto
  with assms have "unat m = unat n" by simp
  then have "m = n" by (simp add: word_unat_eq_iff)
  with q' assms that show thesis by simp
qed

text \<open>Publishing through an empty queue: put, let everyone peek, skip.\<close>

lemma pass_through:
  assumes "invar q" and "list q = []" and "unat n = length msg" and "length msg \<le> cap q"
    and "length dst = length msg"
  obtains q' q'' where "put q msg n = Inr (n, q')" "peek q' dst n = Inr (n, msg)"
    "skip q' n = (n, q'')" "invar q''" "cap q'' = cap q" "list q'' = []"
proof -
  from put_fits [OF assms(1,3)] assms(2,4) obtain q' where
    q': "put q msg n = Inr (n, q')" "invar q'" "cap q' = cap q" "list q' = msg @ []"
    by auto
  from skip_front [OF q'(2) assms(3) q'(4)] obtain q'' where
    q'': "skip q' n = (n, q'')" "invar q''" "cap q'' = cap q'" "list q'' = []"
    by blast
  have "peek q' dst n = Inr (n, msg)"
    by (rule peek_front [OF q'(2) assms(3) q'(4) assms(5)])
  with q' q'' that show thesis by simp
qed

end

interpretation fifo: byte_queue afifo_in afifo_out_data afifo_add_out
    "\<lambda>f. length (buffer f)" contents afifo_inv
proof (unfold_locales, goal_cases)
  case (1 q n src)
  obtain m q' where r: "u_afifo_in q src n = Inr (m, q')"
    using u_afifo_in_steps [OF 1] by blast
  have "length (buffer q') = length (buffer q)"
    using r u_afifo_in_steps [OF 1] u_afifo_in_inv(1,2) [OF 1 r] afifo_inv_length [OF 1(1)]
      afifo_inv_length [of q'] by auto
  with u_afifo_in_inv [OF 1 r] r show ?case
    by (auto simp: public_eq)
next
  case (2 q n dst)
  then show ?case
    by (simp add: public_eq u_afifo_out_data_steps)
next
  case (3 q n)
  then show ?case
    using advance_out [OF 3, of "cmin n (inp q - outp q)"] by (simp add: afifo_add_out_def Let_def)
next
  case (4 q)
  then show ?case by (simp add: used_le)
qed

subsection \<open>Creation\<close>

lemma roundup_spec:
  assumes "0 < unat n" and "unat n \<le> 2 ^ 31"
  obtains k where "k < 32" "roundup_pow_of_two n = Inr (2 ^ k)" "unat n \<le> 2 ^ k"
    "k \<noteq> 0 \<longrightarrow> 2 ^ (k - 1) < unat n"
proof -
  define k where "k = unat (fls (n - 1))"
  have n1: "unat (n - 1) = unat n - 1"
    using assms(1) by (subst unat_sub) (auto simp: word_le_nat_alt)
  have b: "unat n - 1 < 2 ^ k" "n - 1 \<noteq> 0 \<longrightarrow> 2 ^ (k - 1) \<le> unat n - 1" "k \<le> 32"
    using fls_bits [of "n - 1"] by (simp_all add: n1 k_def)
  have lt: "k < 32"
  proof (rule ccontr)
    assume "\<not> k < 32"
    with b(3) have "k = 32" by simp
    with b(2) n1 assms(2) show False
      by (cases "n - 1 = 0") (use b in \<open>auto simp: k_def fls_def\<close>)
  qed
  then have "roundup_pow_of_two n = Inr (2 ^ k)"
    by (simp add: roundup_pow_of_two_def Let_def k_def push_bit_eq_mult)
  moreover have "k \<noteq> 0 \<longrightarrow> 2 ^ (k - 1) < unat n"
  proof
    assume "k \<noteq> 0"
    then have "n - 1 \<noteq> 0" by (auto simp: k_def fls_def)
    with b(2) assms(1) show "2 ^ (k - 1) < unat n" by linarith
  qed
  ultimately show thesis using that [of k] lt b(1) by simp
qed

lemma sint_small:
  assumes "unat (n::u32) < 2 ^ 31"
  shows "sint n = int (unat n)"
proof -
  have "int (unat n) < int (2 ^ 31)"
    using assms by (simp only: of_nat_less_iff)
  then have "uint n < 2 ^ 31" by simp
  moreover have "- (2 ^ 31) \<le> uint n"
    by (rule order_trans [OF _ uint_ge_0]) simp
  ultimately have "signed_take_bit 31 (uint n) = uint n"
    by (intro signed_take_bit_int_eq_self)
  then show ?thesis by (simp add: sint_uint)
qed

lemma sint_big:
  assumes "2 ^ 31 \<le> unat (n::u32)"
  shows "sint n < 0"
proof (rule ccontr)
  assume "\<not> sint n < 0"
  moreover have "sint n < 2 ^ 31" using sint_lt [of n] by simp
  ultimately have "uint n = sint n"
    by (simp add: uint_sint take_bit_int_eq_self)
  with \<open>sint n < 2 ^ 31\<close> assms show False
    by (simp add: unat_eq_nat_uint)
qed

lemma is_power_of_2_size:
  "is_power_of_2 (sint sz) \<longleftrightarrow> (\<exists>k < 31. sz = (2::u32) ^ k)"
proof (cases "unat sz < 2 ^ 31")
  case True
  have "(\<exists>k. int (unat sz) = 2 ^ k) \<longleftrightarrow> (\<exists>k < 31. sz = 2 ^ k)"
  proof
    assume "\<exists>k. int (unat sz) = 2 ^ k"
    then obtain k where k: "unat sz = 2 ^ k"
      by (metis of_nat_eq_iff of_nat_numeral of_nat_power)
    with True have "k < 31"
      using power_strict_increasing_iff [of "2::nat" k 31] by simp
    with k have "sz = 2 ^ k" by (simp add: word_unat_eq_iff unat_pow2)
    with \<open>k < 31\<close> show "\<exists>k < 31. sz = 2 ^ k" by blast
  next
    assume "\<exists>k < 31. sz = 2 ^ k"
    then obtain k where "k < 31" "sz = 2 ^ k" by blast
    then have "unat sz = 2 ^ k" by (simp add: unat_pow2)
    then have "int (unat sz) = 2 ^ k" by (simp only: of_nat_power of_nat_numeral)
    then show "\<exists>k. int (unat sz) = 2 ^ k" by blast
  qed
  then show ?thesis by (simp only: is_power_of_2_iff sint_small [OF True])
next
  case False
  then have "sint sz < 0" by (simp add: sint_big)
  moreover have "sz \<noteq> 2 ^ k" if "k < 31" for k
    using False that power_strict_increasing [of k 31 "2::nat"] by (auto simp: unat_pow2)
  ultimately show ?thesis
    by (auto simp: is_power_of_2_def)
qed

lemma afifo_init_ok:
  fixes lk :: u32
  assumes "k < 31" and "length buf = 2 ^ k"
  defines "f \<equiv> \<lparr>buffer = buf, fsize = 2 ^ k, inp = 0, outp = 0, lock = lk\<rparr>"
  shows "afifo_init rt_malloc buf (2 ^ k) lk =
      Inr (case rt_malloc sizeof_afifo of None \<Rightarrow> None | Some _ \<Rightarrow> Some f)"
    and "afifo_inv f" and "contents f = []"
proof -
  have "is_power_of_2 (sint (2 ^ k :: u32))"
    using assms(1) by (auto simp: is_power_of_2_size)
  then show "afifo_init rt_malloc buf (2 ^ k) lk =
      Inr (case rt_malloc sizeof_afifo of None \<Rightarrow> None | Some _ \<Rightarrow> Some f)"
    by (simp add: afifo_init_def BUG_ON_def f_def split: option.split)
  show "afifo_inv f"
    using assms by (auto simp: afifo_inv_def f_def unat_pow2 intro: exI [of _ k])
  show "contents f = []"
    by (simp add: contents_def f_def)
qed

text \<open>
  The size \<open>afifo_alloc\<close> settles on: the size asked for when it is a power of two, else the
  next one.
\<close>

lemma alloc_size:
  assumes "0 < unat sz" and "unat sz \<le> 2 ^ 31"
  shows "\<exists>k < 32. unat sz \<le> 2 ^ k \<and> (k \<noteq> 0 \<longrightarrow> 2 ^ (k - 1) < unat sz) \<and>
    (if \<not> is_power_of_2 (sint sz) then
          bind_res (BUG_ON (sz > 0x80000000)) (\<lambda>_. roundup_pow_of_two sz)
        else Inr sz) = Inr (2 ^ k)"
proof (cases "is_power_of_2 (sint sz)")
  case True
  then obtain k where k: "k < 31" "sz = 2 ^ k"
    by (auto simp: is_power_of_2_size)
  with True show ?thesis by (intro exI [of _ k]) (simp add: unat_pow2)
next
  case False
  from roundup_spec [OF assms] obtain k where
    k: "k < 32" "roundup_pow_of_two sz = Inr (2 ^ k)" "unat sz \<le> 2 ^ k"
    "k \<noteq> 0 \<longrightarrow> 2 ^ (k - 1) < unat sz" by blast
  have "\<not> sz > 0x80000000"
    using assms(2) by (simp add: word_less_nat_alt)
  with False k show ?thesis by (intro exI [of _ k]) (simp add: BUG_ON_def)
qed

subsection \<open>Sequences of operations against a bounded queue\<close>

datatype fifo_op = In "u8 list" | Out nat | Peek nat | Skip nat | Reset

fun fifo_op_ok :: "fifo_op \<Rightarrow> bool" where
  "fifo_op_ok (In xs) = (length xs < 2 ^ 32)"
| "fifo_op_ok (Out n) = (n < 2 ^ 32)"
| "fifo_op_ok (Peek n) = (n < 2 ^ 32)"
| "fifo_op_ok (Skip n) = (n < 2 ^ 32)"
| "fifo_op_ok Reset = True"

text \<open>One call on the ring buffer: the value it returns and the bytes it delivers.\<close>

fun fifo_step :: "afifo \<Rightarrow> fifo_op \<Rightarrow> ((nat \<times> u8 list) \<times> afifo) res" where
  "fifo_step f (In xs) =
     bind_res (afifo_in f xs (of_nat (length xs))) (\<lambda>(m, f'). Inr ((unat m, []), f'))"
| "fifo_step f (Out n) =
     bind_res (afifo_out f (replicate n 0) (of_nat n)) (\<lambda>(m, d, f'). Inr ((unat m, take (unat m) d), f'))"
| "fifo_step f (Peek n) =
     bind_res (afifo_out_data f (replicate n 0) (of_nat n)) (\<lambda>(m, d). Inr ((unat m, take (unat m) d), f))"
| "fifo_step f (Skip n) = (let (m, f') = afifo_add_out f (of_nat n) in Inr ((unat m, []), f'))"
| "fifo_step f Reset = Inr ((0, []), afifo_reset f)"

fun fifo_run :: "afifo \<Rightarrow> fifo_op list \<Rightarrow> ((nat \<times> u8 list) list \<times> afifo) res" where
  "fifo_run f [] = Inr ([], f)"
| "fifo_run f (p # ps) =
     bind_res (fifo_step f p) (\<lambda>(r, f').
     bind_res (fifo_run f' ps) (\<lambda>(rs, f''). Inr (r # rs, f'')))"

text \<open>The same call on a queue of at most \<open>c\<close> bytes.\<close>

fun queue_step :: "nat \<Rightarrow> u8 list \<Rightarrow> fifo_op \<Rightarrow> (nat \<times> u8 list) \<times> u8 list" where
  "queue_step c q (In xs) =
     (let m = min (length xs) (c - length q) in ((m, []), q @ take m xs))"
| "queue_step c q (Out n) = ((min n (length q), take n q), drop n q)"
| "queue_step c q (Peek n) = ((min n (length q), take n q), q)"
| "queue_step c q (Skip n) = ((min n (length q), []), drop n q)"
| "queue_step c q Reset = ((0, []), [])"

fun queue_run :: "nat \<Rightarrow> u8 list \<Rightarrow> fifo_op list \<Rightarrow> (nat \<times> u8 list) list \<times> u8 list" where
  "queue_run c q [] = ([], q)"
| "queue_run c q (p # ps) =
     (let (r, q') = queue_step c q p; (rs, q'') = queue_run c q' ps in (r # rs, q''))"

lemma drop_min_length [simp]: "drop (min n (length q)) q = drop n q"
  by (simp add: min_def)

lemma take_min_length [simp]: "take (min n (length q)) q = take n q"
  by (simp add: min_def)

lemma fifo_step_refines:
  assumes inv: "afifo_inv f" and ok: "fifo_op_ok p"
  shows "\<exists>f'. fifo_step f p = Inr (fst (queue_step (length (buffer f)) (contents f) p), f') \<and>
    afifo_inv f' \<and> length (buffer f') = length (buffer f) \<and>
    contents f' = snd (queue_step (length (buffer f)) (contents f) p)"
proof (cases p)
  case (In xs)
  with ok have n: "unat (of_nat (length xs) :: u32) = length xs"
    by (simp add: unat_of_nat_u32)
  from fifo.put_ok [OF inv, of "of_nat (length xs)" xs] n obtain m f' where
    "afifo_in f xs (of_nat (length xs)) = Inr (m, f')"
    "unat m = min (length xs) (length (buffer f) - length (contents f))" "afifo_inv f'"
    "length (buffer f') = length (buffer f)" "contents f' = contents f @ take (unat m) xs" by auto
  with In show ?thesis by (simp add: Let_def)
next
  case (Out n)
  with ok have n: "unat (of_nat n :: u32) = n" by (simp add: unat_of_nat_u32)
  let ?m = "cmin (of_nat n) (inp f - outp f)"
  have m: "unat ?m = min n (length (contents f))" by (simp add: n)
  have "afifo_out f (replicate n 0) (of_nat n) =
      Inr (?m, take (unat ?m) (contents f) @ drop (unat ?m) (replicate n 0), f\<lparr>outp := outp f + ?m\<rparr>)"
    using u_afifo_out_data_steps [OF inv, of "of_nat n" "replicate n 0"] n
    by (simp add: public_eq u_afifo_out_eq)
  with advance_out [OF inv, of ?m] Out show ?thesis
    by (simp add: m del: length_contents unat_cmin)
next
  case (Peek n)
  with ok have n: "unat (of_nat n :: u32) = n" by (simp add: unat_of_nat_u32)
  with fifo.peek_ok [OF inv, of "of_nat n" "replicate n 0"] inv Peek show ?thesis
    by (auto simp del: length_contents)
next
  case (Skip n)
  with ok have n: "unat (of_nat n :: u32) = n" by (simp add: unat_of_nat_u32)
  with fifo.skip_ok [OF inv, of "of_nat n"] Skip show ?thesis
    by (auto simp del: length_contents)
next
  case Reset
  have "afifo_inv (afifo_reset f)"
    by (rule afifo_inv_upd [OF inv]) (simp_all add: afifo_reset_def Let_def)
  moreover have "contents (afifo_reset f) = []" "buffer (afifo_reset f) = buffer f"
    by (simp_all add: contents_def afifo_reset_def Let_def)
  ultimately show ?thesis using Reset by simp
qed

subsection \<open>Properties\<close>

text \<open>
  C3: the ring buffer refines a bounded byte queue. Any sequence of \<open>afifo_in\<close>,
  \<open>afifo_out\<close>, \<open>afifo_out_data\<close>, \<open>afifo_add_out\<close> and \<open>afifo_reset\<close> calls on a
  well-formed FIFO, whatever the wrap-around of its 32-bit counters, touches no memory
  outside the buffers, returns the counts and delivers the bytes the queue of at most
  \<open>size\<close> bytes would, and keeps the FIFO well-formed with the queue's contents.
\<close>

theorem fifo_run_refines_queue:
  assumes "afifo_inv f" and "list_all fifo_op_ok ps"
  shows "\<exists>f'. fifo_run f ps = Inr (fst (queue_run (unat (fsize f)) (contents f) ps), f') \<and>
    afifo_inv f' \<and> contents f' = snd (queue_run (unat (fsize f)) (contents f) ps)"
  using assms
proof (induction ps arbitrary: f)
  case Nil
  then show ?case by simp
next
  case (Cons p ps)
  let ?c = "unat (fsize f)"
  from Cons.prems have inv: "afifo_inv f" and ok: "fifo_op_ok p" "list_all fifo_op_ok ps" by auto
  note len = afifo_inv_length [OF inv]
  from fifo_step_refines [OF inv ok(1)] obtain g where
    g: "fifo_step f p = Inr (fst (queue_step ?c (contents f) p), g)" "afifo_inv g"
    "length (buffer g) = length (buffer f)" "contents g = snd (queue_step ?c (contents f) p)"
    by (auto simp: len)
  have c: "unat (fsize g) = ?c"
    using g(3) by (simp add: afifo_inv_length [OF g(2)] len)
  from Cons.IH [OF g(2) ok(2)] obtain f' where
    "fifo_run g ps = Inr (fst (queue_run ?c (contents g) ps), f')" "afifo_inv f'"
    "contents f' = snd (queue_run ?c (contents g) ps)" by (auto simp: c)
  with g show ?case
    by (auto simp: Let_def split: prod.splits)
qed

definition wrap_fifo :: afifo where
  "wrap_fifo = \<lparr>buffer = [7, 8, 5, 6], fsize = 4, inp = 1, outp = 0xFFFFFFFE, lock = 0\<rparr>"

lemma wrap_fifo_inv: "afifo_inv wrap_fifo"
  by (auto simp: afifo_inv_def wrap_fifo_def intro: exI [of _ 2])

theorem fifo_run_refines_queue_witness:
  "afifo_inv wrap_fifo \<and>
   (\<exists>f'. fifo_run wrap_fifo [In [9, 10], Out 3] = Inr ([(1, []), (3, [5, 6, 7])], f') \<and>
      contents f' = [9])"
proof -
  have c: "contents wrap_fifo = [5, 6, 7]"
    by (simp add: contents_def wrap_fifo_def upt_rec)
  have "list_all fifo_op_ok [In [9, 10], Out 3]" by simp
  from fifo_run_refines_queue [OF wrap_fifo_inv this] show ?thesis
    using wrap_fifo_inv unfolding c by (auto simp: wrap_fifo_def)
qed

text \<open>
  \<open>afifo_alloc\<close> for a size between 1 and \<open>2^30\<close> returns, when both allocations
  succeed, an empty well-formed FIFO whose size is the least power of two at least as large
  as the size asked for; when the control block cannot be allocated it returns null and
  gives the buffer back, and when the buffer cannot be allocated it returns null.
\<close>

theorem afifo_alloc_spec:
  assumes "0 < unat sz" and "unat sz \<le> 2 ^ 30"
    and fresh: "\<And>b n. length (fresh b n) = n"
  shows "\<exists>k < 31. unat sz \<le> 2 ^ k \<and> (k \<noteq> 0 \<longrightarrow> 2 ^ (k - 1) < unat sz) \<and>
    (case rt_malloc (2 ^ k) of
       None \<Rightarrow> afifo_alloc rt_malloc fresh sz lk = Inr (None, [])
     | Some b \<Rightarrow>
         (case rt_malloc sizeof_afifo of
            None \<Rightarrow> afifo_alloc rt_malloc fresh sz lk = Inr (None, [b])
          | Some _ \<Rightarrow> \<exists>f. afifo_alloc rt_malloc fresh sz lk = Inr (Some f, []) \<and>
              afifo_inv f \<and> fsize f = 2 ^ k \<and> contents f = []))"
proof -
  have "unat sz \<le> 2 ^ 31" using assms(2) by simp
  with alloc_size [OF assms(1)] obtain k where k: "k < 32" "unat sz \<le> 2 ^ k" "k \<noteq> 0 \<longrightarrow> 2 ^ (k - 1) < unat sz"
    "(if \<not> is_power_of_2 (sint sz) then
          bind_res (BUG_ON (sz > 0x80000000)) (\<lambda>_. roundup_pow_of_two sz)
        else Inr sz) = Inr (2 ^ k)"
    by blast
  have "k < 31"
  proof (rule ccontr)
    assume "\<not> k < 31"
    with k(1) have "k = 31" by simp
    with k(3) assms(2) show False by simp
  qed
  moreover have "unat (2 ^ k :: u32) = 2 ^ k" using k(1) by (simp add: unat_pow2)
  moreover note init =
    afifo_init_ok(1) [where k = k and lk = lk and rt_malloc = rt_malloc]
    afifo_init_ok(2,3) [where k = k and lk = lk]
  ultimately show ?thesis
    using k(2,3,4) fresh
    by (intro exI [of _ k]) (auto simp: afifo_alloc_def init split: option.splits)
qed

theorem afifo_alloc_spec_witness:
  "\<exists>f. afifo_alloc (\<lambda>_. Some ()) (\<lambda>_ n. replicate n 0) 100 0 = Inr (Some f, []) \<and>
     afifo_inv f \<and> unat (fsize f) = 128"
proof -
  have "\<exists>k < 31. (100::nat) \<le> 2 ^ k \<and> (k \<noteq> 0 \<longrightarrow> 2 ^ (k - 1) < (100::nat)) \<and>
    (\<exists>f. afifo_alloc (\<lambda>_. Some ()) (\<lambda>_ n. replicate n 0) 100 0 = Inr (Some f, []) \<and>
              afifo_inv f \<and> fsize f = 2 ^ k \<and> contents f = [])"
    using afifo_alloc_spec [of 100 "\<lambda>_ n. replicate n 0" "\<lambda>_. Some ()" 0] by simp
  then obtain k f where k: "k < 31" "(100::nat) \<le> 2 ^ k" "k \<noteq> 0 \<longrightarrow> 2 ^ (k - 1) < (100::nat)"
    and f: "afifo_alloc (\<lambda>_. Some ()) (\<lambda>_ n. replicate n 0) 100 0 = Inr (Some f, [])"
      "afifo_inv f" "fsize f = 2 ^ k" by blast
  have "k = 7"
  proof -
    have "\<not> k \<le> 6" using k(2) power_increasing [of k 6 "2::nat"] by auto
    moreover have "\<not> 8 \<le> k"
    proof
      assume "8 \<le> k"
      then have "(2::nat) ^ 7 \<le> 2 ^ (k - 1)" by (intro power_increasing) auto
      with k(3) \<open>8 \<le> k\<close> show False by simp
    qed
    ultimately show ?thesis by simp
  qed
  with f show ?thesis by (auto simp: unat_pow2)
qed

text \<open>
  \<open>afifo_alloc\<close> never returns for a size above \<open>2^30\<close> (when the buffer can be
  allocated): up to \<open>2^31\<close> the size is rounded up to \<open>2^31\<close>, which the signed
  \<open>is_power_of_2\<close> of \<open>afifo_init\<close> rejects, and beyond \<open>2^31\<close> the first \<open>BUG_ON\<close> spins.
  A size of 0 shifts 1 by 32, which is undefined.
\<close>

theorem afifo_alloc_rejects:
  assumes "\<And>n. rt_malloc n \<noteq> None"
  shows "(2 ^ 30 < unat sz \<longrightarrow> afifo_alloc rt_malloc fresh sz lk = Inl BusyLoop) \<and>
         (sz = 0 \<longrightarrow> afifo_alloc rt_malloc fresh sz lk = Inl BadShift)"
proof (intro conjI impI)
  assume big: "2 ^ 30 < unat sz"
  show "afifo_alloc rt_malloc fresh sz lk = Inl BusyLoop"
  proof (cases "unat sz \<le> 2 ^ 31")
    case True
    moreover have "0 < unat sz" using big by simp
    ultimately obtain k where k: "k < 32" "unat sz \<le> 2 ^ k"
      "(if \<not> is_power_of_2 (sint sz) then
          bind_res (BUG_ON (sz > 0x80000000)) (\<lambda>_. roundup_pow_of_two sz)
        else Inr sz) = Inr (2 ^ k)"
      using alloc_size [of sz] by blast
    have "\<not> k \<le> 30" using k(2) big power_increasing [of k 30 "2::nat"] by auto
    with k(1) have k31: "k = 31" by simp
    have "\<not> is_power_of_2 (sint (2 ^ 31 :: u32))"
      using sint_big [of "2 ^ 31"] by (simp add: is_power_of_2_def)
    with k(3) k31 assms [of "2 ^ 31"] show ?thesis
      by (auto simp: afifo_alloc_def afifo_init_def BUG_ON_def)
  next
    case False
    then have "sint sz < 0" "sz > 0x80000000"
      by (auto simp: sint_big word_less_nat_alt)
    then show ?thesis
      by (simp add: afifo_alloc_def BUG_ON_def is_power_of_2_def)
  qed
next
  assume "sz = 0"
  moreover have "32 \<le> unat (fls (- 1))"
  proof (rule ccontr)
    assume "\<not> 32 \<le> unat (fls (- 1))"
    then have "(2::nat) ^ unat (fls (- 1)) \<le> 2 ^ 31" by (intro power_increasing) auto
    moreover have "unat (- 1 :: u32) < 2 ^ unat (fls (- 1))" using fls_bits by blast
    moreover have "unat (- 1 :: u32) = 2 ^ 32 - 1"
      by (simp add: unsigned_minus_1_eq_mask mask_eq_exp_minus_1)
    ultimately show False by simp
  qed
  ultimately show "afifo_alloc rt_malloc fresh sz lk = Inl BadShift"
    by (simp add: afifo_alloc_def BUG_ON_def is_power_of_2_def roundup_pow_of_two_def Let_def)
qed

theorem afifo_alloc_rejects_witness:
  "afifo_alloc (\<lambda>_. Some ()) (\<lambda>_ n. replicate n 0) 0x40000001 0 = Inl BusyLoop"
  using afifo_alloc_rejects [where rt_malloc = "\<lambda>_. Some ()" and sz = "0x40000001"
      and fresh = "\<lambda>_ n. replicate n 0" and lk = 0] by simp

end
