(* ===== verification/Alist.thy ===== *)
theory Alist
  imports Prelude
begin

section \<open>The intrusive doubly linked list (abus/alist.h)\<close>

text \<open>
  The port of the Linux \<open>list.h\<close>: a circular list threaded through \<open>struct list_head\<close>
  members, with a head node of its own. A node is a value of the type \<open>'n\<close> (its address),
  the heap gives each node its two members, and the null pointer is \<open>None\<close>. Reading or
  writing a member through the null pointer is a fault.
\<close>

subsection \<open>Data and operations\<close>

record 'n lheap =
  nxt :: "'n \<Rightarrow> 'n option"
  prv :: "'n \<Rightarrow> 'n option"

definition get_next :: "'n lheap \<Rightarrow> 'n option \<Rightarrow> 'n option res" where
  "get_next h p = (case p of None \<Rightarrow> Inl NullDeref | Some a \<Rightarrow> Inr (nxt h a))"

definition get_prev :: "'n lheap \<Rightarrow> 'n option \<Rightarrow> 'n option res" where
  "get_prev h p = (case p of None \<Rightarrow> Inl NullDeref | Some a \<Rightarrow> Inr (prv h a))"

definition set_next :: "'n lheap \<Rightarrow> 'n option \<Rightarrow> 'n option \<Rightarrow> 'n lheap res" where
  "set_next h p v = (case p of None \<Rightarrow> Inl NullDeref | Some a \<Rightarrow> Inr (h\<lparr>nxt := (nxt h)(a := v)\<rparr>))"

definition set_prev :: "'n lheap \<Rightarrow> 'n option \<Rightarrow> 'n option \<Rightarrow> 'n lheap res" where
  "set_prev h p v = (case p of None \<Rightarrow> Inl NullDeref | Some a \<Rightarrow> Inr (h\<lparr>prv := (prv h)(a := v)\<rparr>))"

lemmas member_defs [simp] = get_next_def get_prev_def set_next_def set_prev_def

definition INIT_LIST_HEAD :: "'n lheap \<Rightarrow> 'n option \<Rightarrow> 'n lheap res" where
  "INIT_LIST_HEAD h l = bind_res (set_next h l l) (\<lambda>h1. set_prev h1 l l)"

definition init_list_head :: "'n lheap \<Rightarrow> 'n option \<Rightarrow> 'n lheap res" where
  "init_list_head h l = bind_res (set_prev h l l) (\<lambda>h1. set_next h1 l l)"

definition u_list_add :: "'n lheap \<Rightarrow> 'n option \<Rightarrow> 'n option \<Rightarrow> 'n option \<Rightarrow> 'n lheap res" where
  "u_list_add h new prev next =
     bind_res (set_prev h next new) (\<lambda>h1.
     bind_res (set_next h1 new next) (\<lambda>h2.
     bind_res (set_prev h2 new prev) (\<lambda>h3.
     set_next h3 prev new)))"

definition list_add :: "'n lheap \<Rightarrow> 'n option \<Rightarrow> 'n option \<Rightarrow> 'n lheap res" where
  "list_add h new head = bind_res (get_next h head) (\<lambda>n. u_list_add h new head n)"

definition list_add_tail :: "'n lheap \<Rightarrow> 'n option \<Rightarrow> 'n option \<Rightarrow> 'n lheap res" where
  "list_add_tail h new head = bind_res (get_prev h head) (\<lambda>p. u_list_add h new p head)"

definition u_list_del :: "'n lheap \<Rightarrow> 'n option \<Rightarrow> 'n option \<Rightarrow> 'n lheap res" where
  "u_list_del h prev next = bind_res (set_next h prev next) (\<lambda>h1. set_prev h1 next prev)"

text \<open>\<open>LIST_POISON1\<close> and \<open>LIST_POISON2\<close> are the null pointer.\<close>

definition list_del :: "'n lheap \<Rightarrow> 'n option \<Rightarrow> 'n lheap res" where
  "list_del h entry =
     bind_res (get_prev h entry) (\<lambda>p.
     bind_res (get_next h entry) (\<lambda>n.
     bind_res (u_list_del h p n) (\<lambda>h1.
     bind_res (set_next h1 entry None) (\<lambda>h2.
     set_prev h2 entry None))))"

definition u_list_splice :: "'n lheap \<Rightarrow> 'n option \<Rightarrow> 'n option \<Rightarrow> 'n lheap res" where
  "u_list_splice h l head =
     bind_res (get_next h l) (\<lambda>first.
     bind_res (get_prev h l) (\<lambda>last.
     bind_res (get_next h head) (\<lambda>at.
     bind_res (set_prev h first head) (\<lambda>h1.
     bind_res (set_next h1 head first) (\<lambda>h2.
     bind_res (set_next h2 last at) (\<lambda>h3.
     set_prev h3 at last))))))"

definition list_empty :: "'n lheap \<Rightarrow> 'n option \<Rightarrow> bool res" where
  "list_empty h head = bind_res (get_next h head) (\<lambda>n. Inr (n = head))"

definition list_splice :: "'n lheap \<Rightarrow> 'n option \<Rightarrow> 'n option \<Rightarrow> 'n lheap res" where
  "list_splice h l head =
     bind_res (list_empty h l) (\<lambda>e. if \<not> e then u_list_splice h l head else Inr h)"

definition list_replace :: "'n lheap \<Rightarrow> 'n option \<Rightarrow> 'n option \<Rightarrow> 'n lheap res" where
  "list_replace h old new =
     bind_res (get_next h old) (\<lambda>n.
     bind_res (set_next h new n) (\<lambda>h1.
     bind_res (get_next h1 new) (\<lambda>n'.
     bind_res (set_prev h1 n' new) (\<lambda>h2.
     bind_res (get_prev h2 old) (\<lambda>p.
     bind_res (set_prev h2 new p) (\<lambda>h3.
     bind_res (get_prev h3 new) (\<lambda>p'.
     set_next h3 p' new)))))))"

definition list_replace_init :: "'n lheap \<Rightarrow> 'n option \<Rightarrow> 'n option \<Rightarrow> 'n lheap res" where
  "list_replace_init h old new =
     bind_res (list_replace h old new) (\<lambda>h1. INIT_LIST_HEAD h1 old)"

definition list_move :: "'n lheap \<Rightarrow> 'n option \<Rightarrow> 'n option \<Rightarrow> 'n lheap res" where
  "list_move h l head =
     bind_res (get_prev h l) (\<lambda>p.
     bind_res (get_next h l) (\<lambda>n.
     bind_res (u_list_del h p n) (\<lambda>h1. list_add h1 l head)))"

definition list_move_tail :: "'n lheap \<Rightarrow> 'n option \<Rightarrow> 'n option \<Rightarrow> 'n lheap res" where
  "list_move_tail h l head =
     bind_res (get_prev h l) (\<lambda>p.
     bind_res (get_next h l) (\<lambda>n.
     bind_res (u_list_del h p n) (\<lambda>h1. list_add_tail h1 l head)))"

text \<open>
  \<open>list_for_each (pos, head)\<close>: the nodes the loop visits, in order, when its body does not
  change the list. \<open>None\<close> is a loop that never ends; a null \<open>pos\<close> is dereferenced by the
  body.
\<close>

partial_function (option) list_for_each_from ::
    "'n lheap \<Rightarrow> 'n option \<Rightarrow> 'n option \<Rightarrow> 'n list res option" where
  "list_for_each_from h head pos =
     (if pos = head then Some (Inr [])
      else (case pos of
              None \<Rightarrow> Some (Inl NullDeref)
            | Some a \<Rightarrow>
                Option.bind (list_for_each_from h head (nxt h a))
                  (\<lambda>r. Some (bind_res r (\<lambda>as. Inr (a # as))))))"

definition list_for_each :: "'n lheap \<Rightarrow> 'n option \<Rightarrow> 'n list res option" where
  "list_for_each h head =
     (case head of
        None \<Rightarrow> Some (Inl NullDeref)
      | Some a \<Rightarrow> list_for_each_from h head (nxt h a))"

text \<open>\<open>list_length\<close> tests \<open>list->next != list\<close> on the same node again and again.\<close>

partial_function (option) list_length_loop :: "'n lheap \<Rightarrow> 'n \<Rightarrow> int \<Rightarrow> int option" where
  "list_length_loop h l cnt =
     (if nxt h l \<noteq> Some l then list_length_loop h l (cnt + 1) else Some cnt)"

definition list_length :: "'n lheap \<Rightarrow> 'n \<Rightarrow> int option" where
  "list_length h l = list_length_loop h l 0"

subsection \<open>Circular lists in the heap\<close>

definition link :: "'n lheap \<Rightarrow> 'n \<Rightarrow> 'n \<Rightarrow> bool" where
  "link h x y \<longleftrightarrow> nxt h x = Some y \<and> prv h y = Some x"

definition circ :: "'n lheap \<Rightarrow> 'n \<Rightarrow> 'n list \<Rightarrow> bool" where
  "circ h head xs \<longleftrightarrow> distinct (head # xs) \<and> successively (link h) (head # xs @ [head])"

lemma link_frame:
  assumes "successively (link h) xs"
    and "\<And>x. x \<in> set (butlast xs) \<Longrightarrow> nxt h' x = nxt h x"
    and "\<And>x. x \<in> set (tl xs) \<Longrightarrow> prv h' x = prv h x"
  shows "successively (link h') xs"
  using assms
proof (induction xs rule: induct_list012)
  case (3 x y zs)
  then show ?case by (auto simp: link_def split: if_splits)
qed auto

text \<open>The two neighbours of the gap between \<open>xs\<close> and \<open>ys\<close>.\<close>

lemma circ_gap:
  "circ h head (xs @ ys) \<longleftrightarrow>
     distinct (head # xs @ ys) \<and> successively (link h) (head # xs) \<and>
     successively (link h) (ys @ [head]) \<and> link h (last (head # xs)) (hd (ys @ [head]))"
  by (simp add: circ_def successively_append_iff [of _ "head # xs" "ys @ [head]", simplified])

lemma gap_ends:
  assumes d: "distinct (head # xs @ ys)"
  defines "p \<equiv> last (head # xs)" and "q \<equiv> hd (ys @ [head])"
  shows "p \<in> set (head # xs)" "p \<notin> set ys" "p \<notin> set (butlast (head # xs))"
    "q \<in> set (ys @ [head])" "q \<notin> set xs" "q \<notin> set (tl (ys @ [head]))"
    "set (butlast (head # xs)) \<subseteq> set (head # xs)" "set (tl (ys @ [head])) \<subseteq> set (ys @ [head])"
proof -
  show in1: "p \<in> set (head # xs)" unfolding p_def by (rule last_in_set) simp
  then show "p \<notin> set ys" using d by auto
  have "distinct (butlast (head # xs) @ [p])"
    using d by (simp only: p_def append_butlast_last_id list.distinct simp_thms) simp
  then show "p \<notin> set (butlast (head # xs))" by simp
  show "q \<in> set (ys @ [head])" "q \<notin> set xs" "q \<notin> set (tl (ys @ [head]))"
    using d by (cases ys; auto simp: q_def)+
  show "set (butlast (head # xs)) \<subseteq> set (head # xs)"
    by (auto dest: in_set_butlastD split: if_splits)
  show "set (tl (ys @ [head])) \<subseteq> set (ys @ [head])"
    by (cases ys) auto
qed

lemma circ_add:
  assumes c: "circ h head (xs @ ys)" and new: "new \<noteq> head" "new \<notin> set (xs @ ys)"
  defines "p \<equiv> last (head # xs)" and "q \<equiv> hd (ys @ [head])"
  shows "\<exists>h'. u_list_add h (Some new) (Some p) (Some q) = Inr h' \<and> circ h' head (xs @ new # ys) \<and>
     (\<forall>x. x \<notin> set (new # head # xs @ ys) \<longrightarrow> nxt h' x = nxt h x \<and> prv h' x = prv h x)"
proof -
  define h' where "h' = h\<lparr>nxt := (nxt h)(new := Some q, p := Some new),
                          prv := (prv h)(q := Some new, new := Some p)\<rparr>"
  have d: "distinct (head # xs @ ys)" using c by (simp add: circ_def)
  note e = gap_ends [OF d, folded p_def q_def]
  have ne: "p \<noteq> new" "q \<noteq> new" using e(1,4) new by auto
  have add: "u_list_add h (Some new) (Some p) (Some q) = Inr h'"
    by (simp add: u_list_add_def h'_def fun_upd_twist)
  have "successively (link h') (head # xs)"
  proof (rule link_frame [of h])
    show "successively (link h) (head # xs)" using c by (simp add: circ_gap)
    show "nxt h' x = nxt h x" if "x \<in> set (butlast (head # xs))" for x
      using that e(3,7) new by (auto simp: h'_def)
    show "prv h' x = prv h x" if "x \<in> set (tl (head # xs))" for x
      using that e(5) new by (auto simp: h'_def)
  qed
  moreover have "successively (link h') (ys @ [head])"
  proof (rule link_frame [of h])
    show "successively (link h) (ys @ [head])" using c by (simp add: circ_gap)
    show "nxt h' x = nxt h x" if "x \<in> set (butlast (ys @ [head]))" for x
      using that e(2) new by (auto simp: h'_def)
    show "prv h' x = prv h x" if "x \<in> set (tl (ys @ [head]))" for x
      using that e(6,8) new by (auto simp: h'_def)
  qed
  moreover have "link h' p new" "link h' new q"
    using ne by (auto simp: link_def h'_def)
  ultimately have "circ h' head (xs @ new # ys)"
    using d new by (simp add: circ_gap [of h' head xs "new # ys"] successively_Cons p_def q_def)
  moreover have "nxt h' x = nxt h x \<and> prv h' x = prv h x" if "x \<notin> set (new # head # xs @ ys)" for x
    using that e(1,4) by (auto simp: h'_def)
  ultimately show ?thesis
    using add by blast
qed

lemma circ_del:
  assumes c: "circ h head (xs @ e # ys)"
  defines "p \<equiv> last (head # xs)" and "q \<equiv> hd (ys @ [head])"
  shows "prv h e = Some p" "nxt h e = Some q"
    "\<exists>h'. u_list_del h (Some p) (Some q) = Inr h' \<and> circ h' head (xs @ ys) \<and>
       (\<forall>x. x \<notin> set (head # xs @ ys) \<longrightarrow> nxt h' x = nxt h x \<and> prv h' x = prv h x)"
proof -
  have c1: "link h p e" and c2: "link h e q" and c3: "successively (link h) (head # xs)"
    and c4: "successively (link h) (ys @ [head])" and d: "distinct (head # xs @ ys)" "e \<notin> set (head # xs @ ys)"
    using c by (auto simp: circ_gap [of h head xs "e # ys"] successively_Cons p_def q_def)
  from c1 c2 show "prv h e = Some p" "nxt h e = Some q" by (simp_all add: link_def)
  define h' where "h' = h\<lparr>nxt := (nxt h)(p := Some q), prv := (prv h)(q := Some p)\<rparr>"
  note e = gap_ends [OF d(1), folded p_def q_def]
  have "successively (link h') (head # xs)"
    by (rule link_frame [OF c3]) (use e in \<open>auto simp: h'_def\<close>)
  moreover have "successively (link h') (ys @ [head])"
    by (rule link_frame [OF c4]) (use e in \<open>auto simp: h'_def\<close>)
  moreover have "link h' p q" by (simp add: link_def h'_def)
  ultimately have "circ h' head (xs @ ys)"
    using d by (simp add: circ_gap p_def q_def)
  moreover have "u_list_del h (Some p) (Some q) = Inr h'"
    by (simp add: u_list_del_def h'_def)
  moreover have "nxt h' x = nxt h x \<and> prv h' x = prv h x" if "x \<notin> set (head # xs @ ys)" for x
    using that e(1,4) by (auto simp: h'_def)
  ultimately show "\<exists>h'. u_list_del h (Some p) (Some q) = Inr h' \<and> circ h' head (xs @ ys) \<and>
       (\<forall>x. x \<notin> set (head # xs @ ys) \<longrightarrow> nxt h' x = nxt h x \<and> prv h' x = prv h x)"
    by blast
qed

text \<open>A list is untouched by changes to the members of nodes outside it.\<close>

lemma circ_frame:
  assumes "circ h head xs"
    and "\<And>x. x \<in> set (head # xs) \<Longrightarrow> nxt h' x = nxt h x \<and> prv h' x = prv h x"
  shows "circ h' head xs"
proof -
  have "successively (link h') (head # xs @ [head])"
    by (rule link_frame [of h]) (use assms in \<open>auto simp: circ_def dest: in_set_butlastD split: if_splits\<close>)
  with assms show ?thesis by (simp add: circ_def)
qed

subsection \<open>What the operations do\<close>

lemma circ_ends:
  assumes "circ h head xs"
  shows "nxt h head = Some (hd (xs @ [head]))" "prv h head = Some (last (head # xs))"
  using assms circ_gap [of h head "[]" xs] circ_gap [of h head xs "[]"] by (auto simp: link_def)

lemma list_add_circ:
  assumes "circ h head xs" "new \<noteq> head" "new \<notin> set xs"
  shows "\<exists>h'. list_add h (Some new) (Some head) = Inr h' \<and> circ h' head (new # xs) \<and>
    (\<forall>x. x \<notin> set (new # head # xs) \<longrightarrow> nxt h' x = nxt h x \<and> prv h' x = prv h x)"
  using circ_add [of h head "[]" xs new] assms by (auto simp: list_add_def circ_ends)

lemma list_add_tail_circ:
  assumes "circ h head xs" "new \<noteq> head" "new \<notin> set xs"
  shows "\<exists>h'. list_add_tail h (Some new) (Some head) = Inr h' \<and> circ h' head (xs @ [new]) \<and>
    (\<forall>x. x \<notin> set (new # head # xs) \<longrightarrow> nxt h' x = nxt h x \<and> prv h' x = prv h x)"
  using circ_add [of h head xs "[]" new] assms by (auto simp: list_add_tail_def circ_ends)

lemma list_del_circ:
  assumes c: "circ h head (xs @ e # ys)"
  shows "\<exists>h'. list_del h (Some e) = Inr h' \<and> circ h' head (xs @ ys) \<and> nxt h' e = None \<and> prv h' e = None \<and>
    (\<forall>x. x \<notin> set (head # xs @ e # ys) \<longrightarrow> nxt h' x = nxt h x \<and> prv h' x = prv h x)"
proof -
  let ?p = "last (head # xs)" and ?q = "hd (ys @ [head])"
  from circ_del [OF c] obtain h1 where
    n: "prv h e = Some ?p" "nxt h e = Some ?q" and
    h1: "u_list_del h (Some ?p) (Some ?q) = Inr h1" "circ h1 head (xs @ ys)"
    "\<forall>x. x \<notin> set (head # xs @ ys) \<longrightarrow> nxt h1 x = nxt h x \<and> prv h1 x = prv h x" by blast
  have d: "e \<notin> set (head # xs @ ys)" "distinct (head # xs @ ys)" using c by (auto simp: circ_def)
  define h' where "h' = h1\<lparr>nxt := (nxt h1)(e := None), prv := (prv h1)(e := None)\<rparr>"
  have "list_del h (Some e) = Inr h'"
    unfolding list_del_def h'_def by (simp only: member_defs n h1 option.case bind_res_Inr) simp
  moreover have "circ h' head (xs @ ys)"
    by (rule circ_frame [OF h1(2)]) (use d in \<open>auto simp: h'_def\<close>)
  ultimately show ?thesis
    using h1(3) by (intro exI [of _ h']) (auto simp: h'_def)
qed

lemma list_for_each_circ:
  assumes "circ h head xs"
  shows "list_for_each h (Some head) = Some (Inr xs)"
proof -
  have "list_for_each_from h (Some head) (Some (hd (zs @ [head]))) = Some (Inr zs)"
    if "successively (link h) (zs @ [head])" "head \<notin> set zs" for zs
    using that
  proof (induction zs)
    case Nil
    then show ?case by (simp add: list_for_each_from.simps)
  next
    case (Cons z zs)
    from Cons.prems have "nxt h z = Some (hd (zs @ [head]))" "successively (link h) (zs @ [head])"
      by (auto simp: successively_Cons link_def)
    with Cons show ?case
      by (auto simp: list_for_each_from.simps [of h "Some head" "Some z"])
  qed
  from this [of xs] assms show ?thesis
    by (auto simp: list_for_each_def link_def circ_gap [of h head "[]" xs, simplified])
qed

lemma circ_move:
  assumes c: "circ h head (xs @ e # ys)"
  shows "\<exists>h'. list_move h (Some e) (Some head) = Inr h' \<and> circ h' head (e # xs @ ys)"
    and "\<exists>h'. list_move_tail h (Some e) (Some head) = Inr h' \<and> circ h' head (xs @ ys @ [e])"
proof -
  let ?p = "last (head # xs)" and ?q = "hd (ys @ [head])"
  from circ_del [OF c] obtain h1 where
    n: "prv h e = Some ?p" "nxt h e = Some ?q" and
    h1: "u_list_del h (Some ?p) (Some ?q) = Inr h1" "circ h1 head (xs @ ys)" by blast
  have d: "e \<noteq> head" "e \<notin> set (xs @ ys)" using c by (auto simp: circ_def)
  have m: "list_move h (Some e) (Some head) = list_add h1 (Some e) (Some head)"
    "list_move_tail h (Some e) (Some head) = list_add_tail h1 (Some e) (Some head)"
    unfolding list_move_def list_move_tail_def
    by (simp_all only: member_defs n h1 option.case bind_res_Inr)
  show "\<exists>h'. list_move h (Some e) (Some head) = Inr h' \<and> circ h' head (e # xs @ ys)"
    using list_add_circ [OF h1(2) d] by (auto simp: m)
  show "\<exists>h'. list_move_tail h (Some e) (Some head) = Inr h' \<and> circ h' head (xs @ ys @ [e])"
    using list_add_tail_circ [OF h1(2) d] by (auto simp: m)
qed

lemma circ_replace:
  assumes c: "circ h head (xs @ old # ys)" and new: "new \<notin> set (head # xs @ old # ys)"
  shows "\<exists>h'. list_replace h (Some old) (Some new) = Inr h' \<and> circ h' head (xs @ new # ys)"
proof -
  define p where "p = last (head # xs)"
  define q where "q = hd (ys @ [head])"
  have c1: "link h p old" and c2: "link h old q" and c3: "successively (link h) (head # xs)"
    and c4: "successively (link h) (ys @ [head])" and d: "distinct (head # xs @ ys)" "old \<notin> set (head # xs @ ys)"
    using c by (auto simp: circ_gap [of h head xs "old # ys"] successively_Cons p_def q_def)
  note e = gap_ends [OF d(1), folded p_def q_def]
  have ne: "p \<noteq> new" "q \<noteq> new" "q \<noteq> old" "p \<noteq> old" using e(1,4) new d by auto
  define h' where "h' = h\<lparr>nxt := (nxt h)(new := Some q, p := Some new),
                          prv := (prv h)(q := Some new, new := Some p)\<rparr>"
  have "list_replace h (Some old) (Some new) = Inr h'"
    using c1 c2 ne new by (simp add: list_replace_def link_def h'_def)
  moreover have "successively (link h') (head # xs)"
    by (rule link_frame [OF c3]) (use e new in \<open>auto simp: h'_def\<close>)
  moreover have "successively (link h') (ys @ [head])"
    by (rule link_frame [OF c4]) (use e new in \<open>auto simp: h'_def\<close>)
  moreover have "link h' p new" "link h' new q"
    using ne by (auto simp: link_def h'_def)
  ultimately show ?thesis
    using d new by (auto simp: circ_gap [of h' head xs "new # ys"] successively_Cons p_def q_def)
qed

lemma circ_splice:
  assumes l: "circ h l xs" and hd: "circ h head ys" and dis: "set (l # xs) \<inter> set (head # ys) = {}"
  shows "\<exists>h'. list_splice h (Some l) (Some head) = Inr h' \<and> circ h' head (xs @ ys)"
proof (cases "xs = []")
  case True
  then have "list_splice h (Some l) (Some head) = Inr h"
    using circ_ends(1) [OF l] by (simp add: list_splice_def list_empty_def)
  with True hd show ?thesis by simp
next
  case False
  define a where "a = hd (ys @ [head])"
  let ?f = "hd xs" and ?l = "last xs"
  have ends: "nxt h l = Some ?f" "prv h l = Some ?l" "nxt h head = Some a" "?f \<noteq> l"
    using circ_ends [OF l] circ_ends [OF hd] False l
    by (auto simp: a_def circ_def)
  define h' where "h' = h\<lparr>nxt := (nxt h)(head := Some ?f, ?l := Some a),
                          prv := (prv h)(?f := Some head, a := Some ?l)\<rparr>"
  have d: "distinct xs" "distinct (head # ys)" "set xs \<inter> set (head # ys) = {}"
    using l hd dis by (auto simp: circ_def)
  have in1: "?f \<in> set xs" "?l \<in> set xs" using False by auto
  have fl: "?f \<notin> set (tl xs)" "?l \<notin> set (butlast xs)"
  proof -
    show "?f \<notin> set (tl xs)" using d(1) False by (cases xs) auto
    have "distinct (butlast xs @ [?l])" using d(1) False by simp
    then show "?l \<notin> set (butlast xs)" by simp
  qed
  have a: "a \<in> set (ys @ [head])" "a \<notin> set (tl (ys @ [head]))"
    "set (tl (ys @ [head])) \<subseteq> set (ys @ [head])"
    using gap_ends(4,6,8) [of head "[]" ys] d(2) by (simp_all add: a_def)
  have "list_splice h (Some l) (Some head) = Inr h'"
    using ends False by (simp add: list_splice_def list_empty_def u_list_splice_def h'_def)
  moreover have "successively (link h') xs"
  proof (rule link_frame [of h])
    show "successively (link h) xs"
      using l by (simp add: circ_gap [of h l "[]" xs, simplified] successively_append_iff)
    show "nxt h' x = nxt h x" if "x \<in> set (butlast xs)" for x
      using that fl(2) d(3) in_set_butlastD [OF that] by (auto simp: h'_def)
    show "prv h' x = prv h x" if "x \<in> set (tl xs)" for x
      using that fl(1) d(3) a(1) list.set_sel(2) [OF False that] by (auto simp: h'_def)
  qed
  moreover have "successively (link h') (ys @ [head])"
  proof (rule link_frame [of h])
    show "successively (link h) (ys @ [head])"
      using hd by (simp add: circ_gap [of h head "[]" ys, simplified])
    show "nxt h' x = nxt h x" if "x \<in> set (butlast (ys @ [head]))" for x
      using that d in1(2) by (auto simp: h'_def)
    show "prv h' x = prv h x" if "x \<in> set (tl (ys @ [head]))" for x
      using that a d in1(1) by (auto simp: h'_def)
  qed
  moreover have "link h' head ?f" "link h' ?l a"
    using in1 a(1) d(3) by (auto simp: link_def h'_def)
  ultimately show ?thesis
    using d False
    by (auto simp: circ_gap [of h' head "[]" "xs @ ys", simplified] successively_append_iff a_def)
qed

subsection \<open>The interface of a registry of nodes\<close>

text \<open>
  What the message bus relies on: adding puts a node that is in no list at the front,
  deleting removes it, the loop visits the nodes in order, and lists that share no node do
  not disturb each other.
\<close>

locale node_registry =
  fixes add :: "'h \<Rightarrow> 'n \<Rightarrow> 'n \<Rightarrow> 'h res"
    and del :: "'h \<Rightarrow> 'n \<Rightarrow> 'h res"
    and visit :: "'h \<Rightarrow> 'n \<Rightarrow> 'n list res option"
    and repr :: "'h \<Rightarrow> 'n \<Rightarrow> 'n list \<Rightarrow> bool"
  assumes add_ok: "repr h hn xs \<Longrightarrow> n \<notin> set (hn # xs) \<Longrightarrow> \<exists>h'. add h n hn = Inr h' \<and>
      repr h' hn (n # xs) \<and>
      (\<forall>hm ys. repr h hm ys \<and> set (hm # ys) \<inter> set (n # hn # xs) = {} \<longrightarrow> repr h' hm ys)"
    and del_ok: "repr h hn (xs @ n # ys) \<Longrightarrow> \<exists>h'. del h n = Inr h' \<and> repr h' hn (xs @ ys) \<and>
      (\<forall>hm zs. repr h hm zs \<and> set (hm # zs) \<inter> set (hn # xs @ n # ys) = {} \<longrightarrow> repr h' hm zs)"
    and visit_ok: "repr h hn xs \<Longrightarrow> visit h hn = Some (Inr xs)"
    and repr_distinct: "repr h hn xs \<Longrightarrow> distinct (hn # xs)"
begin

fun add_all :: "'h \<Rightarrow> 'n \<Rightarrow> 'n list \<Rightarrow> 'h res" where
  "add_all h hn [] = Inr h"
| "add_all h hn (n # ns) = bind_res (add h n hn) (\<lambda>h1. add_all h1 hn ns)"

text \<open>Nodes added one after the other are visited in the reverse order, each once.\<close>

lemma add_all_ok:
  assumes "repr h hn xs" and "distinct (ns @ hn # xs)"
  shows "\<exists>h'. add_all h hn ns = Inr h' \<and> repr h' hn (rev ns @ xs)"
  using assms
proof (induction ns arbitrary: h xs)
  case Nil
  then show ?case by simp
next
  case (Cons n ns)
  then obtain h1 where "add h n hn = Inr h1" "repr h1 hn (n # xs)"
    using add_ok [of h hn xs n] by auto
  moreover have "distinct (ns @ hn # n # xs)" using Cons.prems by auto
  ultimately show ?case using Cons.IH [of h1 "n # xs"] by auto
qed

text \<open>A node that was added and deleted again leaves no trace.\<close>

lemma add_del:
  assumes "repr h hn xs" and "n \<notin> set (hn # xs)"
  shows "\<exists>h' h''. add h n hn = Inr h' \<and> del h' n = Inr h'' \<and> visit h'' hn = Some (Inr xs)"
  using add_ok [OF assms] del_ok [of _ hn "[]" n xs] visit_ok by fastforce

end

interpretation alist: node_registry "\<lambda>h n hn. list_add h (Some n) (Some hn)"
    "\<lambda>h n. list_del h (Some n)" "\<lambda>h hn. list_for_each h (Some hn)" circ
proof (unfold_locales, goal_cases)
  case (1 h hn xs n)
  from list_add_circ [OF 1(1)] 1(2) obtain h' where
    h': "list_add h (Some n) (Some hn) = Inr h'" "circ h' hn (n # xs)"
    "\<forall>x. x \<notin> set (n # hn # xs) \<longrightarrow> nxt h' x = nxt h x \<and> prv h' x = prv h x" by auto
  have "circ h' hm ys" if "circ h hm ys" "set (hm # ys) \<inter> set (n # hn # xs) = {}" for hm ys
    by (rule circ_frame [OF that(1)]) (use that(2) h'(3) in blast)
  with h' show ?case by blast
next
  case (2 h hn xs n ys)
  from list_del_circ [OF 2] obtain h' where
    h': "list_del h (Some n) = Inr h'" "circ h' hn (xs @ ys)"
    "\<forall>x. x \<notin> set (hn # xs @ n # ys) \<longrightarrow> nxt h' x = nxt h x \<and> prv h' x = prv h x" by auto
  have "circ h' hm zs" if "circ h hm zs" "set (hm # zs) \<inter> set (hn # xs @ n # ys) = {}" for hm zs
    by (rule circ_frame [OF that(1)]) (use that(2) h'(3) in blast)
  with h' show ?case by blast
next
  case (3 h hn xs)
  then show ?case by (rule list_for_each_circ)
next
  case (4 h hn xs)
  then show ?case by (simp add: circ_def)
qed

subsection \<open>Properties\<close>

datatype 'n list_op = Add 'n | AddTail 'n | Del 'n | Move 'n | MoveTail 'n | Replace 'n 'n

fun list_op_step :: "'n \<Rightarrow> 'n lheap \<Rightarrow> 'n list_op \<Rightarrow> 'n lheap res" where
  "list_op_step hn h (Add n) = list_add h (Some n) (Some hn)"
| "list_op_step hn h (AddTail n) = list_add_tail h (Some n) (Some hn)"
| "list_op_step hn h (Del n) = list_del h (Some n)"
| "list_op_step hn h (Move n) = list_move h (Some n) (Some hn)"
| "list_op_step hn h (MoveTail n) = list_move_tail h (Some n) (Some hn)"
| "list_op_step hn h (Replace a b) = list_replace h (Some a) (Some b)"

fun list_op_run :: "'n \<Rightarrow> 'n lheap \<Rightarrow> 'n list_op list \<Rightarrow> 'n lheap res" where
  "list_op_run hn h [] = Inr h"
| "list_op_run hn h (p # ps) = bind_res (list_op_step hn h p) (\<lambda>h1. list_op_run hn h1 ps)"

text \<open>The same operations on a sequence; \<open>None\<close> when the caller breaks the contract.\<close>

fun seq_step :: "'n \<Rightarrow> 'n list \<Rightarrow> 'n list_op \<Rightarrow> 'n list option" where
  "seq_step hn xs (Add n) = (if n \<in> set (hn # xs) then None else Some (n # xs))"
| "seq_step hn xs (AddTail n) = (if n \<in> set (hn # xs) then None else Some (xs @ [n]))"
| "seq_step hn xs (Del n) = (if n \<in> set xs then Some (remove1 n xs) else None)"
| "seq_step hn xs (Move n) = (if n \<in> set xs then Some (n # remove1 n xs) else None)"
| "seq_step hn xs (MoveTail n) = (if n \<in> set xs then Some (remove1 n xs @ [n]) else None)"
| "seq_step hn xs (Replace a b) =
     (if a \<in> set xs \<and> b \<notin> set (hn # xs) then Some (map (\<lambda>x. if x = a then b else x) xs) else None)"

fun seq_run :: "'n \<Rightarrow> 'n list \<Rightarrow> 'n list_op list \<Rightarrow> 'n list option" where
  "seq_run hn xs [] = Some xs"
| "seq_run hn xs (p # ps) = Option.bind (seq_step hn xs p) (\<lambda>ys. seq_run hn ys ps)"

lemma circ_split:
  assumes "circ h hn xs" and "n \<in> set xs"
  obtains us vs where "xs = us @ n # vs" "n \<notin> set us" "n \<notin> set vs" "remove1 n xs = us @ vs"
proof -
  from assms(2) obtain us vs where u: "xs = us @ n # vs" "n \<notin> set us" by (meson split_list_first)
  with assms(1) that [of us vs] show thesis by (auto simp: circ_def remove1_append)
qed

lemma list_op_step_refines:
  assumes c: "circ h hn xs" and s: "seq_step hn xs p = Some ys"
  shows "\<exists>h'. list_op_step hn h p = Inr h' \<and> circ h' hn ys"
proof (cases p)
  case (Add n)
  with assms list_add_circ [OF c, of n] show ?thesis by (auto split: if_splits)
next
  case (AddTail n)
  with assms list_add_tail_circ [OF c, of n] show ?thesis by (auto split: if_splits)
next
  case (Del n)
  with s have n: "n \<in> set xs" by (simp split: if_splits)
  obtain us vs where u: "xs = us @ n # vs" "remove1 n xs = us @ vs"
    by (rule circ_split [OF c n])
  with assms n Del list_del_circ [of h hn us n vs] show ?thesis by auto
next
  case (Move n)
  with s have n: "n \<in> set xs" by (simp split: if_splits)
  obtain us vs where u: "xs = us @ n # vs" "remove1 n xs = us @ vs"
    by (rule circ_split [OF c n])
  with assms n Move circ_move(1) [of h hn us n vs] show ?thesis by auto
next
  case (MoveTail n)
  with s have n: "n \<in> set xs" by (simp split: if_splits)
  obtain us vs where u: "xs = us @ n # vs" "remove1 n xs = us @ vs"
    by (rule circ_split [OF c n])
  with assms n MoveTail circ_move(2) [of h hn us n vs] show ?thesis by auto
next
  case (Replace a b)
  with s have n: "a \<in> set xs" "b \<notin> set (hn # xs)" by (auto split: if_splits)
  obtain us vs where u: "xs = us @ a # vs" "a \<notin> set us" "a \<notin> set vs"
    by (rule circ_split [OF c n(1)])
  then have "map (\<lambda>x. if x = a then b else x) xs = us @ b # vs"
    by (auto intro: map_idI)
  with assms n Replace u circ_replace [of h hn us a vs b] show ?thesis by auto
qed

text \<open>
  C17: the linked list refines a sequence. Any contract-respecting series of \<open>list_add\<close>,
  \<open>list_add_tail\<close>, \<open>list_del\<close>, \<open>list_move\<close>, \<open>list_move_tail\<close> and \<open>list_replace\<close> calls
  (no node added twice, none removed that is not in the list) never dereferences a null
  pointer, and afterwards \<open>list_for_each\<close> terminates and visits exactly the nodes of the
  sequence, in its order.
\<close>

theorem alist_refines_sequence:
  assumes "circ h hn xs" and "seq_run hn xs ps = Some ys"
  shows "\<exists>h'. list_op_run hn h ps = Inr h' \<and> circ h' hn ys \<and>
    list_for_each h' (Some hn) = Some (Inr ys)"
  using assms
proof (induction ps arbitrary: h xs)
  case Nil
  then show ?case using alist.visit_ok by auto
next
  case (Cons p ps)
  from Cons.prems(2) obtain zs where z: "seq_step hn xs p = Some zs" "seq_run hn zs ps = Some ys"
    by (auto simp: bind_eq_Some_conv)
  from list_op_step_refines [OF Cons.prems(1) z(1)] obtain h1 where
    "list_op_step hn h p = Inr h1" "circ h1 hn zs" by blast
  with Cons.IH [OF _ z(2)] show ?case by auto
qed

theorem alist_refines_sequence_witness:
  "\<exists>h0 h'. INIT_LIST_HEAD \<lparr>nxt = (\<lambda>_. None), prv = (\<lambda>_. None)\<rparr> (Some (0::nat)) = Inr h0 \<and>
     list_op_run 0 h0 [Add 1, Add 2, AddTail 3, Move 1, Del 2, Replace 3 4] = Inr h' \<and>
     list_for_each h' (Some 0) = Some (Inr [1, 4])"
proof -
  let ?h0 = "\<lparr>nxt = (\<lambda>_. None)(0 := Some 0), prv = (\<lambda>_. None)(0 := Some (0::nat))\<rparr>"
  have i: "INIT_LIST_HEAD \<lparr>nxt = (\<lambda>_. None), prv = (\<lambda>_. None)\<rparr> (Some (0::nat)) = Inr ?h0"
    by (simp add: INIT_LIST_HEAD_def)
  have c: "circ ?h0 0 []" by (simp add: circ_def link_def)
  have "seq_run 0 [] [Add 1, Add 2, AddTail 3, Move 1, Del 2, Replace 3 4] = Some [1, 4::nat]"
    by simp
  from alist_refines_sequence [OF c this] i show ?thesis by blast
qed

text \<open>
  \<open>list_splice\<close> moves all nodes of one list, in order, to the front of another list
  that shares no node with it.
\<close>

theorem list_splice_joins:
  assumes "circ h l xs" and "circ h head ys" and "set (l # xs) \<inter> set (head # ys) = {}"
  shows "\<exists>h'. list_splice h (Some l) (Some head) = Inr h' \<and>
    list_for_each h' (Some head) = Some (Inr (xs @ ys))"
proof -
  from circ_splice [OF assms] obtain h' where
    "list_splice h (Some l) (Some head) = Inr h'" "circ h' head (xs @ ys)" by blast
  moreover from this(2) have "list_for_each h' (Some head) = Some (Inr (xs @ ys))"
    by (rule alist.visit_ok)
  ultimately show ?thesis by blast
qed

theorem list_splice_joins_witness:
  "\<exists>h'. list_splice \<lparr>nxt = (\<lambda>_. None)(0 := Some 1, 1 := Some 0, 2 := Some 3, 3 := Some 2),
                     prv = (\<lambda>_. None)(0 := Some 1, 1 := Some 0, 2 := Some 3, 3 := Some (2::nat))\<rparr>
          (Some 0) (Some 2) = Inr h' \<and> list_for_each h' (Some 2) = Some (Inr [1, 3])"
  using list_splice_joins [of "\<lparr>nxt = (\<lambda>_. None)(0 := Some 1, 1 := Some 0, 2 := Some 3, 3 := Some 2),
      prv = (\<lambda>_. None)(0 := Some 1, 1 := Some 0, 2 := Some 3, 3 := Some (2::nat))\<rparr>" 0 "[1]" 2 "[3]"]
  by (simp add: circ_def link_def)

text \<open>
  \<open>list_length\<close> returns 0 on an empty list and never returns on any other: its loop
  never advances the pointer it tests.
\<close>

theorem list_length_only_empty:
  "list_length h l = (if nxt h l = Some l then Some 0 else None)"
proof (cases "nxt h l = Some l")
  case True
  then show ?thesis
    unfolding list_length_def by (subst list_length_loop.simps) simp
next
  case False
  have "nxt h l = Some l" if "list_length_loop h l cnt = Some r" for cnt r
    by (rule list_length_loop.raw_induct [where P = "\<lambda>h l cnt r. nxt h l = Some l", OF _ that])
      (auto split: if_splits)
  with False show ?thesis
    by (auto simp: list_length_def) (metis not_None_eq)
qed

end
