(* ===== verification/Abus.thy ===== *)
theory Abus
  imports Afifo Alist
begin

section \<open>The publish/subscribe bus (abus/abus_topic.c, abus/abus_port.c)\<close>

text \<open>
  Topics and accounters (the publishers and subscribers) are static objects of the program,
  named here by numbers; \<open>None\<close> is the null pointer. The list members embedded in them are
  nodes of one list heap: the two list heads of a topic and the \<open>head\<close> member of an
  accounter. FIFO control blocks live at heap addresses. The callbacks of the subscribers
  are code of other components: the parameter \<open>call\<close> runs the function a pointer stands
  for, on the whole bus, so that it may publish itself; its result is \<open>None\<close> when it does
  not return. The state \<open>world\<close> is everything the callbacks change outside the bus.
\<close>

subsection \<open>Data\<close>

datatype bnode = SyncHead nat | AsyncHead nat | AccHead nat

record abus_sub_flag =
  is_async :: u8
  is_self_fifo :: u8

text \<open>Names are compared as pointers, so a name is an address here, \<open>0\<close> the null pointer.\<close>

record 'c abus_accounter =
  acc_name :: nat
  acc_datafifo :: "nat option"
  acc_callback :: "'c option"
  acc_flag :: abus_sub_flag
  acc_topic :: "nat option"

record 'c abus_acc_init_t =
  ini_name :: nat
  ini_datafifo :: "nat option"
  ini_callback :: "'c option"

record abus_topic =
  top_name :: nat
  top_datafifo :: "nat option"
  top_msg_size :: u32

record abus_topic_init_t =
  tin_name :: nat
  tin_buf :: "u8 list"
  tin_buf_size :: u32
  tin_msg_size :: u32

definition ABUS_ACCS_NUM :: nat where
  "ABUS_ACCS_NUM = 128"

definition ABUS_TOPICS_NUM :: nat where
  "ABUS_TOPICS_NUM = 32"

record ('c, 'w) abus =
  accs :: "nat option list"
  accs_index :: u32
  topics :: "nat option list"
  topics_index :: u32
  acc :: "nat \<Rightarrow> 'c abus_accounter"
  topic :: "nat \<Rightarrow> abus_topic"
  heads :: "bnode lheap"
  fifos :: "nat \<Rightarrow> afifo option"
  world :: 'w

text \<open>The state before the first call: static storage is zeroed.\<close>

definition abus_zero :: "'w \<Rightarrow> ('c, 'w) abus" where
  "abus_zero w = \<lparr>accs = replicate ABUS_ACCS_NUM None, accs_index = 0,
     topics = replicate ABUS_TOPICS_NUM None, topics_index = 0,
     acc = (\<lambda>_. \<lparr>acc_name = 0, acc_datafifo = None, acc_callback = None,
                 acc_flag = \<lparr>is_async = 0, is_self_fifo = 0\<rparr>, acc_topic = None\<rparr>),
     topic = (\<lambda>_. \<lparr>top_name = 0, top_datafifo = None, top_msg_size = 0\<rparr>),
     heads = \<lparr>nxt = (\<lambda>_. None), prv = (\<lambda>_. None)\<rparr>,
     fifos = (\<lambda>_. None), world = w\<rparr>"

subsection \<open>Registration and lookup\<close>

definition ABUS_ASSERT :: "bool \<Rightarrow> unit res" where
  "ABUS_ASSERT x = (if \<not> x then Inl BusyLoop else Inr ())"

text \<open>Storing into one of the two static pointer arrays.\<close>

definition put_slot :: "nat option list \<Rightarrow> u32 \<Rightarrow> nat \<Rightarrow> nat option list res" where
  "put_slot a i v = (if unat i < length a then Inr (a[unat i := Some v]) else Inl OutOfBounds)"

text \<open>
  The address of a new FIFO control block is the one the allocator \<open>rt_malloc\<close> delivers in
  the present state.
\<close>

definition abus_topic_init ::
    "(('c, 'w) abus \<Rightarrow> u32 \<Rightarrow> nat option) \<Rightarrow> ('c, 'w) abus \<Rightarrow> nat \<Rightarrow> abus_topic_init_t \<Rightarrow>
     (int \<times> ('c, 'w) abus) res" where
  "abus_topic_init rt_malloc s t ini =
     bind_res (afifo_init (rt_malloc s) (tin_buf ini) (tin_buf_size ini) 0) (\<lambda>f.
     let fa = (case f of None \<Rightarrow> None | Some _ \<Rightarrow> rt_malloc s sizeof_afifo) in
     bind_res (INIT_LIST_HEAD (heads s) (Some (SyncHead t))) (\<lambda>h1.
     bind_res (INIT_LIST_HEAD h1 (Some (AsyncHead t))) (\<lambda>h2.
     let s1 = s\<lparr>topic := (topic s)(t := \<lparr>top_name = tin_name ini, top_datafifo = fa,
                                         top_msg_size = tin_msg_size ini\<rparr>),
                fifos := (case fa of None \<Rightarrow> fifos s | Some a \<Rightarrow> (fifos s)(a := f)),
                heads := h2\<rparr> in
     bind_res (ABUS_ASSERT (unat (topics_index s1) < ABUS_TOPICS_NUM)) (\<lambda>_.
     bind_res (put_slot (topics s1) (topics_index s1) t) (\<lambda>ts.
     Inr (0, s1\<lparr>topics := ts, topics_index := topics_index s1 + 1\<rparr>))))))"

definition abus_acc_init ::
    "('c, 'w) abus \<Rightarrow> nat \<Rightarrow> 'c abus_acc_init_t \<Rightarrow> (int \<times> ('c, 'w) abus) res" where
  "abus_acc_init s a ini =
     (let s1 = s\<lparr>acc := (acc s)(a := (acc s a)\<lparr>acc_name := ini_name ini,
                   acc_datafifo := ini_datafifo ini, acc_callback := ini_callback ini\<rparr>)\<rparr> in
      bind_res (ABUS_ASSERT (unat (accs_index s1) < ABUS_ACCS_NUM)) (\<lambda>_.
      bind_res (put_slot (accs s1) (accs_index s1) a) (\<lambda>xs.
      Inr (0, s1\<lparr>accs := xs, accs_index := accs_index s1 + 1\<rparr>))))"

function accounter_scan :: "('c, 'w) abus \<Rightarrow> nat \<Rightarrow> nat \<Rightarrow> nat option res" where
  "accounter_scan s name i =
     (if i < unat (accs_index s) then
        (if i < length (accs s) then
           (case accs s ! i of
              None \<Rightarrow> Inl NullDeref
            | Some a \<Rightarrow> if acc_name (acc s a) = name then Inr (Some a)
                        else accounter_scan s name (i + 1))
         else Inl OutOfBounds)
      else Inr None)"
  by pat_completeness auto
termination
  by (relation "measure (\<lambda>(s, name, i). unat (accs_index s) - i)") auto

definition abus_accounter_find :: "('c, 'w) abus \<Rightarrow> nat \<Rightarrow> nat option res" where
  "abus_accounter_find s name = accounter_scan s name 0"

function topic_scan :: "('c, 'w) abus \<Rightarrow> nat \<Rightarrow> nat \<Rightarrow> nat option res" where
  "topic_scan s name i =
     (if i < unat (topics_index s) then
        (if i < length (topics s) then
           (case topics s ! i of
              None \<Rightarrow> Inl NullDeref
            | Some t \<Rightarrow> if top_name (topic s t) = name then Inr (Some t)
                        else topic_scan s name (i + 1))
         else Inl OutOfBounds)
      else Inr None)"
  by pat_completeness auto
termination
  by (relation "measure (\<lambda>(s, name, i). unat (topics_index s) - i)") auto

definition abus_topic_find :: "('c, 'w) abus \<Rightarrow> nat \<Rightarrow> nat option res" where
  "abus_topic_find s name = topic_scan s name 0"

declare accounter_scan.simps [simp del] topic_scan.simps [simp del]

subsection \<open>Subscribing and publishing\<close>

definition abus_topic_subscribe ::
    "('c, 'w) abus \<Rightarrow> nat \<Rightarrow> nat \<Rightarrow> abus_sub_flag \<Rightarrow> (int \<times> ('c, 'w) abus) res" where
  "abus_topic_subscribe s t a flag =
     (let s1 = s\<lparr>acc := (acc s)(a := (acc s a)\<lparr>acc_flag := flag, acc_topic := Some t\<rparr>)\<rparr> in
      if is_async (acc_flag (acc s1 a)) = 0
      then bind_res (list_add (heads s1) (Some (AccHead a)) (Some (SyncHead t)))
             (\<lambda>h. Inr (0, s1\<lparr>heads := h\<rparr>))
      else bind_res (list_add (heads s1) (Some (AccHead a)) (Some (AsyncHead t)))
             (\<lambda>h. Inr (0, s1\<lparr>heads := h\<rparr>)))"

definition abus_topic_unsubscribe ::
    "('c, 'w) abus \<Rightarrow> nat \<Rightarrow> nat \<Rightarrow> (int \<times> ('c, 'w) abus) res" where
  "abus_topic_unsubscribe s t a =
     (let s1 = s\<lparr>acc := (acc s)(a := (acc s a)\<lparr>acc_topic := None\<rparr>)\<rparr> in
      bind_res (list_del (heads s1) (Some (AccHead a))) (\<lambda>h. Inr (0, s1\<lparr>heads := h\<rparr>)))"

text \<open>\<open>acc->topic->...\<close>: the topic an accounter points to.\<close>

definition topic_of :: "('c, 'w) abus \<Rightarrow> nat \<Rightarrow> nat res" where
  "topic_of s a = (case acc_topic (acc s a) of None \<Rightarrow> Inl NullDeref | Some t \<Rightarrow> Inr t)"

text \<open>\<open>afifo_in\<close> and \<open>afifo_add_out\<close> through a pointer to a control block.\<close>

definition fifo_at :: "('c, 'w) abus \<Rightarrow> nat option \<Rightarrow> (nat \<times> afifo) res" where
  "fifo_at s p =
     (case p of
        None \<Rightarrow> Inl NullDeref
      | Some fa \<Rightarrow> (case fifos s fa of None \<Rightarrow> Inl UseAfterFree | Some f \<Rightarrow> Inr (fa, f)))"

definition fifo_put ::
    "('c, 'w) abus \<Rightarrow> nat option \<Rightarrow> u8 list \<Rightarrow> u32 \<Rightarrow> (u32 \<times> ('c, 'w) abus) res" where
  "fifo_put s p msg n =
     bind_res (fifo_at s p) (\<lambda>(fa, f).
     bind_res (afifo_in f msg n) (\<lambda>(m, f'). Inr (m, s\<lparr>fifos := (fifos s)(fa \<mapsto> f')\<rparr>)))"

definition fifo_skip ::
    "('c, 'w) abus \<Rightarrow> nat option \<Rightarrow> u32 \<Rightarrow> (u32 \<times> ('c, 'w) abus) res" where
  "fifo_skip s p n =
     bind_res (fifo_at s p) (\<lambda>(fa, f).
     let (m, f') = afifo_add_out f n in Inr (m, s\<lparr>fifos := (fifos s)(fa \<mapsto> f')\<rparr>))"

definition fifo_peek ::
    "('c, 'w) abus \<Rightarrow> nat option \<Rightarrow> u8 list \<Rightarrow> u32 \<Rightarrow> (u32 \<times> u8 list) res" where
  "fifo_peek s p dst n = bind_res (fifo_at s p) (\<lambda>(fa, f). afifo_out_data f dst n)"

text \<open>\<open>list_entry (pos, abus_accounter_t, head)\<close>: only an accounter's member has an entry.\<close>

definition acc_entry :: "bnode \<Rightarrow> nat res" where
  "acc_entry p = (case p of AccHead a \<Rightarrow> Inr a | _ \<Rightarrow> Inl OutOfBounds)"

text \<open>The body of the loop over the synchronous subscribers.\<close>

definition sync_copy :: "('c, 'w) abus \<Rightarrow> nat \<Rightarrow> u8 list \<Rightarrow> nat \<Rightarrow> ('c, 'w) abus res" where
  "sync_copy s a msg sync =
     (case acc_datafifo (acc s sync) of
        None \<Rightarrow> Inr s
      | Some fa \<Rightarrow>
          bind_res (topic_of s a) (\<lambda>t.
          bind_res (fifo_put s (Some fa) msg (top_msg_size (topic s t))) (\<lambda>(sync_in, s1).
          bind_res (topic_of s1 sync) (\<lambda>t'.
          if sync_in \<noteq> top_msg_size (topic s1 t') then Inl BusyLoop else Inr s1))))"

definition sync_call ::
    "('c \<Rightarrow> nat \<Rightarrow> ('c, 'w) abus \<Rightarrow> ('c, 'w) abus res option) \<Rightarrow>
     ('c, 'w) abus \<Rightarrow> nat \<Rightarrow> nat \<Rightarrow> ('c, 'w) abus res option" where
  "sync_call call s a sync =
     (case acc_callback (acc s sync) of
        None \<Rightarrow> Some (Inr s)
      | Some c \<Rightarrow> (case topic_of s a of Inl e \<Rightarrow> Some (Inl e) | Inr t \<Rightarrow> call c t s))"

definition sync_body ::
    "('c \<Rightarrow> nat \<Rightarrow> ('c, 'w) abus \<Rightarrow> ('c, 'w) abus res option) \<Rightarrow>
     ('c, 'w) abus \<Rightarrow> nat \<Rightarrow> u8 list \<Rightarrow> bnode \<Rightarrow> ('c, 'w) abus res option" where
  "sync_body call s a msg pos =
     (case acc_entry pos of
        Inl e \<Rightarrow> Some (Inl e)
      | Inr sync \<Rightarrow>
          if is_async (acc_flag (acc s sync)) = 0 then
            (case sync_copy s a msg sync of
               Inl e \<Rightarrow> Some (Inl e)
             | Inr s1 \<Rightarrow> sync_call call s1 a sync)
          else Some (Inr s))"

text \<open>
  \<open>list_for_each (pos, &acc->topic->sync_accounter)\<close>: the head is computed again at every
  test and the next node is read after the body ran. \<open>None\<close> is a loop that never ends.
\<close>

partial_function (option) sync_loop ::
    "('c \<Rightarrow> nat \<Rightarrow> ('c, 'w) abus \<Rightarrow> ('c, 'w) abus res option) \<Rightarrow>
     nat \<Rightarrow> u8 list \<Rightarrow> ('c, 'w) abus \<Rightarrow> bnode option \<Rightarrow> ('c, 'w) abus res option" where
  "sync_loop call a msg s pos =
     (case topic_of s a of
        Inl e \<Rightarrow> Some (Inl e)
      | Inr t \<Rightarrow>
          if pos = Some (SyncHead t) then Some (Inr s)
          else (case pos of
                  None \<Rightarrow> Some (Inl NullDeref)
                | Some p \<Rightarrow>
                    Option.bind (sync_body call s a msg p)
                      (\<lambda>r. case r of
                             Inl e \<Rightarrow> Some (Inl e)
                           | Inr s1 \<Rightarrow> sync_loop call a msg s1 (nxt (heads s1) p))))"

definition abus_public ::
    "('c \<Rightarrow> nat \<Rightarrow> ('c, 'w) abus \<Rightarrow> ('c, 'w) abus res option) \<Rightarrow>
     ('c, 'w) abus \<Rightarrow> nat \<Rightarrow> u8 list \<Rightarrow> (int \<times> ('c, 'w) abus) res option" where
  "abus_public call s a msg =
     (case bind_res (topic_of s a) (\<lambda>t.
             bind_res (fifo_put s (top_datafifo (topic s t)) msg (top_msg_size (topic s t)))
               (\<lambda>(acc_in, s1). bind_res (topic_of s1 a) (\<lambda>t1.
                  if acc_in \<noteq> top_msg_size (topic s1 t1) then Inl BusyLoop else Inr (t1, s1)))) of
        Inl e \<Rightarrow> Some (Inl e)
      | Inr (t1, s1) \<Rightarrow>
          Option.bind (sync_loop call a msg s1 (nxt (heads s1) (SyncHead t1)))
            (\<lambda>r. Some (bind_res r (\<lambda>s2.
               bind_res (topic_of s2 a) (\<lambda>t2.
               bind_res (fifo_skip s2 (top_datafifo (topic s2 t2)) (top_msg_size (topic s2 t2)))
                 (\<lambda>(_, s3). Inr (0, s3)))))))"

subsection \<open>The variants by name\<close>

definition abus_topic_subscribe_name ::
    "('c, 'w) abus \<Rightarrow> nat \<Rightarrow> nat \<Rightarrow> abus_sub_flag \<Rightarrow> (int \<times> ('c, 'w) abus) res" where
  "abus_topic_subscribe_name s tn an flag =
     bind_res (abus_accounter_find s an) (\<lambda>acc_t.
     bind_res (abus_topic_find s tn) (\<lambda>topic_t.
     case (acc_t, topic_t) of
       (Some a, Some t) \<Rightarrow> abus_topic_subscribe s t a flag
     | _ \<Rightarrow> Inr (- 1, s)))"

definition abus_topic_unsubscribe_name ::
    "('c, 'w) abus \<Rightarrow> nat \<Rightarrow> nat \<Rightarrow> (int \<times> ('c, 'w) abus) res" where
  "abus_topic_unsubscribe_name s tn an =
     bind_res (abus_accounter_find s an) (\<lambda>acc_t.
     bind_res (abus_topic_find s tn) (\<lambda>topic_t.
     case (acc_t, topic_t) of
       (Some a, Some t) \<Rightarrow> abus_topic_unsubscribe s t a
     | _ \<Rightarrow> Inr (- 1, s)))"

definition abus_public_name ::
    "('c \<Rightarrow> nat \<Rightarrow> ('c, 'w) abus \<Rightarrow> ('c, 'w) abus res option) \<Rightarrow>
     ('c, 'w) abus \<Rightarrow> nat \<Rightarrow> u8 list \<Rightarrow> (int \<times> ('c, 'w) abus) res option" where
  "abus_public_name call s an msg =
     (case abus_accounter_find s an of
        Inl e \<Rightarrow> Some (Inl e)
      | Inr None \<Rightarrow> Some (Inr (- 1, s))
      | Inr (Some a) \<Rightarrow> abus_public call s a msg)"

subsection \<open>The robot's topics and accounters (abus/abus_port.c)\<close>

datatype port_callback =
    line_dir_sub_callback
  | chassis_sub_callback
  | rbmg_error_callback
  | rbmg_dir_callback
  | rbmg_special_point_callback
  | rbmg_chassis_ctrl_callback

definition line_error_topic :: nat where "line_error_topic = 0"
definition line_dir_topic :: nat where "line_dir_topic = 1"
definition line_special_topic :: nat where "line_special_topic = 2"
definition chassis_ctrl_topic :: nat where "chassis_ctrl_topic = 3"

definition line_error_acc :: nat where "line_error_acc = 0"
definition line_dir_acc :: nat where "line_dir_acc = 1"
definition line_spacial_point_acc :: nat where "line_spacial_point_acc = 2"
definition chassis_acc :: nat where "chassis_acc = 3"
definition rbmg_error_acc :: nat where "rbmg_error_acc = 4"
definition rbmg_dir_acc :: nat where "rbmg_dir_acc = 5"
definition rbmg_special_point_acc :: nat where "rbmg_special_point_acc = 6"
definition rbmg_chassis_acc :: nat where "rbmg_chassis_acc = 7"

lemmas port_ids = line_error_topic_def line_dir_topic_def line_special_topic_def
  chassis_ctrl_topic_def line_error_acc_def line_dir_acc_def line_spacial_point_acc_def
  chassis_acc_def rbmg_error_acc_def rbmg_dir_acc_def rbmg_special_point_acc_def
  rbmg_chassis_acc_def

text \<open>
  \<open>lit\<close> gives the address of a string literal, \<open>block k\<close> the bytes of the buffer of the
  \<open>k\<close>-th \<open>malloc (1024)\<close> (empty when it fails) and \<open>alloc k\<close> the address of the \<open>k\<close>-th
  control block. \<open>sizeof (float)\<close> is 4 and \<open>sizeof (chassis_ctrl_t)\<close>, a padded byte and
  three floats, is 16.
\<close>

definition sizeof_chassis_ctrl :: u32 where
  "sizeof_chassis_ctrl = 16"

definition abus_all_init ::
    "(string \<Rightarrow> nat) \<Rightarrow> (nat \<Rightarrow> u8 list) \<Rightarrow> (nat \<Rightarrow> u32 \<Rightarrow> nat option) \<Rightarrow>
     (port_callback, 'w) abus \<Rightarrow> (int \<times> (port_callback, 'w) abus) res" where
  "abus_all_init lit block alloc s0 =
     (let sync = \<lparr>is_async = 0, is_self_fifo = 0\<rparr>;
          tinit = (\<lambda>k s t n sz. bind_res
            (abus_topic_init (\<lambda>_. alloc k) s t \<lparr>tin_name = lit n, tin_buf = block k,
               tin_buf_size = 1024, tin_msg_size = sz\<rparr>) (\<lambda>(_, s'). Inr s'));
          ainit = (\<lambda>s a n c. bind_res
            (abus_acc_init s a \<lparr>ini_name = lit n, ini_datafifo = None, ini_callback = c\<rparr>)
            (\<lambda>(_, s'). Inr s'));
          sub = (\<lambda>s t a. bind_res (abus_topic_subscribe s t a sync) (\<lambda>(_, s'). Inr s'))
      in
      bind_res (tinit 1 s0 line_error_topic ''line_error_topic'' 4) (\<lambda>s.
      bind_res (tinit 2 s line_special_topic ''line_special_topic'' 1) (\<lambda>s.
      bind_res (tinit 3 s line_dir_topic ''line_dir_topic'' 1) (\<lambda>s.
      bind_res (tinit 4 s chassis_ctrl_topic ''chassis_ctrl'' sizeof_chassis_ctrl) (\<lambda>s.
      bind_res (ainit s line_error_acc ''line_error_acc'' None) (\<lambda>s.
      bind_res (sub s line_error_topic line_error_acc) (\<lambda>s.
      let s = s\<lparr>acc := (acc s)(line_dir_acc := (acc s line_dir_acc)\<lparr>
                acc_name := lit ''line_dir_acc'', acc_callback := Some line_dir_sub_callback,
                acc_datafifo := None,
                acc_flag := (acc_flag (acc s line_dir_acc))\<lparr>is_async := 0\<rparr>\<rparr>)\<rparr> in
      bind_res (ainit s line_dir_acc ''line_error_acc'' None) (\<lambda>s.
      bind_res (sub s line_dir_topic line_dir_acc) (\<lambda>s.
      bind_res (ainit s line_spacial_point_acc ''line_special_acc'' None) (\<lambda>s.
      bind_res (sub s line_special_topic line_spacial_point_acc) (\<lambda>s.
      bind_res (ainit s chassis_acc ''chassis_acc'' (Some chassis_sub_callback)) (\<lambda>s.
      bind_res (sub s chassis_ctrl_topic chassis_acc) (\<lambda>s.
      bind_res (ainit s rbmg_error_acc ''rbmg_error_acc'' (Some rbmg_error_callback)) (\<lambda>s.
      bind_res (sub s line_error_topic rbmg_error_acc) (\<lambda>s.
      bind_res (ainit s rbmg_dir_acc ''rbmg_dir_acc'' (Some rbmg_dir_callback)) (\<lambda>s.
      bind_res (sub s line_dir_topic rbmg_dir_acc) (\<lambda>s.
      bind_res (ainit s rbmg_special_point_acc ''rbmg_special_point_acc''
                  (Some rbmg_special_point_callback)) (\<lambda>s.
      bind_res (sub s line_special_topic rbmg_special_point_acc) (\<lambda>s.
      bind_res (ainit s rbmg_chassis_acc ''rbmg_chassis_acc''
                  (Some rbmg_chassis_ctrl_callback)) (\<lambda>s.
      bind_res (sub s chassis_ctrl_topic rbmg_chassis_acc) (\<lambda>s.
      Inr (0, s))))))))))))))))))))))"

subsection \<open>The bus as its clients see it\<close>

text \<open>
  A callback must leave the registration data alone; what it may do to the FIFOs is
  described by their view: whether the ring invariant holds, the capacity, the contents.
\<close>

definition same_bus :: "('c, 'w) abus \<Rightarrow> ('c, 'w) abus \<Rightarrow> bool" where
  "same_bus s s' \<longleftrightarrow>
     accs s' = accs s \<and> accs_index s' = accs_index s \<and>
     topics s' = topics s \<and> topics_index s' = topics_index s \<and>
     acc s' = acc s \<and> topic s' = topic s \<and> heads s' = heads s"

type_synonym fifo_view = "nat \<Rightarrow> (bool \<times> nat \<times> u8 list) option"

definition fview :: "('c, 'w) abus \<Rightarrow> fifo_view" where
  "fview s fa = map_option (\<lambda>f. (afifo_inv f, length (buffer f), contents f)) (fifos s fa)"

lemma same_bus_refl [simp]: "same_bus s s"
  by (simp add: same_bus_def)

lemma same_bus_trans: "same_bus s s1 \<Longrightarrow> same_bus s1 s2 \<Longrightarrow> same_bus s s2"
  by (simp add: same_bus_def)

lemma same_bus_upd [simp]:
  "same_bus s (s1\<lparr>fifos := F\<rparr>) = same_bus s s1" "same_bus s (s1\<lparr>world := w\<rparr>) = same_bus s s1"
  by (simp_all add: same_bus_def)

lemma fview_Some:
  "fview s fa = Some (True, c, q) \<longleftrightarrow>
     (\<exists>f. fifos s fa = Some f \<and> afifo_inv f \<and> length (buffer f) = c \<and> contents f = q)"
  by (auto simp: fview_def)

text \<open>Putting and skipping through a pointer, on the view.\<close>

definition vput :: "u8 list \<Rightarrow> nat \<Rightarrow> fifo_view \<Rightarrow> fifo_view" where
  "vput m fa F = F(fa := map_option (\<lambda>(i, c, q). (i, c, q @ m)) (F fa))"

lemma fifo_put_view:
  assumes "fview s fa = Some (True, c, q)" and "unat n = length m" and "length q + length m \<le> c"
  obtains s' where "fifo_put s (Some fa) m n = Inr (n, s')" "same_bus s s'"
    "world s' = world s" "fview s' = vput m fa (fview s)"
proof -
  from assms(1) obtain f where f: "fifos s fa = Some f" "afifo_inv f"
    "length (buffer f) = c" "contents f = q" by (auto simp: fview_Some)
  from fifo.put_fits [OF f(2) assms(2)] f(3,4) assms(3) obtain f' where
    f': "afifo_in f m n = Inr (n, f')" "afifo_inv f'" "length (buffer f') = length (buffer f)"
      "contents f' = contents f @ m" by auto
  have "fview (s\<lparr>fifos := (fifos s)(fa \<mapsto> f')\<rparr>) = vput m fa (fview s)"
    using f f' by (auto simp: fview_def vput_def)
  then show thesis
    by (intro that [of "s\<lparr>fifos := (fifos s)(fa \<mapsto> f')\<rparr>"])
      (simp_all add: fifo_put_def fifo_at_def f f')
qed

lemma fifo_skip_view:
  assumes "fview s fa = Some (True, c, m @ q)" and "unat n = length m"
  obtains s' where "fifo_skip s (Some fa) n = Inr (n, s')" "same_bus s s'"
    "world s' = world s" "fview s' = (fview s)(fa \<mapsto> (True, c, q))"
proof -
  from assms(1) obtain f where f: "fifos s fa = Some f" "afifo_inv f"
    "length (buffer f) = c" "contents f = m @ q" by (auto simp: fview_Some)
  from fifo.skip_front [OF f(2) assms(2) f(4)] obtain f' where
    f': "afifo_add_out f n = (n, f')" "afifo_inv f'" "length (buffer f') = length (buffer f)"
      "contents f' = q" by blast
  have "fview (s\<lparr>fifos := (fifos s)(fa \<mapsto> f')\<rparr>) = (fview s)(fa \<mapsto> (True, c, q))"
    using f f' by (auto simp: fview_def)
  then show thesis
    by (intro that [of "s\<lparr>fifos := (fifos s)(fa \<mapsto> f')\<rparr>"])
      (simp_all add: fifo_skip_def fifo_at_def f f')
qed

text \<open>Reading the message in a callback.\<close>

lemma fifo_peek_view:
  assumes "fview s fa = Some (True, c, m @ q)" and "unat n = length m" and "length dst = length m"
  shows "fifo_peek s (Some fa) dst n = Inr (n, m)"
proof -
  from assms(1) obtain f where f: "fifos s fa = Some f" "afifo_inv f" "contents f = m @ q"
    by (auto simp: fview_Some)
  from fifo.peek_front [OF f(2) assms(2) f(3) assms(3)] f(1) show ?thesis
    by (simp add: fifo_peek_def fifo_at_def)
qed

subsection \<open>What publishing does to the subscribers\<close>

text \<open>
  The copies into the subscribers' own FIFOs, in the order of the list, and the room they
  need; the calls of the subscribers' callbacks, in the same order.
\<close>

fun copies :: "('c, 'w) abus \<Rightarrow> u8 list \<Rightarrow> nat list \<Rightarrow> fifo_view \<Rightarrow> fifo_view" where
  "copies s m [] F = F"
| "copies s m (b # bs) F =
     copies s m bs (case acc_datafifo (acc s b) of None \<Rightarrow> F | Some fb \<Rightarrow> vput m fb F)"

fun room :: "('c, 'w) abus \<Rightarrow> u8 list \<Rightarrow> nat list \<Rightarrow> fifo_view \<Rightarrow> bool" where
  "room s m [] F = True"
| "room s m (b # bs) F =
     (case acc_datafifo (acc s b) of
        None \<Rightarrow> room s m bs F
      | Some fb \<Rightarrow>
          (case F fb of None \<Rightarrow> False | Some (i, c, q) \<Rightarrow> i \<and> length q + length m \<le> c) \<and>
          room s m bs (vput m fb F))"

fun reactions ::
    "('c, 'w) abus \<Rightarrow> ('c \<Rightarrow> nat \<Rightarrow> u8 list \<Rightarrow> 'w \<Rightarrow> 'w) \<Rightarrow> nat \<Rightarrow> u8 list \<Rightarrow> nat list \<Rightarrow> 'w \<Rightarrow> 'w" where
  "reactions s react t m [] w = w"
| "reactions s react t m (b # bs) w =
     reactions s react t m bs (case acc_callback (acc s b) of None \<Rightarrow> w | Some c \<Rightarrow> react c t m w)"

lemma same_bus_specs:
  assumes "same_bus s s'"
  shows "copies s' m bs F = copies s m bs F" "room s' m bs F = room s m bs F"
    "reactions s' react t m bs w = reactions s react t m bs w"
  using assms by (induction bs arbitrary: F w) (auto simp: same_bus_def split: option.splits)

text \<open>
  A topic that is ready for a message: its FIFO is empty and large enough, its list links
  its subscribers, each of which is synchronous and subscribed to it and has a FIFO of its
  own, if any, other than the topic's.
\<close>

definition topic_ready :: "('c, 'w) abus \<Rightarrow> nat \<Rightarrow> nat \<Rightarrow> nat list \<Rightarrow> u8 list \<Rightarrow> bool" where
  "topic_ready s t fa bs m \<longleftrightarrow>
     top_datafifo (topic s t) = Some fa \<and>
     unat (top_msg_size (topic s t)) = length m \<and>
     (\<exists>c. fview s fa = Some (True, c, []) \<and> length m \<le> c) \<and>
     circ (heads s) (SyncHead t) (map AccHead bs) \<and>
     (\<forall>b\<in>set bs. is_async (acc_flag (acc s b)) = 0 \<and> acc_topic (acc s b) = Some t \<and>
                 acc_datafifo (acc s b) \<noteq> Some fa)"

lemma copies_other:
  "(\<forall>b\<in>set bs. acc_datafifo (acc s b) \<noteq> Some fa) \<Longrightarrow> copies s m bs F fa = F fa"
  by (induction bs arbitrary: F) (auto simp: vput_def split: option.splits)

lemma vput_upd: "fb \<noteq> fa \<Longrightarrow> vput m fb (F(fa := v)) = (vput m fb F)(fa := v)"
  by (simp add: vput_def fun_upd_twist)

lemma copies_upd:
  "(\<forall>b\<in>set bs. acc_datafifo (acc s b) \<noteq> Some fa) \<Longrightarrow>
   copies s m bs (F(fa := v)) = (copies s m bs F)(fa := v)"
proof (induction bs arbitrary: F)
  case (Cons b bs)
  then show ?case
    by (cases "acc_datafifo (acc s b)") (simp_all add: vput_upd del: fun_upd_apply)
qed simp

lemma room_upd:
  "(\<forall>b\<in>set bs. acc_datafifo (acc s b) \<noteq> Some fa) \<Longrightarrow>
   room s m bs (F(fa := v)) = room s m bs F"
proof (induction bs arbitrary: F)
  case (Cons b bs)
  then show ?case
    by (cases "acc_datafifo (acc s b)")
      (simp_all add: vput_upd fun_upd_other del: fun_upd_apply)
qed simp

subsection \<open>Interface: callbacks\<close>

text \<open>
  What publishing relies on. \<open>own\<close> are the FIFOs that a publication on the topic \<open>t\<close>
  writes, \<open>ok\<close> is what the callbacks need of the rest of the system, such as another topic
  that is ready because they publish on it. Called while the topic's FIFO holds the message
  \<open>m\<close>, a callback returns, leaves the registration data and the view of the FIFOs as they
  were, and changes the rest of the system as \<open>react\<close> says.
\<close>

locale bus_callbacks =
  fixes call :: "'c \<Rightarrow> nat \<Rightarrow> ('c, 'w) abus \<Rightarrow> ('c, 'w) abus res option"
    and react :: "'c \<Rightarrow> nat \<Rightarrow> u8 list \<Rightarrow> 'w \<Rightarrow> 'w"
    and t :: nat
    and m :: "u8 list"
    and own :: "nat set"
    and cbs :: "'c set"
    and ok :: "('c, 'w) abus \<Rightarrow> bool"
  assumes callback_ok:
    "c \<in> cbs \<Longrightarrow> ok s \<Longrightarrow> top_datafifo (topic s t) = Some fa \<Longrightarrow>
     unat (top_msg_size (topic s t)) = length m \<Longrightarrow> fview s fa = Some (True, cap, m) \<Longrightarrow>
     \<exists>s'. call c t s = Some (Inr s') \<and> same_bus s s' \<and> fview s' = fview s \<and>
          world s' = react c t m (world s) \<and> ok s'"
    and ok_frame:
    "ok s \<Longrightarrow> same_bus s s' \<Longrightarrow> world s' = world s \<Longrightarrow>
     (\<forall>fa. fa \<notin> own \<longrightarrow> fview s' fa = fview s fa) \<Longrightarrow> ok s'"
begin

lemma sync_body_ok:
  assumes "ok s" and "acc_topic (acc s a) = Some t" and "top_datafifo (topic s t) = Some fa"
    and "unat (top_msg_size (topic s t)) = length m" and "fview s fa = Some (True, cap, m)"
    and "is_async (acc_flag (acc s b)) = 0" and "acc_topic (acc s b) = Some t"
    and "acc_datafifo (acc s b) \<noteq> Some fa" and "room s m [b] (fview s)"
    and "set_option (acc_datafifo (acc s b)) \<subseteq> own" and "set_option (acc_callback (acc s b)) \<subseteq> cbs"
  shows "\<exists>s'. sync_body call s a m (AccHead b) = Some (Inr s') \<and> ok s' \<and> same_bus s s' \<and>
           fview s' = copies s m [b] (fview s) \<and>
           world s' = reactions s react t m [b] (world s)"
proof -
  have "\<exists>s1. sync_copy s a m b = Inr s1 \<and> ok s1 \<and> same_bus s s1 \<and>
           fview s1 = copies s m [b] (fview s) \<and> world s1 = world s"
  proof (cases "acc_datafifo (acc s b)")
    case None
    then show ?thesis using assms(1) by (simp add: sync_copy_def)
  next
    case (Some fb)
    with assms(9) obtain c q where v: "fview s fb = Some (True, c, q)" "length q + length m \<le> c"
      by (auto split: option.splits)
    from fifo_put_view [OF v(1) assms(4) v(2)] obtain s1 where
      s1: "fifo_put s (Some fb) m (top_msg_size (topic s t)) = Inr (top_msg_size (topic s t), s1)"
        "same_bus s s1" "world s1 = world s" "fview s1 = vput m fb (fview s)" by blast
    moreover have "ok s1"
      using ok_frame [OF assms(1) s1(2,3)] s1(4) Some assms(10) by (auto simp: vput_def)
    moreover have "topic_of s1 b = Inr t" "topic s1 = topic s"
      using s1(2) assms(7) by (auto simp: same_bus_def topic_of_def)
    ultimately show ?thesis
      using assms(2) Some by (simp add: sync_copy_def topic_of_def)
  qed
  then obtain s1 where s1: "sync_copy s a m b = Inr s1" "ok s1" "same_bus s s1"
    "fview s1 = copies s m [b] (fview s)" "world s1 = world s" by blast
  have same: "acc s1 = acc s" "topic s1 = topic s" using s1(3) by (simp_all add: same_bus_def)
  have view: "fview s1 fa = Some (True, cap, m)"
    using s1(4) copies_other [of "[b]" s fa m "fview s"] assms(5,8) by simp
  have "\<exists>s'. sync_call call s1 a b = Some (Inr s') \<and> ok s' \<and> same_bus s1 s' \<and>
           fview s' = fview s1 \<and> world s' = reactions s react t m [b] (world s1)"
  proof (cases "acc_callback (acc s b)")
    case None
    then show ?thesis using s1(2) same by (simp add: sync_call_def)
  next
    case (Some c)
    then have "c \<in> cbs" using assms(11) by simp
    from callback_ok [OF this s1(2) _ _ view] Some assms(2,3,4) same show ?thesis
      by (auto simp: sync_call_def topic_of_def)
  qed
  then obtain s' where "sync_call call s1 a b = Some (Inr s')" "ok s'" "same_bus s1 s'"
    "fview s' = fview s1" "world s' = reactions s react t m [b] (world s1)" by blast
  with s1 assms(6) show ?thesis
    by (auto simp: sync_body_def acc_entry_def intro: same_bus_trans)
qed

lemma sync_loop_ok:
  assumes "ok s" and "acc_topic (acc s a) = Some t" and "top_datafifo (topic s t) = Some fa"
    and "unat (top_msg_size (topic s t)) = length m" and "fview s fa = Some (True, cap, m)"
    and "\<forall>b\<in>set bs. is_async (acc_flag (acc s b)) = 0 \<and> acc_topic (acc s b) = Some t \<and>
           acc_datafifo (acc s b) \<noteq> Some fa \<and> set_option (acc_datafifo (acc s b)) \<subseteq> own \<and>
           set_option (acc_callback (acc s b)) \<subseteq> cbs"
    and "room s m bs (fview s)"
    and "circ (heads s) (SyncHead t) (map AccHead (ds @ bs))"
  shows "\<exists>s'. sync_loop call a m s (nxt (heads s) (last (SyncHead t # map AccHead ds))) =
           Some (Inr s') \<and> ok s' \<and> same_bus s s' \<and>
           fview s' = copies s m bs (fview s) \<and> world s' = reactions s react t m bs (world s)"
  using assms
proof (induction bs arbitrary: s ds)
  case Nil
  have "nxt (heads s) (last (SyncHead t # map AccHead ds)) = Some (SyncHead t)"
    using circ_gap [of "heads s" "SyncHead t" "map AccHead ds" "[]"] Nil.prems(8)
    by (simp add: link_def)
  then show ?case using Nil.prems(1,2)
    by (subst sync_loop.simps) (simp add: topic_of_def)
next
  case (Cons b bs)
  have pos: "nxt (heads s) (last (SyncHead t # map AccHead ds)) = Some (AccHead b)"
    using circ_gap [of "heads s" "SyncHead t" "map AccHead ds" "map AccHead (b # bs)"] Cons.prems(8)
    by (simp add: link_def)
  from sync_body_ok [OF Cons.prems(1-5), of b] Cons.prems(6,7) obtain s1 where
    s1: "sync_body call s a m (AccHead b) = Some (Inr s1)" "ok s1" "same_bus s s1"
      "fview s1 = copies s m [b] (fview s)" "world s1 = reactions s react t m [b] (world s)"
    by (auto split: option.splits)
  have same: "acc s1 = acc s" "topic s1 = topic s" "heads s1 = heads s"
    using s1(3) by (simp_all add: same_bus_def)
  have view: "fview s1 fa = Some (True, cap, m)"
    using s1(4) copies_other [of "[b]" s fa m "fview s"] Cons.prems(5,6) by simp
  have "room s1 m bs (fview s1)"
    using Cons.prems(7) s1(4) same_bus_specs(2) [OF s1(3)] by (auto split: option.splits)
  with Cons.IH [of s1 "ds @ [b]"] Cons.prems s1(2) same view obtain s2 where
    s2: "sync_loop call a m s1 (nxt (heads s1) (AccHead b)) = Some (Inr s2)" "ok s2"
      "same_bus s1 s2" "fview s2 = copies s1 m bs (fview s1)"
      "world s2 = reactions s1 react t m bs (world s1)"
    by auto
  have "sync_loop call a m s (Some (AccHead b)) = Some (Inr s2)"
    using s1(1) s2(1) Cons.prems(2) by (subst sync_loop.simps) (simp add: topic_of_def)
  then show ?case
    using s1(3-5) s2 pos same_bus_specs [OF s1(3)] by (auto intro: same_bus_trans)
qed

text \<open>
  The whole publication: it returns, every subscriber's own FIFO got the message, every
  callback ran once in the order of the list, and the topic's FIFO is empty again.
\<close>

lemma publish_ok:
  assumes "ok s" and "topic_ready s t fa bs m" and "acc_topic (acc s a) = Some t" and "fa \<in> own"
    and "\<forall>b\<in>set bs. set_option (acc_datafifo (acc s b)) \<subseteq> own \<and>
           set_option (acc_callback (acc s b)) \<subseteq> cbs"
    and "room s m bs (fview s)"
  shows "\<exists>s'. abus_public call s a m = Some (Inr (0, s')) \<and> same_bus s s' \<and> ok s' \<and>
           fview s' = copies s m bs (fview s) \<and> world s' = reactions s react t m bs (world s)"
proof -
  from assms(2) obtain c where r: "top_datafifo (topic s t) = Some fa"
    "unat (top_msg_size (topic s t)) = length m" "fview s fa = Some (True, c, [])" "length m \<le> c"
    "circ (heads s) (SyncHead t) (map AccHead bs)"
    and bs: "\<forall>b\<in>set bs. is_async (acc_flag (acc s b)) = 0 \<and> acc_topic (acc s b) = Some t \<and>
       acc_datafifo (acc s b) \<noteq> Some fa"
    by (auto simp: topic_ready_def)
  from fifo_put_view [OF r(3,2)] r(4) obtain s1 where
    s1: "fifo_put s (Some fa) m (top_msg_size (topic s t)) = Inr (top_msg_size (topic s t), s1)"
      "same_bus s s1" "world s1 = world s" "fview s1 = vput m fa (fview s)" by auto
  have same: "acc s1 = acc s" "topic s1 = topic s" "heads s1 = heads s"
    using s1(2) by (simp_all add: same_bus_def)
  have v1: "fview s1 = (fview s)(fa \<mapsto> (True, c, m))" using s1(4) r(3) by (simp add: vput_def)
  have "ok s1" using ok_frame [OF assms(1) s1(2,3)] v1 assms(4) by auto
  moreover have "room s1 m bs (fview s1)"
    using v1 bs assms(6) room_upd [of bs s fa m "fview s"] same_bus_specs(2) [OF s1(2)] by simp
  ultimately obtain s2 where
    s2: "sync_loop call a m s1 (nxt (heads s1) (SyncHead t)) = Some (Inr s2)" "ok s2"
      "same_bus s1 s2" "fview s2 = copies s1 m bs (fview s1)"
      "world s2 = reactions s1 react t m bs (world s1)"
    using sync_loop_ok [of s1 a fa c bs "[]"] assms(3,5) r same bs v1 by auto
  have same2: "acc s2 = acc s" "topic s2 = topic s"
    using s2(3) same by (simp_all add: same_bus_def)
  have v2: "fview s2 = (copies s m bs (fview s))(fa \<mapsto> (True, c, m))"
    using s2(4) v1 bs copies_upd [of bs s fa m "fview s"] same_bus_specs(1) [OF s1(2)] by simp
  have un: "(copies s m bs (fview s)) fa = Some (True, c, [])"
    using copies_other [of bs s fa m "fview s"] bs r(3) by simp
  from fifo_skip_view [of s2 fa c m "[]" "top_msg_size (topic s t)"] v2 r(2) obtain s3 where
    s3: "fifo_skip s2 (Some fa) (top_msg_size (topic s t)) = Inr (top_msg_size (topic s t), s3)"
      "same_bus s2 s3" "world s3 = world s2" "fview s3 = (fview s2)(fa \<mapsto> (True, c, []))"
    by auto
  have "fview s3 = copies s m bs (fview s)" using s3(4) v2 un by (simp add: fun_upd_idem)
  moreover have "ok s3" using ok_frame [OF s2(2) s3(2,3)] s3(4) assms(4) by auto
  moreover have "abus_public call s a m = Some (Inr (0, s3))"
    using assms(3) r(1) s1(1) s2(1) s3(1) same same2 by (simp add: abus_public_def topic_of_def)
  ultimately show ?thesis
    using s1(2,3) s2(3,5) s3(2,3) same_bus_specs(3) [OF s1(2)] by (auto intro: same_bus_trans)
qed

end

subsection \<open>The registration tables\<close>

definition table_ok :: "nat option list \<Rightarrow> u32 \<Rightarrow> nat \<Rightarrow> bool" where
  "table_ok a i n \<longleftrightarrow> length a = n \<and> unat i \<le> n \<and> None \<notin> set (take (unat i) a)"

definition registered :: "nat option list \<Rightarrow> u32 \<Rightarrow> nat list" where
  "registered a i = map the (take (unat i) a)"

lemma table_nth:
  "table_ok a i n \<Longrightarrow> k < unat i \<Longrightarrow> k < length a \<and> a ! k = Some (registered a i ! k)"
  by (auto simp: table_ok_def registered_def in_set_conv_nth)

lemma length_registered [simp]: "table_ok a i n \<Longrightarrow> length (registered a i) = unat i"
  by (simp add: table_ok_def registered_def)

text \<open>Both searches return the earliest registered object with the given name.\<close>

lemma find_drop:
  "i < length xs \<Longrightarrow>
   List.find P (drop i xs) = (if P (xs ! i) then Some (xs ! i) else List.find P (drop (Suc i) xs))"
  by (simp add: Cons_nth_drop_Suc [symmetric])

lemma accounter_scan_find:
  assumes "table_ok (accs s) (accs_index s) ABUS_ACCS_NUM"
  shows "accounter_scan s name i =
    Inr (List.find (\<lambda>a. acc_name (acc s a) = name) (drop i (registered (accs s) (accs_index s))))"
  using assms
proof (induction s name i rule: accounter_scan.induct)
  case (1 s name i)
  show ?case
  proof (cases "i < unat (accs_index s)")
    case True
    with table_nth [OF 1(2) True] 1 show ?thesis
      by (subst accounter_scan.simps) (simp add: find_drop)
  next
    case False
    with 1(2) show ?thesis by (subst accounter_scan.simps) simp
  qed
qed

lemma topic_scan_find:
  assumes "table_ok (topics s) (topics_index s) ABUS_TOPICS_NUM"
  shows "topic_scan s name i =
    Inr (List.find (\<lambda>t. top_name (topic s t) = name) (drop i (registered (topics s) (topics_index s))))"
  using assms
proof (induction s name i rule: topic_scan.induct)
  case (1 s name i)
  show ?case
  proof (cases "i < unat (topics_index s)")
    case True
    with table_nth [OF 1(2) True] 1 show ?thesis
      by (subst topic_scan.simps) (simp add: find_drop)
  next
    case False
    with 1(2) show ?thesis by (subst topic_scan.simps) simp
  qed
qed

lemma table_put:
  assumes "table_ok a i n" and "unat i < n" and "n < 2 ^ 32"
  shows "put_slot a i v = Inr (a[unat i := Some v])"
    and "table_ok (a[unat i := Some v]) (i + 1) n"
    and "registered (a[unat i := Some v]) (i + 1) = registered a i @ [v]"
proof -
  have "i + 1 \<noteq> 0"
  proof
    assume "i + 1 = 0"
    then have "unat (i + 1) = 0" by simp
    with assms(2,3) show False by (simp add: unat_word_ariths)
  qed
  then have i: "unat (i + 1) = Suc (unat i)"
    by (simp add: unatSuc add.commute)
  have t: "take (Suc (unat i)) (a[unat i := Some v]) = take (unat i) a @ [Some v]"
    using assms(1,2) by (simp add: table_ok_def take_Suc_conv_app_nth)
  show "put_slot a i v = Inr (a[unat i := Some v])"
    using assms(1,2) by (simp add: put_slot_def table_ok_def)
  show "table_ok (a[unat i := Some v]) (i + 1) n"
    using assms(1,2) unfolding table_ok_def i t by simp
  show "registered (a[unat i := Some v]) (i + 1) = registered a i @ [v]"
    unfolding registered_def i t by simp
qed

subsection \<open>Properties\<close>

text \<open>
  Registering an accounter while fewer than 128 are registered succeeds and appends it
  to the table, keeping the table well formed; afterwards a search by its name pointer
  returns the earliest registered accounter with that name, which is the new one unless an
  older entry of the table carries the same name pointer.
\<close>

theorem abus_acc_register_lookup:
  assumes "table_ok (accs s) (accs_index s) ABUS_ACCS_NUM"
    and "unat (accs_index s) < ABUS_ACCS_NUM"
  shows "\<exists>s'. abus_acc_init s a ini = Inr (0, s') \<and>
           table_ok (accs s') (accs_index s') ABUS_ACCS_NUM \<and>
           registered (accs s') (accs_index s') = registered (accs s) (accs_index s) @ [a] \<and>
           (\<forall>name. abus_accounter_find s' name =
              Inr (List.find (\<lambda>b. acc_name (acc s' b) = name)
                     (registered (accs s) (accs_index s) @ [a]))) \<and>
           ((\<forall>b \<in> set (registered (accs s) (accs_index s)).
               b = a \<or> acc_name (acc s b) \<noteq> ini_name ini) \<longrightarrow>
            abus_accounter_find s' (ini_name ini) = Inr (Some a))"
proof -
  let ?r = "registered (accs s) (accs_index s)"
  define s1 where "s1 = s\<lparr>acc := (acc s)(a := (acc s a)\<lparr>acc_name := ini_name ini,
                   acc_datafifo := ini_datafifo ini, acc_callback := ini_callback ini\<rparr>)\<rparr>"
  define s' where "s' = s1\<lparr>accs := (accs s)[unat (accs_index s) := Some a],
                           accs_index := accs_index s + 1\<rparr>"
  have n: "ABUS_ACCS_NUM < 2 ^ 32" by (simp add: ABUS_ACCS_NUM_def)
  note p = table_put [OF assms n, of a]
  have r: "abus_acc_init s a ini = Inr (0, s')"
    using p(1) assms(2) by (simp add: abus_acc_init_def ABUS_ASSERT_def s'_def s1_def)
  have t: "table_ok (accs s') (accs_index s') ABUS_ACCS_NUM"
    and reg: "registered (accs s') (accs_index s') = ?r @ [a]"
    using p(2,3) by (simp_all add: s'_def s1_def)
  have find: "abus_accounter_find s' name = Inr (List.find (\<lambda>b. acc_name (acc s' b) = name) (?r @ [a]))"
    for name by (simp add: abus_accounter_find_def accounter_scan_find [OF t] reg)
  have "List.find (\<lambda>b. acc_name (acc s' b) = ini_name ini) (xs @ [a]) = Some a"
    if "\<forall>b \<in> set xs. b = a \<or> acc_name (acc s b) \<noteq> ini_name ini" for xs
    using that by (induction xs) (auto simp: s'_def s1_def)
  then have "(\<forall>b \<in> set ?r. b = a \<or> acc_name (acc s b) \<noteq> ini_name ini) \<longrightarrow>
      abus_accounter_find s' (ini_name ini) = Inr (Some a)"
    by (simp only: find) simp
  with r t reg find show ?thesis by (intro exI [of _ s']) simp
qed

definition demo_acc_ini :: "nat abus_acc_init_t" where
  "demo_acc_ini = \<lparr>ini_name = 7, ini_datafifo = None, ini_callback = Some 3\<rparr>"

theorem abus_acc_register_lookup_witness:
  "\<exists>s' :: (nat, unit) abus. abus_acc_init (abus_zero ()) 5 demo_acc_ini = Inr (0, s') \<and>
     abus_accounter_find s' 7 = Inr (Some 5)"
  using abus_acc_register_lookup [of "abus_zero () :: (nat, unit) abus" 5 demo_acc_ini]
  by (auto simp: abus_zero_def table_ok_def ABUS_ACCS_NUM_def registered_def demo_acc_ini_def)

text \<open>
  A full table is not reported: the 129th accounter and the 33rd topic make their
  registration spin in the assertion for ever, whatever they are registered with.
\<close>

theorem abus_tables_full:
  assumes "unat (accs_index s) \<ge> ABUS_ACCS_NUM" and "unat (topics_index s) \<ge> ABUS_TOPICS_NUM"
    and "is_power_of_2 (sint (tin_buf_size tini))"
  shows "abus_acc_init s a ini = Inl BusyLoop \<and> abus_topic_init malloc s t tini = Inl BusyLoop"
  using assms
  by (cases "malloc s sizeof_afifo")
    (simp_all add: abus_acc_init_def abus_topic_init_def ABUS_ASSERT_def afifo_init_def BUG_ON_def
      INIT_LIST_HEAD_def)

theorem abus_tables_full_witness:
  "abus_acc_init ((abus_zero ())\<lparr>accs_index := 128, topics_index := 32\<rparr> :: (nat, unit) abus)
     0 demo_acc_ini = Inl BusyLoop"
proof -
  have "is_power_of_2 (sint (tin_buf_size \<lparr>tin_name = 1, tin_buf = [], tin_buf_size = 4, tin_msg_size = 1\<rparr>))"
    by (auto simp: is_power_of_2_iff intro: exI [of _ 2])
  from abus_tables_full [OF _ _ this,
      of "(abus_zero ())\<lparr>accs_index := 128, topics_index := 32\<rparr> :: (nat, unit) abus"
        0 demo_acc_ini "\<lambda>_ _. None" 0]
  show ?thesis by (simp add: ABUS_ACCS_NUM_def ABUS_TOPICS_NUM_def)
qed

text \<open>
  Subscribing a free accounter \<open>a\<close> puts it in front of the topic's synchronous or
  asynchronous list, as the flag says, and makes it point to the topic; unsubscribing any
  accounter \<open>b\<close> of that list then removes exactly \<open>b\<close>, keeps the order of the others and
  makes it point to no topic. Neither disturbs the list of another topic.
\<close>

theorem abus_subscribe_unsubscribe:
  assumes "hn = (if is_async flag = 0 then SyncHead t else AsyncHead t)"
    and "circ (heads s) hn (us @ AccHead b # vs)" and "AccHead a \<notin> set (us @ AccHead b # vs)"
    and "circ (heads s) hm ys" and "set (hm # ys) \<inter> set (AccHead a # hn # us @ AccHead b # vs) = {}"
  shows "\<exists>s1 s2. abus_topic_subscribe s t a flag = Inr (0, s1) \<and>
           circ (heads s1) hn (AccHead a # us @ AccHead b # vs) \<and> circ (heads s1) hm ys \<and>
           acc s1 = (acc s)(a := (acc s a)\<lparr>acc_flag := flag, acc_topic := Some t\<rparr>) \<and>
           abus_topic_unsubscribe s1 t b = Inr (0, s2) \<and>
           circ (heads s2) hn (AccHead a # us @ vs) \<and> circ (heads s2) hm ys \<and>
           acc s2 = (acc s1)(b := (acc s1 b)\<lparr>acc_topic := None\<rparr>)"
proof -
  have "AccHead a \<notin> set (hn # us @ AccHead b # vs)" using assms(1,3) by auto
  from alist.add_ok [OF assms(2) this] assms(4,5) obtain h1 where
    h1: "list_add (heads s) (Some (AccHead a)) (Some hn) = Inr h1"
      "circ h1 hn ((AccHead a # us) @ AccHead b # vs)" "circ h1 hm ys" by auto
  have "set (hm # ys) \<inter> set (hn # (AccHead a # us) @ AccHead b # vs) = {}" using assms(5) by auto
  with alist.del_ok [OF h1(2)] h1(3) obtain h2 where
    h2: "list_del h1 (Some (AccHead b)) = Inr h2" "circ h2 hn ((AccHead a # us) @ vs)"
      "circ h2 hm ys" by blast
  define s1 where "s1 = s\<lparr>acc := (acc s)(a := (acc s a)\<lparr>acc_flag := flag, acc_topic := Some t\<rparr>),
                          heads := h1\<rparr>"
  have "abus_topic_subscribe s t a flag = Inr (0, s1)"
    using h1(1) assms(1) by (auto simp: abus_topic_subscribe_def Let_def s1_def)
  moreover have "abus_topic_unsubscribe s1 t b =
      Inr (0, s1\<lparr>acc := (acc s1)(b := (acc s1 b)\<lparr>acc_topic := None\<rparr>), heads := h2\<rparr>)"
    using h2(1) by (simp add: abus_topic_unsubscribe_def s1_def)
  moreover have "acc s1 = (acc s)(a := (acc s a)\<lparr>acc_flag := flag, acc_topic := Some t\<rparr>)"
    "heads s1 = h1" by (simp_all add: s1_def)
  ultimately show ?thesis
    using h1(2,3) h2(2,3) by auto
qed


definition demo_sub :: "(nat, unit) abus" where
  "demo_sub = (abus_zero ())\<lparr>heads := \<lparr>
     nxt = [SyncHead 0 \<mapsto> AccHead 1, AccHead 1 \<mapsto> SyncHead 0, SyncHead 1 \<mapsto> SyncHead 1],
     prv = [SyncHead 0 \<mapsto> AccHead 1, AccHead 1 \<mapsto> SyncHead 0, SyncHead 1 \<mapsto> SyncHead 1]\<rparr>\<rparr>"

theorem abus_subscribe_unsubscribe_witness:
  "\<exists>s1 s2. abus_topic_subscribe demo_sub 0 2 \<lparr>is_async = 0, is_self_fifo = 0\<rparr> = Inr (0, s1) \<and>
     circ (heads s1) (SyncHead 0) [AccHead 2, AccHead 1] \<and>
     abus_topic_unsubscribe s1 0 1 = Inr (0, s2) \<and> circ (heads s2) (SyncHead 0) [AccHead 2]"
  using abus_subscribe_unsubscribe [of "SyncHead 0" "\<lparr>is_async = 0, is_self_fifo = 0\<rparr>" 0 demo_sub
      "[]" 1 "[]" 2 "SyncHead 1" "[]"]
  by (auto simp: demo_sub_def abus_zero_def circ_def link_def)

text \<open>Initialising a topic, in the shape the start-up sequence needs.\<close>

lemma abus_topic_init_ok:
  assumes "malloc s sizeof_afifo = Some fa" and "is_power_of_2 (sint (tin_buf_size ini))"
    and "unat (topics_index s) < ABUS_TOPICS_NUM" and "length (topics s) = ABUS_TOPICS_NUM"
  shows "abus_topic_init malloc s t ini =
    Inr (0, s\<lparr>topic := (topic s)(t := \<lparr>top_name = tin_name ini, top_datafifo = Some fa,
                                      top_msg_size = tin_msg_size ini\<rparr>),
              fifos := (fifos s)(fa \<mapsto> \<lparr>buffer = tin_buf ini, fsize = tin_buf_size ini, inp = 0,
                                       outp = 0, lock = 0\<rparr>),
              heads := (heads s)\<lparr>
                nxt := (nxt (heads s))(SyncHead t \<mapsto> SyncHead t, AsyncHead t \<mapsto> AsyncHead t),
                prv := (prv (heads s))(SyncHead t \<mapsto> SyncHead t, AsyncHead t \<mapsto> AsyncHead t)\<rparr>,
              topics := (topics s)[unat (topics_index s) := Some t],
              topics_index := topics_index s + 1\<rparr>)"
  using assms
  by (simp add: abus_topic_init_def afifo_init_def BUG_ON_def INIT_LIST_HEAD_def ABUS_ASSERT_def
      put_slot_def fun_upd_twist)

lemma abus_acc_init_ok:
  assumes "unat (accs_index s) < ABUS_ACCS_NUM" and "length (accs s) = ABUS_ACCS_NUM"
  shows "abus_acc_init s a ini =
    Inr (0, s\<lparr>acc := (acc s)(a := (acc s a)\<lparr>acc_name := ini_name ini,
                   acc_datafifo := ini_datafifo ini, acc_callback := ini_callback ini\<rparr>),
              accs := (accs s)[unat (accs_index s) := Some a], accs_index := accs_index s + 1\<rparr>)"
  using assms by (simp add: abus_acc_init_def ABUS_ASSERT_def put_slot_def)

lemma is_power_of_2_1024: "is_power_of_2 1024"
  by (auto simp: is_power_of_2_iff intro: exI [of _ 10])

lemma empty_1024:
  assumes "length b = 1024"
  shows "afifo_inv \<lparr>buffer = b, fsize = 1024, inp = 0, outp = 0, lock = l\<rparr>"
    and "contents \<lparr>buffer = b, fsize = 1024, inp = 0, outp = 0, lock = l\<rparr> = []"
  using assms by (auto simp: afifo_inv_def contents_def intro: exI [of _ 10])

lemma boot_ok:
  assumes "\<forall>k\<in>{1..4}. length (block k) = 1024 \<and> alloc k sizeof_afifo = Some (fa k)"
    and "distinct (map fa [1, 2, 3, 4])"
  shows "\<exists>s. abus_all_init lit block alloc (abus_zero w) = Inr (0, s) \<and> world s = w \<and>
    (\<forall>m. length m = 4 \<longrightarrow>
       topic_ready s line_error_topic (fa 1) [rbmg_error_acc, line_error_acc] m) \<and>
    (\<forall>m. length m = 1 \<longrightarrow>
       topic_ready s line_special_topic (fa 2) [rbmg_special_point_acc, line_spacial_point_acc] m) \<and>
    (\<forall>m. length m = 1 \<longrightarrow>
       topic_ready s line_dir_topic (fa 3) [rbmg_dir_acc, line_dir_acc] m) \<and>
    (\<forall>m. length m = unat sizeof_chassis_ctrl \<longrightarrow>
       topic_ready s chassis_ctrl_topic (fa 4) [rbmg_chassis_acc, chassis_acc] m) \<and>
    (\<forall>a. acc_datafifo (acc s a) = None) \<and>
    map (\<lambda>a. acc_callback (acc s a)) [line_error_acc, line_dir_acc, line_spacial_point_acc,
       chassis_acc, rbmg_error_acc, rbmg_dir_acc, rbmg_special_point_acc, rbmg_chassis_acc] =
      [None, None, None, Some chassis_sub_callback, Some rbmg_error_callback,
       Some rbmg_dir_callback, Some rbmg_special_point_callback, Some rbmg_chassis_ctrl_callback]"
proof -
  have k: "alloc 1 sizeof_afifo = Some (fa 1)" "alloc 2 sizeof_afifo = Some (fa 2)"
    "alloc 3 sizeof_afifo = Some (fa 3)" "alloc 4 sizeof_afifo = Some (fa 4)"
    and b: "length (block 1) = 1024" "length (block 2) = 1024" "length (block 3) = 1024"
      "length (block 4) = 1024"
    and d: "fa 1 \<noteq> fa 2" "fa 1 \<noteq> fa 3" "fa 1 \<noteq> fa 4" "fa 2 \<noteq> fa 3" "fa 2 \<noteq> fa 4" "fa 3 \<noteq> fa 4"
    using assms by auto
  note run = abus_topic_init_ok k abus_acc_init_ok abus_zero_def ABUS_TOPICS_NUM_def
    ABUS_ACCS_NUM_def is_power_of_2_1024 port_ids abus_topic_subscribe_def list_add_def
    u_list_add_def
  note check = topic_ready_def fview_def circ_def link_def empty_1024 b d sizeof_chassis_ctrl_def
  show ?thesis
    unfolding abus_all_init_def Let_def
    by (simp add: run split del: if_split del: bind_res_eq_Inr One_nat_def)
      (simp add: check d [symmetric] del: One_nat_def)
qed

text \<open>
  Start-up. With the four buffers and control blocks allocated, \<open>abus_all_init\<close> returns 0
  and leaves each of the four topics ready for messages of its size, with the robot
  manager's accounter visited first and the sensor's or chassis' accounter second. No
  accounter has a FIFO of its own. The line sensor's direction accounter ends up without
  its callback: \<open>line_dir_sub_callback\<close> is set and then overwritten.
\<close>

theorem abus_all_init_boots:
  assumes "\<forall>k\<in>{1..4}. length (block k) = 1024 \<and> alloc k sizeof_afifo = Some (fa k)"
    and "distinct (map fa [1, 2, 3, 4])"
  shows "\<exists>s. abus_all_init lit block alloc (abus_zero w) = Inr (0, s) \<and> world s = w \<and>
    (\<forall>m. length m = 4 \<longrightarrow>
       topic_ready s line_error_topic (fa 1) [rbmg_error_acc, line_error_acc] m) \<and>
    (\<forall>m. length m = 1 \<longrightarrow>
       topic_ready s line_special_topic (fa 2) [rbmg_special_point_acc, line_spacial_point_acc] m) \<and>
    (\<forall>m. length m = 1 \<longrightarrow>
       topic_ready s line_dir_topic (fa 3) [rbmg_dir_acc, line_dir_acc] m) \<and>
    (\<forall>m. length m = unat sizeof_chassis_ctrl \<longrightarrow>
       topic_ready s chassis_ctrl_topic (fa 4) [rbmg_chassis_acc, chassis_acc] m) \<and>
    (\<forall>a. acc_datafifo (acc s a) = None) \<and>
    map (\<lambda>a. acc_callback (acc s a)) [line_error_acc, line_dir_acc, line_spacial_point_acc,
       chassis_acc, rbmg_error_acc, rbmg_dir_acc, rbmg_special_point_acc, rbmg_chassis_acc] =
      [None, None, None, Some chassis_sub_callback, Some rbmg_error_callback,
       Some rbmg_dir_callback, Some rbmg_special_point_callback, Some rbmg_chassis_ctrl_callback]"
  using assms by (rule boot_ok)

theorem abus_all_init_boots_witness:
  "\<exists>s. abus_all_init length (\<lambda>_. replicate 1024 0) (\<lambda>k _. Some (100 + k)) (abus_zero ()) = Inr (0, s) \<and>
     topic_ready s chassis_ctrl_topic 104 [rbmg_chassis_acc, chassis_acc] (replicate 16 7) \<and>
     acc_callback (acc s line_dir_acc) = None"
  using abus_all_init_boots [of "\<lambda>_. replicate 1024 0" "\<lambda>k _. Some (100 + k)" "\<lambda>k. 100 + k" length "()"]
  by (auto simp: sizeof_chassis_ctrl_def)

text \<open>
  C1: Publishing on a ready topic. Let the callbacks of its subscribers satisfy the
  callback contract, and let the subscribers' own FIFOs have room. Then \<open>abus_public\<close>
  returns 0, every subscriber's own FIFO has the message appended, every callback has run
  exactly once with the message in front of the topic's FIFO, in the order of the list, and
  the topic's FIFO is empty again; the registration data is untouched.
\<close>

theorem abus_public_delivers:
  assumes cb: "\<And>c s' cap. c \<in> cbs \<Longrightarrow> same_bus s s' \<Longrightarrow> fview s' fa = Some (True, cap, m) \<Longrightarrow>
      \<exists>s''. call c t s' = Some (Inr s'') \<and> same_bus s' s'' \<and> fview s'' = fview s' \<and>
            world s'' = react c t m (world s')"
    and ready: "topic_ready s t fa bs m" and pub: "acc_topic (acc s a) = Some t"
    and subs: "\<forall>b\<in>set bs. set_option (acc_callback (acc s b)) \<subseteq> cbs"
    and room: "room s m bs (fview s)"
  shows "\<exists>s'. abus_public call s a m = Some (Inr (0, s')) \<and> same_bus s s' \<and>
           fview s' = copies s m bs (fview s) \<and> world s' = reactions s react t m bs (world s)"
proof -
  have top: "top_datafifo (topic s t) = Some fa" "unat (top_msg_size (topic s t)) = length m"
    using ready by (auto simp: topic_ready_def)
  have "bus_callbacks call react t m UNIV cbs (same_bus s)"
  proof (unfold_locales, goal_cases)
    case (1 c s1 fa1 cap)
    then have "fa1 = fa" using top(1) by (simp add: same_bus_def)
    with cb [OF 1(1,2), of cap] 1(2,5) show ?case by (auto intro: same_bus_trans)
  next
    case (2 s1 s2)
    then show ?case by (auto intro: same_bus_trans)
  qed
  from bus_callbacks.publish_ok [OF this same_bus_refl ready pub UNIV_I _ room] subs
  show ?thesis by auto
qed

text \<open>A callback that reads the message like the chassis' one and records who got what.\<close>

definition demo_call ::
    "port_callback \<Rightarrow> nat \<Rightarrow> (port_callback, (port_callback \<times> u8 list) list) abus \<Rightarrow>
     (port_callback, (port_callback \<times> u8 list) list) abus res option" where
  "demo_call c t s =
     (case fifo_peek s (top_datafifo (topic s t)) (replicate 16 0) 16 of
        Inl e \<Rightarrow> Some (Inl e)
      | Inr (n, m) \<Rightarrow> Some (Inr (s\<lparr>world := world s @ [(c, m)]\<rparr>)))"

theorem abus_public_delivers_witness:
  "\<exists>s s'. abus_all_init length (\<lambda>_. replicate 1024 0) (\<lambda>k _. Some (100 + k)) (abus_zero []) =
       Inr (0, s) \<and>
     abus_public demo_call s rbmg_chassis_acc (replicate 16 7) = Some (Inr (0, s')) \<and>
     world s' = [(rbmg_chassis_ctrl_callback, replicate 16 7), (chassis_sub_callback, replicate 16 7)]"
proof -
  let ?m = "replicate 16 7 :: u8 list"
  obtain s :: "(port_callback, (port_callback \<times> u8 list) list) abus" where
    s: "abus_all_init length (\<lambda>_. replicate 1024 0) (\<lambda>k _. Some (100 + k)) (abus_zero []) =
       Inr (0, s)" "world s = []"
    "\<forall>m. length m = 16 \<longrightarrow> topic_ready s chassis_ctrl_topic 104 [rbmg_chassis_acc, chassis_acc] m"
    "\<forall>a. acc_datafifo (acc s a) = None"
    "acc_callback (acc s chassis_acc) = Some chassis_sub_callback"
    "acc_callback (acc s rbmg_chassis_acc) = Some rbmg_chassis_ctrl_callback"
    using boot_ok [of "\<lambda>_. replicate 1024 0" "\<lambda>k _. Some (100 + k)" "\<lambda>k. 100 + k" length "[]"]
    by (auto simp: sizeof_chassis_ctrl_def)
  have ready: "topic_ready s chassis_ctrl_topic 104 [rbmg_chassis_acc, chassis_acc] ?m"
    using s(3) by (simp only: length_replicate)
  then have t: "top_datafifo (topic s chassis_ctrl_topic) = Some 104"
      "acc_topic (acc s rbmg_chassis_acc) = Some chassis_ctrl_topic"
    by (auto simp: topic_ready_def)
  have call: "\<exists>s''. demo_call c chassis_ctrl_topic s' = Some (Inr s'') \<and> same_bus s' s'' \<and>
       fview s'' = fview s' \<and> world s'' = world s' @ [(c, ?m)]"
    if "same_bus s s'" "fview s' 104 = Some (True, cap, ?m)" for c s' cap
  proof -
    have "top_datafifo (topic s' chassis_ctrl_topic) = Some 104"
      using that(1) t(1) by (simp add: same_bus_def)
    then have "fifo_peek s' (top_datafifo (topic s' chassis_ctrl_topic)) (replicate 16 0) 16 = Inr (16, ?m)"
      using fifo_peek_view [of s' 104 cap ?m "[]" 16 "replicate 16 0"] that(2) by simp
    then show ?thesis by (simp add: demo_call_def fview_def fun_eq_iff)
  qed
  have "\<exists>s'. abus_public demo_call s rbmg_chassis_acc ?m = Some (Inr (0, s')) \<and> same_bus s s' \<and>
      fview s' = copies s ?m [rbmg_chassis_acc, chassis_acc] (fview s) \<and>
      world s' = reactions s (\<lambda>c t m w. w @ [(c, m)]) chassis_ctrl_topic ?m
        [rbmg_chassis_acc, chassis_acc] (world s)"
    by (rule abus_public_delivers [where cbs = UNIV, OF _ ready t(2)])
      (use call s(4) in \<open>auto simp del: replicate.simps\<close>)
  with s show ?thesis by (auto simp del: replicate.simps)
qed

text \<open>
  The failures of publishing: an accounter that is subscribed to nothing makes it read
  through a null pointer, and a topic whose FIFO has no room for the message makes it spin
  for ever; neither is reported to the publisher.
\<close>

theorem abus_public_failures:
  "(acc_topic (acc s a) = None \<longrightarrow> abus_public call s a msg = Some (Inl NullDeref)) \<and>
   (acc_topic (acc s a) = Some t \<and> top_datafifo (topic s t) = Some fa \<and>
    fview s fa = Some (True, c, q) \<and> unat (top_msg_size (topic s t)) \<le> length msg \<and>
    c - length q < unat (top_msg_size (topic s t)) \<longrightarrow>
    abus_public call s a msg = Some (Inl BusyLoop))"
proof (intro conjI impI)
  show "acc_topic (acc s a) = None \<Longrightarrow> abus_public call s a msg = Some (Inl NullDeref)"
    by (simp add: abus_public_def topic_of_def)
next
  assume a: "acc_topic (acc s a) = Some t \<and> top_datafifo (topic s t) = Some fa \<and>
    fview s fa = Some (True, c, q) \<and> unat (top_msg_size (topic s t)) \<le> length msg \<and>
    c - length q < unat (top_msg_size (topic s t))"
  then obtain f where f: "fifos s fa = Some f" "afifo_inv f" "length (buffer f) = c" "contents f = q"
    by (auto simp: fview_Some)
  from fifo.put_ok [OF f(2), of "top_msg_size (topic s t)" msg] a obtain m f' where
    m: "afifo_in f msg (top_msg_size (topic s t)) = Inr (m, f')"
      "unat m = min (unat (top_msg_size (topic s t))) (length (buffer f) - length (contents f))"
    by blast
  with a f have "m \<noteq> top_msg_size (topic s t)" by auto
  with m(1) a f show "abus_public call s a msg = Some (Inl BusyLoop)"
    by (simp add: abus_public_def topic_of_def fifo_put_def fifo_at_def)
qed

definition demo_full :: "(nat, unit) abus" where
  "demo_full = (abus_zero ())\<lparr>
     acc := (\<lambda>_. \<lparr>acc_name = 1, acc_datafifo = None, acc_callback = None,
                 acc_flag = \<lparr>is_async = 0, is_self_fifo = 0\<rparr>, acc_topic = Some 0\<rparr>),
     topic := (\<lambda>_. \<lparr>top_name = 2, top_datafifo = Some 9, top_msg_size = 2\<rparr>),
     fifos := [9 \<mapsto> \<lparr>buffer = [1, 2, 3, 4], fsize = 4, inp = 3, outp = 0, lock = 0\<rparr>]\<rparr>"

theorem abus_public_failures_witness:
  "abus_public (\<lambda>c t s. None) demo_full 0 [5, 6] = Some (Inl BusyLoop) \<and>
   abus_public (\<lambda>c t s. None) (abus_zero () :: (nat, unit) abus) 0 [5, 6] = Some (Inl NullDeref)"
proof -
  have "afifo_inv \<lparr>buffer = [1, 2, 3, 4], fsize = 4, inp = 3, outp = 0, lock = 0\<rparr>"
    by (auto simp: afifo_inv_def intro: exI [of _ 2])
  then show ?thesis
    using abus_public_failures [of demo_full 0 "\<lambda>c t s. None" "[5, 6]" 0 9 4 "[1, 2, 3]"]
      abus_public_failures [of "abus_zero () :: (nat, unit) abus" 0 "\<lambda>c t s. None" "[5, 6]"]
    by (simp add: demo_full_def abus_zero_def fview_def contents_def upt_rec)
qed

end
