(* ===== verification/Apid.thy ===== *)
theory Apid
  imports Prelude Complex_Main
begin

section \<open>The PID library (apid.c, the setters of apid_exfunc.c)\<close>

text \<open>
  \<open>PID_TYPE\<close> is \<open>float\<close>. A value is a real number and every arithmetic operation is followed
  by the parameter \<open>fl\<close>, the rounding of the machine; nothing is assumed of it unless a
  statement says so, and the identity gives exact arithmetic. A division by zero, which
  gives an infinity or a not-a-number in C, ends in a fault. Function pointers are values of
  enumerations, \<open>None\<close> when they are null. The union \<open>kd_u\<close> is one cell.
\<close>

subsection \<open>Data\<close>

type_synonym rounding = "real \<Rightarrow> real"

definition FLT_MAX :: real where "FLT_MAX = (2 - 1 / 2 ^ 23) * 2 ^ 127"
definition TARGET_MAX :: real where "TARGET_MAX = FLT_MAX"
definition OUT_MAX :: real where "OUT_MAX = FLT_MAX"

datatype run_state = STOP | PID_ENABLE | PAUSE

datatype ALL_PID_Mode = PID_POSITION | PID_INCREMENT

datatype ALL_PID_I_Function =
    PID_INTEGRAL_NORMAL
  | PID_INTEGRAL_SEPARATION
  | PID_INTEGRAL_SATURATION
  | PID_INTEGRAL_SPEED
  | PID_INTEGRAL_TRAPEZIOD

datatype ALL_PID_D_Function =
    PID_DIFFERENTIAL_COMPLETE
  | PID_DIFFERENTIAL_PART
  | PID_DIFFERENTIAL_PREVIOUS

datatype i_handler =
    Increment_Normal
  | Increment_Separation
  | Increment_Saturation
  | Increment_Speed
  | Increment_Trapeziod
  | Position_Normal
  | Position_Separation
  | Position_Saturation
  | Position_Speed
  | Position_Trapeziod

datatype d_handler =
    Increment_Complete
  | Increment_Part
  | Increment_Previous
  | Position_Complete
  | Position_Part
  | Position_Previous

record PID_Parameter =
  kp :: real
  ki :: real
  kd :: real
  kf :: real
  kd_u :: real
  k_pre :: real
  target_limit :: real
  bias_limit :: real
  bias_dead_zone :: real
  bias_for_integral :: real
  integral_limit :: real
  out_limit :: real
  k_par :: real
  out :: real
  target :: real
  present :: real
  predict :: real

record PID_Process =
  bias :: real
  integral_bias :: real
  differential_bias :: real
  lpf_differential_bias :: real
  feedforward :: real
  pr_predict :: real
  last_target :: real
  last_bias :: real
  lastlast_bias :: real

record apid_t =
  run_status :: run_state
  integral_way :: ALL_PID_I_Function
  differential_way :: ALL_PID_D_Function
  pid_mode :: ALL_PID_Mode
  parameter :: PID_Parameter
  process :: PID_Process
  cycle :: real
  handle_set :: bool
  i_handle :: "i_handler option"
  d_handle :: "d_handler option"
  variable_fn :: "nat option"

text \<open>The conversion of a float to an integer drops the fraction.\<close>

definition trunc :: "real \<Rightarrow> int" where
  "trunc x = (if x \<ge> 0 then \<lfloor>x\<rfloor> else \<lceil>x\<rceil>)"

definition fdiv :: "rounding \<Rightarrow> real \<Rightarrow> real \<Rightarrow> real res" where
  "fdiv fl a b = (if b = 0 then Inl DivByZero else Inr (fl (a / b)))"

definition set_integral :: "apid_t \<Rightarrow> real \<Rightarrow> apid_t" where
  "set_integral pid v = pid\<lparr>process := (process pid)\<lparr>integral_bias := v\<rparr>\<rparr>"

definition set_differential :: "apid_t \<Rightarrow> real \<Rightarrow> apid_t" where
  "set_differential pid v =
     pid\<lparr>process := (process pid)\<lparr>differential_bias := v, lpf_differential_bias := v\<rparr>\<rparr>"

subsection \<open>Running state\<close>

definition APID_Pause :: "apid_t \<Rightarrow> apid_t" where
  "APID_Pause pid = pid\<lparr>run_status := PAUSE\<rparr>"

definition APID_STOP :: "apid_t \<Rightarrow> apid_t" where
  "APID_STOP pid = pid\<lparr>run_status := STOP\<rparr>"

definition APID_Enable :: "apid_t \<Rightarrow> apid_t" where
  "APID_Enable pid =
     pid\<lparr>parameter := (parameter pid)\<lparr>target := present (parameter pid)\<rparr>, run_status := PID_ENABLE\<rparr>"

subsection \<open>Integral handlers\<close>

definition i_handle_Increment_Normal :: "rounding \<Rightarrow> apid_t \<Rightarrow> apid_t res" where
  "i_handle_Increment_Normal fl pid =
     (let p1 = set_integral pid (fl (bias (process pid) * cycle pid)) in
      Inr (set_integral p1 (fl (bias (process p1) * cycle p1))))"

definition i_handle_Increment_Separation :: "rounding \<Rightarrow> apid_t \<Rightarrow> apid_t res" where
  "i_handle_Increment_Separation fl pid =
     (if bias (process pid) > bias_for_integral (parameter pid) \<or>
         bias (process pid) < - bias_for_integral (parameter pid)
      then Inr pid
      else Inr (set_integral pid (fl (bias (process pid) * cycle pid))))"

definition i_handle_Increment_Saturation :: "rounding \<Rightarrow> apid_t \<Rightarrow> apid_t res" where
  "i_handle_Increment_Saturation fl pid =
     (let x = fl (integral_bias (process pid) * ki (parameter pid));
          l = integral_limit (parameter pid)
      in if x > l then bind_res (fdiv fl l (ki (parameter pid))) (\<lambda>v. Inr (set_integral pid v))
         else if x < - l then bind_res (fdiv fl (- l) (ki (parameter pid))) (\<lambda>v. Inr (set_integral pid v))
         else Inr (set_integral pid (fl (bias (process pid) * cycle pid))))"

definition i_handle_Increment_Speed :: "rounding \<Rightarrow> apid_t \<Rightarrow> apid_t res" where
  "i_handle_Increment_Speed fl pid =
     bind_res (fdiv fl (fl (bias (process pid) + last_bias (process pid))) (fl (2 * cycle pid))) (\<lambda>v.
     let p1 = set_integral pid v in
     Inr (set_integral p1 (fl (integral_bias (process p1) -
            fl (fl (bias (process p1) - last_bias (process p1)) * cycle p1)))))"

definition i_handle_Increment_Trapeziod :: "rounding \<Rightarrow> apid_t \<Rightarrow> apid_t res" where
  "i_handle_Increment_Trapeziod fl pid =
     bind_res (fdiv fl (fl (bias (process pid) + last_bias (process pid))) (fl (2 * cycle pid)))
       (\<lambda>v. Inr (set_integral pid v))"

definition i_handle_Position_Normal :: "rounding \<Rightarrow> apid_t \<Rightarrow> apid_t res" where
  "i_handle_Position_Normal fl pid =
     (let p1 = set_integral pid (fl (integral_bias (process pid) + fl (bias (process pid) * cycle pid))) in
      Inr (set_integral p1 (fl (integral_bias (process p1) + fl (bias (process p1) * cycle p1)))))"

definition i_handle_Position_Separation :: "rounding \<Rightarrow> apid_t \<Rightarrow> apid_t res" where
  "i_handle_Position_Separation fl pid =
     (if bias (process pid) > bias_for_integral (parameter pid) \<or>
         bias (process pid) < - bias_for_integral (parameter pid)
      then Inr pid
      else Inr (set_integral pid (fl (integral_bias (process pid) + fl (bias (process pid) * cycle pid)))))"

definition i_handle_Position_Saturation :: "rounding \<Rightarrow> apid_t \<Rightarrow> apid_t res" where
  "i_handle_Position_Saturation fl pid =
     (let x = fl (integral_bias (process pid) * ki (parameter pid));
          l = integral_limit (parameter pid)
      in if x > l then Inr (set_integral pid l)
         else if x < - l then Inr (set_integral pid (- l))
         else Inr (set_integral pid (fl (integral_bias (process pid) + fl (bias (process pid) * cycle pid)))))"

definition i_handle_Position_Speed :: "rounding \<Rightarrow> apid_t \<Rightarrow> apid_t res" where
  "i_handle_Position_Speed fl pid =
     bind_res (fdiv fl (fl (bias (process pid) + last_bias (process pid))) (fl (2 * cycle pid))) (\<lambda>v.
     let p1 = set_integral pid (fl (integral_bias (process pid) + v)) in
     Inr (set_integral p1 (fl (integral_bias (process p1) -
            fl (fl (bias (process p1) - last_bias (process p1)) * cycle p1)))))"

definition i_handle_Position_Trapeziod :: "rounding \<Rightarrow> apid_t \<Rightarrow> apid_t res" where
  "i_handle_Position_Trapeziod fl pid =
     bind_res (fdiv fl (fl (bias (process pid) + last_bias (process pid))) (fl (2 * cycle pid)))
       (\<lambda>v. Inr (set_integral pid (fl (integral_bias (process pid) + v))))"

subsection \<open>Differential handlers\<close>

definition FOLowPassFilter :: "rounding \<Rightarrow> real \<Rightarrow> real \<Rightarrow> real \<Rightarrow> real" where
  "FOLowPassFilter fl In LastOut a = fl (fl (a * In) + fl (fl (1 - a) * LastOut))"

text \<open>The second and the first difference of the error.\<close>

definition second_difference :: "rounding \<Rightarrow> apid_t \<Rightarrow> real" where
  "second_difference fl pid =
     fl (fl (bias (process pid) - fl (2 * last_bias (process pid))) + lastlast_bias (process pid))"

definition first_difference :: "rounding \<Rightarrow> apid_t \<Rightarrow> real" where
  "first_difference fl pid = fl (bias (process pid) - last_bias (process pid))"

definition target_feed :: "rounding \<Rightarrow> apid_t \<Rightarrow> real" where
  "target_feed fl pid =
     fl (kd_u (parameter pid) * fl (target (parameter pid) - last_target (process pid)))"

definition d_handle_Increment_Complete :: "rounding \<Rightarrow> apid_t \<Rightarrow> apid_t" where
  "d_handle_Increment_Complete fl pid = set_differential pid (second_difference fl pid)"

definition d_handle_Increment_Part :: "rounding \<Rightarrow> apid_t \<Rightarrow> apid_t" where
  "d_handle_Increment_Part fl pid =
     set_differential pid (FOLowPassFilter fl (second_difference fl pid)
       (lpf_differential_bias (process pid)) (kd_u (parameter pid)))"

definition d_handle_Increment_Previous :: "rounding \<Rightarrow> apid_t \<Rightarrow> apid_t" where
  "d_handle_Increment_Previous fl pid =
     set_differential pid (fl (second_difference fl pid - target_feed fl pid))"

definition d_handle_Position_Complete :: "rounding \<Rightarrow> apid_t \<Rightarrow> apid_t" where
  "d_handle_Position_Complete fl pid = set_differential pid (first_difference fl pid)"

definition d_handle_Position_Part :: "rounding \<Rightarrow> apid_t \<Rightarrow> apid_t" where
  "d_handle_Position_Part fl pid =
     set_differential pid (FOLowPassFilter fl (first_difference fl pid)
       (lpf_differential_bias (process pid)) (kd_u (parameter pid)))"

definition d_handle_Position_Previous :: "rounding \<Rightarrow> apid_t \<Rightarrow> apid_t" where
  "d_handle_Position_Previous fl pid =
     set_differential pid (fl (first_difference fl pid - target_feed fl pid))"

text \<open>Calling through the two function pointers.\<close>

definition call_i :: "rounding \<Rightarrow> apid_t \<Rightarrow> apid_t res" where
  "call_i fl pid =
     (case i_handle pid of
        None \<Rightarrow> Inl NullDeref
      | Some h \<Rightarrow> (case h of
            Increment_Normal \<Rightarrow> i_handle_Increment_Normal fl pid
          | Increment_Separation \<Rightarrow> i_handle_Increment_Separation fl pid
          | Increment_Saturation \<Rightarrow> i_handle_Increment_Saturation fl pid
          | Increment_Speed \<Rightarrow> i_handle_Increment_Speed fl pid
          | Increment_Trapeziod \<Rightarrow> i_handle_Increment_Trapeziod fl pid
          | Position_Normal \<Rightarrow> i_handle_Position_Normal fl pid
          | Position_Separation \<Rightarrow> i_handle_Position_Separation fl pid
          | Position_Saturation \<Rightarrow> i_handle_Position_Saturation fl pid
          | Position_Speed \<Rightarrow> i_handle_Position_Speed fl pid
          | Position_Trapeziod \<Rightarrow> i_handle_Position_Trapeziod fl pid))"

definition call_d :: "rounding \<Rightarrow> apid_t \<Rightarrow> apid_t res" where
  "call_d fl pid =
     (case d_handle pid of
        None \<Rightarrow> Inl NullDeref
      | Some h \<Rightarrow> Inr (case h of
            Increment_Complete \<Rightarrow> d_handle_Increment_Complete fl pid
          | Increment_Part \<Rightarrow> d_handle_Increment_Part fl pid
          | Increment_Previous \<Rightarrow> d_handle_Increment_Previous fl pid
          | Position_Complete \<Rightarrow> d_handle_Position_Complete fl pid
          | Position_Part \<Rightarrow> d_handle_Position_Part fl pid
          | Position_Previous \<Rightarrow> d_handle_Position_Previous fl pid))"

subsection \<open>One step of the controller\<close>

definition u_PID_Out :: "rounding \<Rightarrow> apid_t \<Rightarrow> apid_t res" where
  "u_PID_Out fl pid =
     (let q = parameter pid; r = process pid in
      bind_res (fdiv fl (fl (kd q * lpf_differential_bias r)) (cycle pid)) (\<lambda>d.
      let o0 = fl (fl (fl (fl (kp q * bias r) + fl (ki q * integral_bias r)) + d) + feedforward r);
          o1 = (if out_limit q \<ge> 0 then
                  (if o0 > out_limit q then out_limit q
                   else if o0 < - out_limit q then - out_limit q else o0)
                else o0)
      in Inr (pid\<lparr>parameter := q\<lparr>out := o1\<rparr>,
                  process := r\<lparr>last_target := target q, lastlast_bias := last_bias r,
                               last_bias := bias r\<rparr>\<rparr>)))"

definition u_OPERATE_STATUS :: "apid_t \<Rightarrow> apid_t" where
  "u_OPERATE_STATUS pid =
     pid\<lparr>parameter := (parameter pid)\<lparr>
           out := (if run_status pid = STOP then 0 else target (parameter pid)),
           present := 0, predict := 0\<rparr>,
         process := (process pid)\<lparr>bias := 0, differential_bias := 0, lpf_differential_bias := 0,
           feedforward := 0, integral_bias := 0, last_bias := 0, last_target := 0,
           lastlast_bias := 0\<rparr>\<rparr>"

text \<open>\<open>ABS (x)\<close> and the error that a step works with.\<close>

definition ABS :: "real \<Rightarrow> real" where
  "ABS x = (if x > 0 then x else - x)"

definition clamp_target :: "PID_Parameter \<Rightarrow> real" where
  "clamp_target q =
     (if target q > target_limit q then target_limit q
      else if target q < - target_limit q then - target_limit q else target q)"

definition temp_bias :: "PID_Parameter \<Rightarrow> real \<Rightarrow> real" where
  "temp_bias q b =
     (let b1 = (if bias_dead_zone q > 0 then
                  (if b < bias_dead_zone q \<and> b > - bias_dead_zone q then 0 else b) else b)
      in if bias_limit q > 0 then
           (let b2 = (if b1 > bias_limit q then bias_limit q else b1)
            in if b2 < - bias_limit q then - bias_limit q else b2)
         else b1)"

definition PID_Hander :: "rounding \<Rightarrow> apid_t \<Rightarrow> real \<Rightarrow> apid_t res" where
  "PID_Hander fl pid0 c =
     (let pid = pid0\<lparr>cycle := c\<rparr> in
      if run_status pid \<noteq> PID_ENABLE then Inr (u_OPERATE_STATUS pid)
      else
        let q = (parameter pid)\<lparr>target := clamp_target (parameter pid)\<rparr>;
            ff = fl (kf q * target q);
            pr = fl (fl (k_pre q * predict q) * ABS (predict q));
            b = temp_bias q (fl (fl (target q - present q) - pr));
            pid1 = pid\<lparr>parameter := q,
                       process := (process pid)\<lparr>feedforward := ff, pr_predict := pr, bias := b\<rparr>\<rparr>
        in bind_res (call_i fl pid1) (\<lambda>pid2.
           bind_res (call_d fl pid2) (\<lambda>pid3. u_PID_Out fl pid3)))"

definition APID_Hander :: "rounding \<Rightarrow> apid_t \<Rightarrow> real \<Rightarrow> apid_t res" where
  "APID_Hander fl pid c = (if handle_set pid then PID_Hander fl pid c else Inl NullDeref)"

subsection \<open>Configuration\<close>

definition APID_Reset :: "apid_t \<Rightarrow> apid_t" where
  "APID_Reset pid =
     pid\<lparr>run_status := PID_ENABLE,
         parameter := (parameter pid)\<lparr>target := 0, present := 0, predict := 0, kp := 0, ki := 0,
           kd := 0, kf := 0, kd_u := 0, k_pre := 0, target_limit := TARGET_MAX, bias_limit := - 1,
           bias_dead_zone := - 1, bias_for_integral := - 1, integral_limit := - 1,
           out_limit := OUT_MAX, out := 0\<rparr>,
         process := (process pid)\<lparr>bias := 0, differential_bias := 0, lpf_differential_bias := 0,
           feedforward := 0, integral_bias := 0, last_bias := 0, lastlast_bias := 0,
           last_target := 0\<rparr>\<rparr>"

definition APID_Init :: "apid_t \<Rightarrow> ALL_PID_Mode \<Rightarrow> real \<Rightarrow> real \<Rightarrow> real \<Rightarrow> apid_t" where
  "APID_Init pid0 mode p i d =
     (let pid = (APID_Reset pid0)\<lparr>pid_mode := mode, handle_set := True\<rparr>;
          pid1 = (if mode = PID_INCREMENT
                  then pid\<lparr>i_handle := Some Increment_Normal, d_handle := Some Increment_Complete\<rparr>
                  else pid\<lparr>i_handle := Some Position_Normal, d_handle := Some Position_Complete\<rparr>)
      in pid1\<lparr>parameter := (parameter pid1)\<lparr>kp := p, ki := i, kd := d\<rparr>\<rparr>)"

text \<open>
  \<open>APID_SET_I_Function\<close>: the variable argument is a number for the separation and the
  saturation and a function pointer for the variable speed.
\<close>

definition APID_SET_I_Function ::
    "apid_t \<Rightarrow> ALL_PID_I_Function \<Rightarrow> real \<Rightarrow> nat option \<Rightarrow> apid_t" where
  "APID_SET_I_Function pid0 imode value fn =
     (let pid = pid0\<lparr>integral_way := imode\<rparr> in
      case imode of
        PID_INTEGRAL_NORMAL \<Rightarrow>
          pid\<lparr>i_handle := Some (if pid_mode pid = PID_INCREMENT then Increment_Normal else Position_Normal)\<rparr>
      | PID_INTEGRAL_SEPARATION \<Rightarrow>
          pid\<lparr>i_handle := Some (if pid_mode pid = PID_INCREMENT then Increment_Separation
                                else Position_Separation),
              parameter := (parameter pid)\<lparr>bias_for_integral := value\<rparr>\<rparr>
      | PID_INTEGRAL_SATURATION \<Rightarrow>
          pid\<lparr>i_handle := Some (if pid_mode pid = PID_INCREMENT then Increment_Saturation
                                else Position_Saturation),
              parameter := (parameter pid)\<lparr>integral_limit := value\<rparr>\<rparr>
      | PID_INTEGRAL_SPEED \<Rightarrow>
          pid\<lparr>i_handle := Some (if pid_mode pid = PID_INCREMENT then Increment_Speed else Position_Speed),
              variable_fn := fn\<rparr>
      | PID_INTEGRAL_TRAPEZIOD \<Rightarrow>
          pid\<lparr>i_handle := Some (if pid_mode pid = PID_INCREMENT then Increment_Trapeziod
                                else Position_Trapeziod)\<rparr>)"

text \<open>
  \<open>APID_SET_D_Function\<close> reads its argument from a list it never started: \<open>garbage\<close> is what
  \<open>va_arg\<close> delivers then, whatever the caller passed.
\<close>

definition APID_SET_D_Function ::
    "real \<Rightarrow> apid_t \<Rightarrow> ALL_PID_D_Function \<Rightarrow> real \<Rightarrow> apid_t" where
  "APID_SET_D_Function garbage pid0 dmode value =
     (let pid = pid0\<lparr>differential_way := dmode\<rparr> in
      case dmode of
        PID_DIFFERENTIAL_COMPLETE \<Rightarrow>
          pid\<lparr>d_handle := Some (if pid_mode pid = PID_INCREMENT then Increment_Complete
                                else Position_Complete)\<rparr>
      | PID_DIFFERENTIAL_PART \<Rightarrow>
          pid\<lparr>d_handle := Some (if pid_mode pid = PID_INCREMENT then Increment_Part else Position_Part),
              parameter := (parameter pid)\<lparr>kd_u := garbage\<rparr>\<rparr>
      | PID_DIFFERENTIAL_PREVIOUS \<Rightarrow>
          pid\<lparr>d_handle := Some (if pid_mode pid = PID_INCREMENT then Increment_Previous
                                else Position_Previous),
              parameter := (parameter pid)\<lparr>kd_u := garbage\<rparr>\<rparr>)"

definition APID_Set_Integral_Limit :: "apid_t \<Rightarrow> real \<Rightarrow> apid_t" where
  "APID_Set_Integral_Limit pid value =
     (if integral_way pid \<noteq> PID_INTEGRAL_SATURATION
      then APID_SET_I_Function pid PID_INTEGRAL_SATURATION value None
      else pid\<lparr>parameter := (parameter pid)\<lparr>integral_limit := value\<rparr>\<rparr>)"

definition APID_Set_Target_Limit :: "apid_t \<Rightarrow> real \<Rightarrow> apid_t" where
  "APID_Set_Target_Limit pid v = pid\<lparr>parameter := (parameter pid)\<lparr>target_limit := v\<rparr>\<rparr>"

definition APID_Set_Bias_Limit :: "apid_t \<Rightarrow> real \<Rightarrow> apid_t" where
  "APID_Set_Bias_Limit pid v = pid\<lparr>parameter := (parameter pid)\<lparr>bias_limit := v\<rparr>\<rparr>"

definition APID_Set_Bias_Dead_Zone :: "apid_t \<Rightarrow> real \<Rightarrow> apid_t" where
  "APID_Set_Bias_Dead_Zone pid v = pid\<lparr>parameter := (parameter pid)\<lparr>bias_dead_zone := v\<rparr>\<rparr>"

definition APID_Set_Out_Limit :: "apid_t \<Rightarrow> real \<Rightarrow> apid_t" where
  "APID_Set_Out_Limit pid v = pid\<lparr>parameter := (parameter pid)\<lparr>out_limit := v\<rparr>\<rparr>"

definition APID_Set_Feedforward :: "apid_t \<Rightarrow> real \<Rightarrow> apid_t" where
  "APID_Set_Feedforward pid v = pid\<lparr>parameter := (parameter pid)\<lparr>kf := v\<rparr>\<rparr>"

definition APID_Set_KPre :: "apid_t \<Rightarrow> real \<Rightarrow> apid_t" where
  "APID_Set_KPre pid v = pid\<lparr>parameter := (parameter pid)\<lparr>k_pre := v\<rparr>\<rparr>"

definition APID_Set_Target :: "apid_t \<Rightarrow> real \<Rightarrow> apid_t" where
  "APID_Set_Target pid v = pid\<lparr>parameter := (parameter pid)\<lparr>target := v\<rparr>\<rparr>"

definition APID_Set_Present :: "apid_t \<Rightarrow> real \<Rightarrow> apid_t" where
  "APID_Set_Present pid v = pid\<lparr>parameter := (parameter pid)\<lparr>present := v\<rparr>\<rparr>"

definition APID_Set_Predict :: "apid_t \<Rightarrow> real \<Rightarrow> apid_t" where
  "APID_Set_Predict pid v = pid\<lparr>parameter := (parameter pid)\<lparr>predict := v\<rparr>\<rparr>"

definition APID_Get_Out :: "apid_t \<Rightarrow> real" where
  "APID_Get_Out pid = out (parameter pid)"

definition APID_Get_Target_Limit :: "apid_t \<Rightarrow> real" where
  "APID_Get_Target_Limit pid = target_limit (parameter pid)"

definition APID_Get_Bias_Limit :: "apid_t \<Rightarrow> real" where
  "APID_Get_Bias_Limit pid = bias_limit (parameter pid)"

definition APID_Get_Bias_Dead_Zone :: "apid_t \<Rightarrow> real" where
  "APID_Get_Bias_Dead_Zone pid = bias_dead_zone (parameter pid)"

definition APID_Get_Integral_Limit :: "apid_t \<Rightarrow> real" where
  "APID_Get_Integral_Limit pid = integral_limit (parameter pid)"

definition APID_Get_Out_Limit :: "apid_t \<Rightarrow> real" where
  "APID_Get_Out_Limit pid = out_limit (parameter pid)"

definition APID_Get_Feedforward :: "apid_t \<Rightarrow> real" where
  "APID_Get_Feedforward pid = kf (parameter pid)"

definition APID_Get_KPre :: "apid_t \<Rightarrow> real" where
  "APID_Get_KPre pid = k_pre (parameter pid)"

definition APID_Get_Target :: "apid_t \<Rightarrow> real" where
  "APID_Get_Target pid = target (parameter pid)"

definition APID_Get_Present :: "apid_t \<Rightarrow> real" where
  "APID_Get_Present pid = present (parameter pid)"

definition APID_Get_Predict :: "apid_t \<Rightarrow> real" where
  "APID_Get_Predict pid = predict (parameter pid)"

lemmas i_handlers = i_handle_Increment_Normal_def i_handle_Increment_Separation_def
  i_handle_Increment_Saturation_def i_handle_Increment_Speed_def i_handle_Increment_Trapeziod_def
  i_handle_Position_Normal_def i_handle_Position_Separation_def i_handle_Position_Saturation_def
  i_handle_Position_Speed_def i_handle_Position_Trapeziod_def

lemmas d_handlers = d_handle_Increment_Complete_def d_handle_Increment_Part_def
  d_handle_Increment_Previous_def d_handle_Position_Complete_def d_handle_Position_Part_def
  d_handle_Position_Previous_def

subsection \<open>Interface: the two handlers\<close>

text \<open>
  What a step relies on of the functions it calls through its pointers: the first only
  changes the integral, the second only the two differential cells.
\<close>

locale pid_handlers =
  fixes ih dh :: "apid_t \<Rightarrow> apid_t res"
  assumes ih_frame: "ih p = Inr p' \<Longrightarrow> \<exists>v. p' = set_integral p v"
    and dh_frame: "dh p = Inr p' \<Longrightarrow> \<exists>v. p' = set_differential p v"
begin

lemma handlers_keep:
  assumes "bind_res (ih p) dh = Inr p'"
  shows "parameter p' = parameter p" "cycle p' = cycle p" "bias (process p') = bias (process p)"
    "last_bias (process p') = last_bias (process p)" "feedforward (process p') = feedforward (process p)"
    "run_status p' = run_status p" "i_handle p' = i_handle p" "d_handle p' = d_handle p"
proof -
  from assms obtain p1 where "ih p = Inr p1" "dh p1 = Inr p'" by auto
  then obtain v w where "p1 = set_integral p v" "p' = set_differential p1 w"
    using ih_frame dh_frame by blast
  then show "parameter p' = parameter p" "cycle p' = cycle p" "bias (process p') = bias (process p)"
    "last_bias (process p') = last_bias (process p)" "feedforward (process p') = feedforward (process p)"
    "run_status p' = run_status p" "i_handle p' = i_handle p" "d_handle p' = d_handle p"
    by (simp_all add: set_integral_def set_differential_def)
qed

end

lemma set_integral_id: "set_integral pid (integral_bias (process pid)) = pid"
  by (simp add: set_integral_def)

lemma set_integral_twice [simp]: "set_integral (set_integral pid v) w = set_integral pid w"
  by (simp add: set_integral_def)

interpretation pid: pid_handlers "call_i fl" "call_d fl" for fl
proof (unfold_locales, goal_cases)
  case (1 p p')
  then show ?case
    unfolding call_i_def
    by (auto simp: i_handlers Let_def split: option.splits i_handler.splits if_splits
        intro: exI [of _ "integral_bias (process p)"] simp: set_integral_id)
next
  case (2 p p')
  then show ?case
    by (auto simp: call_d_def d_handlers split: option.splits d_handler.splits)
qed

text \<open>When the handlers and the output stage return.\<close>

lemma call_i_returns:
  assumes "i_handle p = Some h" and "fl (2 * cycle p) \<noteq> 0" and "ki (parameter p) \<noteq> 0"
  shows "\<exists>p'. call_i fl p = Inr p'"
  using assms by (cases h) (auto simp: call_i_def i_handlers fdiv_def Let_def)

lemma call_d_returns: "d_handle p = Some h \<Longrightarrow> \<exists>p'. call_d fl p = Inr p'"
  by (simp add: call_d_def)

lemma u_PID_Out_cases:
  assumes "cycle p \<noteq> 0"
  obtains p' where "u_PID_Out fl p = Inr p'"
    "out_limit (parameter p) \<ge> 0 \<longrightarrow> \<bar>out (parameter p')\<bar> \<le> out_limit (parameter p)"
    "target (parameter p') = target (parameter p)" "bias (process p') = bias (process p)" "last_bias (process p') = bias (process p)"
    "lastlast_bias (process p') = last_bias (process p)"
    "last_target (process p') = target (parameter p)"
  using assms by (force simp: u_PID_Out_def fdiv_def Let_def)

lemma clamp_target_bound: "0 \<le> target_limit q \<Longrightarrow> \<bar>clamp_target q\<bar> \<le> target_limit q"
  by (auto simp: clamp_target_def abs_le_iff)

lemma temp_bias_bound: "0 < bias_limit q \<Longrightarrow> \<bar>temp_bias q b\<bar> \<le> bias_limit q"
  by (auto simp: temp_bias_def Let_def abs_le_iff)

lemma temp_bias_dead: "\<bar>b\<bar> < bias_dead_zone q \<Longrightarrow> temp_bias q b = 0"
  by (auto simp: temp_bias_def Let_def)

subsection \<open>Properties\<close>


definition demo_pid :: apid_t where
  "demo_pid = APID_Init
     \<lparr>run_status = STOP, integral_way = PID_INTEGRAL_NORMAL,
      differential_way = PID_DIFFERENTIAL_COMPLETE, pid_mode = PID_POSITION,
      parameter = \<lparr>kp = 0, ki = 0, kd = 0, kf = 0, kd_u = 0, k_pre = 0, target_limit = 0,
        bias_limit = 0, bias_dead_zone = 0, bias_for_integral = 0, integral_limit = 0,
        out_limit = 0, k_par = 0, out = 0, target = 0, present = 0, predict = 0\<rparr>,
      process = \<lparr>bias = 0, integral_bias = 0, differential_bias = 0, lpf_differential_bias = 0,
        feedforward = 0, pr_predict = 0, last_target = 0, last_bias = 0, lastlast_bias = 0\<rparr>,
      cycle = 0, handle_set = False, i_handle = None, d_handle = None, variable_fn = None\<rparr>
     PID_POSITION 2 1 0"

lemmas demo_pid_simps = demo_pid_def APID_Init_def APID_Reset_def


text \<open>A controller fed with a sequence of targets and measured values.\<close>

fun pid_run :: "rounding \<Rightarrow> real \<Rightarrow> apid_t \<Rightarrow> (real \<times> real) list \<Rightarrow> real list res" where
  "pid_run fl c pid [] = Inr []"
| "pid_run fl c pid ((t, p) # xs) =
     bind_res (APID_Hander fl (APID_Set_Present (APID_Set_Target pid t) p) c) (\<lambda>pid'.
     bind_res (pid_run fl c pid' xs) (\<lambda>os. Inr (APID_Get_Out pid' # os)))"

definition limit_out :: "real \<Rightarrow> real \<Rightarrow> real" where
  "limit_out l x = (if l \<ge> 0 then (if x > l then l else if x < - l then - l else x) else x)"

text \<open>A controller without feed-forward, prediction, dead zone and error limit, as \<open>APID_Init\<close> leaves it.\<close>

definition plain :: "i_handler \<Rightarrow> d_handler \<Rightarrow> apid_t \<Rightarrow> bool" where
  "plain ih dh pid \<longleftrightarrow> run_status pid = PID_ENABLE \<and> handle_set pid \<and>
     i_handle pid = Some ih \<and> d_handle pid = Some dh \<and>
     kf (parameter pid) = 0 \<and> k_pre (parameter pid) = 0 \<and>
     bias_limit (parameter pid) \<le> 0 \<and> bias_dead_zone (parameter pid) \<le> 0"

lemma plain_bias:
  assumes "plain ih dh pid" and "\<bar>target (parameter pid)\<bar> \<le> target_limit (parameter pid)"
  shows "clamp_target (parameter pid) = target (parameter pid)"
    "temp_bias (parameter pid) b = b"
  using assms by (auto simp: plain_def clamp_target_def temp_bias_def abs_le_iff)

lemma position_step:
  assumes "plain Position_Normal Position_Complete pid" and "c \<noteq> 0"
    and "\<bar>target (parameter pid)\<bar> \<le> target_limit (parameter pid)"
    and "e = target (parameter pid) - present (parameter pid)"
  obtains pid' where "APID_Hander (\<lambda>x. x) pid c = Inr pid'"
    "plain Position_Normal Position_Complete pid'"
    "integral_bias (process pid') = integral_bias (process pid) + 2 * c * e"
    "last_bias (process pid') = e"
    "parameter pid' = (parameter pid)\<lparr>out := limit_out (out_limit (parameter pid))
       (kp (parameter pid) * e + ki (parameter pid) * (integral_bias (process pid) + 2 * c * e) +
        kd (parameter pid) * (e - last_bias (process pid)) / c)\<rparr>"
proof -
  define I where "I = integral_bias (process pid) + 2 * c * e"
  define v where "v = limit_out (out_limit (parameter pid))
       (kp (parameter pid) * e + ki (parameter pid) * I + kd (parameter pid) * (e - last_bias (process pid)) / c)"
  have I: "integral_bias (process pid) + e * c + e * c = I" by (simp add: I_def algebra_simps)
  note b = plain_bias [OF assms(1,3)]
  define p1 where "p1 = (pid\<lparr>cycle := c\<rparr>)\<lparr>process := (process pid)\<lparr>
      feedforward := 0, pr_predict := 0, bias := e\<rparr>\<rparr>"
  define p2 where "p2 = set_differential (set_integral p1 I) (e - last_bias (process pid))"
  have "call_i (\<lambda>x. x) p1 = Inr (set_integral p1 I)"
    using assms(1) I by (simp add: call_i_def plain_def p1_def i_handle_Position_Normal_def set_integral_def)
  moreover have "call_d (\<lambda>x. x) (set_integral p1 I) = Inr p2"
    using assms(1)
    by (simp add: call_d_def plain_def p2_def p1_def d_handle_Position_Complete_def set_integral_def
        first_difference_def)
  moreover have "APID_Hander (\<lambda>x. x) pid c =
      bind_res (call_i (\<lambda>x. x) p1) (\<lambda>p2. bind_res (call_d (\<lambda>x. x) p2) (u_PID_Out (\<lambda>x. x)))"
    using assms(1) b assms(4)
    by (simp add: APID_Hander_def PID_Hander_def plain_def Let_def p1_def del: bind_res_eq_Inr)
  ultimately have "APID_Hander (\<lambda>x. x) pid c = u_PID_Out (\<lambda>x. x) p2" by simp
  also have "\<dots> = Inr (p2\<lparr>parameter := (parameter pid)\<lparr>out := v\<rparr>,
      process := (process p2)\<lparr>last_target := target (parameter pid),
        lastlast_bias := last_bias (process p2), last_bias := e\<rparr>\<rparr>)"
    using assms(2) by (simp add: u_PID_Out_def fdiv_def Let_def v_def limit_out_def p2_def p1_def
        set_differential_def set_integral_def)
  finally show thesis
    by (rule that) (use assms(1) in
      \<open>auto simp: plain_def p2_def p1_def set_differential_def set_integral_def I_def v_def\<close>)
qed

lemma position_run:
  assumes "plain Position_Normal Position_Complete pid" and "c \<noteq> 0"
    and "\<forall>(t, p) \<in> set xs. \<bar>t\<bar> \<le> target_limit (parameter pid)"
  shows "\<exists>os. pid_run (\<lambda>x. x) c pid xs = Inr os \<and> length os = length xs \<and>
    (\<forall>n < length xs. os ! n = limit_out (out_limit (parameter pid))
       (let e = (\<lambda>i. fst (xs ! i) - snd (xs ! i)) in
        kp (parameter pid) * e n +
        ki (parameter pid) * (integral_bias (process pid) + 2 * c * (\<Sum>i\<le>n. e i)) +
        kd (parameter pid) * (e n - (if n = 0 then last_bias (process pid) else e (n - 1))) / c))"
  using assms
proof (induction xs arbitrary: pid)
  case Nil
  then show ?case by simp
next
  case (Cons x xs)
  obtain t p where x: "x = (t, p)" by (cases x)
  define p0 where "p0 = APID_Set_Present (APID_Set_Target pid t) p"
  have q0: "parameter p0 = (parameter pid)\<lparr>target := t, present := p\<rparr>" "process p0 = process pid"
    "plain Position_Normal Position_Complete p0"
    using Cons.prems(1) by (simp_all add: p0_def APID_Set_Present_def APID_Set_Target_def plain_def)
  obtain p1 where p1: "APID_Hander (\<lambda>x. x) p0 c = Inr p1" "plain Position_Normal Position_Complete p1"
    "integral_bias (process p1) = integral_bias (process pid) + 2 * c * (t - p)"
    "last_bias (process p1) = t - p"
    "parameter p1 = (parameter p0)\<lparr>out := limit_out (out_limit (parameter pid))
       (kp (parameter pid) * (t - p) + ki (parameter pid) * (integral_bias (process pid) + 2 * c * (t - p)) +
        kd (parameter pid) * (t - p - last_bias (process pid)) / c)\<rparr>"
    by (rule position_step [OF q0(3) Cons.prems(2), of "t - p"])
      (use q0 Cons.prems(3) x in simp_all)
  have lim: "\<forall>(t, p) \<in> set xs. \<bar>t\<bar> \<le> target_limit (parameter p1)"
    using Cons.prems(3) p1(5) q0(1) by simp
  from Cons.IH [OF p1(2) Cons.prems(2) lim] obtain os where
    os: "pid_run (\<lambda>x. x) c p1 xs = Inr os" "length os = length xs"
    "\<forall>n < length xs. os ! n = limit_out (out_limit (parameter p1))
       (let e = (\<lambda>i. fst (xs ! i) - snd (xs ! i)) in
        kp (parameter p1) * e n + ki (parameter p1) * (integral_bias (process p1) + 2 * c * (\<Sum>i\<le>n. e i)) +
        kd (parameter p1) * (e n - (if n = 0 then last_bias (process p1) else e (n - 1))) / c)" by blast
  have "(APID_Get_Out p1 # os) ! n = limit_out (out_limit (parameter pid))
       (let e = (\<lambda>i. fst ((x # xs) ! i) - snd ((x # xs) ! i)) in
        kp (parameter pid) * e n +
        ki (parameter pid) * (integral_bias (process pid) + 2 * c * (\<Sum>i\<le>n. e i)) +
        kd (parameter pid) * (e n - (if n = 0 then last_bias (process pid) else e (n - 1))) / c)"
    if "n < length (x # xs)" for n
  proof (cases n)
    case 0
    then show ?thesis using p1(5) x by (simp add: APID_Get_Out_def)
  next
    case (Suc m)
    have s: "(\<Sum>k\<le>Suc m. fst ((x # xs) ! k) - snd ((x # xs) ! k)) =
        (t - p) + (\<Sum>k\<le>m. fst (xs ! k) - snd (xs ! k))"
      by (simp add: sum.atMost_Suc_shift x del: sum.atMost_Suc)
    have pv: "fst ((x # xs) ! m) - snd ((x # xs) ! m) =
        (if m = 0 then t - p else fst (xs ! (m - 1)) - snd (xs ! (m - 1)))"
      by (cases m) (simp_all add: x)
    have "os ! m = limit_out (out_limit (parameter pid))
       (kp (parameter pid) * (fst (xs ! m) - snd (xs ! m)) +
        ki (parameter pid) * (integral_bias (process pid) + 2 * c * (t - p) +
          2 * c * (\<Sum>k\<le>m. fst (xs ! k) - snd (xs ! k))) +
        kd (parameter pid) * (fst (xs ! m) - snd (xs ! m) -
          (if m = 0 then t - p else fst (xs ! (m - 1)) - snd (xs ! (m - 1)))) / c)"
      using os(3) that Suc p1(3,4,5) q0(1) by simp
    with Suc s pv show ?thesis
      by (simp add: distrib_left add.assoc del: sum.atMost_Suc)
  qed
  then show ?case
    using p1(1) os(1,2) x by (auto simp: p0_def)
qed

text \<open>
  C39: In exact arithmetic a position controller from \<open>APID_Init\<close> computes, for every sequence
  of targets and measurements, at step \<open>n\<close>
  \<open>kp * e n + ki * (2 * c * (e 0 + ... + e n)) + kd * (e n - e (n-1)) / c\<close>, limited to the
  output limit: a PID law, but with every error counted twice in the integral, because
  \<open>i_handle_Position_Normal\<close> adds it in two equal statements.
\<close>

theorem position_pid_law:
  assumes "pid = APID_Init pid0 PID_POSITION p i d" and "c \<noteq> 0"
    and "\<forall>(t, m) \<in> set xs. \<bar>t\<bar> \<le> TARGET_MAX"
  shows "\<exists>os. pid_run (\<lambda>x. x) c pid xs = Inr os \<and> length os = length xs \<and>
    (\<forall>n < length xs. os ! n = limit_out OUT_MAX
       (let e = (\<lambda>k. fst (xs ! k) - snd (xs ! k)) in
        p * e n + i * (2 * c * (\<Sum>k\<le>n. e k)) + d * (e n - (if n = 0 then 0 else e (n - 1))) / c))"
proof -
  have "plain Position_Normal Position_Complete pid"
    by (simp add: assms(1) plain_def APID_Init_def APID_Reset_def)
  moreover have "kp (parameter pid) = p" "ki (parameter pid) = i" "kd (parameter pid) = d"
    "out_limit (parameter pid) = OUT_MAX" "target_limit (parameter pid) = TARGET_MAX"
    "integral_bias (process pid) = 0" "last_bias (process pid) = 0"
    by (simp_all add: assms(1) APID_Init_def APID_Reset_def)
  ultimately show ?thesis
    using position_run [of pid c xs] assms(2,3) by (simp only:) simp
qed

theorem position_pid_law_witness:
  "\<exists>os. pid_run (\<lambda>x. x) 1 (APID_Init demo_pid PID_POSITION 2 1 0) [(3, 1), (3, 2)] = Inr os \<and>
     os ! 1 = limit_out OUT_MAX (2 * 1 + 1 * (2 * 1 * (2 + 1)) + 0)"
proof -
  have "\<forall>(t, m) \<in> set [(3, 1), (3, 2)]. \<bar>t :: real\<bar> \<le> TARGET_MAX"
    by (simp add: TARGET_MAX_def FLT_MAX_def)
  from position_pid_law [OF refl _ this, of 1 demo_pid 2 1 0] show ?thesis
    by (auto simp: Let_def dest: spec [of _ 1])
qed

text \<open>
  A step of a controller that is not enabled ignores measurement, handlers, period and
  rounding: the output is 0 when it is stopped and the target itself when it is paused, the
  integral and all remembered errors are cleared, and so are the measured and the predicted
  value.
\<close>

theorem PID_not_enabled:
  assumes "run_status pid \<noteq> PID_ENABLE"
  shows "\<exists>pid'. PID_Hander fl pid c = Inr pid' \<and>
    APID_Get_Out pid' = (if run_status pid = STOP then 0 else APID_Get_Target pid) \<and>
    APID_Get_Target pid' = APID_Get_Target pid \<and>
    APID_Get_Present pid' = 0 \<and> APID_Get_Predict pid' = 0 \<and>
    integral_bias (process pid') = 0 \<and> bias (process pid') = 0 \<and>
    last_bias (process pid') = 0 \<and> lastlast_bias (process pid') = 0 \<and>
    APID_Get_Target (APID_Enable pid') = 0"
  using assms
  by (simp add: PID_Hander_def u_OPERATE_STATUS_def APID_Get_Out_def APID_Get_Target_def
      APID_Get_Present_def APID_Get_Predict_def APID_Enable_def)

theorem PID_not_enabled_witness:
  "\<exists>pid'. PID_Hander (\<lambda>x. x) (APID_Pause (APID_Set_Target demo_pid 7)) 0 = Inr pid' \<and>
     APID_Get_Out pid' = 7"
  using PID_not_enabled [of "APID_Pause (APID_Set_Target demo_pid 7)" "\<lambda>x. x" 0]
  by (auto simp: APID_Pause_def APID_Set_Target_def APID_Get_Target_def)

text \<open>
  The integral limit and initialisation. On a controller that does not use the
  saturating integral, \<open>APID_Set_Integral_Limit\<close> installs the saturating handler of its mode.
  \<open>APID_Init\<close> installs the normal handlers but leaves the recorded integral way, so on a
  controller that used the saturating integral before, setting the limit after \<open>APID_Init\<close>
  stores a limit that no handler reads.
\<close>

theorem integral_limit_after_init:
  "i_handle (APID_Set_Integral_Limit (APID_Init pid mode p i d) v) =
     Some (if integral_way pid = PID_INTEGRAL_SATURATION
           then (if mode = PID_INCREMENT then Increment_Normal else Position_Normal)
           else (if mode = PID_INCREMENT then Increment_Saturation else Position_Saturation)) \<and>
   integral_limit (parameter (APID_Set_Integral_Limit (APID_Init pid mode p i d) v)) = v"
  by (simp add: APID_Set_Integral_Limit_def APID_SET_I_Function_def APID_Init_def APID_Reset_def)

text \<open>
  The saturating integrals in exact arithmetic, for a positive \<open>ki\<close>: when the integral
  term \<open>ki * integral\<close> exceeds the limit, the increment handler cuts the integral so that the
  term equals the limit, while the position handler stores the limit itself, so that the term
  becomes \<open>ki\<close> times the limit, which still exceeds the limit when \<open>ki\<close> is above 1.
\<close>

theorem integral_saturation_values:
  assumes "ki (parameter pid) > 0"
    and "integral_bias (process pid) * ki (parameter pid) > integral_limit (parameter pid)"
  shows "(\<exists>p'. i_handle_Increment_Saturation (\<lambda>x. x) pid = Inr p' \<and>
            ki (parameter p') * integral_bias (process p') = integral_limit (parameter pid)) \<and>
         (\<exists>p'. i_handle_Position_Saturation (\<lambda>x. x) pid = Inr p' \<and>
            ki (parameter p') * integral_bias (process p') =
              ki (parameter pid) * integral_limit (parameter pid))"
  using assms
  by (simp add: i_handle_Increment_Saturation_def i_handle_Position_Saturation_def fdiv_def
      set_integral_def Let_def)

theorem integral_saturation_values_witness:
  "\<exists>p'. i_handle_Position_Saturation (\<lambda>x. x)
     (set_integral (APID_Set_Integral_Limit (APID_Init demo_pid PID_POSITION 1 3 0) 10) 4) = Inr p' \<and>
     ki (parameter p') * integral_bias (process p') = 30"
proof -
  let ?p = "set_integral (APID_Set_Integral_Limit (APID_Init demo_pid PID_POSITION 1 3 0) 10) 4"
  have "ki (parameter ?p) = 3" "integral_limit (parameter ?p) = 10" "integral_bias (process ?p) = 4"
    by (simp_all add: set_integral_def APID_Set_Integral_Limit_def APID_SET_I_Function_def
        APID_Init_def APID_Reset_def demo_pid_def)
  then show ?thesis using integral_saturation_values [of ?p] by auto
qed

end
