(* ===== verification/Motor.thy ===== *)
theory Motor
  imports Apid
begin

section \<open>The motor abstraction layer (motor.c, motor.h)\<close>

text \<open>
  \<open>motor_list\<close> is a list of records; a motor's controllers are pointers into a heap of
  \<open>apid_t\<close> objects, so that sharing a controller is possible. Bit fields keep their width.
  A motor's \<open>ops\<close> is a pointer to a pair of functions; what such a function does is the
  parameter of the operations that call it (\<open>ctl\<close> for \<open>control\<close>, \<open>drv\<close> for \<open>driver\<close>): it gets
  the object, the id, the mode and the value behind the pointer it is passed, and returns
  the value it leaves there and the state. \<open>'w\<close> is whatever else these functions work on.
  Floats are reals with the rounding \<open>fl\<close> of theory Apid.
\<close>

subsection \<open>Data\<close>

definition MOTOR_MODE_IDEL :: u16 where "MOTOR_MODE_IDEL = 0"
definition MOTOR_MODE_TORQUE :: u16 where "MOTOR_MODE_TORQUE = 1"
definition MOTOR_MODE_SPEED :: u16 where "MOTOR_MODE_SPEED = 2"
definition MOTOR_MODE_POS :: u16 where "MOTOR_MODE_POS = 3"
definition MOTOR_MODE_TEMP :: u16 where "MOTOR_MODE_TEMP = 5"
definition MOTOR_MODE_SAFETY_STOP :: u16 where "MOTOR_MODE_SAFETY_STOP = 6"
definition MOTOR_MODE_SAFETY_START :: u16 where "MOTOR_MODE_SAFETY_START = 7"

definition MOTOR_CONTROL_SUPPORT_NONE :: "2 word" where "MOTOR_CONTROL_SUPPORT_NONE = 0"
definition MOTOR_CONTROL_SUPPORT_TORQUE :: "2 word" where "MOTOR_CONTROL_SUPPORT_TORQUE = 1"
definition MOTOR_CONTROL_SUPPORT_SPEED :: "2 word" where "MOTOR_CONTROL_SUPPORT_SPEED = 2"
definition MOTOR_CONTROL_SUPPORT_POS :: "2 word" where "MOTOR_CONTROL_SUPPORT_POS = 3"

lemmas motor_modes = MOTOR_MODE_IDEL_def MOTOR_MODE_TORQUE_def MOTOR_MODE_SPEED_def
  MOTOR_MODE_POS_def MOTOR_MODE_TEMP_def MOTOR_MODE_SAFETY_STOP_def MOTOR_MODE_SAFETY_START_def
  MOTOR_CONTROL_SUPPORT_NONE_def MOTOR_CONTROL_SUPPORT_TORQUE_def MOTOR_CONTROL_SUPPORT_SPEED_def
  MOTOR_CONTROL_SUPPORT_POS_def

text \<open>The four motors that \<open>motor_cfg.h\<close> enables.\<close>

definition M2006_1_CAN1 :: int where "M2006_1_CAN1 = 0"
definition M2006_2_CAN1 :: int where "M2006_2_CAN1 = 1"
definition M2006_3_CAN1 :: int where "M2006_3_CAN1 = 2"
definition M2006_4_CAN1 :: int where "M2006_4_CAN1 = 3"
definition MOTOR_NUM :: int where "MOTOR_NUM = 4"

datatype behiver = Behiver_1 | Behiver_2 | Behiver_3 | Behiver_4

record motor_t =
  ops :: "nat option"
  mid :: int
  mtime :: int
  pos_tick :: u8
  speed_tick :: u8
  torque_tick :: u8
  pid_speed :: "nat option"
  pid_pos :: "nat option"
  pid_torque :: "nat option"
  tar_speed :: real
  tar_pos :: real
  tar_torque :: real
  cur_speed :: real
  cur_pos :: real
  cur_torque :: real
  flag_run_mode :: "2 word"
  flag_out_mode :: "2 word"
  flag_accept_level :: "2 word"
  flag_passive_feedback :: bool
  flag_passive_handle :: bool
  flag_is_stop :: bool
  behaver :: "behiver option"
  acc_out :: real

record 'w motors =
  motor_list :: "motor_t list"
  apids :: "nat \<Rightarrow> apid_t option"
  mworld :: 'w

type_synonym 'w motor_call = "nat \<Rightarrow> int \<Rightarrow> u16 \<Rightarrow> real \<Rightarrow> 'w motors \<Rightarrow> (real \<times> 'w motors) res"

text \<open>
  \<open>motor_get\<close> answers the null pointer above the range and checks nothing below it; a
  negative id names a place before the array.
\<close>

definition motor_get :: "int \<Rightarrow> int option" where
  "motor_get i = (if i \<ge> MOTOR_NUM then None else Some i)"

text \<open>
  Reading through the pointer; \<open>null\<close> is what happens when it is null: \<open>MOTOR_ASSERT\<close> loops
  forever, a function without the assertion dereferences it.
\<close>

definition at_motor :: "fault \<Rightarrow> 'w motors \<Rightarrow> int \<Rightarrow> (nat \<Rightarrow> motor_t \<Rightarrow> 'a res) \<Rightarrow> 'a res" where
  "at_motor null st i f =
     (case motor_get i of
        None \<Rightarrow> Inl null
      | Some j \<Rightarrow> if 0 \<le> j \<and> nat j < length (motor_list st) then f (nat j) (motor_list st ! nat j)
                  else Inl OutOfBounds)"

definition put_motor :: "'w motors \<Rightarrow> nat \<Rightarrow> (motor_t \<Rightarrow> motor_t) \<Rightarrow> 'w motors" where
  "put_motor st j f = st\<lparr>motor_list := (motor_list st)[j := f (motor_list st ! j)]\<rparr>"

subsection \<open>The control cascades\<close>

text \<open>
  The four statements that run one controller: set its target and its measured value, step
  it, read its output.
\<close>

definition stage ::
    "rounding \<Rightarrow> 'w motors \<Rightarrow> nat option \<Rightarrow> real \<Rightarrow> real \<Rightarrow> real \<Rightarrow> (real \<times> 'w motors) res" where
  "stage fl st p t m c =
     (case p of
        None \<Rightarrow> Inl NullDeref
      | Some a \<Rightarrow>
          (case apids st a of
             None \<Rightarrow> Inl UseAfterFree
           | Some pid \<Rightarrow>
               bind_res (APID_Hander fl (APID_Set_Present (APID_Set_Target pid t) m) c) (\<lambda>pid'.
               Inr (APID_Get_Out pid', st\<lparr>apids := (apids st)(a \<mapsto> pid')\<rparr>))))"

definition pos_stage :: "rounding \<Rightarrow> 'w motors \<Rightarrow> nat \<Rightarrow> real \<Rightarrow> 'w motors res" where
  "pos_stage fl st j c =
     (let m = motor_list st ! j in
      bind_res (stage fl st (pid_pos m) (tar_pos m) (cur_pos m) c)
        (\<lambda>(v, st'). Inr (put_motor st' j (\<lambda>m. m\<lparr>tar_speed := v\<rparr>))))"

definition speed_stage :: "rounding \<Rightarrow> 'w motors \<Rightarrow> nat \<Rightarrow> real \<Rightarrow> 'w motors res" where
  "speed_stage fl st j c =
     (let m = motor_list st ! j in
      bind_res (stage fl st (pid_speed m) (tar_speed m) (cur_speed m) c)
        (\<lambda>(v, st'). Inr (put_motor st' j (\<lambda>m. m\<lparr>tar_torque := v\<rparr>))))"

definition torque_stage :: "rounding \<Rightarrow> 'w motors \<Rightarrow> nat \<Rightarrow> real \<Rightarrow> 'w motors res" where
  "torque_stage fl st j c =
     (let m = motor_list st ! j in
      bind_res (stage fl st (pid_torque m) (tar_torque m) (cur_torque m) c)
        (\<lambda>(v, st'). Inr (put_motor st' j (\<lambda>m. m\<lparr>acc_out := v\<rparr>))))"

definition motor_behiver_1 :: "rounding \<Rightarrow> 'w motors \<Rightarrow> int \<Rightarrow> u16 \<Rightarrow> real \<Rightarrow> 'w motors res" where
  "motor_behiver_1 fl st i mode c =
     at_motor NullDeref st i (\<lambda>j _.
       bind_res (if mode = MOTOR_MODE_POS then pos_stage fl st j c else Inr st) (\<lambda>st1.
       bind_res (if mode \<in> {MOTOR_MODE_POS, MOTOR_MODE_SPEED} then speed_stage fl st1 j c
                 else Inr st1) (\<lambda>st2.
       if mode \<in> {MOTOR_MODE_POS, MOTOR_MODE_SPEED, MOTOR_MODE_TORQUE}
       then torque_stage fl st2 j c else Inr st2)))"

definition motor_behiver_2 :: "rounding \<Rightarrow> 'w motors \<Rightarrow> int \<Rightarrow> u16 \<Rightarrow> real \<Rightarrow> 'w motors res" where
  "motor_behiver_2 fl st i mode c =
     at_motor NullDeref st i (\<lambda>j _.
       bind_res (if mode = MOTOR_MODE_POS then pos_stage fl st j c else Inr st) (\<lambda>st1.
       bind_res (if mode \<in> {MOTOR_MODE_POS, MOTOR_MODE_SPEED} then speed_stage fl st1 j c
                 else Inr st1) (\<lambda>st2.
       if mode \<in> {MOTOR_MODE_POS, MOTOR_MODE_SPEED, MOTOR_MODE_TORQUE}
       then Inr (put_motor st2 j (\<lambda>m. m\<lparr>acc_out := tar_torque m\<rparr>)) else Inr st2)))"

definition motor_behiver_3 :: "rounding \<Rightarrow> 'w motors \<Rightarrow> int \<Rightarrow> u16 \<Rightarrow> real \<Rightarrow> 'w motors res" where
  "motor_behiver_3 fl st i mode c =
     at_motor NullDeref st i (\<lambda>j _.
       bind_res (if mode = MOTOR_MODE_POS then pos_stage fl st j c else Inr st) (\<lambda>st1.
       if mode \<in> {MOTOR_MODE_POS, MOTOR_MODE_SPEED}
       then Inr (put_motor st1 j (\<lambda>m. m\<lparr>acc_out := tar_speed m\<rparr>))
       else if mode = MOTOR_MODE_TORQUE
       then Inr (put_motor st1 j (\<lambda>m. m\<lparr>acc_out := tar_torque m\<rparr>)) else Inr st1))"

definition motor_behiver_4 :: "rounding \<Rightarrow> 'w motors \<Rightarrow> int \<Rightarrow> u16 \<Rightarrow> real \<Rightarrow> 'w motors res" where
  "motor_behiver_4 fl st i mode c =
     at_motor NullDeref st i (\<lambda>j _.
       Inr (if mode = MOTOR_MODE_POS then put_motor st j (\<lambda>m. m\<lparr>acc_out := tar_pos m\<rparr>)
            else if mode = MOTOR_MODE_SPEED then put_motor st j (\<lambda>m. m\<lparr>acc_out := tar_speed m\<rparr>)
            else if mode = MOTOR_MODE_TORQUE then put_motor st j (\<lambda>m. m\<lparr>acc_out := tar_torque m\<rparr>)
            else st))"

definition call_behaver ::
    "rounding \<Rightarrow> 'w motors \<Rightarrow> behiver option \<Rightarrow> int \<Rightarrow> u16 \<Rightarrow> real \<Rightarrow> 'w motors res" where
  "call_behaver fl st b i mode c =
     (case b of
        None \<Rightarrow> Inl NullDeref
      | Some Behiver_1 \<Rightarrow> motor_behiver_1 fl st i mode c
      | Some Behiver_2 \<Rightarrow> motor_behiver_2 fl st i mode c
      | Some Behiver_3 \<Rightarrow> motor_behiver_3 fl st i mode c
      | Some Behiver_4 \<Rightarrow> motor_behiver_4 fl st i mode c)"

subsection \<open>Feedback and the periodic handler\<close>

definition is_time :: "int \<Rightarrow> u8 \<Rightarrow> bool res" where
  "is_time t tick = (if tick = 0 then Inl DivByZero else Inr (t mod int (unat tick) = 0))"

text \<open>One conditional read: the value behind the pointer is replaced by what \<open>control\<close> leaves.\<close>

definition read_value ::
    "'w motor_call \<Rightarrow> 'w motors \<Rightarrow> nat \<Rightarrow> u8 \<Rightarrow> u16 \<Rightarrow> (motor_t \<Rightarrow> real) \<Rightarrow>
     (real \<Rightarrow> motor_t \<Rightarrow> motor_t) \<Rightarrow> 'w motors res" where
  "read_value ctl st j tick mode rd wr =
     (let m = motor_list st ! j in
      bind_res (is_time (mtime m) tick) (\<lambda>b.
      if \<not> b then Inr st
      else case ops m of
             None \<Rightarrow> Inl NullDeref
           | Some p \<Rightarrow> bind_res (ctl p (mid m) mode (rd m) st) (\<lambda>(v, st').
               Inr (put_motor st' j (wr v)))))"

definition u_motor_read_feedback :: "'w motor_call \<Rightarrow> 'w motors \<Rightarrow> nat \<Rightarrow> 'w motors res" where
  "u_motor_read_feedback ctl st j =
     bind_res (read_value ctl st j (torque_tick (motor_list st ! j)) MOTOR_MODE_TORQUE cur_torque
        (\<lambda>v m. m\<lparr>cur_torque := v\<rparr>)) (\<lambda>st1.
     bind_res (read_value ctl st1 j (speed_tick (motor_list st1 ! j)) MOTOR_MODE_SPEED cur_speed
        (\<lambda>v m. m\<lparr>cur_speed := v\<rparr>)) (\<lambda>st2.
     read_value ctl st2 j (pos_tick (motor_list st2 ! j)) MOTOR_MODE_POS cur_pos
        (\<lambda>v m. m\<lparr>cur_pos := v\<rparr>)))"

definition motor_read_feedback :: "'w motor_call \<Rightarrow> 'w motors \<Rightarrow> int \<Rightarrow> 'w motors res" where
  "motor_read_feedback ctl st i = at_motor BusyLoop st i (\<lambda>j _. u_motor_read_feedback ctl st j)"

text \<open>
  \<open>motor->time += cycle\<close> adds in \<open>float\<close> and converts back to a 64-bit integer, towards zero.
\<close>

definition time_add :: "rounding \<Rightarrow> int \<Rightarrow> real \<Rightarrow> int res" where
  "time_add fl t c =
     (let x = fl (fl (of_int t) + c);
          n = (if x \<ge> 0 then \<lfloor>x\<rfloor> else \<lceil>x\<rceil>)
      in if - (2 ^ 63) \<le> n \<and> n < 2 ^ 63 then Inr n else Inl BadConversion)"

definition motor_handle ::
    "'w motor_call \<Rightarrow> 'w motor_call \<Rightarrow> rounding \<Rightarrow> 'w motors \<Rightarrow> int \<Rightarrow> real \<Rightarrow> 'w motors res" where
  "motor_handle ctl drv fl st i c =
     at_motor BusyLoop st i (\<lambda>j m.
       case ops m of
         None \<Rightarrow> Inl BusyLoop
       | Some p \<Rightarrow>
           bind_res (time_add fl (mtime m) c) (\<lambda>t.
           let st1 = put_motor st j (\<lambda>m. m\<lparr>mtime := t\<rparr>) in
           bind_res (if flag_passive_feedback m then Inr st1
                     else u_motor_read_feedback ctl st1 j) (\<lambda>st2.
           let st3 = put_motor st2 j (\<lambda>m. m\<lparr>flag_is_stop := False\<rparr>);
               m3 = motor_list st3 ! j in
           bind_res (if flag_is_stop m3 then Inr (put_motor st3 j (\<lambda>m. m\<lparr>acc_out := 0\<rparr>))
                     else call_behaver fl st3 (behaver m3) i (ucast (flag_run_mode m3)) c) (\<lambda>st4.
           let m4 = motor_list st4 ! j in
           bind_res (drv p i (ucast (flag_out_mode m4)) (acc_out m4) st4) (\<lambda>(v, st5).
           Inr (put_motor st5 j (\<lambda>m. m\<lparr>acc_out := v\<rparr>)))))))"

definition motor_feedback_torque :: "'w motors \<Rightarrow> int \<Rightarrow> real \<Rightarrow> 'w motors res" where
  "motor_feedback_torque st i v =
     (if i \<ge> MOTOR_NUM then Inr st
      else at_motor NullDeref st i (\<lambda>j _. Inr (put_motor st j (\<lambda>m. m\<lparr>cur_torque := v\<rparr>))))"

definition motor_feedback_speed :: "'w motors \<Rightarrow> int \<Rightarrow> real \<Rightarrow> 'w motors res" where
  "motor_feedback_speed st i v =
     (if i \<ge> MOTOR_NUM then Inr st
      else at_motor NullDeref st i (\<lambda>j _. Inr (put_motor st j (\<lambda>m. m\<lparr>cur_speed := v\<rparr>))))"

definition motor_feedback_pos :: "'w motors \<Rightarrow> int \<Rightarrow> real \<Rightarrow> 'w motors res" where
  "motor_feedback_pos st i v =
     (if i \<ge> MOTOR_NUM then Inr st
      else at_motor NullDeref st i (\<lambda>j _. Inr (put_motor st j (\<lambda>m. m\<lparr>cur_pos := v\<rparr>))))"

subsection \<open>Commands and queries\<close>

definition motor_start :: "'w motors \<Rightarrow> int \<Rightarrow> 'w motors res" where
  "motor_start st i =
     at_motor BusyLoop st i (\<lambda>j _. Inr (put_motor st j (\<lambda>m. m\<lparr>flag_is_stop := False\<rparr>)))"

definition motor_stop :: "'w motors \<Rightarrow> int \<Rightarrow> 'w motors res" where
  "motor_stop st i =
     at_motor BusyLoop st i (\<lambda>j _. Inr (put_motor st j (\<lambda>m. m\<lparr>flag_is_stop := True\<rparr>)))"

definition motor_set_speed :: "'w motors \<Rightarrow> int \<Rightarrow> real \<Rightarrow> 'w motors res" where
  "motor_set_speed st i v =
     at_motor BusyLoop st i (\<lambda>j _. Inr (put_motor st j
       (\<lambda>m. m\<lparr>flag_run_mode := ucast MOTOR_MODE_SPEED, tar_speed := v\<rparr>)))"

definition motor_set_pos :: "'w motors \<Rightarrow> int \<Rightarrow> real \<Rightarrow> 'w motors res" where
  "motor_set_pos st i v =
     at_motor BusyLoop st i (\<lambda>j _. Inr (put_motor st j
       (\<lambda>m. m\<lparr>flag_run_mode := ucast MOTOR_MODE_POS, tar_pos := v\<rparr>)))"

definition motor_set_torque :: "'w motors \<Rightarrow> int \<Rightarrow> real \<Rightarrow> 'w motors res" where
  "motor_set_torque st i v =
     at_motor BusyLoop st i (\<lambda>j _. Inr (put_motor st j
       (\<lambda>m. m\<lparr>flag_run_mode := ucast MOTOR_MODE_TORQUE, tar_torque := v\<rparr>)))"

definition motor_get_speed :: "'w motors \<Rightarrow> int \<Rightarrow> real res" where
  "motor_get_speed st i = at_motor BusyLoop st i (\<lambda>_ m. Inr (cur_speed m))"

definition motor_get_pos :: "'w motors \<Rightarrow> int \<Rightarrow> real res" where
  "motor_get_pos st i = at_motor BusyLoop st i (\<lambda>_ m. Inr (cur_pos m))"

definition motor_get_torque :: "'w motors \<Rightarrow> int \<Rightarrow> real res" where
  "motor_get_torque st i = at_motor BusyLoop st i (\<lambda>_ m. Inr (cur_torque m))"

definition motor_get_pid_torque :: "'w motors \<Rightarrow> int \<Rightarrow> nat option res" where
  "motor_get_pid_torque st i = at_motor BusyLoop st i (\<lambda>_ m. Inr (pid_torque m))"

definition motor_get_pid_speed :: "'w motors \<Rightarrow> int \<Rightarrow> nat option res" where
  "motor_get_pid_speed st i = at_motor BusyLoop st i (\<lambda>_ m. Inr (pid_speed m))"

definition motor_get_pid_pos :: "'w motors \<Rightarrow> int \<Rightarrow> nat option res" where
  "motor_get_pid_pos st i = at_motor BusyLoop st i (\<lambda>_ m. Inr (pid_pos m))"

definition motor_set_passive_feedback :: "'w motors \<Rightarrow> int \<Rightarrow> bool \<Rightarrow> 'w motors res" where
  "motor_set_passive_feedback st i b =
     at_motor NullDeref st i (\<lambda>j _. Inr (put_motor st j (\<lambda>m. m\<lparr>flag_passive_feedback := b\<rparr>)))"

subsection \<open>Configuration\<close>

text \<open>
  \<open>malloc (sizeof (apid_t))\<close>: the parameter \<open>mal\<close> chooses an address and what the fresh
  block happens to hold, or fails. \<open>RT_ASSERT\<close> on a null pointer never returns.
\<close>

type_synonym apid_malloc = "(nat \<Rightarrow> apid_t option) \<Rightarrow> (nat \<times> apid_t) option"

definition malloc_apid :: "apid_malloc \<Rightarrow> 'w motors \<Rightarrow> nat option \<times> 'w motors" where
  "malloc_apid mal st =
     (case mal (apids st) of
        None \<Rightarrow> (None, st)
      | Some (a, junk) \<Rightarrow> (Some a, st\<lparr>apids := (apids st)(a \<mapsto> junk)\<rparr>))"

definition RT_ASSERT :: "nat option \<Rightarrow> unit res" where
  "RT_ASSERT p = (if p = None then Inl BusyLoop else Inr ())"

text \<open>\<open>APID_Init (p, PID_POSITION, p->parameter.kp, p->parameter.ki, p->parameter.kd)\<close>.\<close>

definition reinit_apid :: "'w motors \<Rightarrow> nat option \<Rightarrow> 'w motors res" where
  "reinit_apid st p =
     (case p of
        None \<Rightarrow> Inl NullDeref
      | Some a \<Rightarrow>
          (case apids st a of
             None \<Rightarrow> Inl UseAfterFree
           | Some pid \<Rightarrow>
               Inr (st\<lparr>apids := (apids st)(a \<mapsto> APID_Init pid PID_POSITION
                 (kp (parameter pid)) (ki (parameter pid)) (kd (parameter pid)))\<rparr>)))"

definition motor_updata_cfg :: "apid_malloc \<Rightarrow> 'w motors \<Rightarrow> int \<Rightarrow> int \<Rightarrow> 'w motors res" where
  "motor_updata_cfg mal st i level =
     (if level = 0 then
        at_motor NullDeref st i (\<lambda>j _.
          let (t, st1) = malloc_apid mal st; (s, st2) = malloc_apid mal st1;
              (p, st3) = malloc_apid mal st2;
              st4 = put_motor st3 j (\<lambda>m. m\<lparr>behaver := Some Behiver_1,
                flag_out_mode := MOTOR_CONTROL_SUPPORT_NONE,
                pid_torque := t, pid_speed := s, pid_pos := p\<rparr>)
          in bind_res (RT_ASSERT t) (\<lambda>_. bind_res (RT_ASSERT s) (\<lambda>_. bind_res (RT_ASSERT p) (\<lambda>_.
             bind_res (reinit_apid st4 t) (\<lambda>st5. bind_res (reinit_apid st5 s) (\<lambda>st6.
             reinit_apid st6 p))))))
      else if level = 1 then
        at_motor NullDeref st i (\<lambda>j m.
          let st1 = put_motor st j (\<lambda>m. m\<lparr>behaver := Some Behiver_2,
                flag_out_mode := MOTOR_CONTROL_SUPPORT_TORQUE\<rparr>)
          in bind_res (RT_ASSERT (pid_speed m)) (\<lambda>_. bind_res (RT_ASSERT (pid_pos m)) (\<lambda>_.
             bind_res (reinit_apid st1 (pid_speed m)) (\<lambda>st2. reinit_apid st2 (pid_pos m)))))
      else if level = 2 then
        at_motor NullDeref st i (\<lambda>j _.
          let (p, st1) = malloc_apid mal st;
              st2 = put_motor st1 j (\<lambda>m. m\<lparr>behaver := Some Behiver_3,
                flag_out_mode := MOTOR_CONTROL_SUPPORT_SPEED, pid_pos := p\<rparr>)
          in bind_res (RT_ASSERT p) (\<lambda>_. reinit_apid st2 p))
      else if level = 3 then
        at_motor NullDeref st i (\<lambda>j _.
          Inr (put_motor st j (\<lambda>m. m\<lparr>behaver := Some Behiver_4,
                flag_out_mode := MOTOR_CONTROL_SUPPORT_POS\<rparr>)))
      else at_motor BusyLoop st i (\<lambda>_ _. Inr st))"

definition motor_init_one :: "apid_malloc \<Rightarrow> 'w motors \<Rightarrow> nat \<Rightarrow> 'w motors res" where
  "motor_init_one mal st j =
     at_motor NullDeref st (int j) (\<lambda>_ _.
       let st1 = put_motor st j (\<lambda>m. m\<lparr>mid := int j, mtime := 0, pos_tick := 10, speed_tick := 5,
             torque_tick := 1, flag_run_mode := ucast MOTOR_MODE_IDEL,
             flag_out_mode := ucast MOTOR_MODE_IDEL\<rparr>)
       in motor_updata_cfg mal st1 (int j) (uint (flag_accept_level (motor_list st1 ! j))))"

fun motor_init_loop :: "apid_malloc \<Rightarrow> nat list \<Rightarrow> 'w motors \<Rightarrow> 'w motors res" where
  "motor_init_loop mal [] st = Inr st"
| "motor_init_loop mal (j # js) st = bind_res (motor_init_one mal st j) (motor_init_loop mal js)"

definition motor_init :: "apid_malloc \<Rightarrow> 'w motors \<Rightarrow> 'w motors res" where
  "motor_init mal st = motor_init_loop mal [0..<nat MOTOR_NUM] st"

subsection \<open>The shell commands\<close>

text \<open>What a command reports: a wrong id, a value, or nothing after setting one.\<close>

datatype motor_log = Motor_id_error | Motor_value int real | Motor_set

definition set_get ::
    "(string \<Rightarrow> int) \<Rightarrow> (string \<Rightarrow> real) \<Rightarrow> ('w motors \<Rightarrow> int \<Rightarrow> real \<Rightarrow> 'w motors res) \<Rightarrow>
     ('w motors \<Rightarrow> int \<Rightarrow> real res) \<Rightarrow> 'w motors \<Rightarrow> string list \<Rightarrow> (motor_log \<times> 'w motors) res" where
  "set_get atoi atof sett gett st argv =
     (if length argv \<ge> 3 then
        let i = atoi (argv ! 2) in
        if i \<ge> MOTOR_NUM then Inr (Motor_id_error, st)
        else if length argv \<ge> 4
        then bind_res (sett st i (atof (argv ! 3))) (\<lambda>st'. Inr (Motor_set, st'))
        else bind_res (gett st i) (\<lambda>v. Inr (Motor_value i v, st))
      else Inr (Motor_id_error, st))"

definition set_get_torque where
  "set_get_torque atoi atof = set_get atoi atof motor_set_torque motor_get_torque"

definition set_get_speed where
  "set_get_speed atoi atof = set_get atoi atof motor_set_speed motor_get_speed"

definition set_get_pos where
  "set_get_pos atoi atof = set_get atoi atof motor_set_pos motor_get_pos"

text \<open>
  The command \<open>m\<close>: \<open>opt\<close> is the option that the shell has recognised in the first argument.
  Listing the motors and the help text are output only.
\<close>

datatype cmd_motor_log = List_all_motor | Usage | Value_cmd motor_log

definition cmd_motor ::
    "(string \<Rightarrow> int) \<Rightarrow> (string \<Rightarrow> real) \<Rightarrow> int \<Rightarrow> 'w motors \<Rightarrow> string list \<Rightarrow> (cmd_motor_log \<times> 'w motors) res" where
  "cmd_motor atoi atof opt st argv =
     (let value = (\<lambda>f. bind_res (f atoi atof st argv) (\<lambda>(l, st'). Inr (Value_cmd l, st'))) in
      if length argv \<ge> 2 then
        if opt = 0 then Inr (List_all_motor, st)
        else if opt = 1 then value set_get_torque
        else if opt = 2 then value set_get_speed
        else if opt = 3 then value set_get_pos
        else Inr (Usage, st)
      else Inr (Usage, st))"

text \<open>
  \<open>motor_shakdown\<close> prints target, measured value and output of the controller that its mode
  uses, in the outer modes every tenth call; \<open>time\<close> is its static counter. A motor without a
  torque controller, as all configured ones, is dereferenced in torque mode all the same.
\<close>

definition motor_shakdown ::
    "int \<Rightarrow> 'w motors \<Rightarrow> int \<Rightarrow> ((real \<times> real \<times> real) option \<times> int) res" where
  "motor_shakdown time st i =
     (if time + 1 \<ge> 2 ^ 31 then Inl SignedOverflow
      else at_motor NullDeref st i (\<lambda>j m.
        let t = time + 1;
            mode = ucast (flag_run_mode m);
            shown = (\<lambda>p. case p of
                       None \<Rightarrow> Inl NullDeref
                     | Some a \<Rightarrow> (case apids st a of
                                    None \<Rightarrow> Inl UseAfterFree
                                  | Some pid \<Rightarrow> Inr (Some (target (parameter pid), present (parameter pid),
                                                        out (parameter pid)))))
        in bind_res (if mode = MOTOR_MODE_TORQUE then
                       bind_res (is_time (mtime m) (torque_tick m)) (\<lambda>b. if b then shown (pid_torque m) else Inr None)
                     else if mode = MOTOR_MODE_SPEED then (if t mod 10 = 0 then shown (pid_speed m) else Inr None)
                     else if mode = MOTOR_MODE_POS then (if t mod 10 = 0 then shown (pid_pos m) else Inr None)
                     else Inr None) (\<lambda>r. Inr (r, t))))"

subsection \<open>The configured motors (motor_cfg.c)\<close>

definition APID_CREATE_STATIC_ANONYMOUS_POSITION :: "real \<Rightarrow> real \<Rightarrow> real \<Rightarrow> apid_t" where
  "APID_CREATE_STATIC_ANONYMOUS_POSITION p i d =
     \<lparr>run_status = STOP, integral_way = PID_INTEGRAL_NORMAL,
      differential_way = PID_DIFFERENTIAL_COMPLETE, pid_mode = PID_POSITION,
      parameter = \<lparr>kp = p, ki = i, kd = d, kf = 0, kd_u = 0, k_pre = 0, target_limit = 0,
        bias_limit = 0, bias_dead_zone = 0, bias_for_integral = 0, integral_limit = 0,
        out_limit = 0, k_par = 0, out = 0, target = 0, present = 0, predict = 0\<rparr>,
      process = \<lparr>bias = 0, integral_bias = 0, differential_bias = 0, lpf_differential_bias = 0,
        feedforward = 0, pr_predict = 0, last_target = 0, last_bias = 0, lastlast_bias = 0\<rparr>,
      cycle = 0, handle_set = True, i_handle = Some Position_Normal,
      d_handle = Some Position_Complete, variable_fn = None\<rparr>"

text \<open>
  \<open>MOTOR_INIT_OPS_PID_ALL\<close>: all other members are zero. The speed controller of motor \<open>k\<close>
  lives at address \<open>2 * k\<close> and its position controller at \<open>2 * k + 1\<close>.
\<close>

definition MOTOR_INIT_OPS_PID_ALL ::
    "nat \<Rightarrow> 2 word \<Rightarrow> nat option \<Rightarrow> nat option \<Rightarrow> nat option \<Rightarrow> motor_t" where
  "MOTOR_INIT_OPS_PID_ALL p level t s ps =
     \<lparr>ops = Some p, mid = 0, mtime = 0, pos_tick = 0, speed_tick = 0, torque_tick = 0,
      pid_speed = s, pid_pos = ps, pid_torque = t, tar_speed = 0, tar_pos = 0, tar_torque = 0,
      cur_speed = 0, cur_pos = 0, cur_torque = 0, flag_run_mode = 0, flag_out_mode = 0,
      flag_accept_level = level, flag_passive_feedback = False, flag_passive_handle = False,
      flag_is_stop = False, behaver = None, acc_out = 0\<rparr>"

definition cfg_motors :: "motor_t list" where
  "cfg_motors = map (\<lambda>k. MOTOR_INIT_OPS_PID_ALL k MOTOR_CONTROL_SUPPORT_TORQUE None
                        (Some (2 * k)) (Some (2 * k + 1))) [0..<nat MOTOR_NUM]"

definition cfg_apids :: "rounding \<Rightarrow> nat \<Rightarrow> apid_t option" where
  "cfg_apids fl a =
     (if a < 8 then
        Some (if even a then APID_CREATE_STATIC_ANONYMOUS_POSITION (fl 210.69) (fl 0.73) (fl 0)
              else APID_CREATE_STATIC_ANONYMOUS_POSITION (fl 4.983) 0 (fl 0))
      else None)"

definition motor_cfg :: "rounding \<Rightarrow> 'w \<Rightarrow> 'w motors" where
  "motor_cfg fl w = \<lparr>motor_list = cfg_motors, apids = cfg_apids fl, mworld = w\<rparr>"

subsection \<open>Interface: commanding the motors\<close>

text \<open>
  What a client that drives several motors relies on: giving one motor a command records
  exactly this command for this motor, leaves the commands of the others and what every
  motor reports.
\<close>

locale motor_bank =
  fixes give :: "'m \<Rightarrow> int \<Rightarrow> real \<Rightarrow> 'm res"
    and command :: "'m \<Rightarrow> int \<Rightarrow> 'c"
    and wanted :: "real \<Rightarrow> 'c"
    and report :: "'m \<Rightarrow> int \<Rightarrow> 'r"
    and ok :: "'m \<Rightarrow> bool"
  assumes give_law: "ok st \<Longrightarrow> 0 \<le> i \<Longrightarrow> i < MOTOR_NUM \<Longrightarrow>
      \<exists>st'. give st i v = Inr st' \<and> ok st' \<and>
        (\<forall>k. 0 \<le> k \<longrightarrow> k < MOTOR_NUM \<longrightarrow> command st' k = (if k = i then wanted v else command st k)) \<and>
        (\<forall>k. 0 \<le> k \<longrightarrow> k < MOTOR_NUM \<longrightarrow> report st' k = report st k)"
begin

fun give_all :: "'m \<Rightarrow> (int \<times> real) list \<Rightarrow> 'm res" where
  "give_all st [] = Inr st"
| "give_all st ((i, v) # xs) = bind_res (give st i v) (\<lambda>st'. give_all st' xs)"

lemma give_all_law:
  assumes "ok st" and "\<forall>(i, v) \<in> set xs. 0 \<le> i \<and> i < MOTOR_NUM" and "distinct (map fst xs)"
  shows "\<exists>st'. give_all st xs = Inr st' \<and> ok st' \<and>
    (\<forall>k. 0 \<le> k \<longrightarrow> k < MOTOR_NUM \<longrightarrow>
       command st' k = (case map_of xs k of None \<Rightarrow> command st k | Some v \<Rightarrow> wanted v)) \<and>
    (\<forall>k. 0 \<le> k \<longrightarrow> k < MOTOR_NUM \<longrightarrow> report st' k = report st k)"
  using assms
proof (induction xs arbitrary: st)
  case Nil
  then show ?case by simp
next
  case (Cons x xs)
  obtain i v where x: "x = (i, v)" by (cases x)
  from Cons.prems x obtain st1 where st1: "give st i v = Inr st1" "ok st1"
    "\<forall>k. 0 \<le> k \<longrightarrow> k < MOTOR_NUM \<longrightarrow> command st1 k = (if k = i then wanted v else command st k)"
    "\<forall>k. 0 \<le> k \<longrightarrow> k < MOTOR_NUM \<longrightarrow> report st1 k = report st k"
    using give_law [of st i v] by auto
  from Cons.IH [OF st1(2)] Cons.prems(2,3) obtain st2 where st2: "give_all st1 xs = Inr st2" "ok st2"
    "\<forall>k. 0 \<le> k \<longrightarrow> k < MOTOR_NUM \<longrightarrow>
       command st2 k = (case map_of xs k of None \<Rightarrow> command st1 k | Some v \<Rightarrow> wanted v)"
    "\<forall>k. 0 \<le> k \<longrightarrow> k < MOTOR_NUM \<longrightarrow> report st2 k = report st1 k"
    by auto
  moreover have "map_of xs i = None"
    using Cons.prems(3) x by (simp add: map_of_eq_None_iff)
  ultimately show ?case
    using st1 x by (auto split: option.splits)
qed

lemma give_four:
  assumes "ok st"
  obtains st' where
    "bind_res (give st 0 a) (\<lambda>s. bind_res (give s 1 b) (\<lambda>s. bind_res (give s 2 c) (\<lambda>s. give s 3 d))) = Inr st'"
    "ok st'" "command st' 0 = wanted a" "command st' 1 = wanted b" "command st' 2 = wanted c"
    "command st' 3 = wanted d" "\<forall>k. 0 \<le> k \<longrightarrow> k < MOTOR_NUM \<longrightarrow> report st' k = report st k"
proof -
  have "\<exists>st'. give_all st [(0, a), (1, b), (2, c), (3, d)] = Inr st' \<and> ok st' \<and>
    (\<forall>k. 0 \<le> k \<longrightarrow> k < MOTOR_NUM \<longrightarrow> command st' k =
      (case map_of [(0, a), (1, b), (2, c), (3, d)] k of None \<Rightarrow> command st k | Some v \<Rightarrow> wanted v)) \<and>
    (\<forall>k. 0 \<le> k \<longrightarrow> k < MOTOR_NUM \<longrightarrow> report st' k = report st k)"
    using assms by (intro give_all_law) (simp_all add: MOTOR_NUM_def)
  then show thesis
    by (elim exE conjE, intro that) (auto simp: MOTOR_NUM_def)
qed

end

definition motors_ok :: "'w motors \<Rightarrow> bool" where
  "motors_ok st \<longleftrightarrow> length (motor_list st) = nat MOTOR_NUM"

definition pos_command :: "'w motors \<Rightarrow> int \<Rightarrow> 2 word \<times> real" where
  "pos_command st i = (flag_run_mode (motor_list st ! nat i), tar_pos (motor_list st ! nat i))"

definition speed_command :: "'w motors \<Rightarrow> int \<Rightarrow> 2 word \<times> real" where
  "speed_command st i = (flag_run_mode (motor_list st ! nat i), tar_speed (motor_list st ! nat i))"

definition motor_report :: "'w motors \<Rightarrow> int \<Rightarrow> real \<times> real" where
  "motor_report st i = (cur_speed (motor_list st ! nat i), cur_pos (motor_list st ! nat i))"

lemma at_motor_ok [simp]:
  "motors_ok st \<Longrightarrow> 0 \<le> i \<Longrightarrow> i < MOTOR_NUM \<Longrightarrow>
   at_motor e st i f = f (nat i) (motor_list st ! nat i)"
  by (simp add: at_motor_def motor_get_def motors_ok_def)

lemma put_motor_ok [simp]: "motors_ok (put_motor st j f) = motors_ok st"
  by (simp add: put_motor_def motors_ok_def)

lemma nth_put_motor:
  "motors_ok st \<Longrightarrow> j < nat MOTOR_NUM \<Longrightarrow>
   motor_list (put_motor st j f) ! k = (if k = j then f (motor_list st ! j) else motor_list st ! k)"
  by (simp add: put_motor_def motors_ok_def)

interpretation pos_bank: motor_bank motor_set_pos pos_command "\<lambda>v. (ucast MOTOR_MODE_POS, v)"
    motor_report motors_ok
  by unfold_locales
    (auto simp: motor_set_pos_def pos_command_def motor_report_def nth_put_motor eq_nat_nat_iff nat_mono_iff)

interpretation speed_bank: motor_bank motor_set_speed speed_command "\<lambda>v. (ucast MOTOR_MODE_SPEED, v)"
    motor_report motors_ok
  by unfold_locales
    (auto simp: motor_set_speed_def speed_command_def motor_report_def nth_put_motor eq_nat_nat_iff nat_mono_iff)

subsection \<open>Controllers that cannot fail\<close>

text \<open>
  An enabled position controller whose integral handler divides by nothing. A step with a
  nonzero period returns, keeps the controller so and respects its output limit, whatever
  the rounding.
\<close>

definition pid_ready :: "apid_t \<Rightarrow> bool" where
  "pid_ready p \<longleftrightarrow> run_status p = PID_ENABLE \<and> handle_set p \<and>
     i_handle p \<in> {Some Position_Normal, Some Position_Saturation} \<and>
     d_handle p = Some Position_Complete \<and> out_limit (parameter p) \<ge> 0"

lemma pid_ready_set [simp]:
  "pid_ready (APID_Set_Present (APID_Set_Target p t) m) = pid_ready p"
  "out_limit (parameter (APID_Set_Present (APID_Set_Target p t) m)) = out_limit (parameter p)"
  by (simp_all add: pid_ready_def APID_Set_Present_def APID_Set_Target_def)

lemma call_i_ready:
  "i_handle p \<in> {Some Position_Normal, Some Position_Saturation} \<Longrightarrow>
   \<exists>v. call_i fl p = Inr (set_integral p v)"
  by (auto simp: call_i_def i_handlers Let_def)

lemma u_PID_Out_frame:
  "u_PID_Out fl p = Inr p' \<Longrightarrow>
   run_status p' = run_status p \<and> handle_set p' = handle_set p \<and> i_handle p' = i_handle p \<and>
   d_handle p' = d_handle p \<and> out_limit (parameter p') = out_limit (parameter p)"
  by (auto simp: u_PID_Out_def Let_def fdiv_def split: if_splits)

lemma pid_ready_step:
  assumes "pid_ready p" and "c \<noteq> 0"
  obtains p' where "APID_Hander fl p c = Inr p'" "pid_ready p'"
    "out_limit (parameter p') = out_limit (parameter p)"
    "\<bar>APID_Get_Out p'\<bar> \<le> out_limit (parameter p)"
proof -
  let ?q = "(parameter p)\<lparr>target := clamp_target (parameter p)\<rparr>"
  define pr where "pr = fl (fl (k_pre ?q * predict ?q) * ABS (predict ?q))"
  define p1 where "p1 = p\<lparr>cycle := c, parameter := ?q, process := (process p)\<lparr>
      feedforward := fl (kf ?q * target ?q), pr_predict := pr,
      bias := temp_bias ?q (fl (fl (target ?q - present ?q) - pr))\<rparr>\<rparr>"
  have r: "run_status p = PID_ENABLE" "handle_set p"
    "i_handle p1 \<in> {Some Position_Normal, Some Position_Saturation}"
    "d_handle p1 = Some Position_Complete" "out_limit (parameter p1) = out_limit (parameter p)"
    "cycle p1 = c" "run_status p1 = PID_ENABLE" "handle_set p1" "0 \<le> out_limit (parameter p)"
    using assms(1) by (simp_all add: pid_ready_def p1_def)
  obtain v where v: "call_i fl p1 = Inr (set_integral p1 v)"
    using call_i_ready [OF r(3)] by blast
  define p2 where "p2 = set_differential (set_integral p1 v) (first_difference fl (set_integral p1 v))"
  have d: "call_d fl (set_integral p1 v) = Inr p2"
    using r(4) by (simp add: call_d_def p2_def d_handle_Position_Complete_def set_integral_def)
  have p2: "cycle p2 = c" "parameter p2 = parameter p1" "run_status p2 = run_status p1"
    "handle_set p2 = handle_set p1" "i_handle p2 = i_handle p1" "d_handle p2 = d_handle p1"
    using r(6) by (simp_all add: p2_def set_differential_def set_integral_def)
  then have "cycle p2 \<noteq> 0" using assms(2) by simp
  then obtain p' where p': "u_PID_Out fl p2 = Inr p'"
    "out_limit (parameter p2) \<ge> 0 \<longrightarrow> \<bar>out (parameter p')\<bar> \<le> out_limit (parameter p2)"
    by (rule u_PID_Out_cases)
  have "APID_Hander fl p c = Inr p'"
    using r(1,2) v d p'(1) by (simp add: APID_Hander_def PID_Hander_def Let_def p1_def pr_def)
  then show thesis
    using u_PID_Out_frame [OF p'(1)] p' p2 r
    by (intro that) (simp_all add: pid_ready_def APID_Get_Out_def)
qed

text \<open>
  A motor driven through the torque cascade (accept level 1), as all configured motors are:
  its two controllers are different objects and ready.
\<close>

definition pid_at :: "'w motors \<Rightarrow> nat option \<Rightarrow> apid_t" where
  "pid_at st p = the (apids st (the p))"

definition drive_ok :: "'w motors \<Rightarrow> nat \<Rightarrow> bool" where
  "drive_ok st j \<longleftrightarrow> motors_ok st \<and> j < nat MOTOR_NUM \<and>
     (let m = motor_list st ! j in
      ops m \<noteq> None \<and> behaver m = Some Behiver_2 \<and> flag_out_mode m = MOTOR_CONTROL_SUPPORT_TORQUE \<and>
      pid_speed m \<noteq> None \<and> pid_pos m \<noteq> None \<and> pid_speed m \<noteq> pid_pos m \<and>
      apids st (the (pid_speed m)) \<noteq> None \<and> apids st (the (pid_pos m)) \<noteq> None \<and>
      pid_ready (pid_at st (pid_speed m)) \<and> pid_ready (pid_at st (pid_pos m)))"

lemma stage_ready:
  assumes "p = Some a" and "apids st a \<noteq> None" and "pid_ready (pid_at st p)" and "c \<noteq> 0"
  obtains pid' where
    "APID_Hander fl (APID_Set_Present (APID_Set_Target (pid_at st p) t) m) c = Inr pid'"
    "stage fl st p t m c = Inr (APID_Get_Out pid', st\<lparr>apids := (apids st)(a \<mapsto> pid')\<rparr>)"
    "pid_ready pid'" "\<bar>APID_Get_Out pid'\<bar> \<le> out_limit (parameter (pid_at st p))"
proof -
  have "pid_ready (APID_Set_Present (APID_Set_Target (pid_at st p) t) m)" using assms(3) by simp
  from pid_ready_step [OF this assms(4), of fl] obtain pid' where pid':
    "APID_Hander fl (APID_Set_Present (APID_Set_Target (pid_at st p) t) m) c = Inr pid'"
    "pid_ready pid'" "\<bar>APID_Get_Out pid'\<bar> \<le> out_limit (parameter (pid_at st p))"
    by auto
  moreover obtain q where "apids st a = Some q" using assms(2) by blast
  ultimately show thesis
    using assms(1) by (intro that) (auto simp: stage_def pid_at_def)
qed

lemma pos_stage_drive:
  assumes "drive_ok st j" and "c \<noteq> 0" and "m = motor_list st ! j"
  obtains pp st' where
    "APID_Hander fl (APID_Set_Present (APID_Set_Target (pid_at st (pid_pos m)) (tar_pos m)) (cur_pos m)) c = Inr pp"
    "pos_stage fl st j c = Inr st'" "drive_ok st' j"
    "motor_list st' = (motor_list st)[j := m\<lparr>tar_speed := APID_Get_Out pp\<rparr>]"
    "\<bar>APID_Get_Out pp\<bar> \<le> out_limit (parameter (pid_at st (pid_pos m)))"
    "pid_at st' (pid_speed m) = pid_at st (pid_speed m)"
proof -
  obtain a b where ab: "pid_speed m = Some a" "pid_pos m = Some b" "a \<noteq> b" "apids st b \<noteq> None"
    "pid_ready (pid_at st (pid_pos m))"
    using assms(1,3) by (auto simp: drive_ok_def Let_def)
  obtain pp where pp:
    "APID_Hander fl (APID_Set_Present (APID_Set_Target (pid_at st (pid_pos m)) (tar_pos m)) (cur_pos m)) c = Inr pp"
    "stage fl st (pid_pos m) (tar_pos m) (cur_pos m) c = Inr (APID_Get_Out pp, st\<lparr>apids := (apids st)(b \<mapsto> pp)\<rparr>)"
    "pid_ready pp" "\<bar>APID_Get_Out pp\<bar> \<le> out_limit (parameter (pid_at st (pid_pos m)))"
    by (rule stage_ready [OF ab(2,4,5) assms(2)])
  let ?st' = "put_motor (st\<lparr>apids := (apids st)(b \<mapsto> pp)\<rparr>) j (\<lambda>m. m\<lparr>tar_speed := APID_Get_Out pp\<rparr>)"
  have "pos_stage fl st j c = Inr ?st'"
    using pp(2) assms(3) by (simp add: pos_stage_def)
  moreover have "drive_ok ?st' j"
    using assms(1,3) ab pp(3) by (auto simp: drive_ok_def Let_def put_motor_def motors_ok_def pid_at_def)
  moreover have "motor_list ?st' = (motor_list st)[j := m\<lparr>tar_speed := APID_Get_Out pp\<rparr>]"
    "pid_at ?st' (pid_speed m) = pid_at st (pid_speed m)"
    using ab assms(3) by (simp_all add: put_motor_def pid_at_def)
  ultimately show thesis using pp(1,4) that by blast
qed

lemma speed_stage_drive:
  assumes "drive_ok st j" and "c \<noteq> 0" and "m = motor_list st ! j"
  obtains ps st' where
    "APID_Hander fl (APID_Set_Present (APID_Set_Target (pid_at st (pid_speed m)) (tar_speed m)) (cur_speed m)) c = Inr ps"
    "speed_stage fl st j c = Inr st'" "drive_ok st' j"
    "motor_list st' = (motor_list st)[j := m\<lparr>tar_torque := APID_Get_Out ps\<rparr>]"
    "\<bar>APID_Get_Out ps\<bar> \<le> out_limit (parameter (pid_at st (pid_speed m)))"
proof -
  obtain a b where ab: "pid_speed m = Some a" "pid_pos m = Some b" "a \<noteq> b" "apids st a \<noteq> None"
    "pid_ready (pid_at st (pid_speed m))"
    using assms(1,3) by (auto simp: drive_ok_def Let_def)
  obtain ps where ps:
    "APID_Hander fl (APID_Set_Present (APID_Set_Target (pid_at st (pid_speed m)) (tar_speed m)) (cur_speed m)) c = Inr ps"
    "stage fl st (pid_speed m) (tar_speed m) (cur_speed m) c = Inr (APID_Get_Out ps, st\<lparr>apids := (apids st)(a \<mapsto> ps)\<rparr>)"
    "pid_ready ps" "\<bar>APID_Get_Out ps\<bar> \<le> out_limit (parameter (pid_at st (pid_speed m)))"
    by (rule stage_ready [OF ab(1,4,5) assms(2)])
  let ?st' = "put_motor (st\<lparr>apids := (apids st)(a \<mapsto> ps)\<rparr>) j (\<lambda>m. m\<lparr>tar_torque := APID_Get_Out ps\<rparr>)"
  have "speed_stage fl st j c = Inr ?st'"
    using ps(2) assms(3) by (simp add: speed_stage_def)
  moreover have "drive_ok ?st' j"
    using assms(1,3) ab ps(3) by (auto simp: drive_ok_def Let_def put_motor_def motors_ok_def pid_at_def)
  moreover have "motor_list ?st' = (motor_list st)[j := m\<lparr>tar_torque := APID_Get_Out ps\<rparr>]"
    using assms(3) by (simp add: put_motor_def)
  ultimately show thesis using ps(1,4) that by blast
qed

text \<open>The three modes that compute something, from the cascade's stages.\<close>

lemma behiver_2_speed:
  assumes "drive_ok st j" and "c \<noteq> 0" and "m = motor_list st ! j"
  obtains ps st' where
    "APID_Hander fl (APID_Set_Present (APID_Set_Target (pid_at st (pid_speed m)) (tar_speed m)) (cur_speed m)) c = Inr ps"
    "bind_res (speed_stage fl st j c) (\<lambda>s. Inr (put_motor s j (\<lambda>m. m\<lparr>acc_out := tar_torque m\<rparr>))) = Inr st'"
    "drive_ok st' j"
    "motor_list st' = (motor_list st)[j := m\<lparr>tar_torque := APID_Get_Out ps, acc_out := APID_Get_Out ps\<rparr>]"
    "\<bar>APID_Get_Out ps\<bar> \<le> out_limit (parameter (pid_at st (pid_speed m)))"
proof -
  obtain ps s where s:
    "APID_Hander fl (APID_Set_Present (APID_Set_Target (pid_at st (pid_speed m)) (tar_speed m)) (cur_speed m)) c = Inr ps"
    "speed_stage fl st j c = Inr s" "drive_ok s j"
    "motor_list s = (motor_list st)[j := m\<lparr>tar_torque := APID_Get_Out ps\<rparr>]"
    "\<bar>APID_Get_Out ps\<bar> \<le> out_limit (parameter (pid_at st (pid_speed m)))"
    by (rule speed_stage_drive [OF assms])
  let ?s' = "put_motor s j (\<lambda>m. m\<lparr>acc_out := tar_torque m\<rparr>)"
  have j: "j < length (motor_list st)" using assms(1) by (simp add: drive_ok_def motors_ok_def)
  have "drive_ok ?s' j"
    using s(3) by (auto simp: drive_ok_def Let_def put_motor_def motors_ok_def pid_at_def)
  moreover have "motor_list ?s' = (motor_list st)[j := m\<lparr>tar_torque := APID_Get_Out ps, acc_out := APID_Get_Out ps\<rparr>]"
    using s(4) j by (simp add: put_motor_def)
  ultimately show thesis using s(1,2,5) by (intro that) simp_all
qed

lemma word2_cases: "(x::2 word) = 0 \<or> x = 1 \<or> x = 2 \<or> x = 3"
proof -
  have "uint x < 4" "0 \<le> uint x" using uint_lt2p [of x] by simp_all
  then have "uint x = 0 \<or> uint x = 1 \<or> uint x = 2 \<or> uint x = 3" by arith
  then show ?thesis by (auto simp: word_uint_eq_iff)
qed

lemma run_mode_cases:
  obtains "ucast (x::2 word) = MOTOR_MODE_IDEL" | "ucast x = MOTOR_MODE_TORQUE"
    | "ucast x = MOTOR_MODE_SPEED" | "ucast x = MOTOR_MODE_POS"
  using word2_cases [of x] by (auto simp: motor_modes)

text \<open>What the cascade leaves, in each mode.\<close>

definition cascade_result :: "rounding \<Rightarrow> 'w motors \<Rightarrow> nat \<Rightarrow> real \<Rightarrow> 'w motors \<Rightarrow> bool" where
  "cascade_result fl st j c st' \<longleftrightarrow>
     (let m = motor_list st ! j; m' = motor_list st' ! j; mode = ucast (flag_run_mode m) in
      drive_ok st' j \<and> (\<forall>k. k \<noteq> j \<longrightarrow> motor_list st' ! k = motor_list st ! k) \<and>
      flag_out_mode m' = flag_out_mode m \<and> flag_is_stop m' = flag_is_stop m \<and>
      (mode = MOTOR_MODE_IDEL \<longrightarrow> acc_out m' = acc_out m) \<and>
      (mode = MOTOR_MODE_TORQUE \<longrightarrow> acc_out m' = tar_torque m) \<and>
      (mode = MOTOR_MODE_SPEED \<longrightarrow> tar_speed m' = tar_speed m) \<and>
      (mode \<in> {MOTOR_MODE_SPEED, MOTOR_MODE_POS} \<longrightarrow>
        (\<exists>ps. APID_Hander fl (APID_Set_Present (APID_Set_Target (pid_at st (pid_speed m))
            (tar_speed m')) (cur_speed m)) c = Inr ps \<and> acc_out m' = APID_Get_Out ps) \<and>
        \<bar>acc_out m'\<bar> \<le> out_limit (parameter (pid_at st (pid_speed m)))) \<and>
      (mode = MOTOR_MODE_POS \<longrightarrow>
        (\<exists>pp. APID_Hander fl (APID_Set_Present (APID_Set_Target (pid_at st (pid_pos m))
            (tar_pos m)) (cur_pos m)) c = Inr pp \<and> tar_speed m' = APID_Get_Out pp) \<and>
        \<bar>tar_speed m'\<bar> \<le> out_limit (parameter (pid_at st (pid_pos m)))))"

lemma drive_ok_put:
  assumes "drive_ok st j"
    and "\<And>m. ops (f m) = ops m \<and> behaver (f m) = behaver m \<and> flag_out_mode (f m) = flag_out_mode m \<and>
      pid_speed (f m) = pid_speed m \<and> pid_pos (f m) = pid_pos m"
  shows "drive_ok (put_motor st j f) j"
  using assms by (auto simp: drive_ok_def Let_def put_motor_def motors_ok_def pid_at_def)

lemma behiver_2_cascade:
  assumes "drive_ok st j" and "c \<noteq> 0"
  obtains st' where
    "motor_behiver_2 fl st (int j) (ucast (flag_run_mode (motor_list st ! j))) c = Inr st'"
    "cascade_result fl st j c st'"
proof -
  define m where "m = motor_list st ! j"
  have ok: "motors_ok st" "j < nat MOTOR_NUM" "int j < MOTOR_NUM" and len: "j < length (motor_list st)"
    using assms(1) by (auto simp: drive_ok_def motors_ok_def MOTOR_NUM_def)
  show thesis
  proof (cases rule: run_mode_cases [of "flag_run_mode m"])
    case 1
    then have "cascade_result fl st j c st"
      using assms(1) by (simp add: cascade_result_def m_def motor_modes)
    with 1 show thesis using ok
      by (intro that [of st]) (simp_all add: motor_behiver_2_def m_def motor_modes)
  next
    case 2
    let ?st = "put_motor st j (\<lambda>m. m\<lparr>acc_out := tar_torque m\<rparr>)"
    have "cascade_result fl st j c ?st"
      using 2 ok assms(1) by (simp add: cascade_result_def m_def motor_modes nth_put_motor drive_ok_put)
    with 2 show thesis using ok
      by (intro that [of ?st]) (simp_all add: motor_behiver_2_def m_def motor_modes)
  next
    case 3
    obtain ps st' where st':
      "APID_Hander fl (APID_Set_Present (APID_Set_Target (pid_at st (pid_speed m)) (tar_speed m)) (cur_speed m)) c = Inr ps"
      "bind_res (speed_stage fl st j c) (\<lambda>s. Inr (put_motor s j (\<lambda>m. m\<lparr>acc_out := tar_torque m\<rparr>))) = Inr st'"
      "drive_ok st' j"
      "motor_list st' = (motor_list st)[j := m\<lparr>tar_torque := APID_Get_Out ps, acc_out := APID_Get_Out ps\<rparr>]"
      "\<bar>APID_Get_Out ps\<bar> \<le> out_limit (parameter (pid_at st (pid_speed m)))"
      by (rule behiver_2_speed [OF assms m_def])
    have "cascade_result fl st j c st'"
      using 3 st' len by (simp add: cascade_result_def m_def motor_modes)
    moreover have "motor_behiver_2 fl st (int j) (ucast (flag_run_mode m)) c = Inr st'"
      using 3 st'(2) ok by (simp add: motor_behiver_2_def motor_modes del: bind_res_eq_Inr)
    ultimately show thesis using that m_def by blast
  next
    case 4
    obtain pp s where s:
      "APID_Hander fl (APID_Set_Present (APID_Set_Target (pid_at st (pid_pos m)) (tar_pos m)) (cur_pos m)) c = Inr pp"
      "pos_stage fl st j c = Inr s" "drive_ok s j"
      "motor_list s = (motor_list st)[j := m\<lparr>tar_speed := APID_Get_Out pp\<rparr>]"
      "\<bar>APID_Get_Out pp\<bar> \<le> out_limit (parameter (pid_at st (pid_pos m)))"
      "pid_at s (pid_speed m) = pid_at st (pid_speed m)"
      by (rule pos_stage_drive [OF assms m_def])
    have ms: "m\<lparr>tar_speed := APID_Get_Out pp\<rparr> = motor_list s ! j" using s(4) len by simp
    obtain ps st' where st':
      "APID_Hander fl (APID_Set_Present (APID_Set_Target (pid_at st (pid_speed m)) (APID_Get_Out pp)) (cur_speed m)) c = Inr ps"
      "bind_res (speed_stage fl s j c) (\<lambda>s. Inr (put_motor s j (\<lambda>m. m\<lparr>acc_out := tar_torque m\<rparr>))) = Inr st'"
      "drive_ok st' j"
      "motor_list st' = (motor_list s)[j := m\<lparr>tar_speed := APID_Get_Out pp, tar_torque := APID_Get_Out ps, acc_out := APID_Get_Out ps\<rparr>]"
      "\<bar>APID_Get_Out ps\<bar> \<le> out_limit (parameter (pid_at st (pid_speed m)))"
      by (rule behiver_2_speed [OF s(3) assms(2) ms]) (simp add: s(6))
    have "cascade_result fl st j c st'"
      using 4 st' s len by (simp add: cascade_result_def m_def motor_modes)
    moreover have "motor_behiver_2 fl st (int j) (ucast (flag_run_mode m)) c = Inr st'"
      using 4 s(2) st'(2) ok by (simp add: motor_behiver_2_def motor_modes del: bind_res_eq_Inr)
    ultimately show thesis using that m_def by blast
  qed
qed

lemma put_motor_simps [simp]:
  "apids (put_motor st j f) = apids st" "mworld (put_motor st j f) = mworld st"
  by (simp_all add: put_motor_def)

subsection \<open>Start-up of the configured motors\<close>

definition keep_gains :: "apid_t \<Rightarrow> apid_t" where
  "keep_gains p = APID_Init p PID_POSITION (kp (parameter p)) (ki (parameter p)) (kd (parameter p))"

definition level1 :: "nat \<Rightarrow> motor_t \<Rightarrow> motor_t" where
  "level1 j m = m\<lparr>mid := int j, mtime := 0, pos_tick := 10, speed_tick := 5, torque_tick := 1,
     flag_run_mode := ucast MOTOR_MODE_IDEL, behaver := Some Behiver_2,
     flag_out_mode := MOTOR_CONTROL_SUPPORT_TORQUE\<rparr>"

lemma motor_init_one_level1:
  assumes "motors_ok st" and "j < nat MOTOR_NUM" and "m = motor_list st ! j"
    and "flag_accept_level m = MOTOR_CONTROL_SUPPORT_TORQUE"
    and "pid_speed m = Some a" and "pid_pos m = Some b" and "a \<noteq> b"
    and "apids st a = Some p" and "apids st b = Some q"
  shows "motor_init_one mal st j =
    Inr (st\<lparr>motor_list := (motor_list st)[j := level1 j m],
            apids := (apids st)(a \<mapsto> keep_gains p, b \<mapsto> keep_gains q)\<rparr>)"
proof -
  have j: "int j < MOTOR_NUM" "j < length (motor_list st)"
    using assms(1,2) by (auto simp: motors_ok_def MOTOR_NUM_def)
  have acc: "uint (flag_accept_level m) = 1" using assms(4) by (simp add: motor_modes)
  let ?st = "put_motor st j (\<lambda>m. m\<lparr>mid := int j, mtime := 0, pos_tick := 10, speed_tick := 5,
             torque_tick := 1, flag_run_mode := ucast MOTOR_MODE_IDEL,
             flag_out_mode := ucast MOTOR_MODE_IDEL\<rparr>)"
  have nth: "motor_list ?st ! j = m\<lparr>mid := int j, mtime := 0, pos_tick := 10, speed_tick := 5,
             torque_tick := 1, flag_run_mode := ucast MOTOR_MODE_IDEL,
             flag_out_mode := ucast MOTOR_MODE_IDEL\<rparr>"
    using assms(1-3) by (simp add: nth_put_motor)
  have "motor_init_one mal st j = motor_updata_cfg mal ?st (int j) 1"
    using assms(1,2) j acc nth by (simp add: motor_init_one_def Let_def)
  also have "\<dots> = Inr (st\<lparr>motor_list := (motor_list st)[j := level1 j m],
            apids := (apids st)(a \<mapsto> keep_gains p, b \<mapsto> keep_gains q)\<rparr>)"
    using assms j nth
    by (simp add: motor_updata_cfg_def RT_ASSERT_def reinit_apid_def Let_def keep_gains_def)
      (simp add: put_motor_def level1_def)
  finally show ?thesis .
qed

definition booted :: "rounding \<Rightarrow> 'w \<Rightarrow> 'w motors" where
  "booted fl w = \<lparr>motor_list = map (\<lambda>j. level1 j (cfg_motors ! j)) [0..<4],
     apids = (\<lambda>a. map_option keep_gains (cfg_apids fl a)), mworld = w\<rparr>"

lemma upt_4: "[0..<4] = [0, 1, 2, 3::nat]"
  by (simp add: upt_rec numeral_eq_Suc)

lemma cfg_apids_less: "a < 8 \<Longrightarrow> cfg_apids fl a = Some (the (cfg_apids fl a))"
  by (simp add: cfg_apids_def)

lemma cfg_apids_None: "\<not> a < 8 \<Longrightarrow> cfg_apids fl a = None"
  by (simp add: cfg_apids_def)

definition partly_booted :: "rounding \<Rightarrow> 'w \<Rightarrow> nat \<Rightarrow> 'w motors" where
  "partly_booted fl w n =
     \<lparr>motor_list = map (\<lambda>j. (if j < n then level1 j else id) (cfg_motors ! j)) [0..<4],
      apids = (\<lambda>a. map_option (if a < 2 * n then keep_gains else id) (cfg_apids fl a)), mworld = w\<rparr>"

lemma motor_init_step:
  assumes "n < 4"
  shows "motor_init_one mal (partly_booted fl w n) n = Inr (partly_booted fl w (Suc n))"
proof -
  have c: "cfg_motors ! n = MOTOR_INIT_OPS_PID_ALL n MOTOR_CONTROL_SUPPORT_TORQUE None
      (Some (2 * n)) (Some (2 * n + 1))"
    using assms by (simp add: cfg_motors_def MOTOR_NUM_def)
  have "motor_init_one mal (partly_booted fl w n) n =
     Inr ((partly_booted fl w n)\<lparr>motor_list := (motor_list (partly_booted fl w n))[n := level1 n (cfg_motors ! n)],
            apids := (apids (partly_booted fl w n))(2 * n \<mapsto> keep_gains (the (cfg_apids fl (2 * n))),
              2 * n + 1 \<mapsto> keep_gains (the (cfg_apids fl (2 * n + 1))))\<rparr>)"
    by (rule motor_init_one_level1)
      (use assms c in \<open>simp_all add: motors_ok_def partly_booted_def MOTOR_NUM_def
         MOTOR_INIT_OPS_PID_ALL_def cfg_apids_def\<close>)
  also have "\<dots> = Inr (partly_booted fl w (Suc n))"
  proof -
    have "(motor_list (partly_booted fl w n))[n := level1 n (cfg_motors ! n)] =
        motor_list (partly_booted fl w (Suc n))"
      using assms by (intro nth_equalityI) (auto simp: partly_booted_def nth_list_update less_Suc_eq)
    moreover have "(apids (partly_booted fl w n))(2 * n \<mapsto> keep_gains (the (cfg_apids fl (2 * n))),
              2 * n + 1 \<mapsto> keep_gains (the (cfg_apids fl (2 * n + 1)))) =
        apids (partly_booted fl w (Suc n))"
    proof
      fix a
      have "a = 2 * n \<or> a = 2 * n + 1 \<or> a < 2 * n \<or> \<not> a < 2 * Suc n" by arith
      then show "((apids (partly_booted fl w n))(2 * n \<mapsto> keep_gains (the (cfg_apids fl (2 * n))),
              2 * n + 1 \<mapsto> keep_gains (the (cfg_apids fl (2 * n + 1))))) a =
          apids (partly_booted fl w (Suc n)) a"
        by (elim disjE) (use assms in \<open>auto simp: partly_booted_def cfg_apids_def\<close>)
    qed
    ultimately show ?thesis by (simp add: partly_booted_def)
  qed
  finally show ?thesis .
qed

lemma motor_init_booted: "motor_init mal (motor_cfg fl w) = Inr (booted fl w)"
proof -
  have 0: "motor_cfg fl w = partly_booted fl w 0"
  proof -
    have "cfg_motors = map (\<lambda>j. cfg_motors ! j) [0..<4]"
      by (simp add: cfg_motors_def MOTOR_NUM_def upt_4)
    then show ?thesis by (simp add: motor_cfg_def partly_booted_def option.map_id)
  qed
  have 4: "partly_booted fl w 4 = booted fl w"
  proof -
    have "apids (partly_booted fl w 4) = apids (booted fl w)"
      by (rule ext) (simp add: partly_booted_def booted_def cfg_apids_def)
    then show ?thesis by (simp add: partly_booted_def booted_def cong: map_cong)
  qed
  have s: "motor_init_one mal (partly_booted fl w 0) 0 = Inr (partly_booted fl w 1)"
    "motor_init_one mal (partly_booted fl w 1) 1 = Inr (partly_booted fl w 2)"
    "motor_init_one mal (partly_booted fl w 2) 2 = Inr (partly_booted fl w 3)"
    "motor_init_one mal (partly_booted fl w 3) 3 = Inr (partly_booted fl w 4)"
    using motor_init_step [of 0] motor_init_step [of 1] motor_init_step [of 2] motor_init_step [of 3]
    by (simp_all add: numeral_eq_Suc)
  have "nat MOTOR_NUM = 4" by (simp add: MOTOR_NUM_def)
  then show ?thesis
    using s by (simp add: motor_init_def 0 upt_4 4 del: One_nat_def)
qed

lemma pid_ready_keep_gains [simp]: "pid_ready (keep_gains p)"
  by (simp add: pid_ready_def keep_gains_def APID_Init_def APID_Reset_def OUT_MAX_def FLT_MAX_def)

lemma nth_booted:
  assumes "j < 4"
  shows "motor_list (booted fl w) ! j = level1 j (MOTOR_INIT_OPS_PID_ALL j
    MOTOR_CONTROL_SUPPORT_TORQUE None (Some (2 * j)) (Some (2 * j + 1)))"
  using assms by (simp add: booted_def cfg_motors_def MOTOR_NUM_def)

lemma booted_drive: "j < 4 \<Longrightarrow> drive_ok (booted fl w) j"
  by (simp add: drive_ok_def nth_booted motors_ok_def MOTOR_NUM_def level1_def
      MOTOR_INIT_OPS_PID_ALL_def pid_at_def)
    (simp add: booted_def cfg_apids_def)

subsection \<open>Properties\<close>

text \<open>The state in which the handler calls the cascade of a passive motor.\<close>

lemma motor_handle_passive:
  assumes "drive_ok st j" and "m = motor_list st ! j" and "flag_passive_feedback m"
    and "ops m = Some p" and "time_add fl (mtime m) c = Inr t"
    and "st3 = put_motor st j (\<lambda>m. m\<lparr>mtime := t, flag_is_stop := False\<rparr>)"
  shows "motor_handle ctl drv fl st (int j) c =
    bind_res (motor_behiver_2 fl st3 (int j) (ucast (flag_run_mode m)) c) (\<lambda>st4.
    bind_res (drv p (int j) (ucast (flag_out_mode (motor_list st4 ! j))) (acc_out (motor_list st4 ! j)) st4)
      (\<lambda>(v, st5). Inr (put_motor st5 j (\<lambda>m. m\<lparr>acc_out := v\<rparr>))))"
proof -
  have ok: "motors_ok st" "j < nat MOTOR_NUM" "int j < MOTOR_NUM" "behaver m = Some Behiver_2"
    using assms(1,2) by (auto simp: drive_ok_def Let_def MOTOR_NUM_def)
  have st3: "put_motor (put_motor st j (\<lambda>m. m\<lparr>mtime := t\<rparr>)) j (\<lambda>m. m\<lparr>flag_is_stop := False\<rparr>) = st3"
    using ok(1,2) by (simp add: assms(6) put_motor_def motors_ok_def)
  have m3: "motor_list st3 ! j = m\<lparr>mtime := t, flag_is_stop := False\<rparr>"
    using ok assms(2,6) by (simp add: nth_put_motor)
  show ?thesis
    using ok assms(2-5) m3 st3
    by (simp add: motor_handle_def Let_def call_behaver_def del: bind_res_eq_Inr)
qed

text \<open>
  C6: The periodic handler of a motor that is driven through the torque cascade and gets its
  feedback from the CAN interrupt, for every rounding, every driver and every nonzero period:
  it computes a command and hands it to the driver in torque mode. In position mode the
  position controller's output becomes the target of the speed controller and the speed
  controller's output is the command; in speed mode the target given is used; in torque mode
  the given torque is the command; an idle motor keeps its last command. The command and the
  inner target respect the output limits of the two controllers, the other motors are not
  touched and the motor stays fit for the next call.
\<close>

theorem motor_handle_commands:
  assumes "drive_ok st j" and "m = motor_list st ! j" and "flag_passive_feedback m"
    and "ops m = Some p" and "time_add fl (mtime m) c = Inr t" and "c \<noteq> 0"
  shows "\<exists>st'. cascade_result fl (put_motor st j (\<lambda>m. m\<lparr>mtime := t, flag_is_stop := False\<rparr>)) j c st' \<and>
    motor_handle ctl drv fl st (int j) c =
      bind_res (drv p (int j) MOTOR_MODE_TORQUE (acc_out (motor_list st' ! j)) st')
        (\<lambda>(v, st''). Inr (put_motor st'' j (\<lambda>m. m\<lparr>acc_out := v\<rparr>)))"
proof -
  let ?st = "put_motor st j (\<lambda>m. m\<lparr>mtime := t, flag_is_stop := False\<rparr>)"
  have d: "drive_ok ?st j" using assms(1) by (rule drive_ok_put) simp
  have m3: "flag_run_mode (motor_list ?st ! j) = flag_run_mode m"
    using assms(1,2) by (simp add: drive_ok_def nth_put_motor)
  obtain st' where st':
    "motor_behiver_2 fl ?st (int j) (ucast (flag_run_mode (motor_list ?st ! j))) c = Inr st'"
    "cascade_result fl ?st j c st'"
    by (rule behiver_2_cascade [OF d assms(6)])
  have "flag_out_mode (motor_list st' ! j) = MOTOR_CONTROL_SUPPORT_TORQUE"
    using st'(2) by (simp add: cascade_result_def Let_def drive_ok_def)
  then show ?thesis
    using st' motor_handle_passive [OF assms(1-5) refl, of ctl drv] m3
    by (intro exI [of _ st']) (simp add: motor_modes del: bind_res_eq_Inr)
qed

definition demo_motors :: "unit motors" where
  "demo_motors = put_motor (booted (\<lambda>x. x) ()) 0
     (\<lambda>m. m\<lparr>flag_passive_feedback := True, flag_run_mode := 3, tar_pos := 10, acc_out := 7\<rparr>)"

lemma demo_motors_facts:
  "drive_ok demo_motors 0" "flag_passive_feedback (motor_list demo_motors ! 0)"
  "ops (motor_list demo_motors ! 0) = Some 0" "time_add (\<lambda>x. x) (mtime (motor_list demo_motors ! 0)) 1 = Inr 1"
  "motors_ok demo_motors"
proof -
  have n: "motor_list demo_motors ! 0 = (level1 0 (MOTOR_INIT_OPS_PID_ALL 0
    MOTOR_CONTROL_SUPPORT_TORQUE None (Some 0) (Some 1)))
    \<lparr>flag_passive_feedback := True, flag_run_mode := 3, tar_pos := 10, acc_out := 7\<rparr>"
    using booted_drive [of 0 "\<lambda>x. x" "()"] nth_booted [of 0 "\<lambda>x. x" "()"]
    by (simp add: demo_motors_def nth_put_motor drive_ok_def MOTOR_NUM_def)
  show "drive_ok demo_motors 0"
    unfolding demo_motors_def by (rule drive_ok_put [OF booted_drive]) simp_all
  then show "motors_ok demo_motors" by (simp add: drive_ok_def)
  show "flag_passive_feedback (motor_list demo_motors ! 0)" "ops (motor_list demo_motors ! 0) = Some 0"
    "time_add (\<lambda>x. x) (mtime (motor_list demo_motors ! 0)) 1 = Inr 1"
    by (simp_all add: n level1_def MOTOR_INIT_OPS_PID_ALL_def time_add_def)
qed

theorem motor_handle_commands_witness:
  "\<exists>st' v. motor_handle (\<lambda>_ _ _ v st. Inr (v, st)) (\<lambda>_ _ _ v st. Inr (v, st)) (\<lambda>x. x) demo_motors 0 1 =
     Inr (put_motor st' 0 (\<lambda>m. m\<lparr>acc_out := v\<rparr>)) \<and> drive_ok st' 0"
  using motor_handle_commands [OF demo_motors_facts(1) refl demo_motors_facts(2,3,4),
      of "\<lambda>_ _ _ v st. Inr (v, st)" "\<lambda>_ _ _ v st. Inr (v, st)"]
  by (auto simp: cascade_result_def Let_def)

text \<open>
  \<open>motor_stop\<close> does not stop a motor: the handler clears the stop flag before it tests it,
  so for every driver and rounding the call after \<open>motor_stop\<close> does exactly what it would have
  done without it.
\<close>

theorem motor_stop_no_effect:
  assumes "drive_ok st j" and "flag_passive_feedback (motor_list st ! j)"
  shows "\<exists>st'. motor_stop st (int j) = Inr st' \<and> flag_is_stop (motor_list st' ! j) \<and>
    motor_handle ctl drv fl st' (int j) c = motor_handle ctl drv fl st (int j) c"
proof -
  let ?st = "put_motor st j (\<lambda>m. m\<lparr>flag_is_stop := True\<rparr>)"
  define m where "m = motor_list st ! j"
  have ok: "motors_ok st" "j < nat MOTOR_NUM" "int j < MOTOR_NUM"
    using assms(1) by (auto simp: drive_ok_def MOTOR_NUM_def)
  obtain p where p: "ops m = Some p" using assms(1) by (auto simp: drive_ok_def Let_def m_def)
  have n: "motor_list ?st ! j = m\<lparr>flag_is_stop := True\<rparr>" using ok by (simp add: nth_put_motor m_def)
  have d: "drive_ok ?st j" using assms(1) by (rule drive_ok_put) simp
  have "motor_handle ctl drv fl ?st (int j) c = motor_handle ctl drv fl st (int j) c"
  proof (cases "time_add fl (mtime m) c")
    case (Inl e)
    then show ?thesis using ok n p m_def by (simp add: motor_handle_def)
  next
    case (Inr t)
    have "put_motor ?st j (\<lambda>m. m\<lparr>mtime := t, flag_is_stop := False\<rparr>) =
        put_motor st j (\<lambda>m. m\<lparr>mtime := t, flag_is_stop := False\<rparr>)"
      using ok(1,2) by (simp add: put_motor_def motors_ok_def)
    moreover note motor_handle_passive [OF assms(1) m_def _ p Inr refl, of ctl drv]
      motor_handle_passive [OF d n [symmetric] _ _ _ refl, of p fl c t ctl drv]
    ultimately show ?thesis using assms(2) p Inr by (simp add: m_def del: bind_res_eq_Inr)
  qed
  moreover have "motor_stop st (int j) = Inr ?st" using ok by (simp add: motor_stop_def)
  ultimately show ?thesis using n by (intro exI [of _ ?st]) simp
qed

theorem motor_stop_no_effect_witness:
  "\<exists>st'. motor_stop demo_motors 0 = Inr st' \<and>
     motor_handle (\<lambda>_ _ _ v st. Inr (v, st)) (\<lambda>_ _ _ v st. Inr (v, st)) (\<lambda>x. x) st' 0 1 =
     motor_handle (\<lambda>_ _ _ v st. Inr (v, st)) (\<lambda>_ _ _ v st. Inr (v, st)) (\<lambda>x. x) demo_motors 0 1"
  using motor_stop_no_effect [OF demo_motors_facts(1,2), of "\<lambda>_ _ _ v st. Inr (v, st)"
      "\<lambda>_ _ _ v st. Inr (v, st)" "\<lambda>x. x" 1]
  by auto

end
