(* ===== verification/Chassis.thy ===== *)
theory Chassis
  imports Motor
begin

section \<open>The chassis (chassis.c, chassis_module_mai.c, chassis_module_mai_ops.c)\<close>

text \<open>
  The chassis layer turns a target of the whole robot into targets of its four mecanum
  wheels and back. \<open>fl\<close> rounds to \<open>float\<close> and \<open>fd\<close> to \<open>double\<close>: the literals without suffix
  make a part of the arithmetic double precision. The divisors are the constants of the
  geometry. The chassis object is \<open>chassis_mai\<close>, the only one of the program; the
  \<open>output\<close> and \<open>input\<close> pointers of a module or driver are either null (\<open>False\<close>) or point to
  \<open>mai_data\<close>.
\<close>

subsection \<open>Data\<close>

datatype chassis_status = CHASSIS_IDLE | CHASSIS_SPEED | CHASSIS_POS

datatype chassis_ops = Ops_mai | Ops_mai_ops

record chassis_speed_t =
  x_m_s :: real
  y_m_s :: real
  z_rad_s :: real

record chassis_pos_t =
  x_m :: real
  y_m :: real
  z_rad :: real

record chassis_data_t =
  cspeed :: chassis_speed_t
  cpos :: chassis_pos_t

record chassis_t =
  ctarget :: chassis_data_t
  cpresent :: chassis_data_t
  crun_status :: chassis_status
  cops :: "chassis_ops option"
  coffset :: chassis_data_t

record chassis_mai_data_t =
  ctype :: chassis_status
  motor1 :: real
  motor2 :: real
  motor3 :: real
  motor4 :: real

text \<open>What the chassis code works on: the chassis, the wheel data, the motors, the position sensor.\<close>

record 'w robot =
  chassis_mai :: chassis_t
  mai_data :: chassis_mai_data_t
  bank :: "'w motors"
  ops_pos_x :: real
  ops_pos_y :: real
  ops_w_z :: real

subsection \<open>The chassis layer\<close>

definition chassis_init :: "'w robot \<Rightarrow> chassis_ops option \<Rightarrow> 'w robot" where
  "chassis_init st p =
     st\<lparr>chassis_mai := (chassis_mai st)\<lparr>cops := p, crun_status := CHASSIS_IDLE\<rparr>\<rparr>"

definition chassis_set_pos :: "'w robot \<Rightarrow> chassis_pos_t \<Rightarrow> 'w robot" where
  "chassis_set_pos st d =
     st\<lparr>chassis_mai := (chassis_mai st)\<lparr>ctarget := (ctarget (chassis_mai st))\<lparr>cpos := d\<rparr>,
        crun_status := CHASSIS_POS\<rparr>\<rparr>"

definition chassis_set_speed :: "'w robot \<Rightarrow> chassis_speed_t \<Rightarrow> 'w robot" where
  "chassis_set_speed st d =
     st\<lparr>chassis_mai := (chassis_mai st)\<lparr>ctarget := (ctarget (chassis_mai st))\<lparr>cspeed := d\<rparr>,
        crun_status := CHASSIS_SPEED\<rparr>\<rparr>"

definition chassis_get_pos :: "'w robot \<Rightarrow> chassis_pos_t" where
  "chassis_get_pos st = cpos (cpresent (chassis_mai st))"

definition chassis_pos_clean :: "'w robot \<Rightarrow> 'w robot" where
  "chassis_pos_clean st =
     st\<lparr>chassis_mai := (chassis_mai st)\<lparr>cpresent := (cpresent (chassis_mai st))
        \<lparr>cpos := cpos (ctarget (chassis_mai st))\<rparr>\<rparr>\<rparr>"

definition chassis_get_speed :: "'w robot \<Rightarrow> chassis_speed_t" where
  "chassis_get_speed st = cspeed (cpresent (chassis_mai st))"

definition chassis_get_runstate :: "'w robot \<Rightarrow> chassis_status" where
  "chassis_get_runstate st = crun_status (chassis_mai st)"

subsection \<open>The mecanum modules\<close>

record geometry =
  half_a_b :: real
  two_pi_r :: real
  conversion :: real

definition mai_geometry :: "rounding \<Rightarrow> rounding \<Rightarrow> geometry" where
  "mai_geometry fl fd =
     (let r = fl (fl 0.07 / 2) in
      \<lparr>half_a_b = fd (0.5 * fl (fl 0.1235 + fl 0.1775)),
       two_pi_r = fd (fd 6.28318530718 * r),
       conversion = fl (fl (180 / r) / fl 3.14159265359)\<rparr>)"

definition mai_ops_geometry :: "rounding \<Rightarrow> rounding \<Rightarrow> geometry" where
  "mai_ops_geometry fl fd =
     (let r = fl 0.034904 in
      \<lparr>half_a_b = fd (0.5 * fl (fl 0.129 + fl 0.17906)),
       two_pi_r = fd (fd 6.28318530718 * r),
       conversion = fl (fl (180 / r) / fl 3.14159265359)\<rparr>)"

text \<open>
  One wheel: \<open>v\<close> is the sum or difference of the two translations, \<open>w\<close> the rotation.
\<close>

definition wheel_speed :: "rounding \<Rightarrow> rounding \<Rightarrow> geometry \<Rightarrow> real \<Rightarrow> real \<Rightarrow> real" where
  "wheel_speed fl fd g v w = fl (fd (fd (- fd (v - fd (w * half_a_b g)) / two_pi_r g) * 60))"

definition wheel_angle :: "rounding \<Rightarrow> rounding \<Rightarrow> geometry \<Rightarrow> real \<Rightarrow> real \<Rightarrow> real" where
  "wheel_angle fl fd g v w = fl (fd (fd (v - fd (w * half_a_b g)) * conversion g))"

definition speed_output :: "rounding \<Rightarrow> rounding \<Rightarrow> geometry \<Rightarrow> chassis_t \<Rightarrow> chassis_mai_data_t \<Rightarrow> chassis_mai_data_t" where
  "speed_output fl fd g c d =
     (let x = fl (x_m_s (cspeed (ctarget c)) + x_m_s (cspeed (coffset c)));
          y = fl (y_m_s (cspeed (ctarget c)) + y_m_s (cspeed (coffset c)));
          z = fl (z_rad_s (cspeed (ctarget c)) + z_rad_s (cspeed (coffset c)))
      in d\<lparr>motor1 := wheel_speed fl fd g (fl (x - y)) z,
           motor2 := wheel_speed fl fd g (fl (x + y)) z,
           motor3 := wheel_speed fl fd g (fl (x + y)) z,
           motor4 := wheel_speed fl fd g (fl (x - y)) z\<rparr>)"

definition pos_output :: "rounding \<Rightarrow> rounding \<Rightarrow> geometry \<Rightarrow> chassis_t \<Rightarrow> chassis_mai_data_t \<Rightarrow> chassis_mai_data_t" where
  "pos_output fl fd g c d =
     (let x = fl (x_m (cpos (ctarget c)) + x_m (cpos (coffset c)));
          y = fl (y_m (cpos (ctarget c)) + y_m (cpos (coffset c)));
          z = fl (z_rad (cpos (ctarget c)) + z_rad (cpos (coffset c)))
      in d\<lparr>motor1 := wheel_angle fl fd g (fl (x + y)) z,
           motor2 := wheel_angle fl fd g (fl (x - y)) z,
           motor3 := wheel_angle fl fd g (fl (- x - y)) z,
           motor4 := wheel_angle fl fd g (fl (- x + y)) z\<rparr>)"

definition speed_input :: "rounding \<Rightarrow> rounding \<Rightarrow> geometry \<Rightarrow> chassis_mai_data_t \<Rightarrow> chassis_t \<Rightarrow> chassis_t" where
  "speed_input fl fd g d c =
     (let o' = cspeed (coffset c);
          rate = (\<lambda>v. fd (fd (v / two_pi_r g) * 60))
      in c\<lparr>cpresent := (cpresent c)\<lparr>cspeed :=
           \<lparr>x_m_s = fl (fd (x_m_s o' + fd (rate (fl (motor1 d - motor2 d)) / 2))),
            y_m_s = fl (fd (y_m_s o' + fd (rate (fl (- motor2 d + motor4 d)) / 2))),
            z_rad_s = fl (fd (z_rad_s o' + fd (rate (- fl (motor3 d + motor2 d)) / fd (2 * half_a_b g))))\<rparr>\<rparr>\<rparr>)"

definition pos_input :: "rounding \<Rightarrow> rounding \<Rightarrow> geometry \<Rightarrow> chassis_mai_data_t \<Rightarrow> chassis_t \<Rightarrow> chassis_t" where
  "pos_input fl fd g d c =
     (let o' = cpos (coffset c);
          a = fl (fl (fl (motor1 d + motor2 d) - motor3 d) - motor4 d);
          b = fl (fl (fl (motor1 d - motor2 d) - motor3 d) + motor4 d);
          e = fl (fl (fl (motor1 d + motor2 d) + motor3 d) + motor4 d)
      in c\<lparr>cpresent := (cpresent c)\<lparr>cpos :=
           \<lparr>x_m = fl (x_m o' + fl (fl (a / 4) / conversion g)),
            y_m = fl (y_m o' + fl (fl (b / 4) / conversion g)),
            z_rad = fl (fd (z_rad o' - fd (fd (fd (e / half_a_b g) / 4) / conversion g)))\<rparr>\<rparr>\<rparr>)"

definition module_mai ::
    "rounding \<Rightarrow> rounding \<Rightarrow> bool \<Rightarrow> bool \<Rightarrow> chassis_status \<Rightarrow> 'w robot \<Rightarrow> 'w robot" where
  "module_mai fl fd output input require_cmd st =
     (let g = mai_geometry fl fd;
          st1 = (if output then
                   let d = (mai_data st)\<lparr>ctype := require_cmd\<rparr> in
                   st\<lparr>mai_data := (case require_cmd of
                        CHASSIS_SPEED \<Rightarrow> speed_output fl fd g (chassis_mai st) d
                      | CHASSIS_POS \<Rightarrow> pos_output fl fd g (chassis_mai st) d
                      | CHASSIS_IDLE \<Rightarrow> d)\<rparr>
                 else st)
      in if input then
           st1\<lparr>chassis_mai := (case require_cmd of
                CHASSIS_SPEED \<Rightarrow> speed_input fl fd g (mai_data st1) (chassis_mai st1)
              | CHASSIS_POS \<Rightarrow> pos_input fl fd g (mai_data st1) (chassis_mai st1)
              | CHASSIS_IDLE \<Rightarrow> chassis_mai st1)\<rparr>
         else st1)"

definition module_mai_ops ::
    "rounding \<Rightarrow> rounding \<Rightarrow> bool \<Rightarrow> bool \<Rightarrow> chassis_status \<Rightarrow> 'w robot \<Rightarrow> 'w robot" where
  "module_mai_ops fl fd output input require_cmd st =
     (let g = mai_ops_geometry fl fd;
          st1 = (if output then
                   let d = (mai_data st)\<lparr>ctype := require_cmd\<rparr> in
                   st\<lparr>mai_data := (case require_cmd of
                        CHASSIS_SPEED \<Rightarrow> speed_output fl fd g (chassis_mai st) d
                      | CHASSIS_POS \<Rightarrow> pos_output fl fd g (chassis_mai st) d
                      | CHASSIS_IDLE \<Rightarrow> d)\<rparr>
                 else st)
      in if input then
           st1\<lparr>chassis_mai := (case require_cmd of
                CHASSIS_SPEED \<Rightarrow> speed_input fl fd g (mai_data st1) (chassis_mai st1)
              | CHASSIS_POS \<Rightarrow> (chassis_mai st1)\<lparr>cpresent := (cpresent (chassis_mai st1))\<lparr>cpos :=
                    \<lparr>x_m = ops_pos_x st1, y_m = ops_pos_y st1, z_rad = ops_w_z st1\<rparr>\<rparr>\<rparr>
              | CHASSIS_IDLE \<Rightarrow> chassis_mai st1)\<rparr>
         else st1)"

subsection \<open>The drivers\<close>

text \<open>Reading the four motors and giving them the four values of \<open>mai_data\<close>.\<close>

definition read_motors :: "('w motors \<Rightarrow> int \<Rightarrow> real res) \<Rightarrow> 'w robot \<Rightarrow> 'w robot res" where
  "read_motors get st =
     bind_res (get (bank st) M2006_1_CAN1) (\<lambda>a.
     bind_res (get (bank st) M2006_2_CAN1) (\<lambda>b.
     bind_res (get (bank st) M2006_3_CAN1) (\<lambda>c.
     bind_res (get (bank st) M2006_4_CAN1) (\<lambda>d.
     Inr (st\<lparr>mai_data := (mai_data st)\<lparr>motor1 := a, motor2 := b, motor3 := c, motor4 := d\<rparr>\<rparr>)))))"

definition set_motors ::
    "('w motors \<Rightarrow> int \<Rightarrow> real \<Rightarrow> 'w motors res) \<Rightarrow> 'w robot \<Rightarrow> 'w robot res" where
  "set_motors give st =
     bind_res (bind_res (give (bank st) M2006_1_CAN1 (motor1 (mai_data st))) (\<lambda>s.
       bind_res (give s M2006_2_CAN1 (motor2 (mai_data st))) (\<lambda>s.
       bind_res (give s M2006_3_CAN1 (motor3 (mai_data st))) (\<lambda>s.
       give s M2006_4_CAN1 (motor4 (mai_data st)))))) (\<lambda>s. Inr (st\<lparr>bank := s\<rparr>))"

definition driver_mai :: "bool \<Rightarrow> bool \<Rightarrow> chassis_status \<Rightarrow> 'w robot \<Rightarrow> 'w robot res" where
  "driver_mai output input require_cmd st =
     bind_res (if input then
                 (case require_cmd of
                    CHASSIS_SPEED \<Rightarrow> read_motors motor_get_speed st
                  | CHASSIS_POS \<Rightarrow> read_motors motor_get_pos st
                  | CHASSIS_IDLE \<Rightarrow> Inr st)
               else Inr st) (\<lambda>st1.
     if output then
       (case require_cmd of
          CHASSIS_SPEED \<Rightarrow> set_motors motor_set_speed st1
        | CHASSIS_POS \<Rightarrow> set_motors motor_set_pos st1
        | CHASSIS_IDLE \<Rightarrow> Inr st1)
     else Inr st1)"

definition driver_mai_ops :: "bool \<Rightarrow> bool \<Rightarrow> chassis_status \<Rightarrow> 'w robot \<Rightarrow> 'w robot res" where
  "driver_mai_ops output input require_cmd st =
     bind_res (if input then
                 (case require_cmd of
                    CHASSIS_SPEED \<Rightarrow> read_motors motor_get_speed st
                  | CHASSIS_POS \<Rightarrow> Inr (st\<lparr>mai_data := (mai_data st)
                      \<lparr>motor1 := 0, motor2 := 0, motor3 := 0, motor4 := 0\<rparr>\<rparr>)
                  | CHASSIS_IDLE \<Rightarrow> Inr st)
               else Inr st) (\<lambda>st1.
     if output then
       (case require_cmd of
          CHASSIS_SPEED \<Rightarrow> set_motors motor_set_speed st1
        | CHASSIS_POS \<Rightarrow> set_motors motor_set_speed st1
        | CHASSIS_IDLE \<Rightarrow> Inr st1)
     else Inr st1)"

subsection \<open>The periodic handler\<close>

text \<open>Calls through \<open>chassis->ops\<close>.\<close>

definition call_module ::
    "rounding \<Rightarrow> rounding \<Rightarrow> bool \<Rightarrow> bool \<Rightarrow> chassis_status \<Rightarrow> 'w robot \<Rightarrow> 'w robot res" where
  "call_module fl fd output input cmd st =
     (case cops (chassis_mai st) of
        None \<Rightarrow> Inl NullDeref
      | Some Ops_mai \<Rightarrow> Inr (module_mai fl fd output input cmd st)
      | Some Ops_mai_ops \<Rightarrow> Inr (module_mai_ops fl fd output input cmd st))"

definition call_driver :: "bool \<Rightarrow> bool \<Rightarrow> chassis_status \<Rightarrow> 'w robot \<Rightarrow> 'w robot res" where
  "call_driver output input cmd st =
     (case cops (chassis_mai st) of
        None \<Rightarrow> Inl NullDeref
      | Some Ops_mai \<Rightarrow> driver_mai output input cmd st
      | Some Ops_mai_ops \<Rightarrow> driver_mai_ops output input cmd st)"

definition chassis_updata_speed :: "rounding \<Rightarrow> rounding \<Rightarrow> 'w robot \<Rightarrow> 'w robot res" where
  "chassis_updata_speed fl fd st =
     bind_res (call_driver False True CHASSIS_SPEED st) (call_module fl fd False True CHASSIS_SPEED)"

definition chassis_updata_pos :: "rounding \<Rightarrow> rounding \<Rightarrow> 'w robot \<Rightarrow> 'w robot res" where
  "chassis_updata_pos fl fd st =
     bind_res (call_driver False True CHASSIS_POS st) (call_module fl fd False True CHASSIS_POS)"

definition chassis_drv_set_speed :: "rounding \<Rightarrow> rounding \<Rightarrow> 'w robot \<Rightarrow> 'w robot res" where
  "chassis_drv_set_speed fl fd st =
     bind_res (call_module fl fd True False CHASSIS_SPEED st) (call_driver True False CHASSIS_SPEED)"

definition chassis_drv_set_pos :: "rounding \<Rightarrow> rounding \<Rightarrow> 'w robot \<Rightarrow> 'w robot res" where
  "chassis_drv_set_pos fl fd st =
     bind_res (call_module fl fd True False CHASSIS_POS st) (call_driver True False CHASSIS_POS)"

definition chassis_updata_offset :: "'w robot \<Rightarrow> 'w robot" where
  "chassis_updata_offset st =
     st\<lparr>chassis_mai := (chassis_mai st)\<lparr>coffset := (coffset (chassis_mai st))
        \<lparr>cpos := \<lparr>x_m = 0, y_m = 0, z_rad = 0\<rparr>\<rparr>\<rparr>\<rparr>"

definition chassis_handle :: "rounding \<Rightarrow> rounding \<Rightarrow> bool \<Rightarrow> 'w robot \<Rightarrow> (int \<times> 'w robot) res" where
  "chassis_handle fl fd null st =
     (if null then Inr (- 1, st)
      else
        bind_res (chassis_updata_speed fl fd st) (\<lambda>st1.
        bind_res (chassis_updata_pos fl fd st1) (\<lambda>st2.
        let st3 = chassis_updata_offset st2 in
        bind_res (case crun_status (chassis_mai st3) of
                    CHASSIS_IDLE \<Rightarrow> Inr st3
                  | CHASSIS_SPEED \<Rightarrow> chassis_drv_set_speed fl fd st3
                  | CHASSIS_POS \<Rightarrow> chassis_drv_set_pos fl fd st3) (\<lambda>st4.
        Inr (0, st4)))))"

subsection \<open>The chassis thread (chassis_port.c)\<close>

text \<open>
  The thread sets the position target once, from a global that is zero at start, and calls
  the handler every 50 ms; what the other threads do in between is the list of functions
  \<open>others\<close>, one per round.
\<close>

definition chassis_port_start :: "chassis_pos_t \<Rightarrow> 'w robot \<Rightarrow> 'w robot" where
  "chassis_port_start chassis_pos st = chassis_set_pos st (chassis_pos\<lparr>z_rad := 0\<rparr>)"

fun chassis_port_rounds ::
    "rounding \<Rightarrow> rounding \<Rightarrow> ('w robot \<Rightarrow> 'w robot) list \<Rightarrow> 'w robot \<Rightarrow> 'w robot res" where
  "chassis_port_rounds fl fd [] st = Inr st"
| "chassis_port_rounds fl fd (f # fs) st =
     bind_res (chassis_handle fl fd False st) (\<lambda>(r, st'). chassis_port_rounds fl fd fs (f st'))"

definition chassis_port_init :: "'w robot \<Rightarrow> 'w robot" where
  "chassis_port_init st = chassis_init st (Some Ops_mai)"

subsection \<open>What the steps of the handler do\<close>

lemma get_ok [simp]:
  "motors_ok b \<Longrightarrow> 0 \<le> i \<Longrightarrow> i < MOTOR_NUM \<Longrightarrow> motor_get_pos b i = Inr (cur_pos (motor_list b ! nat i))"
  "motors_ok b \<Longrightarrow> 0 \<le> i \<Longrightarrow> i < MOTOR_NUM \<Longrightarrow> motor_get_speed b i = Inr (cur_speed (motor_list b ! nat i))"
  by (simp_all add: motor_get_pos_def motor_get_speed_def)

lemmas motor_ids = M2006_1_CAN1_def M2006_2_CAN1_def M2006_3_CAN1_def M2006_4_CAN1_def MOTOR_NUM_def

lemma read_motors_pos:
  "motors_ok (bank st) \<Longrightarrow> read_motors motor_get_pos st =
     Inr (st\<lparr>mai_data := (mai_data st)\<lparr>motor1 := cur_pos (motor_list (bank st) ! 0),
       motor2 := cur_pos (motor_list (bank st) ! 1), motor3 := cur_pos (motor_list (bank st) ! 2),
       motor4 := cur_pos (motor_list (bank st) ! 3)\<rparr>\<rparr>)"
  by (simp add: read_motors_def motor_ids)

lemma read_motors_speed:
  "motors_ok (bank st) \<Longrightarrow> read_motors motor_get_speed st =
     Inr (st\<lparr>mai_data := (mai_data st)\<lparr>motor1 := cur_speed (motor_list (bank st) ! 0),
       motor2 := cur_speed (motor_list (bank st) ! 1), motor3 := cur_speed (motor_list (bank st) ! 2),
       motor4 := cur_speed (motor_list (bank st) ! 3)\<rparr>\<rparr>)"
  by (simp add: read_motors_def motor_ids)

lemma set_motors_pos:
  assumes "motors_ok (bank st)"
  obtains b where "set_motors motor_set_pos st = Inr (st\<lparr>bank := b\<rparr>)" "motors_ok b"
    "pos_command b 0 = (3, motor1 (mai_data st))" "pos_command b 1 = (3, motor2 (mai_data st))"
    "pos_command b 2 = (3, motor3 (mai_data st))" "pos_command b 3 = (3, motor4 (mai_data st))"
  by (rule pos_bank.give_four [OF assms, of "motor1 (mai_data st)" "motor2 (mai_data st)"
        "motor3 (mai_data st)" "motor4 (mai_data st)"])
    (use that in \<open>simp add: set_motors_def motor_ids MOTOR_MODE_POS_def del: bind_res_eq_Inr\<close>)

lemma set_motors_speed:
  assumes "motors_ok (bank st)"
  obtains b where "set_motors motor_set_speed st = Inr (st\<lparr>bank := b\<rparr>)" "motors_ok b"
    "speed_command b 0 = (2, motor1 (mai_data st))" "speed_command b 1 = (2, motor2 (mai_data st))"
    "speed_command b 2 = (2, motor3 (mai_data st))" "speed_command b 3 = (2, motor4 (mai_data st))"
  by (rule speed_bank.give_four [OF assms, of "motor1 (mai_data st)" "motor2 (mai_data st)"
        "motor3 (mai_data st)" "motor4 (mai_data st)"])
    (use that in \<open>simp add: set_motors_def motor_ids MOTOR_MODE_SPEED_def del: bind_res_eq_Inr\<close>)

text \<open>
  The measuring half of the handler: everything but the wheel data and the measured values
  is as before, and the offset of the position is cleared.
\<close>

definition mai_ready :: "'w robot \<Rightarrow> bool" where
  "mai_ready st \<longleftrightarrow> motors_ok (bank st) \<and> cops (chassis_mai st) = Some Ops_mai"

lemma chassis_measure:
  assumes "mai_ready st"
  obtains st2 where
    "bind_res (chassis_updata_speed fl fd st) (chassis_updata_pos fl fd) = Inr st2"
    "bank st2 = bank st" "cops (chassis_mai st2) = Some Ops_mai"
    "ctarget (chassis_mai st2) = ctarget (chassis_mai st)"
    "coffset (chassis_mai st2) = coffset (chassis_mai st)"
    "crun_status (chassis_mai st2) = crun_status (chassis_mai st)"
    "cspeed (cpresent (chassis_mai st2)) = cspeed (cpresent (speed_input fl fd (mai_geometry fl fd)
       ((mai_data st)\<lparr>motor1 := cur_speed (motor_list (bank st) ! 0),
         motor2 := cur_speed (motor_list (bank st) ! 1), motor3 := cur_speed (motor_list (bank st) ! 2),
         motor4 := cur_speed (motor_list (bank st) ! 3)\<rparr>) (chassis_mai st)))"
    "cpos (cpresent (chassis_mai st2)) = cpos (cpresent (pos_input fl fd (mai_geometry fl fd)
       ((mai_data st)\<lparr>motor1 := cur_pos (motor_list (bank st) ! 0),
         motor2 := cur_pos (motor_list (bank st) ! 1), motor3 := cur_pos (motor_list (bank st) ! 2),
         motor4 := cur_pos (motor_list (bank st) ! 3)\<rparr>) (chassis_mai st)))"
proof -
  let ?d = "(mai_data st)\<lparr>motor1 := cur_speed (motor_list (bank st) ! 0),
         motor2 := cur_speed (motor_list (bank st) ! 1), motor3 := cur_speed (motor_list (bank st) ! 2),
         motor4 := cur_speed (motor_list (bank st) ! 3)\<rparr>"
  let ?st1 = "st\<lparr>mai_data := ?d, chassis_mai := speed_input fl fd (mai_geometry fl fd) ?d (chassis_mai st)\<rparr>"
  have f: "bank ?st1 = bank st" "cops (chassis_mai ?st1) = Some Ops_mai"
    "motors_ok (bank st)" "cops (chassis_mai st) = Some Ops_mai"
    using assms by (simp_all add: mai_ready_def speed_input_def Let_def)
  have s: "chassis_updata_speed fl fd st = Inr ?st1"
    using f by (simp add: chassis_updata_speed_def call_driver_def driver_mai_def call_module_def
        module_mai_def read_motors_speed Let_def)
  let ?e = "(mai_data ?st1)\<lparr>motor1 := cur_pos (motor_list (bank st) ! 0),
         motor2 := cur_pos (motor_list (bank st) ! 1), motor3 := cur_pos (motor_list (bank st) ! 2),
         motor4 := cur_pos (motor_list (bank st) ! 3)\<rparr>"
  let ?st2 = "?st1\<lparr>mai_data := ?e, chassis_mai := pos_input fl fd (mai_geometry fl fd) ?e (chassis_mai ?st1)\<rparr>"
  have "chassis_updata_pos fl fd ?st1 = Inr ?st2"
    using f by (simp add: chassis_updata_pos_def call_driver_def driver_mai_def call_module_def
        module_mai_def read_motors_pos Let_def)
  with s show thesis
    by (intro that [of ?st2]) (use f in \<open>simp_all add: pos_input_def speed_input_def Let_def\<close>)
qed

text \<open>
  The path a wheel rolls when the robot moves by \<open>(x, y)\<close> and turns by \<open>z\<close>, with lever \<open>h\<close>:
  the inverse kinematics of the four mecanum wheels.
\<close>

fun wheel_path :: "real \<Rightarrow> nat \<Rightarrow> real \<Rightarrow> real \<Rightarrow> real \<Rightarrow> real" where
  "wheel_path h i x y z =
     (if i = 0 then x + y else if i = 1 then x - y else if i = 2 then - x - y else - x + y) - z * h"

lemma chassis_handle_pos:
  assumes "mai_ready st" and "crun_status (chassis_mai st) = CHASSIS_POS"
    and "p = cpos (ctarget (chassis_mai st))" and "g = mai_geometry (\<lambda>x. x) (\<lambda>x. x)"
  obtains st' where "chassis_handle (\<lambda>x. x) (\<lambda>x. x) False st = Inr (0, st')" "mai_ready st'"
    "\<forall>i<4. pos_command (bank st') (int i) =
       (3, wheel_path (half_a_b g) i (x_m p) (y_m p) (z_rad p) * conversion g)"
    "ctarget (chassis_mai st') = ctarget (chassis_mai st)" "crun_status (chassis_mai st') = CHASSIS_POS"
    "cpos (coffset (chassis_mai st')) = \<lparr>x_m = 0, y_m = 0, z_rad = 0\<rparr>"
    "chassis_get_pos st' = cpos (cpresent (pos_input (\<lambda>x. x) (\<lambda>x. x) g
       ((mai_data st)\<lparr>motor1 := cur_pos (motor_list (bank st) ! 0),
         motor2 := cur_pos (motor_list (bank st) ! 1), motor3 := cur_pos (motor_list (bank st) ! 2),
         motor4 := cur_pos (motor_list (bank st) ! 3)\<rparr>) (chassis_mai st)))"
proof -
  obtain st2 where st2: "bind_res (chassis_updata_speed (\<lambda>x. x) (\<lambda>x. x) st) (chassis_updata_pos (\<lambda>x. x) (\<lambda>x. x)) = Inr st2"
    "bank st2 = bank st" "cops (chassis_mai st2) = Some Ops_mai"
    "ctarget (chassis_mai st2) = ctarget (chassis_mai st)"
    "crun_status (chassis_mai st2) = crun_status (chassis_mai st)"
    "cpos (cpresent (chassis_mai st2)) = cpos (cpresent (pos_input (\<lambda>x. x) (\<lambda>x. x) g
       ((mai_data st)\<lparr>motor1 := cur_pos (motor_list (bank st) ! 0),
         motor2 := cur_pos (motor_list (bank st) ! 1), motor3 := cur_pos (motor_list (bank st) ! 2),
         motor4 := cur_pos (motor_list (bank st) ! 3)\<rparr>) (chassis_mai st)))"
    by (rule chassis_measure [OF assms(1), of "\<lambda>x. x" "\<lambda>x. x"]) (simp add: assms(4))
  define st3 where "st3 = chassis_updata_offset st2"
  define st4 where "st4 = module_mai (\<lambda>x. x) (\<lambda>x. x) True False CHASSIS_POS st3"
  have 4: "bank st4 = bank st" "chassis_mai st4 = chassis_mai st3"
    using st2(2) by (simp_all add: st4_def st3_def module_mai_def chassis_updata_offset_def)
  have "motors_ok (bank st4)" using assms(1) 4(1) by (simp add: mai_ready_def)
  then obtain b where b: "set_motors motor_set_pos st4 = Inr (st4\<lparr>bank := b\<rparr>)" "motors_ok b"
    "pos_command b 0 = (3, motor1 (mai_data st4))" "pos_command b 1 = (3, motor2 (mai_data st4))"
    "pos_command b 2 = (3, motor3 (mai_data st4))" "pos_command b 3 = (3, motor4 (mai_data st4))"
    by (rule set_motors_pos)
  have c3: "cops (chassis_mai st3) = Some Ops_mai" "crun_status (chassis_mai st3) = CHASSIS_POS"
    "ctarget (chassis_mai st3) = ctarget (chassis_mai st)"
    "cpos (coffset (chassis_mai st3)) = \<lparr>x_m = 0, y_m = 0, z_rad = 0\<rparr>"
    "cpresent (chassis_mai st3) = cpresent (chassis_mai st2)"
    using st2 assms(2) by (simp_all add: st3_def chassis_updata_offset_def)
  obtain st1 where s1: "chassis_updata_speed (\<lambda>x. x) (\<lambda>x. x) st = Inr st1"
    "chassis_updata_pos (\<lambda>x. x) (\<lambda>x. x) st1 = Inr st2" using st2(1) by auto
  have h: "chassis_handle (\<lambda>x. x) (\<lambda>x. x) False st = Inr (0, st4\<lparr>bank := b\<rparr>)"
    using s1 c3 b(1) 4(2)
    by (simp add: chassis_handle_def Let_def st3_def [symmetric] chassis_drv_set_pos_def call_module_def
        call_driver_def st4_def [symmetric] driver_mai_def)
  have "motor1 (mai_data st4) = wheel_path (half_a_b g) 0 (x_m p) (y_m p) (z_rad p) * conversion g"
    "motor2 (mai_data st4) = wheel_path (half_a_b g) 1 (x_m p) (y_m p) (z_rad p) * conversion g"
    "motor3 (mai_data st4) = wheel_path (half_a_b g) 2 (x_m p) (y_m p) (z_rad p) * conversion g"
    "motor4 (mai_data st4) = wheel_path (half_a_b g) 3 (x_m p) (y_m p) (z_rad p) * conversion g"
    using c3(3,4) assms(3,4)
    by (simp_all add: st4_def module_mai_def pos_output_def Let_def wheel_angle_def)
  then have "\<forall>i<4. pos_command b (int i) =
       (3, wheel_path (half_a_b g) i (x_m p) (y_m p) (z_rad p) * conversion g)"
    using b(3-6) by (auto simp: less_Suc_eq numeral_eq_Suc)
  with h show thesis
    by (intro that [of "st4\<lparr>bank := b\<rparr>"])
      (use b(2) c3 4(2) st2(6) in \<open>simp_all add: mai_ready_def chassis_get_pos_def\<close>)
qed

lemma mai_geometry_exact:
  "half_a_b (mai_geometry (\<lambda>x. x) (\<lambda>x. x)) = 0.1505"
  "conversion (mai_geometry (\<lambda>x. x) (\<lambda>x. x)) = 180 / 0.035 / 3.14159265359"
  "two_pi_r (mai_geometry (\<lambda>x. x) (\<lambda>x. x)) = 6.28318530718 * 0.035"
  by (simp_all add: mai_geometry_def Let_def)

lemma pos_input_inverts:
  assumes "h \<noteq> 0" and "k \<noteq> 0" and "half_a_b g = h" and "conversion g = k"
    and "cpos (coffset c) = \<lparr>x_m = 0, y_m = 0, z_rad = 0\<rparr>"
    and "motor1 d = wheel_path h 0 x y z * k" "motor2 d = wheel_path h 1 x y z * k"
    and "motor3 d = wheel_path h 2 x y z * k" "motor4 d = wheel_path h 3 x y z * k"
  shows "cpos (cpresent (pos_input (\<lambda>x. x) (\<lambda>x. x) g d c)) = \<lparr>x_m = x, y_m = y, z_rad = z\<rparr>"
proof -
  have "(motor1 d + motor2 d - motor3 d - motor4 d) / 4 / k = x"
    "(motor1 d - motor2 d - motor3 d + motor4 d) / 4 / k = y"
    "- ((motor1 d + motor2 d + motor3 d + motor4 d) / h / 4 / k) = z"
    using assms(1,2) by (simp_all add: assms(6-9) field_simps)
  then show ?thesis
    using assms(3,4,5) by (simp add: pos_input_def Let_def)
qed

subsection \<open>Properties\<close>

text \<open>
  C5: Position control closes, in exact arithmetic: whenever the chassis is in position mode,
  one call of the handler puts all four motors into position mode with angles such that, once
  the motors report these angles, the next call reports exactly the commanded pose, whatever
  the offsets and the wheel data were before.
\<close>

theorem chassis_pos_roundtrip:
  assumes "mai_ready st" and "crun_status (chassis_mai st) = CHASSIS_POS"
  shows "\<exists>st'. chassis_handle (\<lambda>x. x) (\<lambda>x. x) False st = Inr (0, st') \<and>
    motors_ok (bank st') \<and> (\<forall>i<4. flag_run_mode (motor_list (bank st') ! i) = 3) \<and>
    (\<forall>b. motors_ok b \<and> (\<forall>i<4. cur_pos (motor_list b ! i) = tar_pos (motor_list (bank st') ! i)) \<longrightarrow>
      (\<exists>st''. chassis_handle (\<lambda>x. x) (\<lambda>x. x) False (st'\<lparr>bank := b\<rparr>) = Inr (0, st'') \<and>
        chassis_get_pos st'' = cpos (ctarget (chassis_mai st))))"
proof -
  define p where "p = cpos (ctarget (chassis_mai st))"
  define g where "g = mai_geometry (\<lambda>x. x) (\<lambda>x. x)"
  obtain st' where st': "chassis_handle (\<lambda>x. x) (\<lambda>x. x) False st = Inr (0, st')" "mai_ready st'"
    "\<forall>i<4. pos_command (bank st') (int i) =
       (3, wheel_path (half_a_b g) i (x_m p) (y_m p) (z_rad p) * conversion g)"
    "ctarget (chassis_mai st') = ctarget (chassis_mai st)" "crun_status (chassis_mai st') = CHASSIS_POS"
    "cpos (coffset (chassis_mai st')) = \<lparr>x_m = 0, y_m = 0, z_rad = 0\<rparr>"
    by (rule chassis_handle_pos [OF assms p_def g_def])
  have "\<exists>st''. chassis_handle (\<lambda>x. x) (\<lambda>x. x) False (st'\<lparr>bank := b\<rparr>) = Inr (0, st'') \<and>
        chassis_get_pos st'' = p"
    if b: "motors_ok b" "\<forall>i<4. cur_pos (motor_list b ! i) = tar_pos (motor_list (bank st') ! i)" for b
  proof -
    have r: "mai_ready (st'\<lparr>bank := b\<rparr>)" "crun_status (chassis_mai (st'\<lparr>bank := b\<rparr>)) = CHASSIS_POS"
      using st'(2,5) b(1) by (simp_all add: mai_ready_def)
    obtain st'' where st'': "chassis_handle (\<lambda>x. x) (\<lambda>x. x) False (st'\<lparr>bank := b\<rparr>) = Inr (0, st'')"
      "chassis_get_pos st'' = cpos (cpresent (pos_input (\<lambda>x. x) (\<lambda>x. x) g
         ((mai_data st')\<lparr>motor1 := cur_pos (motor_list b ! 0), motor2 := cur_pos (motor_list b ! 1),
           motor3 := cur_pos (motor_list b ! 2), motor4 := cur_pos (motor_list b ! 3)\<rparr>) (chassis_mai st')))"
      by (rule chassis_handle_pos [OF r refl g_def]) simp
    have a: "cur_pos (motor_list b ! i) = wheel_path (half_a_b g) i (x_m p) (y_m p) (z_rad p) * conversion g"
      if "i < 4" for i
      using b(2) st'(3) that by (simp add: pos_command_def)
    have "chassis_get_pos st'' = \<lparr>x_m = x_m p, y_m = y_m p, z_rad = z_rad p\<rparr>"
      unfolding st''(2)
      by (rule pos_input_inverts [OF _ _ refl refl st'(6)]) (use a in \<open>simp_all add: g_def mai_geometry_exact\<close>)
    then show ?thesis using st''(1) by simp
  qed
  moreover have "\<forall>i<4. flag_run_mode (motor_list (bank st') ! i) = 3" "motors_ok (bank st')"
    using st'(2,3) by (simp_all add: pos_command_def mai_ready_def)
  ultimately show ?thesis using st'(1) by (auto simp: p_def)
qed

text \<open>A robot right after start-up.\<close>

definition zero_data :: chassis_data_t where
  "zero_data = \<lparr>cspeed = \<lparr>x_m_s = 0, y_m_s = 0, z_rad_s = 0\<rparr>, cpos = \<lparr>x_m = 0, y_m = 0, z_rad = 0\<rparr>\<rparr>"

definition demo_robot :: "unit robot" where
  "demo_robot = chassis_port_init \<lparr>chassis_mai = \<lparr>ctarget = zero_data, cpresent = zero_data,
       crun_status = CHASSIS_IDLE, cops = None, coffset = zero_data\<rparr>,
     mai_data = \<lparr>ctype = CHASSIS_IDLE, motor1 = 0, motor2 = 0, motor3 = 0, motor4 = 0\<rparr>,
     bank = booted (\<lambda>x. x) (), ops_pos_x = 0, ops_pos_y = 0, ops_w_z = 0\<rparr>"

lemma demo_robot_ready: "mai_ready demo_robot"
  using booted_drive [of 0 "\<lambda>x. x" "()"]
  by (simp add: mai_ready_def demo_robot_def chassis_port_init_def chassis_init_def drive_ok_def)

definition arrived :: "'w motors \<Rightarrow> 'w motors" where
  "arrived b = b\<lparr>motor_list := map (\<lambda>m. m\<lparr>cur_pos := tar_pos m, cur_speed := tar_speed m\<rparr>) (motor_list b)\<rparr>"

lemma arrived_facts:
  assumes "motors_ok b"
  shows "motors_ok (arrived b)"
    "\<forall>i<4. cur_pos (motor_list (arrived b) ! i) = tar_pos (motor_list b ! i)"
    "\<forall>i<4. cur_speed (motor_list (arrived b) ! i) = tar_speed (motor_list b ! i)"
  using assms by (simp_all add: arrived_def motors_ok_def MOTOR_NUM_def)

theorem chassis_pos_roundtrip_witness:
  "\<exists>st' st''. chassis_handle (\<lambda>x. x) (\<lambda>x. x) False
      (chassis_set_pos demo_robot \<lparr>x_m = 1, y_m = 2, z_rad = 3\<rparr>) = Inr (0, st') \<and>
     chassis_handle (\<lambda>x. x) (\<lambda>x. x) False (st'\<lparr>bank := arrived (bank st')\<rparr>) = Inr (0, st'') \<and>
     chassis_get_pos st'' = \<lparr>x_m = 1, y_m = 2, z_rad = 3\<rparr>"
proof -
  let ?st = "chassis_set_pos demo_robot \<lparr>x_m = 1, y_m = 2, z_rad = 3\<rparr>"
  have "mai_ready ?st" "crun_status (chassis_mai ?st) = CHASSIS_POS"
    using demo_robot_ready by (simp_all add: mai_ready_def chassis_set_pos_def)
  from chassis_pos_roundtrip [OF this] obtain st' where
    st': "chassis_handle (\<lambda>x. x) (\<lambda>x. x) False ?st = Inr (0, st')" "motors_ok (bank st')"
    "\<forall>b. motors_ok b \<and> (\<forall>i<4. cur_pos (motor_list b ! i) = tar_pos (motor_list (bank st') ! i)) \<longrightarrow>
      (\<exists>st''. chassis_handle (\<lambda>x. x) (\<lambda>x. x) False (st'\<lparr>bank := b\<rparr>) = Inr (0, st'') \<and>
        chassis_get_pos st'' = cpos (ctarget (chassis_mai ?st)))" by blast
  have "cpos (ctarget (chassis_mai ?st)) = \<lparr>x_m = 1, y_m = 2, z_rad = 3\<rparr>"
    by (simp add: chassis_set_pos_def)
  then show ?thesis using st' arrived_facts [OF st'(2)] by metis
qed

lemma chassis_handle_speed:
  assumes "mai_ready st" and "crun_status (chassis_mai st) = CHASSIS_SPEED"
    and "x = x_m_s (cspeed (ctarget (chassis_mai st))) + x_m_s (cspeed (coffset (chassis_mai st)))"
    and "y = y_m_s (cspeed (ctarget (chassis_mai st))) + y_m_s (cspeed (coffset (chassis_mai st)))"
    and "z = z_rad_s (cspeed (ctarget (chassis_mai st))) + z_rad_s (cspeed (coffset (chassis_mai st)))"
    and "g = mai_geometry (\<lambda>x. x) (\<lambda>x. x)"
  obtains st' where "chassis_handle (\<lambda>x. x) (\<lambda>x. x) False st = Inr (0, st')" "mai_ready st'"
    "\<forall>i<4. speed_command (bank st') (int i) =
       (2, wheel_path (half_a_b g) i 0 y (x / half_a_b g - z) * (60 / two_pi_r g))"
    "ctarget (chassis_mai st') = ctarget (chassis_mai st)" "crun_status (chassis_mai st') = CHASSIS_SPEED"
    "cspeed (coffset (chassis_mai st')) = cspeed (coffset (chassis_mai st))"
    "chassis_get_speed st' = cspeed (cpresent (speed_input (\<lambda>x. x) (\<lambda>x. x) g
       ((mai_data st)\<lparr>motor1 := cur_speed (motor_list (bank st) ! 0),
         motor2 := cur_speed (motor_list (bank st) ! 1), motor3 := cur_speed (motor_list (bank st) ! 2),
         motor4 := cur_speed (motor_list (bank st) ! 3)\<rparr>) (chassis_mai st)))"
proof -
  obtain st2 where st2: "bind_res (chassis_updata_speed (\<lambda>x. x) (\<lambda>x. x) st) (chassis_updata_pos (\<lambda>x. x) (\<lambda>x. x)) = Inr st2"
    "bank st2 = bank st" "cops (chassis_mai st2) = Some Ops_mai"
    "ctarget (chassis_mai st2) = ctarget (chassis_mai st)"
    "coffset (chassis_mai st2) = coffset (chassis_mai st)"
    "crun_status (chassis_mai st2) = crun_status (chassis_mai st)"
    "cspeed (cpresent (chassis_mai st2)) = cspeed (cpresent (speed_input (\<lambda>x. x) (\<lambda>x. x) g
       ((mai_data st)\<lparr>motor1 := cur_speed (motor_list (bank st) ! 0),
         motor2 := cur_speed (motor_list (bank st) ! 1), motor3 := cur_speed (motor_list (bank st) ! 2),
         motor4 := cur_speed (motor_list (bank st) ! 3)\<rparr>) (chassis_mai st)))"
    by (rule chassis_measure [OF assms(1), of "\<lambda>x. x" "\<lambda>x. x"]) (simp add: assms(6))
  define st3 where "st3 = chassis_updata_offset st2"
  define st4 where "st4 = module_mai (\<lambda>x. x) (\<lambda>x. x) True False CHASSIS_SPEED st3"
  have 4: "bank st4 = bank st" "chassis_mai st4 = chassis_mai st3"
    using st2(2) by (simp_all add: st4_def st3_def module_mai_def chassis_updata_offset_def)
  have "motors_ok (bank st4)" using assms(1) 4(1) by (simp add: mai_ready_def)
  then obtain b where b: "set_motors motor_set_speed st4 = Inr (st4\<lparr>bank := b\<rparr>)" "motors_ok b"
    "speed_command b 0 = (2, motor1 (mai_data st4))" "speed_command b 1 = (2, motor2 (mai_data st4))"
    "speed_command b 2 = (2, motor3 (mai_data st4))" "speed_command b 3 = (2, motor4 (mai_data st4))"
    by (rule set_motors_speed)
  have c3: "cops (chassis_mai st3) = Some Ops_mai" "crun_status (chassis_mai st3) = CHASSIS_SPEED"
    "ctarget (chassis_mai st3) = ctarget (chassis_mai st)"
    "cspeed (coffset (chassis_mai st3)) = cspeed (coffset (chassis_mai st))"
    "cpresent (chassis_mai st3) = cpresent (chassis_mai st2)"
    using st2 assms(2) by (simp_all add: st3_def chassis_updata_offset_def)
  obtain st1 where s1: "chassis_updata_speed (\<lambda>x. x) (\<lambda>x. x) st = Inr st1"
    "chassis_updata_pos (\<lambda>x. x) (\<lambda>x. x) st1 = Inr st2" using st2(1) by auto
  have h: "chassis_handle (\<lambda>x. x) (\<lambda>x. x) False st = Inr (0, st4\<lparr>bank := b\<rparr>)"
    using s1 c3 b(1) 4(2)
    by (simp add: chassis_handle_def Let_def st3_def [symmetric] chassis_drv_set_speed_def call_module_def
        call_driver_def st4_def [symmetric] driver_mai_def)
  have "half_a_b g \<noteq> 0" by (simp add: assms(6) mai_geometry_exact)
  then have "(x / half_a_b g - z) * half_a_b g = x - z * half_a_b g" by (simp add: left_diff_distrib)
  then have "motor1 (mai_data st4) = wheel_path (half_a_b g) 0 0 y (x / half_a_b g - z) * (60 / two_pi_r g)"
    "motor2 (mai_data st4) = wheel_path (half_a_b g) 1 0 y (x / half_a_b g - z) * (60 / two_pi_r g)"
    "motor3 (mai_data st4) = wheel_path (half_a_b g) 2 0 y (x / half_a_b g - z) * (60 / two_pi_r g)"
    "motor4 (mai_data st4) = wheel_path (half_a_b g) 3 0 y (x / half_a_b g - z) * (60 / two_pi_r g)"
    using c3(3,4) assms(3-6)
    by (simp_all add: st4_def module_mai_def speed_output_def Let_def wheel_speed_def)
  then have "\<forall>i<4. speed_command b (int i) =
       (2, wheel_path (half_a_b g) i 0 y (x / half_a_b g - z) * (60 / two_pi_r g))"
    using b(3-6) by (auto simp: less_Suc_eq numeral_eq_Suc)
  with h show thesis
    by (intro that [of "st4\<lparr>bank := b\<rparr>"])
      (use b(2) c3 4(2) st2(7) in \<open>simp_all add: mai_ready_def chassis_get_speed_def\<close>)
qed

text \<open>
  C37: Speed control, in exact arithmetic, with \<open>(x, y, z)\<close> the commanded speed plus its offset
  and \<open>k\<close> = 60 / (2 pi r): the handler commands the wheel speeds that belong to the motion
  \<open>(0, y, x / h - z)\<close> in the kinematics of the position mode. So a sideways speed is turned into
  a rotation, a rotation has the opposite sense of the position mode, and only forward motion
  agrees. And once the motors report the commanded speeds, the next call reports \<open>k^2 * y\<close> (plus
  the offset) both as the sideways and as the forward speed: the measurement multiplies by \<open>k\<close>
  where it would have to divide.
\<close>

theorem chassis_speed_kinematics:
  assumes "mai_ready st" and "crun_status (chassis_mai st) = CHASSIS_SPEED"
    and "o' = cspeed (coffset (chassis_mai st))"
    and "x = x_m_s (cspeed (ctarget (chassis_mai st))) + x_m_s o'"
    and "y = y_m_s (cspeed (ctarget (chassis_mai st))) + y_m_s o'"
    and "z = z_rad_s (cspeed (ctarget (chassis_mai st))) + z_rad_s o'"
    and "h = 0.1505" and "k = 60 / (6.28318530718 * 0.035)"
  shows "\<exists>st'. chassis_handle (\<lambda>x. x) (\<lambda>x. x) False st = Inr (0, st') \<and> motors_ok (bank st') \<and>
    (\<forall>i<4. flag_run_mode (motor_list (bank st') ! i) = 2 \<and>
       tar_speed (motor_list (bank st') ! i) = wheel_path h i 0 y (x / h - z) * k) \<and>
    (\<forall>b. motors_ok b \<and> (\<forall>i<4. cur_speed (motor_list b ! i) = tar_speed (motor_list (bank st') ! i)) \<longrightarrow>
      (\<exists>st''. chassis_handle (\<lambda>x. x) (\<lambda>x. x) False (st'\<lparr>bank := b\<rparr>) = Inr (0, st'') \<and>
        x_m_s (chassis_get_speed st'') = x_m_s o' + k\<^sup>2 * y \<and>
        y_m_s (chassis_get_speed st'') = y_m_s o' + k\<^sup>2 * y))"
proof -
  define g where "g = mai_geometry (\<lambda>x. x) (\<lambda>x. x)"
  have g: "half_a_b g = h" "two_pi_r g = 6.28318530718 * 0.035" "60 / two_pi_r g = k"
    using assms(7,8) by (simp_all add: g_def mai_geometry_exact)
  obtain st' where st': "chassis_handle (\<lambda>x. x) (\<lambda>x. x) False st = Inr (0, st')" "mai_ready st'"
    "\<forall>i<4. speed_command (bank st') (int i) =
       (2, wheel_path (half_a_b g) i 0 y (x / half_a_b g - z) * (60 / two_pi_r g))"
    "crun_status (chassis_mai st') = CHASSIS_SPEED" "cspeed (coffset (chassis_mai st')) = o'"
    by (rule chassis_handle_speed [OF assms(1,2) _ _ _ g_def, of x y z]) (use assms(3-6) in simp_all)
  have t: "tar_speed (motor_list (bank st') ! i) = wheel_path h i 0 y (x / h - z) * k"
    "flag_run_mode (motor_list (bank st') ! i) = 2" if "i < 4" for i
  proof -
    have "speed_command (bank st') (int i) = (2, wheel_path h i 0 y (x / h - z) * k)"
      using st'(3) that by (simp only: g(1,3))
    then show "tar_speed (motor_list (bank st') ! i) = wheel_path h i 0 y (x / h - z) * k"
      "flag_run_mode (motor_list (bank st') ! i) = 2"
      by (simp_all add: speed_command_def del: wheel_path.simps)
  qed
  have "\<exists>st''. chassis_handle (\<lambda>x. x) (\<lambda>x. x) False (st'\<lparr>bank := b\<rparr>) = Inr (0, st'') \<and>
        x_m_s (chassis_get_speed st'') = x_m_s o' + k\<^sup>2 * y \<and>
        y_m_s (chassis_get_speed st'') = y_m_s o' + k\<^sup>2 * y"
    if b: "motors_ok b" "\<forall>i<4. cur_speed (motor_list b ! i) = tar_speed (motor_list (bank st') ! i)" for b
  proof -
    have r: "mai_ready (st'\<lparr>bank := b\<rparr>)" "crun_status (chassis_mai (st'\<lparr>bank := b\<rparr>)) = CHASSIS_SPEED"
      using st'(2,4) b(1) by (simp_all add: mai_ready_def)
    let ?d = "(mai_data st')\<lparr>motor1 := cur_speed (motor_list b ! 0), motor2 := cur_speed (motor_list b ! 1),
           motor3 := cur_speed (motor_list b ! 2), motor4 := cur_speed (motor_list b ! 3)\<rparr>"
    obtain st'' where st'': "chassis_handle (\<lambda>x. x) (\<lambda>x. x) False (st'\<lparr>bank := b\<rparr>) = Inr (0, st'')"
      "chassis_get_speed st'' = cspeed (cpresent (speed_input (\<lambda>x. x) (\<lambda>x. x) g ?d (chassis_mai st')))"
      by (rule chassis_handle_speed [OF r refl refl refl g_def]) simp
    have w: "cur_speed (motor_list b ! 0) - cur_speed (motor_list b ! 1) = 2 * y * k"
      "- cur_speed (motor_list b ! 1) + cur_speed (motor_list b ! 3) = 2 * y * k"
    proof -
      have "cur_speed (motor_list b ! 0) = wheel_path h 0 0 y (x / h - z) * k"
        "cur_speed (motor_list b ! 1) = wheel_path h 1 0 y (x / h - z) * k"
        "cur_speed (motor_list b ! 3) = wheel_path h 3 0 y (x / h - z) * k"
        using b(2) t(1) [of 0] t(1) [of 1] t(1) [of 3] by (simp_all del: wheel_path.simps)
      then show "cur_speed (motor_list b ! 0) - cur_speed (motor_list b ! 1) = 2 * y * k"
        "- cur_speed (motor_list b ! 1) + cur_speed (motor_list b ! 3) = 2 * y * k"
        by (simp_all add: algebra_simps)
    qed
    have "v / two_pi_r g * 60 = v * k" for v by (simp flip: g(3))
    then show ?thesis
      using st'' st'(5) w by (simp add: speed_input_def Let_def power2_eq_square)
  qed
  then show ?thesis using st'(1,2) t by (auto simp: mai_ready_def simp del: wheel_path.simps)
qed

theorem chassis_speed_kinematics_witness:
  "\<exists>st' st''. chassis_handle (\<lambda>x. x) (\<lambda>x. x) False
      (chassis_set_speed demo_robot \<lparr>x_m_s = 0, y_m_s = 1, z_rad_s = 0\<rparr>) = Inr (0, st') \<and>
     chassis_handle (\<lambda>x. x) (\<lambda>x. x) False (st'\<lparr>bank := arrived (bank st')\<rparr>) = Inr (0, st'') \<and>
     x_m_s (chassis_get_speed st'') = (60 / (6.28318530718 * 0.035))\<^sup>2"
proof -
  let ?st = "chassis_set_speed demo_robot \<lparr>x_m_s = 0, y_m_s = 1, z_rad_s = 0\<rparr>"
  have o: "cspeed (coffset (chassis_mai ?st)) = \<lparr>x_m_s = 0, y_m_s = 0, z_rad_s = 0\<rparr>"
    "cspeed (ctarget (chassis_mai ?st)) = \<lparr>x_m_s = 0, y_m_s = 1, z_rad_s = 0\<rparr>"
    by (simp_all add: chassis_set_speed_def demo_robot_def chassis_port_init_def chassis_init_def zero_data_def)
  have "mai_ready ?st" "crun_status (chassis_mai ?st) = CHASSIS_SPEED"
    using demo_robot_ready by (simp_all add: mai_ready_def chassis_set_speed_def)
  from chassis_speed_kinematics [OF this o(1) [symmetric] refl refl refl refl refl]
  obtain st' where st': "chassis_handle (\<lambda>x. x) (\<lambda>x. x) False ?st = Inr (0, st')" "motors_ok (bank st')"
    "\<forall>b. motors_ok b \<and> (\<forall>i<4. cur_speed (motor_list b ! i) = tar_speed (motor_list (bank st') ! i)) \<longrightarrow>
      (\<exists>st''. chassis_handle (\<lambda>x. x) (\<lambda>x. x) False (st'\<lparr>bank := b\<rparr>) = Inr (0, st'') \<and>
        x_m_s (chassis_get_speed st'') = (60 / (6.28318530718 * 0.035))\<^sup>2)"
    by (simp add: o del: times_divide_eq_left divide_divide_eq_left) blast
  then show ?thesis using arrived_facts [OF st'(2)] by metis
qed

end
