(* ===== verification/SemMap.thy ===== *)
theory SemMap
  imports Prelude
begin

section \<open>Map and paths (map/SemanticMap.c, map/PathFinder.c, map/RobotState.c)\<close>

text \<open>
  The field is a grid of crossings. For every crossing the tables say whether a line leads
  forward and backward along each axis: 1 a line, 0 none, -1 an unused entry. A path is a
  table of directions (1 to 4, 0 is the end), and the robot state advances along it.
\<close>

subsection \<open>The map\<close>

record Smt_map_t =
  x_fr :: int
  y_fr :: int
  x_br :: int
  y_br :: int

definition cell :: "int \<Rightarrow> int \<Rightarrow> int \<Rightarrow> int \<Rightarrow> Smt_map_t" where
  "cell a b c d = \<lparr>x_fr = a, y_fr = b, x_br = c, y_br = d\<rparr>"

definition map_soduko :: "Smt_map_t list list" where
  "map_soduko =
     [[cell 1 1 0 0, cell 1 1 0 1, cell 1 1 0 1, cell 1 0 0 1,
       cell (- 1) (- 1) (- 1) (- 1)],
      [cell 1 1 1 0, cell 1 1 1 1, cell 1 1 1 1, cell 1 0 1 1,
       cell (- 1) (- 1) (- 1) (- 1)],
      [cell 1 1 1 0, cell 1 1 1 1, cell 1 1 1 1, cell 1 0 1 1,
       cell (- 1) (- 1) (- 1) (- 1)],
      [cell 0 1 1 0, cell 0 1 1 1, cell 1 1 0 1, cell 0 1 1 1,
       cell 0 0 1 1]]"

text \<open>The last row of the source has eleven entries; the twelfth is zero.\<close>

definition map_transport :: "Smt_map_t list list" where
  "map_transport =
     [[cell 1 1 0 1, cell 1 0 0 1, cell 1 1 0 0, cell 1 0 0 1,
       cell (- 1) (- 1) (- 1) (- 1), cell (- 1) (- 1) (- 1) (- 1), cell (- 1) (- 1) (- 1) (- 1), cell (- 1) (- 1) (- 1) (- 1),
       cell (- 1) (- 1) (- 1) (- 1), cell (- 1) (- 1) (- 1) (- 1), cell (- 1) (- 1) (- 1) (- 1), cell (- 1) (- 1) (- 1) (- 1)],
      [cell 1 1 0 0, cell 1 1 0 1, cell 1 1 0 1, cell 1 0 0 1,
       cell 0 1 1 0, cell 1 0 0 1, cell 1 1 0 0, cell 1 1 0 1,
       cell 1 1 0 1, cell 1 0 1 1, cell (- 1) (- 1) (- 1) (- 1), cell (- 1) (- 1) (- 1) (- 1)],
      [cell 1 0 1 0, cell 1 0 1 0, cell 1 1 1 0, cell 1 1 1 1,
       cell 1 1 0 1, cell 1 0 1 1, cell 1 0 1 0, cell (- 1) (- 1) (- 1) (- 1),
       cell (- 1) (- 1) (- 1) (- 1), cell (- 1) (- 1) (- 1) (- 1), cell (- 1) (- 1) (- 1) (- 1), cell (- 1) (- 1) (- 1) (- 1)],
      [cell 1 1 1 1, cell 0 1 1 1, cell 1 1 0 1, cell 0 0 1 1,
       cell 0 1 1 0, cell 1 1 0 1, cell 0 1 1 1, cell 1 0 0 1,
       cell 0 1 1 0, cell 1 1 1 1, cell 0 1 0 1, cell 1 0 1 1],
      [cell 1 1 1 0, cell 1 0 0 1, cell 1 0 1 0, cell 1 0 1 0,
       cell 0 1 1 0, cell 1 1 0 1, cell 0 0 1 1, cell 1 1 1 0,
       cell 1 0 1 1, cell (- 1) (- 1) (- 1) (- 1), cell (- 1) (- 1) (- 1) (- 1), cell (- 1) (- 1) (- 1) (- 1)],
      [cell 1 1 1 0, cell 1 0 0 1, cell 0 1 1 0, cell 0 1 1 1,
       cell 1 1 0 1, cell 0 0 1 1, cell 1 1 0 0, cell 0 1 1 1,
       cell 0 0 1 1, cell 1 1 1 1, cell (- 1) (- 1) (- 1) (- 1), cell (- 1) (- 1) (- 1) (- 1)],
      [cell 1 1 1 1, cell 1 0 1 1, cell 1 1 1 0, cell 0 1 1 1,
       cell 0 1 1 1, cell 0 0 1 1, cell (- 1) (- 1) (- 1) (- 1), cell (- 1) (- 1) (- 1) (- 1),
       cell (- 1) (- 1) (- 1) (- 1), cell (- 1) (- 1) (- 1) (- 1), cell (- 1) (- 1) (- 1) (- 1), cell 0 0 0 0]]"

text \<open>\<open>printf_map_element\<close>: the text it prints, line by line, indented by \<open>n\<close> tabulators.\<close>

definition CRLF :: string where
  "CRLF = [CHR 0x0D, CHR 0x0A]"

definition map_element_str :: "Smt_map_t \<Rightarrow> string list" where
  "map_element_str e =
     (let s0 = ''   x   '' @ CRLF; s1 = ''x     x '' @ CRLF; s2 = ''   x   '' @ CRLF;
          t0 = (if y_fr e = 1 then s0[3 := CHR ''|''] else if y_fr e = - 1 then s0[3 := CHR '' ''] else s0);
          t1 = (if x_fr e = 1 then s1[5 := CHR ''-'', 6 := CHR ''-'']
                else if x_fr e = - 1 then s1[5 := CHR '' '', 6 := CHR '' ''] else s1);
          t2 = (if y_br e = 1 then s2[3 := CHR ''|''] else if y_br e = - 1 then s2[3 := CHR '' ''] else s2);
          u1 = (if x_br e = 1 then t1[0 := CHR ''-'', 1 := CHR ''-'']
                else if x_br e = - 1 then t1[0 := CHR '' '', 1 := CHR '' ''] else t1)
      in [t0, u1, t2])"

definition printf_map_element :: "Smt_map_t \<Rightarrow> nat \<Rightarrow> string" where
  "printf_map_element e n =
     concat (map (\<lambda>l. replicate n (CHR 0x09) @ l) (map_element_str e)) @
     [CHR 0x1B] @ ''[4A'' @ [CHR 0x0A]"

definition print_rows :: "Smt_map_t list list \<Rightarrow> nat \<Rightarrow> nat \<Rightarrow> string" where
  "print_rows m cols rows =
     concat (map (\<lambda>j. concat (map (\<lambda>i. printf_map_element (m ! i ! j) i) [0..<cols]) @
                       CRLF @ replicate 4 (CHR 0x0A)) (rev [0..<rows]))"

definition print_map_soduko :: string where
  "print_map_soduko = ''MAP Soduko:'' @ CRLF @ print_rows map_soduko 4 5"

definition printf_map_transport :: string where
  "printf_map_transport = ''MAP Transport:'' @ CRLF @ print_rows map_transport 7 12"

subsection \<open>Paths\<close>

definition soduko_take1 :: "int list" where "soduko_take1 = [4, 3]"
definition soduko_put1 :: "int list" where "soduko_put1 = [2, 1, 2, 0]"
definition soduko_back1 :: "int list" where "soduko_back1 = [4, 3, 0]"
definition soduko_go2 :: "int list" where "soduko_go2 = [0]"
definition soduko_put2 :: "int list" where "soduko_put2 = [1, 2, 0]"
definition soduko_back2 :: "int list" where "soduko_back2 = [4, 3, 0]"
definition soduko_go3 :: "int list" where "soduko_go3 = [2, 3]"
definition soduko_go4 :: "int list" where "soduko_go4 = [2, 3, 3]"
definition soduko_go5 :: "int list" where "soduko_go5 = [2, 3, 3]"
definition soduko_go6 :: "int list" where "soduko_go6 = [4, 3, 3]"
definition soduko_go7 :: "int list" where "soduko_go7 = [4, 3, 3, 3]"
definition soduko_go8 :: "int list" where "soduko_go8 = [4, 3, 3, 3]"
definition soduko_go9 :: "int list" where "soduko_go9 = [2, 3, 3, 3]"

record Path_table_t =
  start_point_x :: int
  start_point_y :: int
  table_data :: "int list"
  table_name :: string
  table_index :: nat

definition Path_table_init :: "int list \<Rightarrow> string \<Rightarrow> int \<Rightarrow> int \<Rightarrow> Path_table_t" where
  "Path_table_init data name x y =
     \<lparr>start_point_x = x, start_point_y = y, table_data = data, table_name = name, table_index = 0\<rparr>"

text \<open>The end of the table is not tested; the result is truncated to a byte.\<close>

definition Path_get_next_dir :: "Path_table_t \<Rightarrow> (u8 \<times> Path_table_t) res" where
  "Path_get_next_dir t =
     (if table_index t < length (table_data t)
      then Inr (of_int (table_data t ! table_index t), t\<lparr>table_index := table_index t + 1\<rparr>)
      else Inl OutOfBounds)"

subsection \<open>The robot's state on the map\<close>

record point_t =
  px :: int
  py :: int

record Robote_State_t =
  rs_table :: Path_table_t
  rs_columns :: nat
  now_state :: point_t
  will_state :: point_t

text \<open>
  \<open>Robot_State_Trigger\<close>: the pointer into the map is computed from the column of the present
  crossing and not used; \<open>rs_columns\<close> is the number of columns the map has.
\<close>

definition Robot_State_Trigger :: "Robote_State_t \<Rightarrow> (int \<times> Robote_State_t) res" where
  "Robot_State_Trigger s0 =
     bind_res (Path_get_next_dir (rs_table s0)) (\<lambda>(abs_dir, t).
     let s = s0\<lparr>rs_table := t, now_state := will_state s0\<rparr>; n = now_state s in
     if px n < 0 \<or> int (rs_columns s) \<le> px n then Inl OutOfBounds
     else if abs_dir = 0 then Inr (1, s)
     else
       let w = (if abs_dir = 1 then \<lparr>px = px n - 1, py = py n\<rparr>
                else if abs_dir = 2 then \<lparr>px = px n, py = py n + 1\<rparr>
                else if abs_dir = 3 then \<lparr>px = px n + 1, py = py n\<rparr>
                else if abs_dir = 4 then \<lparr>px = px n, py = py n - 1\<rparr>
                else will_state s);
           s1 = s\<lparr>will_state := w\<rparr>
       in Inr (0, s1\<lparr>will_state := \<lparr>px = 2, py = 2\<rparr>\<rparr>))"

subsection \<open>Properties\<close>

text \<open>The row of the next column that lies beside row \<open>j\<close>: the last column has an extra crossing.\<close>

definition soduko_right :: "nat \<Rightarrow> nat \<Rightarrow> nat" where
  "soduko_right i j = (if i = 2 \<and> 2 \<le> j then j + 1 else j)"

definition soduko_rows :: "nat \<Rightarrow> nat" where
  "soduko_rows i = (if i = 3 then 5 else 4)"

lemma all_less_3: "(\<forall>i<3. P i) \<longleftrightarrow> P 0 \<and> P 1 \<and> P (2::nat)"
  by (auto simp: numeral_3_eq_3 numeral_2_eq_2 less_Suc_eq)

lemma all_less_4: "(\<forall>i<4. P i) \<longleftrightarrow> P 0 \<and> P 1 \<and> P 2 \<and> P (3::nat)"
proof -
  have "i < 4 \<longleftrightarrow> i < 3 \<or> i = (3::nat)" for i by linarith
  then show ?thesis using all_less_3 [of P] by auto
qed

lemma all_less_5: "(\<forall>i<5. P i) \<longleftrightarrow> P 0 \<and> P 1 \<and> P 2 \<and> P 3 \<and> P (4::nat)"
proof -
  have "i < 5 \<longleftrightarrow> i < 4 \<or> i = (4::nat)" for i by linarith
  then show ?thesis using all_less_4 [of P] by auto
qed

text \<open>
  The map of the sudoku field is consistent: of every two neighbouring crossings either
  both say that there is a line between them or both say that there is none, no line leads
  out of the field, and exactly the fifth entries of the first three columns are unused.
\<close>

theorem map_soduko_consistent:
  "(\<forall>i<4. \<forall>j<5. (j < soduko_rows i \<longleftrightarrow> map_soduko ! i ! j \<noteq> cell (- 1) (- 1) (- 1) (- 1))) \<and>
   (\<forall>i<4. \<forall>j<4. j + 1 < soduko_rows i \<longrightarrow>
      y_fr (map_soduko ! i ! j) = y_br (map_soduko ! i ! (j + 1))) \<and>
   (\<forall>i<3. \<forall>j<4. x_fr (map_soduko ! i ! j) = x_br (map_soduko ! (i + 1) ! soduko_right i j)) \<and>
   (\<forall>i<4. y_br (map_soduko ! i ! 0) = 0 \<and> y_fr (map_soduko ! i ! (soduko_rows i - 1)) = 0) \<and>
   (\<forall>j<4. x_br (map_soduko ! 0 ! j) = 0)"
  unfolding all_less_3 all_less_4 all_less_5
  by (simp add: map_soduko_def cell_def soduko_rows_def soduko_right_def)

theorem map_soduko_consistent_witness:
  "y_fr (map_soduko ! 3 ! 1) = y_br (map_soduko ! 3 ! 2) \<and>
   x_fr (map_soduko ! 2 ! 2) = x_br (map_soduko ! 3 ! 3)"
proof (intro conjI)
  show "y_fr (map_soduko ! 3 ! 1) = y_br (map_soduko ! 3 ! 2)"
    using map_soduko_consistent [THEN conjunct2, THEN conjunct1, rule_format, of 3 1]
    by (simp add: soduko_rows_def numeral_2_eq_2)
  show "x_fr (map_soduko ! 2 ! 2) = x_br (map_soduko ! 3 ! 3)"
    using map_soduko_consistent [THEN conjunct2, THEN conjunct2, THEN conjunct1, rule_format, of 2 2]
    by (simp add: soduko_right_def)
qed

text \<open>Asking for \<open>n\<close> directions, and triggering \<open>n\<close> times.\<close>

fun next_dirs :: "Path_table_t \<Rightarrow> nat \<Rightarrow> (u8 list \<times> Path_table_t) res" where
  "next_dirs t 0 = Inr ([], t)"
| "next_dirs t (Suc n) =
     bind_res (Path_get_next_dir t) (\<lambda>(d, t1).
     bind_res (next_dirs t1 n) (\<lambda>(ds, t2). Inr (d # ds, t2)))"

lemma next_dirs_ok:
  "table_index t + n \<le> length (table_data t) \<Longrightarrow>
   next_dirs t n = Inr (map of_int (take n (drop (table_index t) (table_data t))),
     t\<lparr>table_index := table_index t + n\<rparr>)"
proof (induction n arbitrary: t)
  case 0
  then show ?case by simp
next
  case (Suc n)
  have "drop (table_index t) (table_data t) =
      table_data t ! table_index t # drop (Suc (table_index t)) (table_data t)"
    using Suc.prems by (simp add: Cons_nth_drop_Suc)
  with Suc.IH [of "t\<lparr>table_index := table_index t + 1\<rparr>"] Suc.prems show ?case
    by (simp add: Path_get_next_dir_def)
qed

text \<open>
  A path table hands out its directions in order, one per call, and there is no end: the
  call after the last direction reads behind the table.
\<close>

theorem path_table_walk:
  "next_dirs (Path_table_init data name x y) (length data) =
     Inr (map of_int data, (Path_table_init data name x y)\<lparr>table_index := length data\<rparr>) \<and>
   Path_get_next_dir ((Path_table_init data name x y)\<lparr>table_index := length data\<rparr>) = Inl OutOfBounds"
  using next_dirs_ok [of "Path_table_init data name x y" "length data"]
  by (simp add: Path_table_init_def Path_get_next_dir_def)

text \<open>
  A trigger with a direction other than 0 moves the robot to the crossing planned before
  but does not plan the next one from the direction: whatever the direction, the planned
  crossing becomes (2, 2), so the second trigger finds the robot at (2, 2).
\<close>

theorem Robot_State_Trigger_forgets:
  assumes "table_index (rs_table s) + 1 < length (table_data (rs_table s))"
    and "\<forall>d \<in> set (table_data (rs_table s)). 0 < d \<and> d < 256"
    and "0 \<le> px (will_state s)" and "px (will_state s) < int (rs_columns s)" and "2 < rs_columns s"
  shows "\<exists>s1 s2. Robot_State_Trigger s = Inr (0, s1) \<and> now_state s1 = will_state s \<and>
    Robot_State_Trigger s1 = Inr (0, s2) \<and> now_state s2 = \<lparr>px = 2, py = 2\<rparr>"
proof -
  have nz: "(of_int d :: u8) \<noteq> 0" if "d \<in> set (table_data (rs_table s))" for d
  proof
    assume "(of_int d :: u8) = 0"
    then have "256 dvd d" by (simp add: word_of_int_eq_0_iff)
    with assms(2) that zdvd_imp_le [of 256 d] show False by auto
  qed
  let ?t = "rs_table s"
  have d: "(of_int (table_data ?t ! table_index ?t) :: u8) \<noteq> 0"
    "(of_int (table_data ?t ! Suc (table_index ?t)) :: u8) \<noteq> 0"
    using assms(1) by (auto intro!: nz)
  show ?thesis
    using assms(1,3,4,5) d by (simp add: Robot_State_Trigger_def Path_get_next_dir_def Let_def)
qed

theorem Robot_State_Trigger_forgets_witness:
  "\<exists>s1 s2. Robot_State_Trigger \<lparr>rs_table = Path_table_init soduko_go3 ''go'' 0 0, rs_columns = 4,
       now_state = \<lparr>px = 0, py = 0\<rparr>, will_state = \<lparr>px = 1, py = 0\<rparr>\<rparr> = Inr (0, s1) \<and>
     now_state s1 = \<lparr>px = 1, py = 0\<rparr> \<and>
     Robot_State_Trigger s1 = Inr (0, s2) \<and> now_state s2 = \<lparr>px = 2, py = 2\<rparr>"
  using Robot_State_Trigger_forgets [of "\<lparr>rs_table = Path_table_init soduko_go3 ''go'' 0 0, rs_columns = 4,
       now_state = \<lparr>px = 0, py = 0\<rparr>, will_state = \<lparr>px = 1, py = 0\<rparr>\<rparr>"]
  by (simp add: Path_table_init_def soduko_go3_def)

end
