(* ===== verification/RobotManager.thy ===== *)
theory RobotManager
  imports Chassis SemMap
begin

section \<open>The robot manager (robotmanager.c, color_com.c, aboard_power_switch.c)\<close>

text \<open>
  The manager thread drives the mission: it follows the line, and at every special point it
  asks the current path table for the next direction and turns, picks up or puts down. Its
  globals are the record \<open>rbmg\<close>; the car it drives is the chassis of theory Chassis, and what
  the thread does to the outside world (power switch, gripper) is logged in \<open>events\<close>.

  While the thread sleeps in \<open>rt_thread_mdelay\<close> the other threads and interrupts run: the
  parameter \<open>delay\<close> is their effect. Publishing the control message is the effect of its only
  subscriber, \<open>chassis_sub_callback\<close>. The union of \<open>chassis_ctrl_t\<close> is three cells that are a
  speed or a pose according to the type.
\<close>

subsection \<open>Data\<close>

datatype rb_mode = CAB_MODE | LINE_MODE | ACTION_MODE

definition END :: u8 where "END = 0"
definition FORWARD :: u8 where "FORWARD = 1"
definition RIGHT :: u8 where "RIGHT = 2"
definition BACKWARD :: u8 where "BACKWARD = 3"
definition LEFT :: u8 where "LEFT = 4"

lemmas directions = END_def FORWARD_def RIGHT_def BACKWARD_def LEFT_def

datatype color_kind = RED | BLUE | YELLOW | NONE | IDLE

datatype table_id = Init_table | Put_table | Take_table | Back_table

definition init_dirs :: "int list" where "init_dirs = [1, 1, 0, 0]"
definition put_dirs :: "int list" where "put_dirs = [2, 0, 0]"
definition take_dirs :: "int list" where "take_dirs = [2, 0, 0]"
definition back_dirs :: "int list" where "back_dirs = [4, 0, 0]"

record chassis_ctrl_t =
  cc_type :: u8
  cc_x :: real
  cc_y :: real
  cc_z :: real

datatype rb_event = Power_on | Power_off | Pick | Up

record 'w rbmg =
  rbmg_mode :: rb_mode
  chassis_dir :: u8
  line_error :: real
  ctrl :: chassis_ctrl_t
  color_type :: color_kind
  now_dir :: u8
  next_dir :: u8
  this_table :: table_id
  tables :: "table_id \<Rightarrow> Path_table_t"
  take_cnt :: u8
  red_cnt :: u8
  blue_cnt :: u8
  yellow_cnt :: u8
  color :: "u8 list"
  color_flag :: u8
  car :: "'w robot"
  events :: "rb_event list"

type_synonym 'w delay = "nat \<Rightarrow> 'w rbmg \<Rightarrow> 'w rbmg"

definition log_event :: "rb_event \<Rightarrow> 'w rbmg \<Rightarrow> 'w rbmg" where
  "log_event e st = st\<lparr>events := events st @ [e]\<rparr>"

text \<open>The power switch of the gripper and the two gripper calls.\<close>

definition gripper_on :: "'w rbmg \<Rightarrow> 'w rbmg" where "gripper_on = log_event Power_on"
definition gripper_off :: "'w rbmg \<Rightarrow> 'w rbmg" where "gripper_off = log_event Power_off"
definition mypick :: "'w rbmg \<Rightarrow> 'w rbmg" where "mypick = log_event Pick"
definition myup :: "'w rbmg \<Rightarrow> 'w rbmg" where "myup = log_event Up"

subsection \<open>Publishing the control message\<close>

text \<open>What \<open>chassis_sub_callback\<close> does with a message.\<close>

definition apply_ctrl :: "chassis_ctrl_t \<Rightarrow> 'w robot \<Rightarrow> 'w robot" where
  "apply_ctrl c r =
     (if cc_type c = 0
      then chassis_set_speed r \<lparr>x_m_s = cc_x c, y_m_s = cc_y c, z_rad_s = cc_z c\<rparr>
      else chassis_set_pos r \<lparr>x_m = cc_x c, y_m = cc_y c, z_rad = cc_z c\<rparr>)"

definition publish_ctrl :: "'w rbmg \<Rightarrow> 'w rbmg" where
  "publish_ctrl st = st\<lparr>car := apply_ctrl (ctrl st) (car st)\<rparr>"

subsection \<open>Relative movements\<close>

definition near :: "rounding \<Rightarrow> chassis_pos_t \<Rightarrow> chassis_ctrl_t \<Rightarrow> bool" where
  "near fl p c \<longleftrightarrow> \<bar>fl (y_m p - cc_y c)\<bar> < fl 0.01 \<and> \<bar>fl (x_m p - cc_x c)\<bar> < fl 0.01 \<and>
     \<bar>fl (z_rad p - cc_z c)\<bar> < fl 0.1"

text \<open>
  The waiting loop; \<open>left\<close> is 1000 minus the counter, so that the loop gives up after 1001
  rounds.
\<close>

fun move_loop :: "rounding \<Rightarrow> 'w delay \<Rightarrow> nat \<Rightarrow> 'w rbmg \<Rightarrow> 'w rbmg" where
  "move_loop fl delay left st =
     (if near fl (chassis_get_pos (car st)) (ctrl st)
      then delay 300 (st\<lparr>car := chassis_pos_clean (car st)\<rparr>)
      else
        let st1 = delay 50 (publish_ctrl (st\<lparr>ctrl := (ctrl st)\<lparr>cc_type := 1\<rparr>\<rparr>)) in
        (case left of 0 \<Rightarrow> st1 | Suc l \<Rightarrow> move_loop fl delay l st1))"

declare move_loop.simps [simp del]

definition action_relative_movement_car ::
    "rounding \<Rightarrow> 'w delay \<Rightarrow> real \<times> real \<times> real \<Rightarrow> 'w rbmg \<Rightarrow> 'w rbmg" where
  "action_relative_movement_car fl delay xyw st =
     (let p = chassis_get_pos (car st) in
      move_loop fl delay 1000
        (publish_ctrl (st\<lparr>ctrl := \<lparr>cc_type = 1, cc_x = fl (x_m p + fl (fst xyw)),
           cc_y = fl (y_m p + fl (fst (snd xyw))), cc_z = fl (z_rad p + fl (snd (snd xyw)))\<rparr>\<rparr>)))"

definition moves :: "rounding \<Rightarrow> 'w delay \<Rightarrow> (real \<times> real \<times> real) list \<Rightarrow> 'w rbmg \<Rightarrow> 'w rbmg" where
  "moves fl delay xs st = fold (action_relative_movement_car fl delay) xs st"

subsection \<open>Picking up and putting down\<close>

definition sense_color :: "'w rbmg \<Rightarrow> 'w rbmg" where
  "sense_color st =
     (if color_flag st \<noteq> 0 then
        st\<lparr>color_type :=
          (if color st ! 0 = 114 then RED else if color st ! 0 = 121 then YELLOW
           else if color st ! 0 = 98 then BLUE else NONE)\<rparr>
      else st)"

definition take_action :: "rounding \<Rightarrow> 'w delay \<Rightarrow> 'w rbmg \<Rightarrow> 'w rbmg" where
  "take_action fl delay st0 =
     (let n = take_cnt st0;
          approach = (if n > 3 \<and> n < 7 then [(0, 0.185, 0)]
                      else if n > 6 then [(0, 0.385, 0)] else [(0, 0, 0)]);
          aside = (if n = 2 \<or> n = 5 \<or> n = 8 then [(0, - 0.06, 0), (0.182, 0, 0), (0, 0.068, 0)]
                   else if n = 3 \<or> n = 6 \<or> n = 9 then [(0, - 0.045, 0), (- 0.215, 0, 0), (0, 0.043, 0)]
                   else [(0, 0, 0)]);
          sideback = (if n = 2 \<or> n = 5 \<or> n = 8 then [(- 0.182, 0, 0)]
                      else if n = 3 \<or> n = 6 \<or> n = 9 then [(0.215, 0, 0)] else []);
          retreat = (if n > 3 \<and> n < 7 then [(0, - 0.2, 0)]
                     else if n > 6 then [(0, - 0.4, 0)] else []);
          st1 = delay 1000 (moves fl delay (approach @ aside) (gripper_on st0));
          st2 = myup (delay 1000 (mypick (gripper_on (sense_color st1))));
          st3 = delay 500 (moves fl delay (sideback @ retreat @ [(0, - 0.3, 0)]) st2)
      in st3\<lparr>take_cnt := take_cnt st3 + 1, rbmg_mode := LINE_MODE\<rparr>)"

definition put_action :: "rounding \<Rightarrow> 'w delay \<Rightarrow> 'w rbmg \<Rightarrow> 'w rbmg" where
  "put_action fl delay st0 =
     (let st1 = moves fl delay [(0, 0, 0)] st0;
          st2 = (case color_type st1 of
                   RED \<Rightarrow> moves fl delay [(0.6, 0, 0), (0, 0.18, 0)] (st1\<lparr>red_cnt := red_cnt st1 + 1\<rparr>)
                 | BLUE \<Rightarrow> moves fl delay [(0, 0, 0), (0, 0.18, 0)] (st1\<lparr>blue_cnt := blue_cnt st1 + 1\<rparr>)
                 | YELLOW \<Rightarrow> moves fl delay [(- 0.6, 0, 0), (0, 0.18, 0)]
                               (st1\<lparr>yellow_cnt := yellow_cnt st1 + 1\<rparr>)
                 | NONE \<Rightarrow> moves fl delay [(0, 0, 0), (0, 0, 0)] st1
                 | IDLE \<Rightarrow> moves fl delay [(0, 0, 0), (0, 0, 0)] st1);
          st3 = delay 4000 (gripper_off st2);
          st4 = (case color_type st3 of
                   RED \<Rightarrow> moves fl delay [(0, - 0.18, 0), (- 0.6, 0, 0)] st3
                 | BLUE \<Rightarrow> moves fl delay [(0, - 0.18, 0), (0, 0, 0)] st3
                 | YELLOW \<Rightarrow> moves fl delay [(0, - 0.18, 0), (0.6, 0, 0)] st3
                 | NONE \<Rightarrow> moves fl delay [(0, 0, 0), (0, 0, 0)] st3
                 | IDLE \<Rightarrow> moves fl delay [(0, 0, 0), (0, 0, 0)] st3);
          st5 = moves fl delay [(0, 0, 3.1415926)] st4
      in st5\<lparr>color_type := IDLE, color_flag := 0, rbmg_mode := LINE_MODE\<rparr>)"

subsection \<open>Turning and the tables\<close>

definition set_table :: "table_id \<Rightarrow> Path_table_t \<Rightarrow> 'w rbmg \<Rightarrow> 'w rbmg" where
  "set_table t d st = st\<lparr>tables := (tables st)(t := d)\<rparr>"

definition HALF_CAR_WIDTH :: real where "HALF_CAR_WIDTH = 0.09"
definition M_PI_2 :: real where "M_PI_2 = 1.5707963267948966192313216916398"

text \<open>
  \<open>turn_actions\<close>: the boolean says that the function never returns, because the mission is
  over and it keeps reporting so.
\<close>

definition turn_actions :: "rounding \<Rightarrow> 'w delay \<Rightarrow> u8 \<Rightarrow> 'w rbmg \<Rightarrow> bool \<times> 'w rbmg" where
  "turn_actions fl delay will_dir st =
     (if will_dir = END then
        (case this_table st of
           Init_table \<Rightarrow>
             (False, (set_table Put_table (Path_table_init put_dirs ''put table'' 0 0)
                (take_action fl delay st))\<lparr>this_table := Put_table\<rparr>)
         | Take_table \<Rightarrow>
             (False, (set_table Put_table (Path_table_init put_dirs ''put table'' 0 0)
                (take_action fl delay st))\<lparr>this_table := Put_table\<rparr>)
         | Put_table \<Rightarrow>
             (let st1 = set_table Take_table (Path_table_init take_dirs ''take table'' 0 0)
                          (put_action fl delay st)
              in (False, st1\<lparr>this_table := if take_cnt st1 < 10 then Take_table else Back_table\<rparr>))
         | Back_table \<Rightarrow>
             (True, (set_table Back_table (Path_table_init back_dirs ''back table'' 0 0)
                (moves fl delay [(0, 0.4, 0)] st))\<lparr>this_table := Put_table\<rparr>))
      else
        let delta_angle = (if will_dir = RIGHT then - M_PI_2
                           else if will_dir = BACKWARD then M_PI_2 * 2
                           else if will_dir = LEFT then M_PI_2 else 0)
        in (False, (moves fl delay [(0, HALF_CAR_WIDTH, 0), (0, 0, delta_angle)]
              (st\<lparr>rbmg_mode := ACTION_MODE\<rparr>))\<lparr>rbmg_mode := LINE_MODE\<rparr>))"

subsection \<open>The callbacks\<close>

definition rbmg_error_callback :: "rounding \<Rightarrow> real \<Rightarrow> 'w rbmg \<Rightarrow> 'w rbmg" where
  "rbmg_error_callback fl msg st =
     (if rbmg_mode st = LINE_MODE
      then publish_ctrl (st\<lparr>line_error := msg, chassis_dir := 0,
             ctrl := \<lparr>cc_type = 0, cc_x = 0, cc_y = fl 0.25, cc_z = fl (msg * fl 0.9)\<rparr>\<rparr>)
      else st)"

definition rbmg_special_point_callback :: "'w rbmg \<Rightarrow> 'w rbmg" where
  "rbmg_special_point_callback st =
     (if rbmg_mode st \<noteq> CAB_MODE then st\<lparr>rbmg_mode := ACTION_MODE\<rparr> else st)"

definition rbmg_dir_callback :: "'w rbmg \<Rightarrow> 'w rbmg" where
  "rbmg_dir_callback st = st"

definition rbmg_chassis_ctrl_callback :: "'w rbmg \<Rightarrow> 'w rbmg" where
  "rbmg_chassis_ctrl_callback st = st"

subsection \<open>The thread\<close>

text \<open>
  The calibration mode: the thread waits, without sleeping, for the first message of the
  vision computer. \<open>spin\<close> is what interrupts do during one round of this loop, \<open>fuel\<close> the
  number of rounds it is given. The second loop of this mode ends in its first round, since
  the first one only ends in another mode.
\<close>

fun cab_wait :: "('w rbmg \<Rightarrow> 'w rbmg) \<Rightarrow> nat \<Rightarrow> 'w rbmg \<Rightarrow> 'w rbmg option" where
  "cab_wait spin 0 st = None"
| "cab_wait spin (Suc fuel) st =
     (let st1 = (if color_flag st \<noteq> 0 then
                   (if color st ! 0 = 114 then st\<lparr>rbmg_mode := LINE_MODE, color_flag := 0\<rparr>
                    else st\<lparr>color_flag := 0\<rparr>)
                 else st)
      in if rbmg_mode st1 = LINE_MODE then Some st1 else cab_wait spin fuel (spin st1))"

text \<open>
  The wait ends, with the mission's mode set, in the first round that finds the start message of
  the vision computer or the mode already set by the arm thread, and not before.
\<close>

lemma cab_wait_starts:
  assumes "\<forall>i < k. color_flag ((spin ^^ i) st) = 0 \<and> rbmg_mode ((spin ^^ i) st) \<noteq> LINE_MODE"
    and "color_flag ((spin ^^ k) st) \<noteq> 0 \<and> color ((spin ^^ k) st) ! 0 = 114 \<or> rbmg_mode ((spin ^^ k) st) = LINE_MODE"
  shows "cab_wait spin n st =
    (if k < n then Some (((spin ^^ k) st)\<lparr>rbmg_mode := LINE_MODE, color_flag := 0\<rparr>) else None)"
  using assms
proof (induction k arbitrary: n st)
  case 0
  then show ?case by (cases n; cases st) auto
next
  case (Suc k)
  have "\<forall>i < k. color_flag ((spin ^^ i) (spin st)) = 0 \<and> rbmg_mode ((spin ^^ i) (spin st)) \<noteq> LINE_MODE"
  proof (intro allI impI)
    fix i
    assume "i < k"
    then show "color_flag ((spin ^^ i) (spin st)) = 0 \<and> rbmg_mode ((spin ^^ i) (spin st)) \<noteq> LINE_MODE"
      using Suc.prems(1) [rule_format, of "Suc i"] by (simp add: funpow_swap1)
  qed
  then have ih: "cab_wait spin m (spin st) =
      (if k < m then Some (((spin ^^ k) (spin st))\<lparr>rbmg_mode := LINE_MODE, color_flag := 0\<rparr>) else None)" for m
    using Suc.prems(2) by (intro Suc.IH) (simp_all add: funpow_swap1)
  have "color_flag st = 0" "rbmg_mode st \<noteq> LINE_MODE" using Suc.prems(1) by (auto dest!: spec [of _ 0])
  then show ?case using ih by (cases n) (simp_all add: funpow_swap1)
qed

definition cab_mode :: "'w delay \<Rightarrow> ('w rbmg \<Rightarrow> 'w rbmg) \<Rightarrow> nat \<Rightarrow> 'w rbmg \<Rightarrow> 'w rbmg option" where
  "cab_mode delay spin fuel st = cab_wait spin fuel (myup (delay 8000 st))"

definition action_mode :: "rounding \<Rightarrow> 'w delay \<Rightarrow> 'w rbmg \<Rightarrow> (bool \<times> 'w rbmg) res" where
  "action_mode fl delay st =
     bind_res (Path_get_next_dir (tables st (this_table st))) (\<lambda>(d, t).
     let st1 = (set_table (this_table st) t st)\<lparr>now_dir := next_dir st, next_dir := d\<rparr>;
         (over, st2) = turn_actions fl delay d st1
     in Inr (over, if over then st2 else st2\<lparr>rbmg_mode := LINE_MODE\<rparr>))"

text \<open>
  The endless loop of \<open>rbmg_handle\<close> outside the calibration mode, \<open>n\<close> rounds of it: the
  result counts the actions executed and says whether the last one was the final one.
\<close>

fun rbmg_rounds :: "rounding \<Rightarrow> 'w delay \<Rightarrow> nat \<Rightarrow> nat \<Rightarrow> 'w rbmg \<Rightarrow> (bool \<times> nat \<times> 'w rbmg) res" where
  "rbmg_rounds fl delay 0 k st = Inr (False, k, st)"
| "rbmg_rounds fl delay (Suc n) k st =
     (if rbmg_mode st = ACTION_MODE then
        bind_res (action_mode fl delay st) (\<lambda>(over, st').
        if over then Inr (True, k + 1, st') else rbmg_rounds fl delay n (k + 1) (delay 50 st'))
      else rbmg_rounds fl delay n k (delay 50 st))"

definition rbmg_init :: "'w rbmg \<Rightarrow> 'w rbmg" where
  "rbmg_init st =
     st\<lparr>tables := (tables st)
          (Take_table := Path_table_init take_dirs ''take table'' 0 0,
           Put_table := Path_table_init put_dirs ''put table'' 0 0,
           Init_table := Path_table_init init_dirs ''init table'' 0 0,
           Back_table := Path_table_init back_dirs ''back table'' 0 0),
        this_table := Init_table\<rparr>"

subsection \<open>The color messages (color_com.c)\<close>

text \<open>
  The interrupt handler of the vision computer's serial line: it reads \<open>size\<close> bytes into a
  128-byte array without checking \<open>size\<close>. \<open>avail\<close> are the bytes the device delivers. The
  second result are the four lamps.
\<close>

definition lamps :: "u8 \<Rightarrow> bool list" where
  "lamps c =
     (if c = 114 then [False, True, True, True]
      else if c = 121 then [True, True, False, True]
      else if c = 98 then [True, False, True, True]
      else [True, True, True, True])"

definition uart_rx_ind :: "u8 list \<Rightarrow> nat \<Rightarrow> 'w rbmg \<Rightarrow> (bool list \<times> 'w rbmg) res" where
  "uart_rx_ind avail size' st =
     (let xs = take size' avail in
      if length xs \<le> length (color st)
      then let c = blit (color st) 0 xs in Inr (lamps (c ! 0), st\<lparr>color := c, color_flag := 1\<rparr>)
      else Inl OutOfBounds)"

subsection \<open>Interface: the other threads\<close>

text \<open>
  What the manager thread relies on while it sleeps: nobody else writes the state of the
  mission.
\<close>

definition mission_view where
  "mission_view st = (this_table st, tables st, take_cnt st, events st, color_type st,
     (red_cnt st, blue_cnt st, yellow_cnt st))"

locale other_threads =
  fixes delay :: "'w delay"
  assumes keeps: "mission_view (delay n st) = mission_view st"
begin

lemma move_loop_keeps: "mission_view (move_loop fl delay left st) = mission_view st"
proof (induction left arbitrary: st)
  case 0
  then show ?case
    by (subst move_loop.simps) (simp add: Let_def keeps, simp add: mission_view_def publish_ctrl_def)
next
  case (Suc l)
  then show ?case
    by (subst move_loop.simps) (simp add: Let_def keeps, simp add: mission_view_def publish_ctrl_def)
qed

lemma movement_keeps: "mission_view (action_relative_movement_car fl delay v st) = mission_view st"
  by (simp add: action_relative_movement_car_def Let_def move_loop_keeps)
    (simp add: mission_view_def publish_ctrl_def)

lemma moves_keeps: "mission_view (moves fl delay vs st) = mission_view st"
  unfolding moves_def by (induction vs arbitrary: st) (simp_all add: movement_keeps)

text \<open>The components of the view after the operations of the thread.\<close>

lemma keeps_each [simp]:
  "this_table (delay n st) = this_table st" "tables (delay n st) = tables st"
  "take_cnt (delay n st) = take_cnt st" "events (delay n st) = events st"
  using keeps [of n st] by (simp_all add: mission_view_def)

lemma moves_each [simp]:
  "this_table (moves fl delay vs st) = this_table st" "tables (moves fl delay vs st) = tables st"
  "take_cnt (moves fl delay vs st) = take_cnt st" "events (moves fl delay vs st) = events st"
  using moves_keeps [of fl vs st] by (simp_all add: mission_view_def)

lemma take_action_view:
  "this_table (take_action fl delay st) = this_table st"
  "tables (take_action fl delay st) = tables st"
  "take_cnt (take_action fl delay st) = take_cnt st + 1"
  "events (take_action fl delay st) = events st @ [Power_on, Power_on, Pick, Up]"
  by (simp_all add: take_action_def Let_def gripper_on_def mypick_def myup_def log_event_def
      sense_color_def split del: if_split)
    (simp_all split: if_split)

lemma put_action_view:
  "this_table (put_action fl delay st) = this_table st"
  "tables (put_action fl delay st) = tables st"
  "take_cnt (put_action fl delay st) = take_cnt st"
  "events (put_action fl delay st) = events st @ [Power_off]"
  by (simp_all add: put_action_def Let_def gripper_off_def log_event_def split: color_kind.split)

end

text \<open>
  The program's own other activities: a message of the line sensor, a special point, a period
  of the chassis thread, a message of the vision computer, the end of the arm's homing. A schedule says which of them
  happen, in which order, during a sleep.
\<close>

datatype activity = Line_error real | Special_point | Chassis_period | Color_message "u8 list" | Arm_homed

text \<open>The arm thread, having found its zero, sets the manager's mode (\<open>drv_stepper_motor.c\<close>).\<close>

definition arm_homed :: "'w rbmg \<Rightarrow> 'w rbmg" where
  "arm_homed st = st\<lparr>rbmg_mode := LINE_MODE\<rparr>"

definition activity_step :: "rounding \<Rightarrow> rounding \<Rightarrow> activity \<Rightarrow> 'w rbmg \<Rightarrow> 'w rbmg" where
  "activity_step fl fd a st =
     (case a of
        Line_error e \<Rightarrow> rbmg_error_callback fl e st
      | Special_point \<Rightarrow> rbmg_special_point_callback st
      | Chassis_period \<Rightarrow>
          (case chassis_handle fl fd False (car st) of
             Inl e \<Rightarrow> st | Inr (r, c) \<Rightarrow> st\<lparr>car := c\<rparr>)
      | Color_message bs \<Rightarrow>
          (case uart_rx_ind bs (length bs) st of Inl e \<Rightarrow> st | Inr (l, st') \<Rightarrow> st')
      | Arm_homed \<Rightarrow> arm_homed st)"

definition scheduled ::
    "rounding \<Rightarrow> rounding \<Rightarrow> (nat \<Rightarrow> 'w rbmg \<Rightarrow> activity list) \<Rightarrow> 'w delay" where
  "scheduled fl fd sched n st = fold (activity_step fl fd) (sched n st) st"

lemma activity_step_view: "mission_view (activity_step fl fd a st) = mission_view st"
  by (cases a) (auto simp: activity_step_def mission_view_def rbmg_error_callback_def
      rbmg_special_point_callback_def publish_ctrl_def uart_rx_ind_def arm_homed_def Let_def
      split: sum.splits prod.splits if_splits)

interpretation threads: other_threads "scheduled fl fd sched" for fl fd sched
proof
  fix n st
  have "mission_view (fold (activity_step fl fd) as s) = mission_view s" for as s
    by (induction as arbitrary: s) (simp_all add: activity_step_view)
  then show "mission_view (scheduled fl fd sched n st) = mission_view st"
    by (simp add: scheduled_def)
qed

subsection \<open>The mission as an automaton\<close>

fun dirs :: "table_id \<Rightarrow> int list" where
  "dirs Init_table = init_dirs"
| "dirs Put_table = put_dirs"
| "dirs Take_table = take_dirs"
| "dirs Back_table = back_dirs"

lemmas dirs_defs = init_dirs_def put_dirs_def take_dirs_def back_dirs_def

text \<open>
  The current table, the position in it, the number of the next object and how many were put
  down; \<open>None\<close> is the end of the mission.
\<close>

type_synonym mission = "table_id \<times> nat \<times> nat \<times> nat"

fun mission_step :: "mission \<Rightarrow> mission option" where
  "mission_step (t, i, c, p) =
     (if dirs t ! i \<noteq> 0 then Some (t, i + 1, c, p)
      else case t of
             Init_table \<Rightarrow> Some (Put_table, 0, c + 1, p)
           | Take_table \<Rightarrow> Some (Put_table, 0, c + 1, p)
           | Put_table \<Rightarrow> Some (if c < 10 then Take_table else Back_table, 0, c, p + 1)
           | Back_table \<Rightarrow> None)"

fun mission_at :: "nat \<Rightarrow> mission option" where
  "mission_at 0 = Some (Init_table, 0, 1, 0)"
| "mission_at (Suc k) = Option.bind (mission_at k) mission_step"

text \<open>
  The calls to the outside world after \<open>p\<close> objects were put down: per object the supply of the
  gripper is switched on (twice), the gripper is closed and lifted, and the supply is switched
  off at the target; while the put table is followed an object is on board.
\<close>

definition take_events :: "rb_event list" where
  "take_events = [Power_on, Power_on, Pick, Up]"

definition mission_log :: "table_id \<Rightarrow> nat \<Rightarrow> rb_event list" where
  "mission_log t p =
     concat (replicate p (take_events @ [Power_off])) @ (if t = Put_table then take_events else [])"

lemma mission_log_Suc:
  "t \<noteq> Put_table \<Longrightarrow> mission_log t (Suc p) = mission_log Put_table p @ [Power_off]"
proof -
  have "concat (replicate p xs) @ xs = xs @ concat (replicate p xs)" for xs :: "rb_event list"
    by (induction p) simp_all
  then show "t \<noteq> Put_table \<Longrightarrow> ?thesis" by (simp add: mission_log_def)
qed

lemma mission_log_take: "t \<noteq> Put_table \<Longrightarrow> mission_log Put_table p = mission_log t p @ take_events"
  by (simp add: mission_log_def)

definition mission_rel :: "mission \<Rightarrow> 'w rbmg \<Rightarrow> bool" where
  "mission_rel m st \<longleftrightarrow>
     (case m of (t, i, c, p) \<Rightarrow>
        this_table st = t \<and> (\<forall>t'. table_data (tables st t') = dirs t') \<and>
        table_index (tables st t) = i \<and>
        (t \<noteq> Back_table \<longrightarrow> table_index (tables st Back_table) = 0) \<and>
        take_cnt st = of_nat c \<and> events st = mission_log t p \<and>
        c = p + (if t = Put_table then 2 else 1))"

text \<open>Where a table ends and how many objects there are.\<close>

definition mission_ok :: "mission \<Rightarrow> bool" where
  "mission_ok m \<longleftrightarrow> (case m of (t, i, c, p) \<Rightarrow> i < length (dirs t) \<and> c \<le> 10 \<and>
     (dirs t ! i = 0 \<longrightarrow> t \<in> {Init_table, Take_table} \<longrightarrow> c < 10))"

lemma mission_course:
  "list_all (\<lambda>k. case mission_at k of None \<Rightarrow> False | Some m \<Rightarrow> mission_ok m) [0..<39]"
  "mission_at 38 = Some (Back_table, 1, 10, 9)"
  by code_simp+

lemma mission_at_39: "mission_at 39 = None"
  using mission_course(2) mission_at.simps(2) [of 38] by (simp add: dirs_defs)

lemma mission_at_less: "mission_at k = Some m \<Longrightarrow> k < 39"
proof (rule ccontr)
  assume k: "mission_at k = Some m" "\<not> k < 39"
  have "mission_at (j + 39) = None" for j
  proof (induction j)
    case (Suc j)
    then show ?case by (simp only: add_Suc mission_at.simps) simp
  qed (simp add: mission_at_39)
  from this [of "k - 39"] k show False by simp
qed

lemma mission_at_Some:
  assumes "k < 39"
  obtains m where "mission_at k = Some m" "mission_ok m"
proof -
  have "k \<in> set [0..<39]" using assms by simp
  then have "case mission_at k of None \<Rightarrow> False | Some m \<Rightarrow> mission_ok m"
    using mission_course(1) unfolding list_all_iff by blast
  then show thesis using that by (cases "mission_at k") auto
qed

lemma mission_next:
  assumes "k < 38" and "mission_at k = Some m"
  obtains m' where "mission_step m = Some m'" "mission_at (Suc k) = Some m'"
proof -
  obtain m' where "mission_at (Suc k) = Some m'" by (rule mission_at_Some [of "Suc k"]) (use assms(1) in simp_all)
  then show thesis using assms(2) that by simp
qed

context other_threads
begin

lemma turn_refines:
  assumes "this_table st = t" "take_cnt st = of_nat c" "c \<le> 10" "t \<noteq> Back_table"
  shows "\<exists>st'. turn_actions fl delay 0 st = (False, st') \<and>
    (t \<in> {Init_table, Take_table} \<longrightarrow> this_table st' = Put_table \<and>
       tables st' = (tables st)(Put_table := Path_table_init put_dirs ''put table'' 0 0) \<and>
       take_cnt st' = of_nat (c + 1) \<and> events st' = events st @ [Power_on, Power_on, Pick, Up]) \<and>
    (t = Put_table \<longrightarrow> this_table st' = (if c < 10 then Take_table else Back_table) \<and>
       tables st' = (tables st)(Take_table := Path_table_init take_dirs ''take table'' 0 0) \<and>
       take_cnt st' = of_nat c \<and> events st' = events st @ [Power_off])"
proof -
  have c: "(of_nat c :: u8) < 10 \<longleftrightarrow> c < 10"
    using assms(3) by (simp add: word_less_nat_alt unat_of_nat take_bit_eq_mod)
  show ?thesis
    using assms c
    by (cases t) (simp_all add: turn_actions_def END_def set_table_def Let_def take_action_view
        put_action_view add.commute)
qed

lemma action_refines:
  assumes r: "mission_rel m st" and "mission_ok m" and m': "mission_step m = Some m'"
  obtains st' where "action_mode fl delay st = Inr (False, st')" "mission_rel m' st'"
proof -
  obtain t i c p where m: "m = (t, i, c, p)" by (cases m) auto
  have v: "this_table st = t" "\<forall>t'. table_data (tables st t') = dirs t'" "table_index (tables st t) = i"
    "t \<noteq> Back_table \<longrightarrow> table_index (tables st Back_table) = 0"
    "take_cnt st = of_nat c" "events st = mission_log t p" "c = p + (if t = Put_table then 2 else 1)"
    "i < length (dirs t)" "c \<le> 10"
    using assms(1,2) by (auto simp: m mission_rel_def mission_ok_def)
  define d :: u8 where "d = of_int (dirs t ! i)"
  define st1 where "st1 = (set_table t ((tables st t)\<lparr>table_index := i + 1\<rparr>) st)\<lparr>now_dir := next_dir st, next_dir := d\<rparr>"
  have p1: "Path_get_next_dir (tables st (this_table st)) = Inr (d, (tables st t)\<lparr>table_index := i + 1\<rparr>)"
    using v by (simp add: Path_get_next_dir_def d_def)
  have s1: "this_table st1 = t" "take_cnt st1 = of_nat c" "events st1 = events st"
    "tables st1 = (tables st)(t := (tables st t)\<lparr>table_index := i + 1\<rparr>)"
    using v(1,5) by (simp_all add: st1_def set_table_def)
  have d0: "d = 0 \<longleftrightarrow> dirs t ! i = 0"
    using v(8) by (cases t) (auto simp: d_def dirs_defs less_Suc_eq nth_Cons')
  obtain o' st2 where turn: "turn_actions fl delay d st1 = (o', st2)" by fastforce
  have act: "action_mode fl delay st = Inr (o', if o' then st2 else st2\<lparr>rbmg_mode := LINE_MODE\<rparr>)"
    using p1 turn v(1) by (simp add: action_mode_def Let_def st1_def)
  have "\<not> o' \<and> mission_rel m' st2"
  proof (cases "dirs t ! i = 0")
    case False
    then have "o' = False" "this_table st2 = t" "take_cnt st2 = of_nat c" "events st2 = events st"
      "tables st2 = tables st1"
      using turn d0 s1 by (auto simp: turn_actions_def END_def Let_def)
    then show ?thesis
      using m' False v s1(4) by (auto simp: m mission_rel_def)
  next
    case True
    then have t: "t \<noteq> Back_table" using m' by (auto simp: m)
    have z: "turn_actions fl delay 0 st1 = (o', st2)" using turn d0 True by simp
    note T = turn_refines [OF s1(1,2) v(9) t, of fl, unfolded z]
    show ?thesis
    proof (cases t)
      case Put_table
      with T v s1 m' True mission_log_Suc [of Back_table p] mission_log_Suc [of Take_table p] show ?thesis
        by (auto simp: m mission_rel_def Path_table_init_def)
    next
      case Back_table
      with t show ?thesis by simp
    next
      case Init_table
      with T v s1 m' True mission_log_take [of t p] show ?thesis
        by (auto simp: m mission_rel_def Path_table_init_def take_events_def)
    next
      case Take_table
      with T v s1 m' True mission_log_take [of t p] show ?thesis
        by (auto simp: m mission_rel_def Path_table_init_def take_events_def)
    qed
  qed
  then show thesis
    using act by (intro that [of "st2\<lparr>rbmg_mode := LINE_MODE\<rparr>"]) (auto simp: mission_rel_def split: prod.splits)
qed

lemma action_ends:
  assumes "mission_rel (Back_table, 1, c, p) st"
  obtains st' where "action_mode fl delay st = Inr (True, st')"
    "events st' = mission_log Back_table p"
proof -
  have "Path_get_next_dir (tables st (this_table st)) = Inr (0, (tables st Back_table)\<lparr>table_index := 2\<rparr>)"
    using assms by (auto simp: mission_rel_def Path_get_next_dir_def back_dirs_def)
  moreover have f: "this_table st = Back_table" "events st = mission_log Back_table p"
    using assms by (auto simp: mission_rel_def)
  ultimately have "\<exists>st'. action_mode fl delay st = Inr (True, st') \<and> events st' = events st"
    by (simp add: action_mode_def turn_actions_def END_def Let_def set_table_def)
  then show thesis using f that by auto
qed

end

context other_threads
begin

lemma mission_rel_delay: "mission_rel m (delay n st) = mission_rel m st"
  by (simp add: mission_rel_def)

lemma rounds_refine:
  assumes "mission_at k = Some m" and "mission_rel m st"
  shows "\<exists>over k' st'. rbmg_rounds fl delay n k st = Inr (over, k', st') \<and> k' \<le> 39 \<and> (over \<longleftrightarrow> k' = 39) \<and>
    (\<not> over \<longrightarrow> (\<exists>m'. mission_at k' = Some m' \<and> mission_rel m' st')) \<and>
    (over \<longrightarrow> events st' = mission_log Back_table 9)"
  using assms
proof (induction n arbitrary: k m st)
  case 0
  have "k < 39" using "0.prems"(1) by (rule mission_at_less)
  then show ?case
    using "0.prems" by (intro exI [of _ False] exI [of _ k] exI [of _ st]) auto
next
  case (Suc n)
  have k: "k < 39" using Suc.prems(1) by (rule mission_at_less)
  show ?case
  proof (cases "rbmg_mode st = ACTION_MODE")
    case False
    then show ?thesis
      using Suc.IH [OF Suc.prems(1), of "delay 50 st"] Suc.prems(2) by (simp add: mission_rel_delay)
  next
    case act: True
    show ?thesis
    proof (cases "k = 38")
      case True
      then have "m = (Back_table, 1, 10, 9)" using Suc.prems(1) mission_course(2) by simp
      with Suc.prems(2) obtain st' where "action_mode fl delay st = Inr (True, st')"
        "events st' = mission_log Back_table 9"
        by (metis action_ends)
      then show ?thesis
        using act True by (intro exI [of _ True] exI [of _ 39] exI [of _ st']) simp
    next
      case False
      then have "k < 38" using k by simp
      then obtain m' where m': "mission_step m = Some m'" "mission_at (Suc k) = Some m'"
        using Suc.prems(1) by (rule mission_next)
      have "mission_ok m" by (rule mission_at_Some [OF k]) (use Suc.prems(1) in simp)
      then obtain st' where st': "action_mode fl delay st = Inr (False, st')" "mission_rel m' st'"
        using Suc.prems(2) m'(1) by (metis action_refines)
      then show ?thesis
        using Suc.IH [OF m'(2), of "delay 50 st'"] act by (simp add: mission_rel_delay)
    qed
  qed
qed

end

lemma mission_rel_init:
  assumes "take_cnt st = 1" and "events st = []"
  shows "mission_rel (Init_table, 0, 1, 0) (rbmg_init st)"
proof -
  have "table_data (tables (rbmg_init st) t) = dirs t" for t
    by (cases t) (simp_all add: rbmg_init_def Path_table_init_def)
  then show ?thesis
    using assms by (simp add: mission_rel_def rbmg_init_def Path_table_init_def mission_log_def)
qed

subsection \<open>Properties\<close>


definition demo_rbmg :: "unit rbmg" where
  "demo_rbmg = \<lparr>rbmg_mode = ACTION_MODE, chassis_dir = 0, line_error = 0,
     ctrl = \<lparr>cc_type = 0, cc_x = 0, cc_y = 0, cc_z = 0\<rparr>, color_type = RED, now_dir = 1, next_dir = 1,
     this_table = Init_table, tables = (\<lambda>_. Path_table_init [] [] 0 0), take_cnt = 1, red_cnt = 0,
     blue_cnt = 0, yellow_cnt = 0, color = replicate 128 0, color_flag = 0, car = demo_robot, events = []\<rparr>"


end
