(* ===== verification/Port.thy ===== *)
theory Port
  imports Abus RobotManager
begin

section \<open>The messages between the threads (follow_line.c and the callbacks of abus_port.c)\<close>

text \<open>
  The callbacks registered by \<open>abus_all_init\<close> with the messages as bytes in the topics'
  FIFOs, and the thread that reads the line sensor and publishes. The representation of a
  \<open>float\<close> in memory is a parameter: \<open>enc\<close> gives its four bytes and \<open>dec\<close> reads them.
\<close>

subsection \<open>Data\<close>

record infrared =
  infrared_data :: "u8 list"
  is_spacial_point_flag :: u8
  move_direction :: "u8 list"

record 'w firmware =
  mgr :: "'w rbmg"
  infrared_package :: infrared
  follow_error :: real

type_synonym 'w fbus = "(port_callback, 'w firmware) abus"

text \<open>The bytes of a \<open>chassis_ctrl_t\<close>: the type, three bytes of padding, three floats.\<close>

definition ctrl_bytes :: "(real \<Rightarrow> u8 list) \<Rightarrow> chassis_ctrl_t \<Rightarrow> u8 list" where
  "ctrl_bytes enc c = [cc_type c, 0, 0, 0] @ enc (cc_x c) @ enc (cc_y c) @ enc (cc_z c)"

definition ctrl_of :: "(u8 list \<Rightarrow> real) \<Rightarrow> u8 list \<Rightarrow> chassis_ctrl_t" where
  "ctrl_of dec bs = \<lparr>cc_type = bs ! 0, cc_x = dec (take 4 (drop 4 bs)),
     cc_y = dec (take 4 (drop 8 bs)), cc_z = dec (take 4 (drop 12 bs))\<rparr>"

definition on_mgr :: "('w rbmg \<Rightarrow> 'w rbmg) \<Rightarrow> 'w firmware \<Rightarrow> 'w firmware" where
  "on_mgr f w = w\<lparr>mgr := f (mgr w)\<rparr>"

subsection \<open>The callbacks\<close>

text \<open>
  The contents of the local \<open>ctrl\<close> before the read is \<open>junk\<close>; a short read is reported and
  nothing else happens.
\<close>

definition chassis_callback ::
    "(u8 list \<Rightarrow> real) \<Rightarrow> u8 list \<Rightarrow> nat \<Rightarrow> 'w fbus \<Rightarrow> 'w fbus res" where
  "chassis_callback dec junk t s =
     bind_res (fifo_peek s (top_datafifo (topic s t)) junk sizeof_chassis_ctrl) (\<lambda>(n, bs).
     if (ucast n :: u16) \<noteq> ucast sizeof_chassis_ctrl then Inr s
     else Inr (s\<lparr>world := on_mgr (\<lambda>r. r\<lparr>car := apply_ctrl (ctrl_of dec bs) (car r)\<rparr>) (world s)\<rparr>))"

definition line_dir_callback :: "nat \<Rightarrow> 'w fbus \<Rightarrow> 'w fbus res" where
  "line_dir_callback t s =
     (let old = move_direction (infrared_package (world s)) in
      bind_res (fifo_peek s (top_datafifo (topic s t)) old (of_nat (length old))) (\<lambda>(n, bs).
      Inr (s\<lparr>world := (world s)\<lparr>infrared_package := (infrared_package (world s))
             \<lparr>move_direction := bs\<rparr>\<rparr>\<rparr>)))"

text \<open>The message the manager builds from an error of the line sensor.\<close>

definition line_ctrl :: "rounding \<Rightarrow> real \<Rightarrow> 'w rbmg \<Rightarrow> 'w rbmg" where
  "line_ctrl fl e r = r\<lparr>line_error := e, chassis_dir := 0,
     ctrl := \<lparr>cc_type = 0, cc_x = 0, cc_y = fl 0.25, cc_z = fl (e * fl 0.9)\<rparr>\<rparr>"

text \<open>
  Calling a callback. Publishing inside a callback calls callbacks again: the first argument
  is the depth to which such calls are followed, and \<open>None\<close> is deeper than that.
\<close>

fun port_call ::
    "nat \<Rightarrow> (real \<Rightarrow> u8 list) \<Rightarrow> (u8 list \<Rightarrow> real) \<Rightarrow> rounding \<Rightarrow> u8 list \<Rightarrow>
     port_callback \<Rightarrow> nat \<Rightarrow> 'w fbus \<Rightarrow> 'w fbus res option" where
  "port_call 0 enc dec fl junk c t s = None"
| "port_call (Suc d) enc dec fl junk c t s =
     (case c of
        port_callback.line_dir_sub_callback \<Rightarrow> Some (line_dir_callback t s)
      | port_callback.chassis_sub_callback \<Rightarrow> Some (chassis_callback dec junk t s)
      | port_callback.rbmg_error_callback \<Rightarrow>
          if rbmg_mode (mgr (world s)) = LINE_MODE then
            (case fifo_peek s (top_datafifo (topic s t)) (enc (line_error (mgr (world s)))) 4 of
               Inl e \<Rightarrow> Some (Inl e)
             | Inr (n, bs) \<Rightarrow>
                 let w = on_mgr (line_ctrl fl (dec bs)) (world s) in
                 Option.bind (abus_public (port_call d enc dec fl junk) (s\<lparr>world := w\<rparr>)
                     rbmg_chassis_acc (ctrl_bytes enc (ctrl (mgr w))))
                   (\<lambda>r. Some (bind_res r (\<lambda>(_, s'). Inr s'))))
          else Some (Inr s)
      | port_callback.rbmg_dir_callback \<Rightarrow>
          Some (Inr (s\<lparr>world := on_mgr RobotManager.rbmg_dir_callback (world s)\<rparr>))
      | port_callback.rbmg_special_point_callback \<Rightarrow>
          Some (Inr (s\<lparr>world := on_mgr RobotManager.rbmg_special_point_callback (world s)\<rparr>))
      | port_callback.rbmg_chassis_ctrl_callback \<Rightarrow>
          Some (Inr (s\<lparr>world := on_mgr RobotManager.rbmg_chassis_ctrl_callback (world s)\<rparr>)))"

subsection \<open>The line sensor (follow_line.c)\<close>

definition GET_Infrared_Data :: "bool list \<Rightarrow> infrared \<Rightarrow> infrared" where
  "GET_Infrared_Data pins p =
     p\<lparr>infrared_data := map (\<lambda>i. if pins ! i then 0 else 1) [0..<8]\<rparr>"

definition Is_Spacial_point :: "infrared \<Rightarrow> u8 \<times> infrared" where
  "Is_Spacial_point p =
     (let d = (\<lambda>i. infrared_data p ! i \<noteq> 0);
          flag = (if (\<forall>b \<in> set (move_direction p). b = 0)
                  then (if (d 0 \<and> d 1 \<or> d 7 \<and> d 6) \<and> (d 3 \<or> d 4) then 1 else 0)
                  else 0)
      in (flag, p\<lparr>is_spacial_point_flag := flag\<rparr>))"

text \<open>The weighted error; the factors are doubles, the result is stored in a float.\<close>

definition line_error_of :: "rounding \<Rightarrow> rounding \<Rightarrow> u8 list \<Rightarrow> real" where
  "line_error_of fl fd d =
     (let v = (\<lambda>i f. fd (real (unat (d ! i)) * fd f));
          a0 = fd (fd (- real (unat (d ! 0)) * fd 0.4) + v 7 0.4);
          a1 = fd (fd (a0 - v 1 0.3) + v 6 0.3);
          a2 = fd (fd (a1 - v 2 0.2) + v 5 0.2)
      in fl (fd (fd (a2 - v 3 0.1) + v 4 0.1)))"

text \<open>One round of the thread; the first argument is the callback dispatcher.\<close>

definition follow_line_round ::
    "(port_callback \<Rightarrow> nat \<Rightarrow> 'w fbus \<Rightarrow> 'w fbus res option) \<Rightarrow> (real \<Rightarrow> u8 list) \<Rightarrow> rounding \<Rightarrow> rounding \<Rightarrow>
     bool list \<Rightarrow> 'w fbus \<Rightarrow> 'w fbus res option" where
  "follow_line_round call enc fl fd pins s =
     (let p = GET_Infrared_Data pins (infrared_package (world s));
          e = line_error_of fl fd (infrared_data p);
          (flag, p1) = Is_Spacial_point p;
          s1 = s\<lparr>world := (world s)\<lparr>infrared_package := p1, follow_error := e\<rparr>\<rparr>;
          send = (\<lambda>a m s. Option.bind (abus_public call s a m)
                    (\<lambda>r. Some (bind_res r (\<lambda>(_, s'). Inr s'))))
      in Option.bind (if flag \<noteq> 0 then send line_spacial_point_acc [1] s1 else Some (Inr s1))
           (\<lambda>r. case r of
                  Inl e' \<Rightarrow> Some (Inl e')
                | Inr s2 \<Rightarrow> send line_error_acc (enc (follow_error (world s2))) s2))"

definition follow_line_start :: "'w firmware \<Rightarrow> 'w firmware" where
  "follow_line_start w =
     w\<lparr>infrared_package := (infrared_package w)
        \<lparr>move_direction := map (\<lambda>_. 0) (move_direction (infrared_package w))\<rparr>\<rparr>"

subsection \<open>The callbacks satisfy the contract of the bus\<close>

text \<open>What the callbacks that do not publish do with a message.\<close>

definition leaf_react ::
    "(u8 list \<Rightarrow> real) \<Rightarrow> port_callback \<Rightarrow> nat \<Rightarrow> u8 list \<Rightarrow> 'w firmware \<Rightarrow> 'w firmware" where
  "leaf_react dec c t m w =
     (case c of
        port_callback.chassis_sub_callback \<Rightarrow>
          on_mgr (\<lambda>r. r\<lparr>car := apply_ctrl (ctrl_of dec m) (car r)\<rparr>) w
      | port_callback.rbmg_special_point_callback \<Rightarrow>
          on_mgr RobotManager.rbmg_special_point_callback w
      | _ \<Rightarrow> w)"

lemma on_mgr_id [simp]: "on_mgr (\<lambda>r. r) w = w"
  by (simp add: on_mgr_def)

lemma fview_world [simp]: "fview (s\<lparr>world := w\<rparr>) = fview s"
  by (simp add: fview_def fun_eq_iff)

lemma topic_ready_world [simp]: "topic_ready (s\<lparr>world := w\<rparr>) t fa bs m = topic_ready s t fa bs m"
  by (simp add: topic_ready_def)

definition ctrl_callbacks :: "u8 list \<Rightarrow> u8 list \<Rightarrow> port_callback set" where
  "ctrl_callbacks junk m =
     (if length m = unat sizeof_chassis_ctrl \<and> length junk = unat sizeof_chassis_ctrl
      then {port_callback.chassis_sub_callback, port_callback.rbmg_chassis_ctrl_callback} else {})"

interpretation leaf: bus_callbacks "port_call (Suc d) enc dec fl junk" "leaf_react dec"
    chassis_ctrl_topic m UNIV "ctrl_callbacks junk m" "\<lambda>_. True" for d enc dec fl junk m
proof (unfold_locales, goal_cases)
  case (1 c s fa cap)
  then have len: "length m = 16" "length junk = 16"
    and c: "c = port_callback.chassis_sub_callback \<or> c = port_callback.rbmg_chassis_ctrl_callback"
    by (auto simp: ctrl_callbacks_def sizeof_chassis_ctrl_def split: if_splits)
  have "fifo_peek s (Some fa) junk sizeof_chassis_ctrl = Inr (sizeof_chassis_ctrl, m)"
    using 1(5) len by (intro fifo_peek_view [where q = "[]"]) (simp_all add: sizeof_chassis_ctrl_def)
  with c 1(3) show ?case
    by (auto simp: chassis_callback_def leaf_react_def RobotManager.rbmg_chassis_ctrl_callback_def on_mgr_def)
qed simp

interpretation special: bus_callbacks "port_call (Suc d) enc dec fl junk" "leaf_react dec"
    line_special_topic m UNIV "{port_callback.rbmg_special_point_callback}" "\<lambda>_. True" for d enc dec fl junk m
  by unfold_locales (auto simp: leaf_react_def)

text \<open>
  The robot manager's line callback publishes on the control topic: it needs that topic to be
  ready and its FIFO to be none of those (\<open>own\<close>) the publication in progress writes.
\<close>

definition ctrl_ready :: "nat set \<Rightarrow> 'w fbus \<Rightarrow> bool" where
  "ctrl_ready own s \<longleftrightarrow>
     (\<exists>fc. fc \<notin> own \<and> (\<forall>m. length m = unat sizeof_chassis_ctrl \<longrightarrow>
        topic_ready s chassis_ctrl_topic fc [rbmg_chassis_acc, chassis_acc] m)) \<and>
     acc_topic (acc s rbmg_chassis_acc) = Some chassis_ctrl_topic \<and>
     (\<forall>a \<in> {rbmg_chassis_acc, chassis_acc}. acc_datafifo (acc s a) = None) \<and>
     acc_callback (acc s rbmg_chassis_acc) = Some port_callback.rbmg_chassis_ctrl_callback \<and>
     acc_callback (acc s chassis_acc) = Some port_callback.chassis_sub_callback"

lemma topic_ready_frame:
  assumes "same_bus s s'" and "fview s' fa = fview s fa"
  shows "topic_ready s' t fa bs m = topic_ready s t fa bs m"
  using assms by (simp add: topic_ready_def same_bus_def)

lemma ctrl_ready_frame:
  assumes "ctrl_ready own s" and "same_bus s s'" and "\<forall>fa. fa \<notin> own \<longrightarrow> fview s' fa = fview s fa"
  shows "ctrl_ready own s'"
proof -
  obtain fc where "fc \<notin> own" "\<forall>m. length m = unat sizeof_chassis_ctrl \<longrightarrow>
      topic_ready s chassis_ctrl_topic fc [rbmg_chassis_acc, chassis_acc] m"
    using assms(1) by (auto simp: ctrl_ready_def)
  then have "\<exists>fc. fc \<notin> own \<and> (\<forall>m. length m = unat sizeof_chassis_ctrl \<longrightarrow>
      topic_ready s' chassis_ctrl_topic fc [rbmg_chassis_acc, chassis_acc] m)"
    using topic_ready_frame [OF assms(2)] assms(3) by blast
  moreover have "acc s' = acc s" using assms(2) by (simp add: same_bus_def)
  ultimately show ?thesis using assms(1) by (simp add: ctrl_ready_def)
qed

lemma ctrl_publish:
  assumes "ctrl_ready own s" and "length m = unat sizeof_chassis_ctrl" and "length junk = unat sizeof_chassis_ctrl"
  obtains s' where "abus_public (port_call (Suc d) enc dec fl junk) s rbmg_chassis_acc m = Some (Inr (0, s'))"
    "same_bus s s'" "fview s' = fview s"
    "world s' = leaf_react dec port_callback.chassis_sub_callback chassis_ctrl_topic m (world s)"
proof -
  obtain fc where fc: "topic_ready s chassis_ctrl_topic fc [rbmg_chassis_acc, chassis_acc] m"
    using assms(1,2) by (auto simp: ctrl_ready_def)
  have a: "acc_topic (acc s rbmg_chassis_acc) = Some chassis_ctrl_topic"
    "acc_datafifo (acc s rbmg_chassis_acc) = None" "acc_datafifo (acc s chassis_acc) = None"
    "acc_callback (acc s rbmg_chassis_acc) = Some port_callback.rbmg_chassis_ctrl_callback"
    "acc_callback (acc s chassis_acc) = Some port_callback.chassis_sub_callback"
    using assms(1) by (simp_all add: ctrl_ready_def)
  have "\<exists>s'. abus_public (port_call (Suc d) enc dec fl junk) s rbmg_chassis_acc m = Some (Inr (0, s')) \<and>
      same_bus s s' \<and> True \<and> fview s' = copies s m [rbmg_chassis_acc, chassis_acc] (fview s) \<and>
      world s' = reactions s (leaf_react dec) chassis_ctrl_topic m [rbmg_chassis_acc, chassis_acc] (world s)"
    by (rule leaf.publish_ok [OF TrueI fc a(1) UNIV_I])
      (use a assms(2,3) in \<open>simp_all add: ctrl_callbacks_def\<close>)
  then show thesis
    using a by (elim exE conjE, intro that) (simp_all add: leaf_react_def)
qed

definition error_react ::
    "(real \<Rightarrow> u8 list) \<Rightarrow> (u8 list \<Rightarrow> real) \<Rightarrow> rounding \<Rightarrow> port_callback \<Rightarrow> nat \<Rightarrow> u8 list \<Rightarrow>
     'w firmware \<Rightarrow> 'w firmware" where
  "error_react enc dec fl c t m w =
     (if rbmg_mode (mgr w) = LINE_MODE
      then let w1 = on_mgr (line_ctrl fl (dec m)) w in
           leaf_react dec port_callback.chassis_sub_callback chassis_ctrl_topic
             (ctrl_bytes enc (ctrl (mgr w1))) w1
      else w)"

definition error_callbacks :: "(real \<Rightarrow> u8 list) \<Rightarrow> u8 list \<Rightarrow> u8 list \<Rightarrow> port_callback set" where
  "error_callbacks enc junk m =
     (if (\<forall>x. length (enc x) = 4) \<and> length junk = unat sizeof_chassis_ctrl \<and> length m = 4
      then {port_callback.rbmg_error_callback} else {})"

interpretation error: bus_callbacks "port_call (Suc (Suc d)) enc dec fl junk" "error_react enc dec fl"
    line_error_topic m own "error_callbacks enc junk m" "ctrl_ready own" for d enc dec fl junk m own
proof (unfold_locales, goal_cases)
  case (1 c s fa cap)
  then have c: "c = port_callback.rbmg_error_callback" "length m = 4" "length junk = unat sizeof_chassis_ctrl"
    "\<forall>x. length (enc x) = 4"
    by (auto simp: error_callbacks_def split: if_splits)
  show ?case
  proof (cases "rbmg_mode (mgr (world s)) = LINE_MODE")
    case False
    then show ?thesis using 1(2) c(1) by (simp add: error_react_def)
  next
    case True
    define w where "w = on_mgr (line_ctrl fl (dec m)) (world s)"
    have peek: "fifo_peek s (Some fa) (enc (line_error (mgr (world s)))) 4 = Inr (4, m)"
      using 1(5) c(2,4) by (intro fifo_peek_view [where q = "[]"]) simp_all
    have "ctrl_ready own (s\<lparr>world := w\<rparr>)"
      by (rule ctrl_ready_frame [OF 1(2)]) simp_all
    moreover have "length (ctrl_bytes enc (ctrl (mgr w))) = unat sizeof_chassis_ctrl"
      using c(4) by (simp add: ctrl_bytes_def sizeof_chassis_ctrl_def)
    ultimately obtain s' where s':
      "abus_public (port_call (Suc d) enc dec fl junk) (s\<lparr>world := w\<rparr>) rbmg_chassis_acc
         (ctrl_bytes enc (ctrl (mgr w))) = Some (Inr (0, s'))"
      "same_bus (s\<lparr>world := w\<rparr>) s'" "fview s' = fview (s\<lparr>world := w\<rparr>)"
      "world s' = leaf_react dec port_callback.chassis_sub_callback chassis_ctrl_topic
         (ctrl_bytes enc (ctrl (mgr w))) (world (s\<lparr>world := w\<rparr>))"
      using c(3) by (metis ctrl_publish)
    have same: "same_bus s s'" using s'(2) by (simp add: same_bus_def)
    have "ctrl_ready own s'" by (rule ctrl_ready_frame [OF 1(2) same]) (simp add: s'(3))
    moreover have "port_call (Suc (Suc d)) enc dec fl junk c line_error_topic s = Some (Inr s')"
      using True c(1) 1(3) peek s'(1) by (simp add: w_def [symmetric] del: port_call.simps)
        (simp add: port_call.simps(2) [of "Suc d"] w_def Let_def del: port_call.simps)
    ultimately show ?thesis
      using same s'(3,4) True by (simp add: error_react_def Let_def w_def [symmetric])
  qed
next
  case (2 s s')
  then show ?case by (metis ctrl_ready_frame)
qed

declare port_call.simps [simp del]

subsection \<open>The booted bus\<close>

text \<open>
  The topics that the line sensor and the manager publish on are ready, nobody has a FIFO of
  its own, and the callbacks are those of the robot.
\<close>

definition fw_ready :: "'w fbus \<Rightarrow> bool" where
  "fw_ready s \<longleftrightarrow>
     (\<exists>f1 f2 f4. f1 \<noteq> f4 \<and>
        (\<forall>m. length m = 4 \<longrightarrow> topic_ready s line_error_topic f1 [rbmg_error_acc, line_error_acc] m) \<and>
        (\<forall>m. length m = 1 \<longrightarrow>
           topic_ready s line_special_topic f2 [rbmg_special_point_acc, line_spacial_point_acc] m) \<and>
        (\<forall>m. length m = unat sizeof_chassis_ctrl \<longrightarrow>
           topic_ready s chassis_ctrl_topic f4 [rbmg_chassis_acc, chassis_acc] m)) \<and>
     (\<forall>a. acc_datafifo (acc s a) = None) \<and>
     map (\<lambda>a. acc_callback (acc s a)) [line_error_acc, line_spacial_point_acc, chassis_acc,
         rbmg_error_acc, rbmg_special_point_acc, rbmg_chassis_acc] =
       [None, None, Some port_callback.chassis_sub_callback, Some port_callback.rbmg_error_callback,
        Some port_callback.rbmg_special_point_callback, Some port_callback.rbmg_chassis_ctrl_callback]"

lemma fw_ready_frame:
  assumes "fw_ready s" and "same_bus s s'" and "fview s' = fview s"
  shows "fw_ready s'"
proof -
  have "acc s' = acc s" using assms(2) by (simp add: same_bus_def)
  then show ?thesis
    using assms(1) unfolding fw_ready_def
    by (simp add: topic_ready_frame [OF assms(2)] assms(3))
qed

lemma boot_fw_ready:
  assumes "\<forall>k\<in>{1..4}. length (block k) = 1024 \<and> alloc k sizeof_afifo = Some (fa k)"
    and "distinct (map fa [1, 2, 3, 4])"
    and "abus_all_init lit block alloc (abus_zero w) = Inr (0, s)"
  shows "fw_ready s" "world s = w"
proof -
  from boot_ok [where block = block and alloc = alloc and fa = fa and lit = lit and w = w, OF assms(1,2)] assms(3)
  have b: "world s = w"
    "\<forall>m. length m = 4 \<longrightarrow> topic_ready s line_error_topic (fa 1) [rbmg_error_acc, line_error_acc] m"
    "\<forall>m. length m = 1 \<longrightarrow>
       topic_ready s line_special_topic (fa 2) [rbmg_special_point_acc, line_spacial_point_acc] m"
    "\<forall>m. length m = unat sizeof_chassis_ctrl \<longrightarrow>
       topic_ready s chassis_ctrl_topic (fa 4) [rbmg_chassis_acc, chassis_acc] m"
    "\<forall>a. acc_datafifo (acc s a) = None"
    "map (\<lambda>a. acc_callback (acc s a)) [line_error_acc, line_dir_acc, line_spacial_point_acc,
       chassis_acc, rbmg_error_acc, rbmg_dir_acc, rbmg_special_point_acc, rbmg_chassis_acc] =
      [None, None, None, Some port_callback.chassis_sub_callback, Some port_callback.rbmg_error_callback,
       Some port_callback.rbmg_dir_callback, Some port_callback.rbmg_special_point_callback,
       Some port_callback.rbmg_chassis_ctrl_callback]"
    by simp_all
  show "world s = w" by (rule b(1))
  have "fa 1 \<noteq> fa 4" using assms(2) by simp
  then show "fw_ready s"
    using b(2-6) unfolding fw_ready_def by (intro conjI exI [of _ "fa 1"] exI [of _ "fa 2"] exI [of _ "fa 4"]) simp_all
qed

lemma special_publish:
  assumes "fw_ready s"
  obtains s' where "abus_public (port_call (Suc d) enc dec fl junk) s line_spacial_point_acc [1] = Some (Inr (0, s'))"
    "same_bus s s'" "fview s' = fview s"
    "world s' = on_mgr RobotManager.rbmg_special_point_callback (world s)"
proof -
  obtain f2 where "\<forall>m. length m = 1 \<longrightarrow>
      topic_ready s line_special_topic f2 [rbmg_special_point_acc, line_spacial_point_acc] m"
    using assms unfolding fw_ready_def by blast
  then have f2: "topic_ready s line_special_topic f2 [rbmg_special_point_acc, line_spacial_point_acc] [1]"
    by simp
  then have a: "acc_topic (acc s line_spacial_point_acc) = Some line_special_topic"
    by (simp add: topic_ready_def)
  have n: "\<forall>a. acc_datafifo (acc s a) = None" "acc_callback (acc s line_spacial_point_acc) = None"
    "acc_callback (acc s rbmg_special_point_acc) = Some port_callback.rbmg_special_point_callback"
    using assms by (simp_all add: fw_ready_def)
  have "\<exists>s'. abus_public (port_call (Suc d) enc dec fl junk) s line_spacial_point_acc [1] = Some (Inr (0, s')) \<and>
      same_bus s s' \<and> True \<and> fview s' = copies s [1] [rbmg_special_point_acc, line_spacial_point_acc] (fview s) \<and>
      world s' = reactions s (leaf_react dec) line_special_topic [1] [rbmg_special_point_acc, line_spacial_point_acc] (world s)"
    by (rule special.publish_ok [OF TrueI f2 a UNIV_I]) (use n in simp_all)
  then show thesis
    using n by (elim exE conjE, intro that) (simp_all add: leaf_react_def)
qed

lemma error_publish:
  assumes "fw_ready s" and "length m = 4" and "\<forall>x. length (enc x) = 4"
    and "length junk = unat sizeof_chassis_ctrl"
  obtains s' where "abus_public (port_call (Suc (Suc d)) enc dec fl junk) s line_error_acc m = Some (Inr (0, s'))"
    "same_bus s s'" "fview s' = fview s"
    "world s' = error_react enc dec fl port_callback.rbmg_error_callback line_error_topic m (world s)"
proof -
  obtain f1 f4 where f: "f1 \<noteq> f4"
    "topic_ready s line_error_topic f1 [rbmg_error_acc, line_error_acc] m"
    "\<forall>m. length m = unat sizeof_chassis_ctrl \<longrightarrow>
       topic_ready s chassis_ctrl_topic f4 [rbmg_chassis_acc, chassis_acc] m"
    using assms(1,2) by (auto simp: fw_ready_def)
  have n: "\<forall>a. acc_datafifo (acc s a) = None" "acc_callback (acc s line_error_acc) = None"
    "acc_callback (acc s rbmg_error_acc) = Some port_callback.rbmg_error_callback"
    "acc_callback (acc s chassis_acc) = Some port_callback.chassis_sub_callback"
    "acc_callback (acc s rbmg_chassis_acc) = Some port_callback.rbmg_chassis_ctrl_callback"
    using assms(1) by (simp_all add: fw_ready_def)
  have "topic_ready s chassis_ctrl_topic f4 [rbmg_chassis_acc, chassis_acc] (replicate (unat sizeof_chassis_ctrl) 0)"
    using f(3) by simp
  then have c: "ctrl_ready {f1} s"
    using n f(1,3) by (auto simp: ctrl_ready_def topic_ready_def)
  have a: "acc_topic (acc s line_error_acc) = Some line_error_topic"
    using f(2) by (simp add: topic_ready_def)
  have "\<exists>s'. abus_public (port_call (Suc (Suc d)) enc dec fl junk) s line_error_acc m = Some (Inr (0, s')) \<and>
      same_bus s s' \<and> ctrl_ready {f1} s' \<and> fview s' = copies s m [rbmg_error_acc, line_error_acc] (fview s) \<and>
      world s' = reactions s (error_react enc dec fl) line_error_topic m [rbmg_error_acc, line_error_acc] (world s)"
    by (rule error.publish_ok [OF c f(2) a]) (use n assms(2-4) in \<open>simp_all add: error_callbacks_def\<close>)
  then show thesis
    using n by (elim exE conjE, intro that) simp_all
qed

text \<open>A round of the line sensor's thread, on the state of the manager.\<close>

definition line_step :: "rounding \<Rightarrow> rounding \<Rightarrow> u8 list \<Rightarrow> bool list \<Rightarrow> 'w rbmg \<Rightarrow> 'w rbmg" where
  "line_step fl fd dir pins r =
     (let p = GET_Infrared_Data pins \<lparr>infrared_data = [], is_spacial_point_flag = 0, move_direction = dir\<rparr>
      in RobotManager.rbmg_error_callback fl (line_error_of fl fd (infrared_data p))
           (if fst (Is_Spacial_point p) \<noteq> 0 then RobotManager.rbmg_special_point_callback r else r))"

lemma ctrl_of_bytes:
  assumes "\<forall>x. length (enc x) = 4" and "dec (enc (cc_x c)) = cc_x c" "dec (enc (cc_y c)) = cc_y c"
    "dec (enc (cc_z c)) = cc_z c"
  shows "ctrl_of dec (ctrl_bytes enc c) = c"
  using assms by (simp add: ctrl_of_def ctrl_bytes_def)

lemma error_react_callback:
  assumes "\<forall>x. length (enc x) = 4" and "\<forall>x. dec (enc (fl x)) = fl x" and "fl 0 = 0"
    and "e = fl e'"
  shows "error_react enc dec fl c t (enc e) w = on_mgr (RobotManager.rbmg_error_callback fl e) w"
proof -
  have z: "dec (enc 0) = 0" using assms(2,3) by metis
  have "ctrl_of dec (ctrl_bytes enc (ctrl (line_ctrl fl e r))) = ctrl (line_ctrl fl e r)" for r :: "'b rbmg"
    by (rule ctrl_of_bytes [OF assms(1)]) (simp_all add: line_ctrl_def z assms(2))
  then show ?thesis
    using assms(2,4)
    by (simp add: error_react_def leaf_react_def RobotManager.rbmg_error_callback_def publish_ctrl_def
        line_ctrl_def on_mgr_def Let_def)
qed

lemma Is_Spacial_point_cong:
  "infrared_data p = infrared_data q \<Longrightarrow> move_direction p = move_direction q \<Longrightarrow>
   fst (Is_Spacial_point p) = fst (Is_Spacial_point q)"
  by (simp add: Is_Spacial_point_def Let_def)

lemma follow_line_round_ok:
  fixes s :: "'w fbus"
  assumes "fw_ready s" and "\<forall>x. length (enc x) = 4" and "\<forall>x. dec (enc (fl x)) = fl x" and "fl 0 = 0"
    and "length junk = unat sizeof_chassis_ctrl"
  obtains s' where "follow_line_round (port_call (Suc (Suc d)) enc dec fl junk) enc fl fd pins s = Some (Inr s')"
    "same_bus s s'" "fview s' = fview s"
    "mgr (world s') = line_step fl fd (move_direction (infrared_package (world s))) pins (mgr (world s))"
    "move_direction (infrared_package (world s')) = move_direction (infrared_package (world s))"
proof -
  let ?call = "port_call (Suc (Suc d)) enc dec fl junk"
  define p where "p = GET_Infrared_Data pins (infrared_package (world s))"
  define e where "e = line_error_of fl fd (infrared_data p)"
  obtain flag p1 where fp: "Is_Spacial_point p = (flag, p1)" by fastforce
  define s1 where "s1 = s\<lparr>world := (world s)\<lparr>infrared_package := p1, follow_error := e\<rparr>\<rparr>"
  have dir: "move_direction p1 = move_direction (infrared_package (world s))"
    using fp by (auto simp: Is_Spacial_point_def Let_def p_def GET_Infrared_Data_def)
  have r1: "fw_ready s1" by (rule fw_ready_frame [OF assms(1)]) (simp_all add: s1_def)
  have b1: "same_bus s s1" "fview s1 = fview s" by (simp_all add: s1_def)
  define g :: "'w rbmg \<Rightarrow> 'w rbmg" where "g = (if flag \<noteq> 0 then RobotManager.rbmg_special_point_callback else (\<lambda>r. r))"
  have "\<exists>s2. (if flag \<noteq> 0 then Option.bind (abus_public ?call s1 line_spacial_point_acc [1])
                (\<lambda>r. Some (bind_res r (\<lambda>(_, s'). Inr s'))) else Some (Inr s1)) = Some (Inr s2) \<and>
      same_bus s1 s2 \<and> fview s2 = fview s1 \<and> world s2 = on_mgr g (world s1)"
  proof (cases "flag = 0")
    case False
    obtain s2 where "abus_public ?call s1 line_spacial_point_acc [1] = Some (Inr (0, s2))"
      "same_bus s1 s2" "fview s2 = fview s1"
      "world s2 = on_mgr RobotManager.rbmg_special_point_callback (world s1)"
      by (rule special_publish [OF r1])
    with False show ?thesis by (simp add: g_def)
  qed (simp add: g_def)
  then obtain s2 where s2: "(if flag \<noteq> 0 then Option.bind (abus_public ?call s1 line_spacial_point_acc [1])
                (\<lambda>r. Some (bind_res r (\<lambda>(_, s'). Inr s'))) else Some (Inr s1)) = Some (Inr s2)"
    "same_bus s1 s2" "fview s2 = fview s1" "world s2 = on_mgr g (world s1)" by blast
  have e2: "follow_error (world s2) = e" by (simp add: s2(4) on_mgr_def s1_def)
  have r2: "fw_ready s2" by (rule fw_ready_frame [OF r1 s2(2,3)])
  obtain s3 where s3: "abus_public ?call s2 line_error_acc (enc e) = Some (Inr (0, s3))"
    "same_bus s2 s3" "fview s3 = fview s2"
    "world s3 = error_react enc dec fl port_callback.rbmg_error_callback line_error_topic (enc e) (world s2)"
    by (rule error_publish [OF r2 _ assms(2,5), of "enc e"]) (use assms(2) in simp)
  have "\<exists>e'. e = fl e'" by (auto simp: e_def line_error_of_def Let_def)
  then have w3: "world s3 = on_mgr (RobotManager.rbmg_error_callback fl e) (world s2)"
    unfolding s3(4) using error_react_callback [OF assms(2-4)] by blast
  have step: "line_step fl fd (move_direction (infrared_package (world s))) pins (mgr (world s)) =
      RobotManager.rbmg_error_callback fl e (g (mgr (world s)))"
  proof -
    let ?q = "GET_Infrared_Data pins \<lparr>infrared_data = [], is_spacial_point_flag = 0,
        move_direction = move_direction (infrared_package (world s))\<rparr>"
    have q: "infrared_data ?q = infrared_data p" "move_direction ?q = move_direction p"
      by (simp_all add: p_def GET_Infrared_Data_def)
    then have "fst (Is_Spacial_point ?q) = flag" using Is_Spacial_point_cong [of ?q p] fp by simp
    then show ?thesis by (simp add: line_step_def Let_def g_def e_def q)
  qed
  show thesis
  proof (rule that)
    show "follow_line_round ?call enc fl fd pins s = Some (Inr s3)"
      using s2(1) s3(1) fp e2
      by (cases "flag = 0") (auto simp: follow_line_round_def Let_def p_def [symmetric] e_def [symmetric]
          s1_def [symmetric] Option.bind_eq_Some_conv)
    show "same_bus s s3" "fview s3 = fview s"
      using b1 s2(2,3) s3(2,3) by (auto intro: same_bus_trans)
    show "mgr (world s3) = line_step fl fd (move_direction (infrared_package (world s))) pins (mgr (world s))"
      by (simp add: step w3 s2(4) on_mgr_def s1_def)
    show "move_direction (infrared_package (world s3)) = move_direction (infrared_package (world s))"
      by (simp add: w3 s2(4) on_mgr_def s1_def dir)
  qed
qed

text \<open>Any number of rounds.\<close>

fun follow_line_rounds ::
    "(port_callback \<Rightarrow> nat \<Rightarrow> 'w fbus \<Rightarrow> 'w fbus res option) \<Rightarrow> (real \<Rightarrow> u8 list) \<Rightarrow> rounding \<Rightarrow> rounding \<Rightarrow>
     bool list list \<Rightarrow> 'w fbus \<Rightarrow> 'w fbus res option" where
  "follow_line_rounds call enc fl fd [] s = Some (Inr s)"
| "follow_line_rounds call enc fl fd (pins # ps) s =
     Option.bind (follow_line_round call enc fl fd pins s)
       (\<lambda>r. case r of Inl e \<Rightarrow> Some (Inl e) | Inr s' \<Rightarrow> follow_line_rounds call enc fl fd ps s')"

lemma follow_line_rounds_ok:
  assumes "fw_ready s" and "\<forall>x. length (enc x) = 4" and "\<forall>x. dec (enc (fl x)) = fl x" and "fl 0 = 0"
    and "length junk = unat sizeof_chassis_ctrl"
  shows "\<exists>s'. follow_line_rounds (port_call (Suc (Suc d)) enc dec fl junk) enc fl fd ps s = Some (Inr s') \<and>
    same_bus s s' \<and> fview s' = fview s \<and>
    mgr (world s') = fold (line_step fl fd (move_direction (infrared_package (world s)))) ps (mgr (world s))"
  using assms(1)
proof (induction ps arbitrary: s)
  case Nil
  then show ?case by simp
next
  case (Cons pins ps)
  obtain s1 where s1: "follow_line_round (port_call (Suc (Suc d)) enc dec fl junk) enc fl fd pins s = Some (Inr s1)"
    "same_bus s s1" "fview s1 = fview s"
    "mgr (world s1) = line_step fl fd (move_direction (infrared_package (world s))) pins (mgr (world s))"
    "move_direction (infrared_package (world s1)) = move_direction (infrared_package (world s))"
    by (rule follow_line_round_ok [OF Cons.prems assms(2-5)])
  from Cons.IH [OF fw_ready_frame [OF Cons.prems s1(2,3)]] obtain s2 where
    "follow_line_rounds (port_call (Suc (Suc d)) enc dec fl junk) enc fl fd ps s1 = Some (Inr s2)"
    "same_bus s1 s2" "fview s2 = fview s1"
    "mgr (world s2) = fold (line_step fl fd (move_direction (infrared_package (world s1)))) ps (mgr (world s1))"
    by blast
  with s1 show ?case by (auto intro: same_bus_trans)
qed

end
