(* ===== verification/Ieee.thy ===== *)
theory Ieee
  imports Apid
begin

section \<open>Floating-point numbers with infinities\<close>

text \<open>
  The arm's kinematics divide by distances that may be zero and then go on with the quotient,
  so they need the special values of IEEE arithmetic. A number is finite (a real), an infinity
  (\<open>Infty True\<close> is the positive one) or not a number. Every operation with a finite result rounds
  it by the parameter \<open>fl\<close> or \<open>fd\<close>, as in the other theories; that a finite number may become too
  large for its format is left aside. A zero divisor counts as positive, which it is wherever the
  code divides: every divisor that may be zero is a \<open>hypot\<close>, a \<open>sqrt\<close> or an \<open>abs\<close>.
\<close>

datatype ieee = Fin real | Infty bool | NaN

definition ieee_neg :: "ieee \<Rightarrow> ieee" where
  "ieee_neg x = (case x of Fin a \<Rightarrow> Fin (- a) | Infty s \<Rightarrow> Infty (\<not> s) | NaN \<Rightarrow> NaN)"

fun ieee_add :: "rounding \<Rightarrow> ieee \<Rightarrow> ieee \<Rightarrow> ieee" where
  "ieee_add fl (Fin a) (Fin b) = Fin (fl (a + b))"
| "ieee_add fl (Infty s) (Fin b) = Infty s"
| "ieee_add fl (Fin a) (Infty s) = Infty s"
| "ieee_add fl (Infty s) (Infty s') = (if s = s' then Infty s else NaN)"
| "ieee_add fl NaN y = NaN"
| "ieee_add fl x NaN = NaN"

definition ieee_sub :: "rounding \<Rightarrow> ieee \<Rightarrow> ieee \<Rightarrow> ieee" where
  "ieee_sub fl x y = ieee_add fl x (ieee_neg y)"

fun ieee_mul :: "rounding \<Rightarrow> ieee \<Rightarrow> ieee \<Rightarrow> ieee" where
  "ieee_mul fl (Fin a) (Fin b) = Fin (fl (a * b))"
| "ieee_mul fl (Infty s) (Fin b) = (if b = 0 then NaN else Infty (s = (b > 0)))"
| "ieee_mul fl (Fin a) (Infty s) = (if a = 0 then NaN else Infty (s = (a > 0)))"
| "ieee_mul fl (Infty s) (Infty s') = Infty (s = s')"
| "ieee_mul fl NaN y = NaN"
| "ieee_mul fl x NaN = NaN"

fun ieee_div :: "rounding \<Rightarrow> ieee \<Rightarrow> ieee \<Rightarrow> ieee" where
  "ieee_div fl (Fin a) (Fin b) =
     (if b \<noteq> 0 then Fin (fl (a / b)) else if a = 0 then NaN else Infty (a > 0))"
| "ieee_div fl (Infty s) (Fin b) = Infty (s = (b \<ge> 0))"
| "ieee_div fl (Fin a) (Infty s) = Fin 0"
| "ieee_div fl (Infty s) (Infty s') = NaN"
| "ieee_div fl NaN y = NaN"
| "ieee_div fl x NaN = NaN"

text \<open>The comparisons of C; each is false when an operand is not a number.\<close>

fun ieee_less :: "ieee \<Rightarrow> ieee \<Rightarrow> bool" where
  "ieee_less (Fin a) (Fin b) = (a < b)"
| "ieee_less (Infty s) (Fin b) = (\<not> s)"
| "ieee_less (Fin a) (Infty s) = s"
| "ieee_less (Infty s) (Infty s') = (\<not> s \<and> s')"
| "ieee_less NaN y = False"
| "ieee_less x NaN = False"

definition ieee_leq :: "ieee \<Rightarrow> ieee \<Rightarrow> bool" where
  "ieee_leq x y \<longleftrightarrow> ieee_less x y \<or> x = y \<and> x \<noteq> NaN"

text \<open>The functions of \<open>math.h\<close> that the arm uses.\<close>

definition ieee_abs :: "ieee \<Rightarrow> ieee" where
  "ieee_abs x = (case x of Fin a \<Rightarrow> Fin \<bar>a\<bar> | Infty s \<Rightarrow> Infty True | NaN \<Rightarrow> NaN)"

definition ieee_sqrt :: "rounding \<Rightarrow> ieee \<Rightarrow> ieee" where
  "ieee_sqrt fl x =
     (case x of Fin a \<Rightarrow> if a < 0 then NaN else Fin (fl (sqrt a))
      | Infty s \<Rightarrow> if s then Infty True else NaN | NaN \<Rightarrow> NaN)"

fun ieee_hypot :: "rounding \<Rightarrow> ieee \<Rightarrow> ieee \<Rightarrow> ieee" where
  "ieee_hypot fl (Fin a) (Fin b) = Fin (fl (sqrt (a\<^sup>2 + b\<^sup>2)))"
| "ieee_hypot fl (Infty s) y = Infty True"
| "ieee_hypot fl x (Infty s) = Infty True"
| "ieee_hypot fl NaN y = NaN"
| "ieee_hypot fl x NaN = NaN"

definition ieee_asin :: "rounding \<Rightarrow> ieee \<Rightarrow> ieee" where
  "ieee_asin fl x = (case x of Fin a \<Rightarrow> if \<bar>a\<bar> \<le> 1 then Fin (fl (arcsin a)) else NaN | _ \<Rightarrow> NaN)"

definition ieee_acos :: "rounding \<Rightarrow> ieee \<Rightarrow> ieee" where
  "ieee_acos fl x = (case x of Fin a \<Rightarrow> if \<bar>a\<bar> \<le> 1 then Fin (fl (arccos a)) else NaN | _ \<Rightarrow> NaN)"

definition ieee_atan :: "rounding \<Rightarrow> ieee \<Rightarrow> ieee" where
  "ieee_atan fl x =
     (case x of Fin a \<Rightarrow> Fin (fl (arctan a)) | Infty s \<Rightarrow> Fin (fl (if s then pi / 2 else - (pi / 2))) | NaN \<Rightarrow> NaN)"

definition ieee_cos :: "rounding \<Rightarrow> ieee \<Rightarrow> ieee" where
  "ieee_cos fl x = (case x of Fin a \<Rightarrow> Fin (fl (cos a)) | _ \<Rightarrow> NaN)"

text \<open>A double stored in a float, and the conversion to \<open>int32_t\<close>, undefined outside its range.\<close>

definition narrow :: "rounding \<Rightarrow> ieee \<Rightarrow> ieee" where
  "narrow fl x = (case x of Fin a \<Rightarrow> Fin (fl a) | _ \<Rightarrow> x)"

definition to_int32 :: "ieee \<Rightarrow> int res" where
  "to_int32 x =
     (case x of Fin a \<Rightarrow> if - (2 ^ 31) \<le> trunc a \<and> trunc a < 2 ^ 31 then Inr (trunc a) else Inl BadConversion
      | _ \<Rightarrow> Inl BadConversion)"

definition sub32 :: "int \<Rightarrow> int \<Rightarrow> int res" where
  "sub32 x y = (if - (2 ^ 31) \<le> x - y \<and> x - y < 2 ^ 31 then Inr (x - y) else Inl SignedOverflow)"

lemmas ieee_defs = ieee_neg_def ieee_sub_def ieee_leq_def ieee_abs_def ieee_sqrt_def ieee_asin_def
  ieee_acos_def ieee_atan_def ieee_cos_def narrow_def

definition is_fin :: "ieee \<Rightarrow> bool" where
  "is_fin x \<longleftrightarrow> (\<exists>a. x = Fin a)"

lemma trunc_bounds: "\<bar>of_int (trunc x) - x\<bar> < 1" "\<bar>of_int (trunc x)\<bar> \<le> \<bar>x\<bar>"
  unfolding trunc_def by (auto, linarith+)

lemma trunc_between:
  assumes "a \<le> x" "x \<le> b" "a \<le> 0" "0 \<le> b"
  shows "a \<le> of_int (trunc x)" and "of_int (trunc x) \<le> b"
proof -
  have "a \<le> of_int (trunc x) \<and> of_int (trunc x) \<le> b"
  proof (cases "0 \<le> x")
    case True
    then have "0 \<le> real_of_int \<lfloor>x\<rfloor>" "real_of_int \<lfloor>x\<rfloor> \<le> x" by auto
    then show ?thesis unfolding trunc_def using assms True by (simp only: if_True) linarith
  next
    case False
    then have "x \<le> real_of_int \<lceil>x\<rceil>" "real_of_int \<lceil>x\<rceil> \<le> 0" by auto
    then show ?thesis unfolding trunc_def using assms False by (simp only: if_False) linarith
  qed
  then show "a \<le> of_int (trunc x)" and "of_int (trunc x) \<le> b" by auto
qed

end
