(* ===== verification/Bytes.thy ===== *)
theory Bytes
  imports Prelude
begin

section \<open>Bytes of machine words\<close>

text \<open>
  How the serial protocols of the drives and of the servo take 16- and 32-bit words apart and put
  them together again.
\<close>

definition hi16 :: "u16 \<Rightarrow> u8" where "hi16 v = ucast (drop_bit 8 v)"
definition lo16 :: "u16 \<Rightarrow> u8" where "lo16 v = ucast (drop_bit 0 v)"
definition byte32 :: "nat \<Rightarrow> u32 \<Rightarrow> u8" where "byte32 k v = ucast (drop_bit k v)"

definition join16 :: "u8 \<Rightarrow> u8 \<Rightarrow> u16" where
  "join16 h l = push_bit 8 (ucast h) OR ucast l"

definition join32 :: "u8 \<Rightarrow> u8 \<Rightarrow> u8 \<Rightarrow> u8 \<Rightarrow> u32" where
  "join32 a b c d = push_bit 24 (ucast a) OR push_bit 16 (ucast b) OR push_bit 8 (ucast c) OR ucast d"

lemma join16_bytes [simp]: "join16 (hi16 v) (lo16 v) = v"
  unfolding join16_def hi16_def lo16_def
  by (rule bit_word_eqI) (auto simp: bit_simps not_le)

lemma join32_bytes [simp]: "join32 (byte32 24 v) (byte32 16 v) (byte32 8 v) (byte32 0 v) = v"
proof (rule bit_word_eqI)
  fix n
  assume "n < LENGTH(32)"
  then consider "n < 8" | "8 \<le> n" "n < 16" | "16 \<le> n" "n < 24" | "24 \<le> n" "n < 32" by fastforce
  then show "bit (join32 (byte32 24 v) (byte32 16 v) (byte32 8 v) (byte32 0 v)) n = bit v n"
    unfolding join32_def byte32_def by cases (auto simp: bit_simps)
qed

subsection \<open>Writers and readers of frames\<close>

text \<open>
  The contract between the side that writes a command and the side that reads it: the reader gets
  back what was written, for the commands the writer is meant for. Then different commands have
  different bytes.
\<close>

locale codec =
  fixes encode :: "'c \<Rightarrow> u8 list" and decode :: "u8 list \<Rightarrow> 'c option" and valid :: "'c \<Rightarrow> bool"
  assumes decode_encode: "valid c \<Longrightarrow> decode (encode c) = Some c"
begin

lemma encode_unique: "valid c \<Longrightarrow> valid c' \<Longrightarrow> encode c = encode c' \<Longrightarrow> c = c'"
  using decode_encode by (metis option.inject)

lemma decode_all: "list_all valid cs \<Longrightarrow> map (\<lambda>c. decode (encode c)) cs = map Some cs"
  by (induction cs) (simp_all add: decode_encode)

end

end
