(* ===== verification/Emm.thy ===== *)
theory Emm
  imports Bytes
begin

section \<open>Commands to the closed-loop stepper drives (Emm_V5.c, Emm_V5.h)\<close>

text \<open>
  Each function of \<open>Emm_V5.c\<close> fills an array with zeros and the bytes of a command, sets the
  global \<open>stepper_motor_cmd_state\<close> to the kind of answer that will come, and transmits the
  first bytes of the array. Here a function gives the pair of this state and the transmitted
  bytes; taking the mutex and releasing it and the semaphore around the transfer is the same
  in all of them and is part of theory Stepper. A \<open>rt_bool_t\<close> argument is stored in one byte.
\<close>

subsection \<open>Data\<close>

datatype SysParams_t =
    S_VER | S_RL | S_PID | S_VBUS | S_CPHA | S_ENCL | S_TPOS | S_VEL | S_CPOS | S_PERR | S_FLAG
  | S_Conf | S_State | S_ORG | S_IDLE | S_Ans

type_synonym emm_frame = "SysParams_t \<times> u8 list"

definition flag :: "bool \<Rightarrow> u8" where
  "flag b = (if b then 1 else 0)"

text \<open>\<open>uint8_t cmd[n] = {0}\<close> with its first bytes set, and what \<open>Emm_V5_Transmit (cmd, len)\<close> sends.\<close>

definition cmd_array :: "nat \<Rightarrow> u8 list \<Rightarrow> u8 list" where
  "cmd_array n bs = bs @ replicate (n - length bs) 0"

definition transmit :: "SysParams_t \<Rightarrow> u8 list \<Rightarrow> nat \<Rightarrow> emm_frame" where
  "transmit s cmd len = (s, take len cmd)"

subsection \<open>The commands\<close>

definition Emm_V5_Reset_CurPos_To_Zero :: "u8 \<Rightarrow> emm_frame" where
  "Emm_V5_Reset_CurPos_To_Zero addr = transmit S_Ans (cmd_array 16 [addr, 0x0A, 0x6D, 0x6B]) 4"

definition Emm_V5_Reset_Clog_Pro :: "u8 \<Rightarrow> emm_frame" where
  "Emm_V5_Reset_Clog_Pro addr = transmit S_Ans (cmd_array 16 [addr, 0x0E, 0x52, 0x6B]) 4"

fun sys_code :: "SysParams_t \<Rightarrow> u8 list" where
  "sys_code S_VER = [0x1F]"
| "sys_code S_RL = [0x20]"
| "sys_code S_PID = [0x21]"
| "sys_code S_VBUS = [0x24]"
| "sys_code S_CPHA = [0x27]"
| "sys_code S_ENCL = [0x31]"
| "sys_code S_TPOS = [0x33]"
| "sys_code S_VEL = [0x35]"
| "sys_code S_CPOS = [0x36]"
| "sys_code S_PERR = [0x37]"
| "sys_code S_FLAG = [0x3A]"
| "sys_code S_ORG = [0x3B]"
| "sys_code S_Conf = [0x42, 0x6C]"
| "sys_code S_State = [0x43, 0x7A]"
| "sys_code S_IDLE = []"
| "sys_code S_Ans = []"

definition Emm_V5_Read_Sys_Params :: "u8 \<Rightarrow> SysParams_t \<Rightarrow> emm_frame" where
  "Emm_V5_Read_Sys_Params addr s =
     (let bs = addr # sys_code s @ [0x6B] in transmit s (cmd_array 16 bs) (length bs))"

definition Emm_V5_Modify_Ctrl_Mode :: "u8 \<Rightarrow> bool \<Rightarrow> u8 \<Rightarrow> emm_frame" where
  "Emm_V5_Modify_Ctrl_Mode addr svF ctrl_mode =
     transmit S_Ans (cmd_array 16 [addr, 0x46, 0x69, flag svF, ctrl_mode, 0x6B]) 6"

definition Emm_V5_En_Control :: "u8 \<Rightarrow> bool \<Rightarrow> bool \<Rightarrow> emm_frame" where
  "Emm_V5_En_Control addr state snF =
     transmit S_Ans (cmd_array 16 [addr, 0xF3, 0xAB, flag state, flag snF, 0x6B]) 6"

definition Emm_V5_Vel_Control :: "u8 \<Rightarrow> u8 \<Rightarrow> u16 \<Rightarrow> u8 \<Rightarrow> bool \<Rightarrow> emm_frame" where
  "Emm_V5_Vel_Control addr dir vel acc snF =
     transmit S_Ans (cmd_array 16 [addr, 0xF6, dir, hi16 vel, lo16 vel, acc, flag snF, 0x6B]) 8"

definition Emm_V5_Pos_Control :: "u8 \<Rightarrow> u8 \<Rightarrow> u16 \<Rightarrow> u8 \<Rightarrow> u32 \<Rightarrow> bool \<Rightarrow> bool \<Rightarrow> emm_frame" where
  "Emm_V5_Pos_Control addr dir vel acc clk raF snF =
     transmit S_Ans (cmd_array 16 [addr, 0xFD, dir, hi16 vel, lo16 vel, acc, byte32 24 clk, byte32 16 clk,
       byte32 8 clk, byte32 0 clk, flag raF, flag snF, 0x6B]) 13"

definition Emm_V5_Stop_Now :: "u8 \<Rightarrow> bool \<Rightarrow> emm_frame" where
  "Emm_V5_Stop_Now addr snF = transmit S_Ans (cmd_array 16 [addr, 0xFE, 0x98, flag snF, 0x6B]) 5"

definition Emm_V5_Synchronous_motion :: "u8 \<Rightarrow> emm_frame" where
  "Emm_V5_Synchronous_motion addr = transmit S_Ans (cmd_array 16 [addr, 0xFF, 0x66, 0x6B]) 4"

definition Emm_V5_Origin_Set_O :: "u8 \<Rightarrow> bool \<Rightarrow> emm_frame" where
  "Emm_V5_Origin_Set_O addr svF = transmit S_Ans (cmd_array 16 [addr, 0x93, 0x88, flag svF, 0x6B]) 5"

definition Emm_V5_Origin_Modify_Params ::
    "u8 \<Rightarrow> bool \<Rightarrow> u8 \<Rightarrow> u8 \<Rightarrow> u16 \<Rightarrow> u32 \<Rightarrow> u16 \<Rightarrow> u16 \<Rightarrow> u16 \<Rightarrow> bool \<Rightarrow> emm_frame" where
  "Emm_V5_Origin_Modify_Params addr svF o_mode o_dir o_vel o_tm sl_vel sl_ma sl_ms potF =
     transmit S_Ans (cmd_array 32 [addr, 0x4C, 0xAE, flag svF, o_mode, o_dir, hi16 o_vel, lo16 o_vel,
       byte32 24 o_tm, byte32 16 o_tm, byte32 8 o_tm, byte32 0 o_tm, hi16 sl_vel, lo16 sl_vel,
       hi16 sl_ma, lo16 sl_ma, hi16 sl_ms, lo16 sl_ms, flag potF, 0x6B]) 20"

definition Emm_V5_Origin_Trigger_Return :: "u8 \<Rightarrow> u8 \<Rightarrow> bool \<Rightarrow> emm_frame" where
  "Emm_V5_Origin_Trigger_Return addr o_mode snF =
     transmit S_Ans (cmd_array 16 [addr, 0x9A, o_mode, flag snF, 0x6B]) 5"

definition Emm_V5_Origin_Interrupt :: "u8 \<Rightarrow> emm_frame" where
  "Emm_V5_Origin_Interrupt addr = transmit S_Ans (cmd_array 16 [addr, 0x9C, 0x48, 0x6B]) 4"

lemmas emm_defs = Emm_V5_Reset_CurPos_To_Zero_def Emm_V5_Reset_Clog_Pro_def Emm_V5_Read_Sys_Params_def
  Emm_V5_Modify_Ctrl_Mode_def Emm_V5_En_Control_def Emm_V5_Vel_Control_def Emm_V5_Pos_Control_def
  Emm_V5_Stop_Now_def Emm_V5_Synchronous_motion_def Emm_V5_Origin_Set_O_def
  Emm_V5_Origin_Modify_Params_def Emm_V5_Origin_Trigger_Return_def Emm_V5_Origin_Interrupt_def
  transmit_def cmd_array_def

subsection \<open>The drive's view\<close>

text \<open>
  What a drive reads from the bytes on the line: the commands as data, and the reader of the
  frames. A frame is an address, a function code with its arguments, and the check byte 0x6B.
\<close>

datatype emm_cmd =
    Reset_CurPos u8
  | Reset_Clog u8
  | Read_Sys u8 SysParams_t
  | Ctrl_Mode u8 bool u8
  | En u8 bool bool
  | Vel u8 u8 u16 u8 bool
  | Pos u8 u8 u16 u8 u32 bool bool
  | Stop u8 bool
  | Sync u8
  | Origin_Set u8 bool
  | Origin_Modify u8 bool u8 u8 u16 u32 u16 u16 u16 bool
  | Origin_Trigger u8 u8 bool
  | Origin_Interrupt u8

fun emm_frame_of :: "emm_cmd \<Rightarrow> emm_frame" where
  "emm_frame_of (Reset_CurPos a) = Emm_V5_Reset_CurPos_To_Zero a"
| "emm_frame_of (Reset_Clog a) = Emm_V5_Reset_Clog_Pro a"
| "emm_frame_of (Read_Sys a s) = Emm_V5_Read_Sys_Params a s"
| "emm_frame_of (Ctrl_Mode a sv m) = Emm_V5_Modify_Ctrl_Mode a sv m"
| "emm_frame_of (En a st sn) = Emm_V5_En_Control a st sn"
| "emm_frame_of (Vel a d v ac sn) = Emm_V5_Vel_Control a d v ac sn"
| "emm_frame_of (Pos a d v ac c ra sn) = Emm_V5_Pos_Control a d v ac c ra sn"
| "emm_frame_of (Stop a sn) = Emm_V5_Stop_Now a sn"
| "emm_frame_of (Sync a) = Emm_V5_Synchronous_motion a"
| "emm_frame_of (Origin_Set a sv) = Emm_V5_Origin_Set_O a sv"
| "emm_frame_of (Origin_Modify a sv m d v tm sv' ma ms pot) = Emm_V5_Origin_Modify_Params a sv m d v tm sv' ma ms pot"
| "emm_frame_of (Origin_Trigger a m sn) = Emm_V5_Origin_Trigger_Return a m sn"
| "emm_frame_of (Origin_Interrupt a) = Emm_V5_Origin_Interrupt a"

definition sys_of_code :: "u8 list \<Rightarrow> SysParams_t option" where
  "sys_of_code c = List.find (\<lambda>s. sys_code s = c)
     [S_VER, S_RL, S_PID, S_VBUS, S_CPHA, S_ENCL, S_TPOS, S_VEL, S_CPOS, S_PERR, S_FLAG, S_Conf, S_State, S_ORG]"

definition read_bool :: "u8 \<Rightarrow> bool" where
  "read_bool b \<longleftrightarrow> b \<noteq> 0"

definition emm_body :: "u8 \<Rightarrow> u8 list \<Rightarrow> emm_cmd option" where
  "emm_body a body =
     (case body of
        [] \<Rightarrow> None
      | f # args \<Rightarrow>
          if f = 0x0A \<and> args = [0x6D] then Some (Reset_CurPos a)
          else if f = 0x0E \<and> args = [0x52] then Some (Reset_Clog a)
          else if f = 0x46 \<and> length args = 3 \<and> args ! 0 = 0x69
          then Some (Ctrl_Mode a (read_bool (args ! 1)) (args ! 2))
          else if f = 0xF3 \<and> length args = 3 \<and> args ! 0 = 0xAB
          then Some (En a (read_bool (args ! 1)) (read_bool (args ! 2)))
          else if f = 0xF6 \<and> length args = 5
          then Some (Vel a (args ! 0) (join16 (args ! 1) (args ! 2)) (args ! 3) (read_bool (args ! 4)))
          else if f = 0xFD \<and> length args = 10
          then Some (Pos a (args ! 0) (join16 (args ! 1) (args ! 2)) (args ! 3)
            (join32 (args ! 4) (args ! 5) (args ! 6) (args ! 7)) (read_bool (args ! 8)) (read_bool (args ! 9)))
          else if f = 0xFE \<and> length args = 2 \<and> args ! 0 = 0x98 then Some (Stop a (read_bool (args ! 1)))
          else if f = 0xFF \<and> args = [0x66] then Some (Sync a)
          else if f = 0x93 \<and> length args = 2 \<and> args ! 0 = 0x88 then Some (Origin_Set a (read_bool (args ! 1)))
          else if f = 0x4C \<and> length args = 17 \<and> args ! 0 = 0xAE
          then Some (Origin_Modify a (read_bool (args ! 1)) (args ! 2) (args ! 3) (join16 (args ! 4) (args ! 5))
            (join32 (args ! 6) (args ! 7) (args ! 8) (args ! 9)) (join16 (args ! 10) (args ! 11))
            (join16 (args ! 12) (args ! 13)) (join16 (args ! 14) (args ! 15)) (read_bool (args ! 16)))
          else if f = 0x9A \<and> length args = 2 then Some (Origin_Trigger a (args ! 0) (read_bool (args ! 1)))
          else if f = 0x9C \<and> args = [0x48] then Some (Origin_Interrupt a)
          else map_option (Read_Sys a) (sys_of_code body))"

definition emm_decode :: "u8 list \<Rightarrow> emm_cmd option" where
  "emm_decode bs =
     (if length bs \<ge> 3 \<and> last bs = 0x6B then emm_body (hd bs) (butlast (tl bs)) else None)"

subsection \<open>Round trip\<close>

lemma read_bool_flag [simp]: "read_bool (flag b) = b"
  by (simp add: read_bool_def flag_def)

fun readable :: "emm_cmd \<Rightarrow> bool" where
  "readable (Read_Sys a s) = (s \<notin> {S_IDLE, S_Ans})"
| "readable c = True"

lemma emm_decode_frame: "readable c \<Longrightarrow> emm_decode (snd (emm_frame_of c)) = Some c"
proof (cases c)
  case (Read_Sys a s)
  then show "readable c \<Longrightarrow> ?thesis"
    by (cases s) (simp_all add: emm_defs emm_decode_def emm_body_def sys_of_code_def Let_def)
qed (simp_all add: emm_defs emm_decode_def emm_body_def)

interpretation emm_codec: codec "\<lambda>c. snd (emm_frame_of c)" emm_decode readable
  by unfold_locales (rule emm_decode_frame)

text \<open>
  C29: Whatever command is sent, with whatever arguments, a drive that reads the transmitted
  bytes gets back exactly this command with exactly these arguments, and no other command has
  the same bytes; every frame ends with the check byte 0x6B and announces the answer of a
  parameter request by the parameter, of everything else by \<open>S_Ans\<close>.
\<close>

theorem emm_commands_roundtrip:
  assumes "readable c"
  shows "emm_decode (snd (emm_frame_of c)) = Some c \<and> last (snd (emm_frame_of c)) = 0x6B \<and>
    fst (emm_frame_of c) = (case c of Read_Sys a s \<Rightarrow> s | _ \<Rightarrow> S_Ans) \<and>
    (\<forall>c'. readable c' \<and> snd (emm_frame_of c') = snd (emm_frame_of c) \<longrightarrow> c' = c)"
proof -
  have "\<forall>c'. readable c' \<and> snd (emm_frame_of c') = snd (emm_frame_of c) \<longrightarrow> c' = c"
    using emm_codec.encode_unique [OF _ assms] by blast
  moreover have "last (snd (emm_frame_of c)) = 0x6B \<and>
      fst (emm_frame_of c) = (case c of Read_Sys a s \<Rightarrow> s | _ \<Rightarrow> S_Ans)"
    by (cases c) (simp_all add: emm_defs Let_def)
  ultimately show ?thesis using emm_decode_frame [OF assms] by blast
qed

theorem emm_commands_roundtrip_witness:
  "emm_decode [3, 0xFD, 1, 0, 100, 20, 0, 0, 12, 128, 1, 0, 0x6B] = Some (Pos 3 1 100 20 3200 True False)"
proof -
  have "(3200 :: u8) = 128" by simp
  with emm_commands_roundtrip [of "Pos 3 1 100 20 3200 True False"] show ?thesis
    by (simp add: emm_defs hi16_def lo16_def byte32_def flag_def)
qed

end
