(* ===== verification/Stepper.thy ===== *)
theory Stepper
  imports Emm Apid
begin

section \<open>The threads of the stepper drives (drv_stepper_motor.c, drv_stepper_motor.h)\<close>

text \<open>
  The two arm motors share one serial line. The command thread (\<open>drv_stepper_motor\<close>, calling
  the functions of \<open>Emm_V5.c\<close>) takes the mutex, announces the answer it expects in
  \<open>stepper_motor_cmd_state\<close>, transmits, releases the mutex and then the semaphore \<open>step_sem\<close>.
  The answering thread (\<open>drv_process_steppermotor\<close>) waits for \<open>step_sem\<close>, takes the mutex,
  waits for \<open>cmp_sem\<close>, evaluates the answer and releases the mutex. The receive interrupt
  releases \<open>cmp_sem\<close> when enough bytes have come. The answering thread has the higher priority
  (6 against 25), so the command thread only runs while it waits.

  The record \<open>emm\<close> holds the shared variables, the mutex (owner and nesting depth), the
  semaphores, the received bytes not yet read, the frames written, and where the two threads
  are: \<open>cpc\<close> and \<open>ppc\<close>, with the commands the command thread still has to send in \<open>todo\<close>.
  Floats are reals with the rounding \<open>fl\<close>. The reads that stand among the arguments of a
  logging macro do happen: \<open>rtdbg.h\<close> is included before \<open>DBG_LVL\<close> is defined, so every level is
  compiled in.
\<close>

subsection \<open>Data\<close>

record stepper_motor_t =
  stepper_motor_id :: u8
  stepper_motor_target_dir :: u8
  stepper_motor_target_angle :: u32
  stepper_motor_target_speed :: u16
  stepper_motor_speed :: u16
  stepper_motor_angle :: real
  stepper_motor_err :: real
  stepper_motor_reachflag :: u8
  stepper_motor_stallflag :: u8
  stepper_motor_enflag :: u8
  stepper_motor_encokflag :: u8
  stepper_motor_calibrationflag :: u8
  stepper_motor_returnzeroingflag :: u8
  stepper_motor_returnzero_failflag :: u8
  stepper_motor_current :: u16

datatype arm = Big | Small
datatype tid = Cmd | Proc
datatype cmd_pc = C_Take | C_Send | C_Sem
datatype proc_pc = P_Step | P_Mutex | P_Cmp | P_Work

record emm =
  arms :: "arm \<Rightarrow> stepper_motor_t"
  stepper_motor_cmd_state :: SysParams_t
  rxCmd :: "u8 list"
  rxCount :: u8
  rx_buf :: "u8 list"
  mutex_step :: "(tid \<times> nat) option"
  step_sem :: nat
  cmp_sem :: nat
  cpc :: cmd_pc
  ppc :: proc_pc
  todo :: "emm_frame list"
  tx_log :: "u8 list list"

definition set_arm :: "arm \<Rightarrow> (stepper_motor_t \<Rightarrow> stepper_motor_t) \<Rightarrow> emm \<Rightarrow> emm" where
  "set_arm a f st = st\<lparr>arms := (arms st)(a := f (arms st a))\<rparr>"

definition stepper_motor_Init :: "stepper_motor_t \<Rightarrow> u8 \<Rightarrow> stepper_motor_t" where
  "stepper_motor_Init m i = m\<lparr>stepper_motor_id := i\<rparr>"

subsection \<open>The mutex\<close>

text \<open>RT-Thread's mutex can be taken again by its owner; \<open>None\<close> means that the thread waits.\<close>

definition mutex_take :: "tid \<Rightarrow> emm \<Rightarrow> emm option" where
  "mutex_take t st =
     (case mutex_step st of
        None \<Rightarrow> Some (st\<lparr>mutex_step := Some (t, 1)\<rparr>)
      | Some (t', n) \<Rightarrow> if t' = t then Some (st\<lparr>mutex_step := Some (t, n + 1)\<rparr>) else None)"

definition mutex_release :: "tid \<Rightarrow> emm \<Rightarrow> emm" where
  "mutex_release t st =
     (case mutex_step st of
        None \<Rightarrow> st
      | Some (t', n) \<Rightarrow>
          if t' = t then st\<lparr>mutex_step := if n \<le> 1 then None else Some (t, n - 1)\<rparr> else st)"

subsection \<open>The receive interrupt\<close>

text \<open>
  How many bytes the interrupt handler waits for; for the states without a number it does
  nothing. \<open>rxCount\<close> is a byte.
\<close>

definition reply_len :: "SysParams_t \<Rightarrow> nat option" where
  "reply_len s =
     (case s of S_CPHA \<Rightarrow> Some 5 | S_VEL \<Rightarrow> Some 6 | S_CPOS \<Rightarrow> Some 8 | S_PERR \<Rightarrow> Some 8
      | S_FLAG \<Rightarrow> Some 4 | S_ORG \<Rightarrow> Some 4 | S_IDLE \<Rightarrow> Some 0 | S_Ans \<Rightarrow> Some 4 | _ \<Rightarrow> None)"

definition Emm_uart_receive_callback :: "nat \<Rightarrow> emm \<Rightarrow> emm" where
  "Emm_uart_receive_callback sz st =
     (let st1 = st\<lparr>rxCount := of_nat sz\<rparr> in
      case reply_len (stepper_motor_cmd_state st1) of
        None \<Rightarrow> st1
      | Some n \<Rightarrow> if sz \<ge> n then st1\<lparr>cmp_sem := cmp_sem st1 + 1\<rparr> else st1)"

text \<open>Bytes arrive: the device stores them and calls the handler with the number of unread ones.\<close>

definition uart_rx :: "u8 list \<Rightarrow> emm \<Rightarrow> emm" where
  "uart_rx bs st =
     (let st1 = st\<lparr>rx_buf := rx_buf st @ bs\<rparr> in Emm_uart_receive_callback (length (rx_buf st1)) st1)"

subsection \<open>Evaluating an answer\<close>

definition Emm_V5_Receive :: "nat \<Rightarrow> emm \<Rightarrow> emm" where
  "Emm_V5_Receive n st =
     (let got = take n (rx_buf st) in
      st\<lparr>rxCmd := got @ drop (length got) (rxCmd st), rx_buf := drop n (rx_buf st)\<rparr>)"

definition drain :: "emm \<Rightarrow> emm" where
  "drain st = st\<lparr>rx_buf := drop 60 (rx_buf st)\<rparr>"

definition Emm_V5_ID_judge :: "emm \<Rightarrow> arm option" where
  "Emm_V5_ID_judge st =
     (if rxCmd st ! 0 = 1 then Some Big else if rxCmd st ! 0 = 3 then Some Small else None)"

definition degrees :: "rounding \<Rightarrow> u8 list \<Rightarrow> real" where
  "degrees fl r =
     (let v = fl (fl (fl (of_nat (unat (join32 (r ! 3) (r ! 4) (r ! 5) (r ! 6)))) * 360) / 65536)
      in if r ! 2 \<noteq> 0 then - v else v)"

definition rpm :: "u8 list \<Rightarrow> u16" where
  "rpm r = (let v = join16 (r ! 3) (r ! 4) in if r ! 2 \<noteq> 0 then - v else v)"

text \<open>What an answer of each kind stores.\<close>

definition store_answer :: "rounding \<Rightarrow> SysParams_t \<Rightarrow> u8 list \<Rightarrow> stepper_motor_t \<Rightarrow> stepper_motor_t" where
  "store_answer fl s r m =
     (case s of
        S_CPHA \<Rightarrow> m\<lparr>stepper_motor_current := join16 (r ! 2) (r ! 3)\<rparr>
      | S_VEL \<Rightarrow> m\<lparr>stepper_motor_speed := rpm r\<rparr>
      | S_CPOS \<Rightarrow> m\<lparr>stepper_motor_angle := degrees fl r\<rparr>
      | S_PERR \<Rightarrow> m\<lparr>stepper_motor_err := degrees fl r\<rparr>
      | S_FLAG \<Rightarrow> m\<lparr>stepper_motor_reachflag := r ! 2 AND 2, stepper_motor_stallflag := r ! 2 AND 4,
                   stepper_motor_enflag := r ! 2 AND 1\<rparr>
      | S_ORG \<Rightarrow> m\<lparr>stepper_motor_calibrationflag := r ! 2 AND 2, stepper_motor_returnzeroingflag := r ! 2 AND 4,
                  stepper_motor_encokflag := r ! 2 AND 1, stepper_motor_returnzero_failflag := r ! 2 AND 8\<rparr>
      | _ \<Rightarrow> m)"

text \<open>The function code that three of the cases check.\<close>

definition code_ok :: "SysParams_t \<Rightarrow> u8 \<Rightarrow> bool" where
  "code_ok s c = (case s of S_CPHA \<Rightarrow> c = 0x27 | S_VEL \<Rightarrow> c = 0x35 | S_CPOS \<Rightarrow> c = 0x36 | _ \<Rightarrow> True)"

text \<open>
  The body of the loop of \<open>drv_process_steppermotor\<close> behind the three waits. Leaving the
  \<open>switch\<close> early, on a short answer, a foreign address or a wrong function code, keeps the
  mutex.
\<close>

definition evaluate :: "rounding \<Rightarrow> nat \<Rightarrow> emm \<Rightarrow> emm" where
  "evaluate fl n st =
     (if unat (rxCount st) \<ge> n then
        let st1 = Emm_V5_Receive n st in
        (case Emm_V5_ID_judge st1 of
           None \<Rightarrow> st1
         | Some a \<Rightarrow>
             if code_ok (stepper_motor_cmd_state st1) (rxCmd st1 ! 1)
             then mutex_release Proc
               ((set_arm a (store_answer fl (stepper_motor_cmd_state st1) (rxCmd st1)) st1)
                  \<lparr>stepper_motor_cmd_state := S_IDLE\<rparr>)
             else st1)
      else drain st)"

definition process_answer :: "rounding \<Rightarrow> emm \<Rightarrow> emm" where
  "process_answer fl st =
     (case stepper_motor_cmd_state st of
        S_IDLE \<Rightarrow> drain st
      | S_CPHA \<Rightarrow> evaluate fl 5 st
      | S_VEL \<Rightarrow> evaluate fl 6 st
      | S_CPOS \<Rightarrow> evaluate fl 8 st
      | S_PERR \<Rightarrow> evaluate fl 8 st
      | S_FLAG \<Rightarrow> evaluate fl 4 st
      | S_ORG \<Rightarrow> evaluate fl 4 st
      | S_Ans \<Rightarrow> mutex_release Proc ((drain st)\<lparr>stepper_motor_cmd_state := S_IDLE\<rparr>)
      | _ \<Rightarrow> st)"

subsection \<open>The two threads\<close>

definition proc_step :: "rounding \<Rightarrow> emm \<Rightarrow> emm option" where
  "proc_step fl st =
     (case ppc st of
        P_Step \<Rightarrow> if step_sem st > 0 then Some (st\<lparr>step_sem := step_sem st - 1, ppc := P_Mutex\<rparr>) else None
      | P_Mutex \<Rightarrow> map_option (\<lambda>st'. st'\<lparr>ppc := P_Cmp\<rparr>) (mutex_take Proc st)
      | P_Cmp \<Rightarrow> if cmp_sem st > 0 then Some (st\<lparr>cmp_sem := cmp_sem st - 1, ppc := P_Work\<rparr>) else None
      | P_Work \<Rightarrow> Some ((process_answer fl st)\<lparr>ppc := P_Step\<rparr>))"

definition cmd_step :: "emm \<Rightarrow> emm option" where
  "cmd_step st =
     (case todo st of
        [] \<Rightarrow> None
      | (s, bs) # rest \<Rightarrow>
          (case cpc st of
             C_Take \<Rightarrow> map_option (\<lambda>st'. st'\<lparr>cpc := C_Send\<rparr>) (mutex_take Cmd st)
           | C_Send \<Rightarrow> Some (mutex_release Cmd (st\<lparr>stepper_motor_cmd_state := s,
                        tx_log := tx_log st @ [bs], cpc := C_Sem\<rparr>))
           | C_Sem \<Rightarrow> Some (st\<lparr>step_sem := step_sem st + 1, cpc := C_Take, todo := rest\<rparr>)))"

text \<open>One step of the whole; any bytes may arrive at any time.\<close>

inductive emm_step :: "rounding \<Rightarrow> emm \<Rightarrow> emm \<Rightarrow> bool" for fl where
  proc: "proc_step fl st = Some st' \<Longrightarrow> emm_step fl st st'"
| cmd: "proc_step fl st = None \<Longrightarrow> cmd_step st = Some st' \<Longrightarrow> emm_step fl st st'"
| rx: "emm_step fl st (uart_rx bs st)"

inductive_cases emm_stepE: "emm_step fl st st'"

subsection \<open>The arm thread\<close>

text \<open>
  \<open>drv_stepper_motor\<close> first makes the motors weak and then, every 10 ms, asks for both angles;
  each arm that is near its start position is switched on once, and when both are, their
  positions are set to zero and the mission starts. The angles are those stored by the
  answers; \<open>init_flags\<close> are \<open>big_arm_init_flag\<close> and \<open>small_arm_init_flag\<close>. A round gives the
  commands it sends and whether it was the last one.
\<close>

definition arm_start :: "emm_frame list" where
  "arm_start = [Emm_V5_En_Control 1 False False, Emm_V5_En_Control 3 False False]"

definition near_deg :: "rounding \<Rightarrow> real \<Rightarrow> real \<Rightarrow> bool" where
  "near_deg fl a t \<longleftrightarrow> \<bar>fl (a - fl t)\<bar> < 1"

definition arm_init_round ::
    "rounding \<Rightarrow> real \<Rightarrow> real \<Rightarrow> bool \<times> bool \<Rightarrow> emm_frame list \<times> (bool \<times> bool) \<times> bool" where
  "arm_init_round fl big small flags =
     (let reads = [Emm_V5_Read_Sys_Params 1 S_CPOS, Emm_V5_Read_Sys_Params 3 S_CPOS];
          on_big = (near_deg fl big 252.7 \<and> \<not> fst flags);
          on_small = (near_deg fl small (- 45.2) \<and> \<not> snd flags);
          flags' = (fst flags \<or> on_big, snd flags \<or> on_small);
          done = (fst flags' \<and> snd flags')
      in (reads @ (if on_big then [Emm_V5_En_Control 1 True False] else [])
            @ (if on_small then [Emm_V5_En_Control 3 True False] else [])
            @ (if done then [Emm_V5_Reset_CurPos_To_Zero 1, Emm_V5_Reset_CurPos_To_Zero 3] else []),
          flags', done))"

text \<open>
  Every 500 ms the arm targets become two absolute position commands; \<open>- pulse\<close> overflows for
  the smallest 32-bit integer.
\<close>

definition pulse_dir :: "u8 \<Rightarrow> u8 \<Rightarrow> int \<Rightarrow> (u8 \<times> u32) res" where
  "pulse_dir pos neg p =
     (if p > 0 then Inr (pos, word_of_int p)
      else if - p < 2 ^ 31 then Inr (neg, word_of_int (- p)) else Inl SignedOverflow)"

definition arm_round :: "int \<Rightarrow> int \<Rightarrow> emm_frame list res" where
  "arm_round abig_arm_pulse asmall_arm_pulse =
     bind_res (pulse_dir 0 1 abig_arm_pulse) (\<lambda>(bd, bp).
     bind_res (pulse_dir 1 0 asmall_arm_pulse) (\<lambda>(sd, sp).
     Inr ([Emm_V5_Pos_Control 1 bd 100 20 bp True False, Emm_V5_Pos_Control 3 sd 100 20 sp True False] @
       map (Emm_V5_Read_Sys_Params 1) [S_CPOS, S_VEL, S_PERR, S_FLAG, S_ORG, S_CPHA] @
       map (Emm_V5_Read_Sys_Params 3) [S_CPOS, S_VEL, S_PERR, S_FLAG, S_ORG, S_CPHA])))"

subsection \<open>Start-up and the shell commands\<close>

text \<open>
  \<open>stepper_motor_init\<close>: what the kernel makes of the requests are the fields of \<open>stepper_boot\<close>;
  the result is the value returned and which of the two threads runs. A thread that cannot be
  created is not reported. \<open>rt_error\<close> is \<open>RT_ERROR\<close>, whose value depends on the C library of the build.
\<close>

record stepper_boot =
  mutex_made :: bool
  step_sem_made :: bool
  cmp_sem_made :: bool
  mailbox_made :: bool
  proc_made :: bool
  cmd_made :: bool

definition stepper_motor_init :: "int \<Rightarrow> stepper_boot \<Rightarrow> int \<times> bool \<times> bool" where
  "stepper_motor_init rt_error k =
     (if \<not> mutex_made k then (- rt_error, False, False)
      else if \<not> step_sem_made k then (- 1, False, False)
      else if \<not> cmp_sem_made k then (- 1, False, False)
      else if \<not> mailbox_made k then (- 1, False, False)
      else (0, proc_made k, cmd_made k))"

text \<open>The wanted position of the arm's end, which the kinematics of the arm read.\<close>

record arm_target =
  ymm :: real
  zmm :: real

definition arm_y_add20 :: "rounding \<Rightarrow> arm_target \<Rightarrow> arm_target" where
  "arm_y_add20 fl t = t\<lparr>ymm := fl (ymm t + 20)\<rparr>"

definition arm_y_reduce20 :: "rounding \<Rightarrow> arm_target \<Rightarrow> arm_target" where
  "arm_y_reduce20 fl t = t\<lparr>ymm := fl (ymm t - 20)\<rparr>"

definition arm_z_add20 :: "rounding \<Rightarrow> arm_target \<Rightarrow> arm_target" where
  "arm_z_add20 fl t = t\<lparr>zmm := fl (zmm t + 20)\<rparr>"

definition arm_z_reduce20 :: "rounding \<Rightarrow> arm_target \<Rightarrow> arm_target" where
  "arm_z_reduce20 fl t = t\<lparr>zmm := fl (zmm t - 20)\<rparr>"

definition arm_ctrl :: "rounding \<Rightarrow> (string \<Rightarrow> real) \<Rightarrow> string list \<Rightarrow> arm_target \<Rightarrow> arm_target" where
  "arm_ctrl fl atof argv t =
     (if length argv \<noteq> 3 then t else t\<lparr>ymm := fl (atof (argv ! 1)), zmm := fl (atof (argv ! 2))\<rparr>)"

end
