(* ===== verification/StepperRun.thy ===== *)
theory StepperRun
  imports Stepper
begin

section \<open>The hand-shake of the stepper threads\<close>

text \<open>
  Drives that answer as documented are served: every command goes out, in order, and every
  answer is stored. The drives are the environment: after a command they send one answer of
  the announced kind, in pieces of any size. A state of the whole is the state of the program,
  the part of the answer still on the line and the answers given so far. The second half shows
  what one bad answer or one stray byte does instead: the answering thread keeps the mutex and
  the command thread waits for it for ever.
\<close>

subsection \<open>Answers of the documented form\<close>

definition supported :: "SysParams_t \<Rightarrow> bool" where
  "supported s \<longleftrightarrow> s \<noteq> S_IDLE \<and> reply_len s \<noteq> None"

definition good_reply :: "SysParams_t \<Rightarrow> u8 list \<Rightarrow> bool" where
  "good_reply s r \<longleftrightarrow> supported s \<and> reply_len s = Some (length r) \<and>
     (s = S_Ans \<or> (r ! 0 = 1 \<or> r ! 0 = 3) \<and> code_ok s (r ! 1))"

definition arm_of :: "u8 list \<Rightarrow> arm" where
  "arm_of r = (if r ! 0 = 1 then Big else Small)"

definition record_reply :: "rounding \<Rightarrow> SysParams_t \<times> u8 list \<Rightarrow> (arm \<Rightarrow> stepper_motor_t) \<Rightarrow> arm \<Rightarrow> stepper_motor_t" where
  "record_reply fl p A =
     (if fst p = S_Ans then A else A(arm_of (snd p) := store_answer fl (fst p) (snd p) (A (arm_of (snd p)))))"

lemma good_reply_len: "good_reply s r \<Longrightarrow> reply_len s = Some (length r) \<and> 4 \<le> length r \<and> length r \<le> 8"
  by (cases s) (auto simp: good_reply_def supported_def reply_len_def)

lemma good_reply_nonempty: "good_reply s r \<Longrightarrow> r \<noteq> []"
  using good_reply_len by fastforce

lemma store_append: "reply_len s = Some (length r) \<Longrightarrow> store_answer fl s (r @ xs) m = store_answer fl s r m"
  by (cases s) (auto simp: store_answer_def reply_len_def nth_append rpm_def degrees_def Let_def)

lemma drain_all: "length (rx_buf st) \<le> 60 \<Longrightarrow> drain st = st\<lparr>rx_buf := []\<rparr>"
  by (simp add: drain_def)

text \<open>The answer at hand is stored in its arm and nowhere else, and the mutex is free again.\<close>

lemma evaluate_good:
  assumes g: "good_reply (stepper_motor_cmd_state st) (rx_buf st)" and s: "stepper_motor_cmd_state st \<noteq> S_Ans"
    and c: "rxCount st = of_nat (length (rx_buf st))" and m: "mutex_step st = Some (Proc, 1)"
  shows "evaluate fl (length (rx_buf st)) st = st\<lparr>rxCmd := rx_buf st @ drop (length (rx_buf st)) (rxCmd st),
     rx_buf := [], stepper_motor_cmd_state := S_IDLE, mutex_step := None,
     arms := record_reply fl (stepper_motor_cmd_state st, rx_buf st) (arms st)\<rparr>"
proof -
  have l: "reply_len (stepper_motor_cmd_state st) = Some (length (rx_buf st))"
    "4 \<le> length (rx_buf st)" "length (rx_buf st) \<le> 8"
    using good_reply_len [OF g] by auto
  have n: "unat (rxCount st) = length (rx_buf st)"
    using l(3) by (simp add: c unat_of_nat take_bit_nat_eq_self)
  show ?thesis
    using g s m l(2) n
    by (auto simp: evaluate_def Let_def Emm_V5_Receive_def Emm_V5_ID_judge_def nth_append good_reply_def
        mutex_release_def set_arm_def store_append [OF l(1)] record_reply_def arm_of_def)
qed

lemma process_answer_evaluate:
  assumes "supported (stepper_motor_cmd_state st)" "stepper_motor_cmd_state st \<noteq> S_Ans"
    "reply_len (stepper_motor_cmd_state st) = Some n"
  shows "process_answer fl st = evaluate fl n st"
  using assms by (cases "stepper_motor_cmd_state st")
    (auto simp: process_answer_def supported_def reply_len_def)

lemma process_answer_good:
  assumes g: "good_reply (stepper_motor_cmd_state st) (rx_buf st)"
    and c: "rxCount st = of_nat (length (rx_buf st))" and m: "mutex_step st = Some (Proc, 1)"
  shows "\<exists>r. process_answer fl st = st\<lparr>rxCmd := r,
     rx_buf := [], stepper_motor_cmd_state := S_IDLE, mutex_step := None,
     arms := record_reply fl (stepper_motor_cmd_state st, rx_buf st) (arms st)\<rparr>"
proof (cases "stepper_motor_cmd_state st = S_Ans")
  case True
  moreover have "length (rx_buf st) \<le> 60" using good_reply_len [OF g] by simp
  ultimately have "process_answer fl st = st\<lparr>rxCmd := rxCmd st,
     rx_buf := [], stepper_motor_cmd_state := S_IDLE, mutex_step := None,
     arms := record_reply fl (stepper_motor_cmd_state st, rx_buf st) (arms st)\<rparr>"
    using m by (simp add: process_answer_def drain_all mutex_release_def record_reply_def)
  then show ?thesis by blast
next
  case False
  have "process_answer fl st = evaluate fl (length (rx_buf st)) st"
    using process_answer_evaluate [OF _ False] g by (simp add: good_reply_def)
  then show ?thesis using evaluate_good [OF g False c m] by metis
qed

subsection \<open>The program with answering drives\<close>

type_synonym line = "emm \<times> u8 list \<times> (SysParams_t \<times> u8 list) list"

inductive serve_step :: "rounding \<Rightarrow> line \<Rightarrow> line \<Rightarrow> bool" for fl where
  line_proc: "proc_step fl st = Some st' \<Longrightarrow> serve_step fl (st, a, h) (st', a, h)"
| line_cmd: "proc_step fl st = None \<Longrightarrow> cpc st \<noteq> C_Send \<Longrightarrow> cmd_step st = Some st' \<Longrightarrow>
    serve_step fl (st, a, h) (st', a, h)"
| line_send: "proc_step fl st = None \<Longrightarrow> cpc st = C_Send \<Longrightarrow> cmd_step st = Some st' \<Longrightarrow>
    good_reply (stepper_motor_cmd_state st') r \<Longrightarrow>
    serve_step fl (st, a, h) (st', a @ r, h @ [(stepper_motor_cmd_state st', r)])"
| line_rx: "bs \<noteq> [] \<Longrightarrow> serve_step fl (st, bs @ a, h) (uart_rx bs st, a, h)"

inductive_cases serve_stepE: "serve_step fl (st, a, h) p"

definition emm_start :: "(arm \<Rightarrow> stepper_motor_t) \<Rightarrow> emm_frame list \<Rightarrow> emm" where
  "emm_start A cs = \<lparr>arms = A, stepper_motor_cmd_state = S_IDLE, rxCmd = replicate 128 0, rxCount = 0,
     rx_buf = [], mutex_step = None, step_sem = 0, cmp_sem = 0, cpc = C_Take, ppc = P_Step,
     todo = cs, tx_log = []\<rparr>"

text \<open>
  Between two commands everything is at rest. While a command is under way the bytes received
  and those on the line make up its answer, and the completion semaphore has been released
  exactly when all of them have come.
\<close>

definition quiet :: "rounding \<Rightarrow> (arm \<Rightarrow> stepper_motor_t) \<Rightarrow> emm_frame list \<Rightarrow> line \<Rightarrow> bool" where
  "quiet fl A cs = (\<lambda>(st, a, h). rx_buf st = [] \<and> a = [] \<and> cmp_sem st = 0 \<and> step_sem st = 0 \<and> ppc st = P_Step \<and>
     arms st = fold (record_reply fl) h A \<and>
     (\<exists>sent. cs = sent @ todo st \<and> tx_log st = map snd sent \<and> map fst h = map fst sent))"

definition flight :: "rounding \<Rightarrow> (arm \<Rightarrow> stepper_motor_t) \<Rightarrow> emm_frame list \<Rightarrow> emm_frame list \<Rightarrow> line \<Rightarrow> bool" where
  "flight fl A cs rest = (\<lambda>(st, a, h). good_reply (stepper_motor_cmd_state st) (rx_buf st @ a) \<and>
     cmp_sem st + of_bool (ppc st = P_Work) = of_bool (a = []) \<and>
     (a = [] \<longrightarrow> rxCount st = of_nat (length (rx_buf st))) \<and>
     (\<exists>h'. h = h' @ [(stepper_motor_cmd_state st, rx_buf st @ a)] \<and> arms st = fold (record_reply fl) h' A) \<and>
     (\<exists>sent. cs = sent @ rest \<and> tx_log st = map snd sent \<and> map fst h = map fst sent))"

inductive line_inv :: "rounding \<Rightarrow> (arm \<Rightarrow> stepper_motor_t) \<Rightarrow> emm_frame list \<Rightarrow> nat \<Rightarrow> line \<Rightarrow> bool" for fl A cs where
  at_rest: "quiet fl A cs (st, a, h) \<Longrightarrow> cpc st = C_Take \<Longrightarrow> mutex_step st = None \<Longrightarrow>
    line_inv fl A cs (15 * length (todo st)) (st, a, h)"
| locked: "quiet fl A cs (st, a, h) \<Longrightarrow> cpc st = C_Send \<Longrightarrow> mutex_step st = Some (Cmd, 1) \<Longrightarrow> todo st = c # rest \<Longrightarrow>
    line_inv fl A cs (15 * length rest + 14) (st, a, h)"
| sent: "flight fl A cs rest (st, a, h) \<Longrightarrow> cpc st = C_Sem \<Longrightarrow> mutex_step st = None \<Longrightarrow> todo st = c # rest \<Longrightarrow>
    ppc st = P_Step \<Longrightarrow> step_sem st = 0 \<Longrightarrow> line_inv fl A cs (15 * length rest + 5 + length a) (st, a, h)"
| announced: "flight fl A cs (todo st) (st, a, h) \<Longrightarrow> cpc st = C_Take \<Longrightarrow> mutex_step st = None \<Longrightarrow>
    ppc st = P_Step \<Longrightarrow> step_sem st = 1 \<Longrightarrow> line_inv fl A cs (15 * length (todo st) + 4 + length a) (st, a, h)"
| woken: "flight fl A cs (todo st) (st, a, h) \<Longrightarrow> cpc st = C_Take \<Longrightarrow> mutex_step st = None \<Longrightarrow>
    ppc st = P_Mutex \<Longrightarrow> step_sem st = 0 \<Longrightarrow> line_inv fl A cs (15 * length (todo st) + 3 + length a) (st, a, h)"
| waiting: "flight fl A cs (todo st) (st, a, h) \<Longrightarrow> cpc st = C_Take \<Longrightarrow> mutex_step st = Some (Proc, 1) \<Longrightarrow>
    ppc st = P_Cmp \<Longrightarrow> step_sem st = 0 \<Longrightarrow> line_inv fl A cs (15 * length (todo st) + 2 + length a) (st, a, h)"
| working: "flight fl A cs (todo st) (st, a, h) \<Longrightarrow> cpc st = C_Take \<Longrightarrow> mutex_step st = Some (Proc, 1) \<Longrightarrow>
    ppc st = P_Work \<Longrightarrow> step_sem st = 0 \<Longrightarrow> line_inv fl A cs (15 * length (todo st) + 1 + length a) (st, a, h)"

lemma line_inv_start: "line_inv fl A cs (15 * length cs) (emm_start A cs, [], [])"
  using at_rest [of fl A cs "emm_start A cs" "[]" "[]"] by (simp add: quiet_def emm_start_def)

lemma uart_rx_simps [simp]:
  "arms (uart_rx bs st) = arms st" "stepper_motor_cmd_state (uart_rx bs st) = stepper_motor_cmd_state st"
  "rx_buf (uart_rx bs st) = rx_buf st @ bs" "mutex_step (uart_rx bs st) = mutex_step st"
  "step_sem (uart_rx bs st) = step_sem st" "cpc (uart_rx bs st) = cpc st" "ppc (uart_rx bs st) = ppc st"
  "todo (uart_rx bs st) = todo st" "tx_log (uart_rx bs st) = tx_log st"
  "rxCount (uart_rx bs st) = of_nat (length (rx_buf st @ bs))"
  by (simp_all add: uart_rx_def Emm_uart_receive_callback_def Let_def split: option.split)

lemma uart_rx_cmp:
  "cmp_sem (uart_rx bs st) = cmp_sem st + of_bool (\<exists>n. reply_len (stepper_motor_cmd_state st) = Some n \<and>
     n \<le> length (rx_buf st @ bs))"
  by (simp add: uart_rx_def Emm_uart_receive_callback_def Let_def split: option.split)

lemma flight_rx:
  assumes f: "flight fl A cs rest (st, bs @ a, h)" and b: "bs \<noteq> []"
  shows "flight fl A cs rest (uart_rx bs st, a, h)"
proof -
  have l: "reply_len (stepper_motor_cmd_state st) = Some (length (rx_buf st @ bs @ a))"
    using f good_reply_len by (auto simp: flight_def)
  then show ?thesis using f b by (auto simp: flight_def uart_rx_cmp)
qed

lemma flight_work: "flight fl A cs rest (st, a, h) \<Longrightarrow> ppc st = P_Work \<Longrightarrow> a = [] \<and> cmp_sem st = 0"
  by (cases "a = []") (auto simp: flight_def)

lemma fewer: "line_inv fl A cs m q \<Longrightarrow> m < n \<Longrightarrow> \<exists>m < n. line_inv fl A cs m q"
  by blast

text \<open>Every step keeps the invariant and uses up at least one of the steps that are left.\<close>

lemma line_inv_proc:
  assumes i: "line_inv fl A cs n (st, a, h)" and p: "proc_step fl st = Some st'"
  shows "\<exists>m < n. line_inv fl A cs m (st', a, h)"
  using i
proof cases
  case announced
  then have "st' = st\<lparr>step_sem := 0, ppc := P_Mutex\<rparr>" using p by (simp add: proc_step_def)
  then have "line_inv fl A cs (15 * length (todo st') + 3 + length a) (st', a, h)"
    using announced by (intro woken) (auto simp: flight_def)
  then show ?thesis by (rule fewer) (use announced \<open>st' = _\<close> in auto)
next
  case woken
  then have "st' = st\<lparr>mutex_step := Some (Proc, 1), ppc := P_Cmp\<rparr>"
    using p by (simp add: proc_step_def mutex_take_def)
  then have "line_inv fl A cs (15 * length (todo st') + 2 + length a) (st', a, h)"
    using woken by (intro waiting) (auto simp: flight_def)
  then show ?thesis by (rule fewer) (use woken \<open>st' = _\<close> in auto)
next
  case waiting
  then have "st' = st\<lparr>cmp_sem := 0, ppc := P_Work\<rparr>" "a = []"
    using p by (auto simp: proc_step_def flight_def split: if_splits)
  then have "line_inv fl A cs (15 * length (todo st') + 1 + length a) (st', a, h)"
    using waiting by (intro working) (auto simp: flight_def)
  then show ?thesis by (rule fewer) (use waiting \<open>st' = _\<close> in auto)
next
  case working
  then have a: "a = []" "cmp_sem st = 0" using flight_work by blast+
  obtain r where "process_answer fl st = st\<lparr>rxCmd := r, rx_buf := [], stepper_motor_cmd_state := S_IDLE,
      mutex_step := None, arms := record_reply fl (stepper_motor_cmd_state st, rx_buf st) (arms st)\<rparr>"
    using process_answer_good [of st fl] working a by (auto simp: flight_def)
  then have st': "st' = st\<lparr>rxCmd := r, rx_buf := [], stepper_motor_cmd_state := S_IDLE, mutex_step := None,
      arms := record_reply fl (stepper_motor_cmd_state st, rx_buf st) (arms st), ppc := P_Step\<rparr>"
    using p working by (simp add: proc_step_def)
  then have "line_inv fl A cs (15 * length (todo st')) (st', a, h)"
    using working a by (intro at_rest) (auto simp: flight_def quiet_def)
  then show ?thesis by (rule fewer) (use working st' in auto)
qed (use p in \<open>auto simp: proc_step_def quiet_def\<close>)

lemma line_inv_cmd:
  assumes i: "line_inv fl A cs n (st, a, h)" and p: "cmd_step st = Some st'" and c: "cpc st \<noteq> C_Send"
    and q: "proc_step fl st = None"
  shows "\<exists>m < n. line_inv fl A cs m (st', a, h)"
  using i
proof cases
  case at_rest
  then obtain x rest where t: "todo st = x # rest" using p by (cases "todo st") (auto simp: cmd_step_def)
  then have "st' = st\<lparr>mutex_step := Some (Cmd, 1), cpc := C_Send\<rparr>"
    using p at_rest by (auto simp: cmd_step_def mutex_take_def split: prod.splits)
  then have "line_inv fl A cs (15 * length rest + 14) (st', a, h)"
    using at_rest t by (intro locked [where c = x]) (auto simp: quiet_def)
  then show ?thesis by (rule fewer) (use at_rest t in auto)
next
  case (sent rest x)
  then have "st' = st\<lparr>step_sem := 1, cpc := C_Take, todo := rest\<rparr>"
    using p by (auto simp: cmd_step_def split: prod.splits)
  then have "line_inv fl A cs (15 * length (todo st') + 4 + length a) (st', a, h)"
    using sent by (intro announced) (auto simp: flight_def)
  then show ?thesis by (rule fewer) (use sent \<open>st' = _\<close> in auto)
qed (use p c q in \<open>auto simp: cmd_step_def proc_step_def mutex_take_def split: list.splits prod.splits\<close>)

lemma line_inv_send:
  assumes i: "line_inv fl A cs n (st, a, h)" and p: "cmd_step st = Some st'" and c: "cpc st = C_Send"
    and g: "good_reply (stepper_motor_cmd_state st') r"
  shows "\<exists>m < n. line_inv fl A cs m (st', a @ r, h @ [(stepper_motor_cmd_state st', r)])"
  using i
proof cases
  case (locked x rest)
  obtain s f where x: "x = (s, f)" by (cases x)
  have st': "st' = st\<lparr>stepper_motor_cmd_state := s, tx_log := tx_log st @ [f], cpc := C_Sem, mutex_step := None\<rparr>"
    using p locked x by (auto simp: cmd_step_def mutex_release_def)
  have a: "a = []" using locked by (simp add: quiet_def)
  obtain sent where s: "cs = sent @ x # rest" "tx_log st = map snd sent" "map fst h = map fst sent"
    using locked by (auto simp: quiet_def)
  have "\<exists>sent. cs = sent @ rest \<and> tx_log st' = map snd sent \<and> map fst (h @ [(s, r)]) = map fst sent"
    using s x st' by (intro exI [of _ "sent @ [x]"]) auto
  then have "flight fl A cs rest (st', r, h @ [(s, r)])"
    using locked st' g good_reply_nonempty [OF g] by (auto simp: flight_def quiet_def)
  then have "line_inv fl A cs (15 * length rest + 5 + length r) (st', r, h @ [(s, r)])"
    using locked st' by (intro sent) (auto simp: quiet_def)
  then have "line_inv fl A cs (15 * length rest + 5 + length r)
    (st', a @ r, h @ [(stepper_motor_cmd_state st', r)])" using a st' by simp
  then show ?thesis by (rule fewer) (use locked good_reply_len [OF g] in auto)
qed (use c in auto)

lemma line_inv_rx:
  assumes i: "line_inv fl A cs n (st, bs @ a, h)" and b: "bs \<noteq> []"
  shows "\<exists>m < n. line_inv fl A cs m (uart_rx bs st, a, h)"
proof -
  let ?u = "uart_rx bs st"
  have "length a < length (bs @ a)" using b by simp
  with i show ?thesis
  proof cases
    case (sent rest x)
    then have "line_inv fl A cs (15 * length rest + 5 + length a) (?u, a, h)"
      using flight_rx [OF _ b] by (intro line_inv.sent) auto
    then show ?thesis by (rule fewer) (use sent b in auto)
  next
    case announced
    then have "line_inv fl A cs (15 * length (todo ?u) + 4 + length a) (?u, a, h)"
      using flight_rx [OF _ b] by (intro line_inv.announced) auto
    then show ?thesis by (rule fewer) (use announced b in auto)
  next
    case woken
    then have "line_inv fl A cs (15 * length (todo ?u) + 3 + length a) (?u, a, h)"
      using flight_rx [OF _ b] by (intro line_inv.woken) auto
    then show ?thesis by (rule fewer) (use woken b in auto)
  next
    case waiting
    then have "line_inv fl A cs (15 * length (todo ?u) + 2 + length a) (?u, a, h)"
      using flight_rx [OF _ b] by (intro line_inv.waiting) auto
    then show ?thesis by (rule fewer) (use waiting b in auto)
  next
    case working
    then show ?thesis using b by (auto simp: flight_def split: if_splits)
  qed (use b in \<open>auto simp: quiet_def\<close>)
qed

lemma line_inv_step:
  assumes "serve_step fl p q" "line_inv fl A cs n p"
  shows "\<exists>m < n. line_inv fl A cs m q"
  using assms
proof cases
  case (line_proc st st' a h)
  then show ?thesis using line_inv_proc assms(2) by blast
next
  case (line_cmd st st' a h)
  then show ?thesis using line_inv_cmd assms(2) by blast
next
  case (line_send st st' r a h)
  then show ?thesis using line_inv_send assms(2) by blast
next
  case (line_rx bs st a h)
  then show ?thesis using line_inv_rx assms(2) by blast
qed

lemma line_inv_run:
  "(serve_step fl ^^ k) p q \<Longrightarrow> line_inv fl A cs n p \<Longrightarrow> \<exists>m. m + k \<le> n \<and> line_inv fl A cs m q"
proof (induction k arbitrary: q)
  case (Suc k)
  then obtain p' where "(serve_step fl ^^ k) p p'" "serve_step fl p' q" by auto
  then obtain m where "m + k \<le> n" "line_inv fl A cs m p'" using Suc by blast
  moreover from this \<open>serve_step fl p' q\<close> obtain m' where "m' < m" "line_inv fl A cs m' q"
    using line_inv_step by blast
  ultimately show ?case by (intro exI [of _ m']) auto
qed auto

text \<open>As long as a command or an answer is under way some step is possible.\<close>

definition served :: "rounding \<Rightarrow> (arm \<Rightarrow> stepper_motor_t) \<Rightarrow> emm_frame list \<Rightarrow> line \<Rightarrow> bool" where
  "served fl A cs = (\<lambda>(st, a, h). todo st = [] \<and> mutex_step st = None \<and> tx_log st = map snd cs \<and>
     map fst h = map fst cs \<and> arms st = fold (record_reply fl) h A)"

lemma supported_reply: "supported s \<Longrightarrow> \<exists>r. good_reply s r"
  by (intro exI [of _ "take (the (reply_len s)) (1 # (case s of S_CPHA \<Rightarrow> 0x27 | S_VEL \<Rightarrow> 0x35 | _ \<Rightarrow> 0x36) # replicate 6 0)"])
    (cases s; simp add: good_reply_def supported_def reply_len_def code_ok_def)

lemma line_step_rx_all: "a \<noteq> [] \<Longrightarrow> \<exists>q. serve_step fl (st, a, h) q"
  using line_rx [of a fl st "[]" h] by auto

lemma line_progress:
  assumes i: "line_inv fl A cs n (st, a, h)" and s: "\<forall>c \<in> set cs. supported (fst c)"
  shows "(\<exists>q. serve_step fl (st, a, h) q) \<or> served fl A cs (st, a, h)"
  using i
proof cases
  case at_rest
  show ?thesis
  proof (cases "todo st")
    case Nil
    then show ?thesis using at_rest by (auto simp: served_def quiet_def)
  next
    case (Cons c rest)
    then have "cmd_step st = Some (st\<lparr>mutex_step := Some (Cmd, 1), cpc := C_Send\<rparr>)"
      using at_rest by (auto simp: cmd_step_def mutex_take_def split: prod.split)
    moreover have "proc_step fl st = None" using at_rest by (simp add: proc_step_def quiet_def)
    ultimately show ?thesis using line_cmd at_rest by (metis cmd_pc.distinct(1))
  qed
next
  case (locked c rest)
  have "c \<in> set cs" using locked by (auto simp: quiet_def)
  then obtain r where r: "good_reply (fst c) r" using s supported_reply by blast
  obtain st' where st': "cmd_step st = Some st'" "stepper_motor_cmd_state st' = fst c"
    using locked by (cases c) (auto simp: cmd_step_def mutex_release_def)
  moreover have "proc_step fl st = None" using locked by (simp add: proc_step_def quiet_def)
  ultimately show ?thesis using line_send [of fl st st' r a h] r locked by auto
next
  case (sent rest c)
  then have "proc_step fl st = None" "\<exists>st'. cmd_step st = Some st'"
    by (auto simp: proc_step_def cmd_step_def split: prod.split)
  then show ?thesis using line_cmd [of fl st _ a h] sent by auto
next
  case announced
  then have "\<exists>st'. proc_step fl st = Some st'" by (simp add: proc_step_def)
  then show ?thesis using line_proc by blast
next
  case woken
  then have "\<exists>st'. proc_step fl st = Some st'" by (simp add: proc_step_def mutex_take_def)
  then show ?thesis using line_proc by blast
next
  case waiting
  show ?thesis
  proof (cases "a = []")
    case True
    then have "\<exists>st'. proc_step fl st = Some st'" using waiting by (simp add: proc_step_def flight_def)
    then show ?thesis using line_proc by blast
  qed (use line_step_rx_all in blast)
next
  case working
  then have "\<exists>st'. proc_step fl st = Some st'" by (simp add: proc_step_def)
  then show ?thesis using line_proc by blast
qed



subsection \<open>What a bad answer does\<close>

text \<open>
  The answering thread has the mutex and waits for the next command; the command thread waits
  for the mutex.
\<close>

definition stuck :: "emm \<Rightarrow> bool" where
  "stuck st \<longleftrightarrow> (\<exists>n. mutex_step st = Some (Proc, n)) \<and> ppc st = P_Step \<and> step_sem st = 0 \<and> cpc st = C_Take"

lemma stuck_step:
  assumes "emm_step fl st st'" "stuck st"
  shows "stuck st' \<and> tx_log st' = tx_log st \<and> arms st' = arms st \<and> todo st' = todo st"
  using assms
proof cases
  case proc
  then show ?thesis using assms(2) by (auto simp: stuck_def proc_step_def)
next
  case cmd
  then show ?thesis using assms(2)
    by (auto simp: stuck_def cmd_step_def mutex_take_def split: list.splits)
next
  case (rx bs)
  then show ?thesis using assms(2) by (simp add: stuck_def)
qed

lemma stuck_for_ever:
  "(emm_step fl)\<^sup>*\<^sup>* st st' \<Longrightarrow> stuck st \<Longrightarrow>
     stuck st' \<and> tx_log st' = tx_log st \<and> arms st' = arms st \<and> todo st' = todo st"
  by (induction rule: rtranclp_induct) (use stuck_step in fastforce)+

text \<open>
  The answers that are not taken: too short, from a foreign address, or with the wrong function
  code.
\<close>

definition bad_answer :: "SysParams_t \<Rightarrow> u8 list \<Rightarrow> bool" where
  "bad_answer s r \<longleftrightarrow> (r ! 0 \<noteq> 1 \<and> r ! 0 \<noteq> 3) \<or> \<not> code_ok s (r ! 1)"

lemma evaluate_short: "unat (rxCount st) < n \<Longrightarrow> evaluate fl n st = drain st"
  by (simp add: evaluate_def)

lemma evaluate_bad:
  assumes "rx_buf st = r @ xs" "2 \<le> length r" "bad_answer (stepper_motor_cmd_state st) r"
    "length r \<le> unat (rxCount st)"
  shows "evaluate fl (length r) st = Emm_V5_Receive (length r) st"
  using assms
  by (auto simp: evaluate_def Let_def Emm_V5_Receive_def Emm_V5_ID_judge_def bad_answer_def nth_append)

lemma process_answer_bad:
  assumes s: "supported (stepper_motor_cmd_state st)" "stepper_motor_cmd_state st \<noteq> S_Ans"
      "reply_len (stepper_motor_cmd_state st) = Some n"
    and b: "unat (rxCount st) < n \<or> (\<exists>r xs. rx_buf st = r @ xs \<and> length r = n \<and> bad_answer (stepper_motor_cmd_state st) r)"
  shows "\<exists>c d. process_answer fl st = st\<lparr>rxCmd := c, rx_buf := d\<rparr>"
proof (cases "unat (rxCount st) < n")
  case True
  then have "process_answer fl st = st\<lparr>rxCmd := rxCmd st, rx_buf := drop 60 (rx_buf st)\<rparr>"
    using process_answer_evaluate [OF s] by (simp add: evaluate_short drain_def)
  then show ?thesis by blast
next
  case False
  then obtain r xs where r: "rx_buf st = r @ xs" "length r = n" "bad_answer (stepper_motor_cmd_state st) r"
    using b by blast
  moreover have "2 \<le> n" using s by (cases "stepper_motor_cmd_state st") (auto simp: reply_len_def supported_def)
  ultimately have "process_answer fl st = Emm_V5_Receive n st"
    using evaluate_bad [OF r(1)] process_answer_evaluate [OF s] False by simp
  then show ?thesis by (auto simp: Emm_V5_Receive_def Let_def)
qed

text \<open>The answering thread waits for the answer to a command of kind \<open>s\<close>; nothing has come yet.\<close>

definition awaits :: "SysParams_t \<Rightarrow> emm \<Rightarrow> bool" where
  "awaits s st \<longleftrightarrow> stepper_motor_cmd_state st = s \<and> rx_buf st = [] \<and> mutex_step st = Some (Proc, 1) \<and>
     ppc st = P_Cmp \<and> step_sem st = 0 \<and> cpc st = C_Take"

definition doomed :: "u8 list \<Rightarrow> emm \<Rightarrow> emm \<Rightarrow> bool" where
  "doomed r w st \<longleftrightarrow> mutex_step st = Some (Proc, 1) \<and> step_sem st = 0 \<and> cpc st = C_Take \<and>
     (ppc st = P_Step \<or> ppc st \<noteq> P_Mutex \<and> stepper_motor_cmd_state st = stepper_motor_cmd_state w \<and>
        (\<exists>xs. rx_buf st = r @ xs)) \<and>
     tx_log st = tx_log w \<and> arms st = arms w \<and> todo st = todo w"

lemma doomed_step:
  assumes st: "emm_step fl st st'" "doomed r w st"
    and w: "supported (stepper_motor_cmd_state w)" "stepper_motor_cmd_state w \<noteq> S_Ans"
      "reply_len (stepper_motor_cmd_state w) = Some (length r)" "bad_answer (stepper_motor_cmd_state w) r"
  shows "doomed r w st'"
  using st(1)
proof cases
  case proc
  show ?thesis
  proof (cases "ppc st = P_Work")
    case True
    then have "\<exists>c d. process_answer fl st = st\<lparr>rxCmd := c, rx_buf := d\<rparr>"
      using st(2) w by (intro process_answer_bad [of _ "length r"]) (auto simp: doomed_def)
    then show ?thesis using proc st(2) True by (auto simp: doomed_def proc_step_def)
  next
    case False
    then show ?thesis using proc st(2)
      by (cases "ppc st") (auto simp: doomed_def proc_step_def split: if_splits)
  qed
next
  case cmd
  then show ?thesis using st(2)
    by (auto simp: doomed_def cmd_step_def mutex_take_def split: list.splits)
next
  case (rx bs)
  then show ?thesis using st(2) by (auto simp: doomed_def)
qed



text \<open>
  A byte that comes while no command is under way releases the completion semaphore all the
  same. The next reading command then finds one byte, reports an error and keeps the mutex.
\<close>

definition at_rest_with :: "emm_frame \<Rightarrow> emm_frame list \<Rightarrow> emm \<Rightarrow> bool" where
  "at_rest_with c cs st \<longleftrightarrow> stepper_motor_cmd_state st = S_IDLE \<and> rx_buf st = [] \<and> mutex_step st = None \<and>
     ppc st = P_Step \<and> step_sem st = 0 \<and> cpc st = C_Take \<and> todo st = c # cs"

lemma emm_step_transmits:
  assumes "mutex_step st = None" "ppc st = P_Step" "step_sem st = 0" "cpc st = C_Take" "todo st = (s, f) # cs"
  shows "(emm_step fl)\<^sup>*\<^sup>* st (st\<lparr>stepper_motor_cmd_state := s, tx_log := tx_log st @ [f], todo := cs,
     ppc := P_Cmp, mutex_step := Some (Proc, 1)\<rparr>)"
proof -
  let ?a = "st\<lparr>mutex_step := Some (Cmd, 1), cpc := C_Send\<rparr>"
  let ?b = "st\<lparr>stepper_motor_cmd_state := s, tx_log := tx_log st @ [f], cpc := C_Sem\<rparr>"
  let ?c = "?b\<lparr>step_sem := 1, cpc := C_Take, todo := cs\<rparr>"
  let ?d = "?c\<lparr>step_sem := 0, ppc := P_Mutex\<rparr>"
  let ?e = "?d\<lparr>mutex_step := Some (Proc, 1), ppc := P_Cmp\<rparr>"
  have "emm_step fl st ?a"
    using assms by (intro emm_step.cmd) (auto simp: proc_step_def cmd_step_def mutex_take_def)
  moreover have "emm_step fl ?a ?b"
    using assms by (intro emm_step.cmd) (auto simp: proc_step_def cmd_step_def mutex_release_def)
  moreover have "emm_step fl ?b ?c"
    using assms by (intro emm_step.cmd) (auto simp: proc_step_def cmd_step_def)
  moreover have "emm_step fl ?c ?d" "emm_step fl ?d ?e"
    using assms by (auto intro!: emm_step.proc simp: proc_step_def mutex_take_def)
  moreover have "?e = st\<lparr>stepper_motor_cmd_state := s, tx_log := tx_log st @ [f], todo := cs,
     ppc := P_Cmp, mutex_step := Some (Proc, 1)\<rparr>" using assms by simp
  ultimately show ?thesis by (metis (no_types, lifting) rtranclp.rtrancl_into_rtrancl rtranclp.rtrancl_refl)
qed

lemma emm_step_rejects:
  assumes "mutex_step st = Some (Proc, 1)" "ppc st = P_Cmp" "step_sem st = 0" "cpc st = C_Take"
    "cmp_sem st > 0" "supported (stepper_motor_cmd_state st)" "stepper_motor_cmd_state st \<noteq> S_Ans"
    "reply_len (stepper_motor_cmd_state st) = Some n" "unat (rxCount st) < n"
  shows "\<exists>st'. (emm_step fl)\<^sup>*\<^sup>* st st' \<and> stuck st' \<and> tx_log st' = tx_log st"
proof -
  let ?a = "st\<lparr>cmp_sem := cmp_sem st - 1, ppc := P_Work\<rparr>"
  obtain c d where "process_answer fl ?a = ?a\<lparr>rxCmd := c, rx_buf := d\<rparr>"
    using process_answer_bad [of ?a n fl] assms by auto
  then have "emm_step fl ?a (?a\<lparr>rxCmd := c, rx_buf := d, ppc := P_Step\<rparr>)"
    by (intro emm_step.proc) (simp add: proc_step_def)
  moreover have "emm_step fl st ?a" using assms by (intro emm_step.proc) (simp add: proc_step_def)
  ultimately have "(emm_step fl)\<^sup>*\<^sup>* st (?a\<lparr>rxCmd := c, rx_buf := d, ppc := P_Step\<rparr>)" by auto
  then show ?thesis using assms by (intro exI) (auto simp: stuck_def)
qed

lemma emm_stray_byte_stops_arm:
  assumes w: "at_rest_with (s, f) cs w" and s: "supported s" "s \<noteq> S_Ans"
  shows "\<exists>st. (emm_step fl)\<^sup>*\<^sup>* (uart_rx [b] w) st \<and>
     (\<forall>st'. (emm_step fl)\<^sup>*\<^sup>* st st' \<longrightarrow> tx_log st' = tx_log w @ [f])"
proof -
  let ?u = "uart_rx [b] w"
  let ?v = "?u\<lparr>stepper_motor_cmd_state := s, tx_log := tx_log w @ [f], todo := cs,
     ppc := P_Cmp, mutex_step := Some (Proc, 1)\<rparr>"
  obtain n where n: "reply_len s = Some n" "1 < n"
    using s by (cases s) (auto simp: supported_def reply_len_def)
  have run: "(emm_step fl)\<^sup>*\<^sup>* ?u ?v"
    using emm_step_transmits [of ?u s f cs fl] w by (simp add: at_rest_with_def)
  have "\<exists>st. (emm_step fl)\<^sup>*\<^sup>* ?v st \<and> stuck st \<and> tx_log st = tx_log ?v"
  proof (rule emm_step_rejects)
    show "0 < cmp_sem ?v" using w by (simp add: at_rest_with_def uart_rx_cmp reply_len_def)
  qed (use w s n in \<open>simp_all add: at_rest_with_def\<close>)
  then obtain st where st: "(emm_step fl)\<^sup>*\<^sup>* ?v st" "stuck st" "tx_log st = tx_log ?v" by blast
  have "(emm_step fl)\<^sup>*\<^sup>* ?u st" using run st(1) by (rule rtranclp_trans)
  moreover have "\<forall>st'. (emm_step fl)\<^sup>*\<^sup>* st st' \<longrightarrow> tx_log st' = tx_log w @ [f]"
    using stuck_for_ever [OF _ st(2)] st(3) by simp
  ultimately show ?thesis by blast
qed

subsection \<open>The commands of the arm thread\<close>

text \<open>Everything the arm thread sends has an answer that the answering thread evaluates.\<close>

lemma supported_simps [simp]:
  "supported S_Ans" "supported S_CPOS" "supported S_VEL" "supported S_PERR" "supported S_FLAG"
  "supported S_ORG" "supported S_CPHA"
  by (simp_all add: supported_def reply_len_def)

lemma arm_start_supported: "c \<in> set arm_start \<Longrightarrow> supported (fst c)"
  by (auto simp: arm_start_def emm_defs)

lemma arm_init_round_supported: "c \<in> set (fst (arm_init_round fl big small flags)) \<Longrightarrow> supported (fst c)"
  by (auto simp: arm_init_round_def emm_defs Let_def split: if_splits)

lemma arm_round_supported: "arm_round b s = Inr fs \<Longrightarrow> c \<in> set fs \<Longrightarrow> supported (fst c)"
  by (auto simp: arm_round_def emm_defs Let_def)

lemma arm_init_round_finishes:
  "snd (snd (arm_init_round fl big small flags)) \<longleftrightarrow>
     (fst flags \<or> near_deg fl big 252.7) \<and> (snd flags \<or> near_deg fl small (- 45.2))"
  by (auto simp: arm_init_round_def Let_def)

text \<open>The bytes of a command, seen from the drive.\<close>

lemma pos_control_decode:
  "emm_decode (snd (Emm_V5_Pos_Control a d v acc clk raF snF)) = Some (Pos a d v acc clk raF snF)"
  using emm_decode_frame [of "Pos a d v acc clk raF snF"] by simp

lemma pulse_dir_cases:
  assumes "- (2 ^ 31) \<le> p" "p < 2 ^ 31"
  shows "pulse_dir pos neg p = (if p = - (2 ^ 31) then Inl SignedOverflow
     else Inr (if p > 0 then pos else neg, word_of_int \<bar>p\<bar>))"
  using assms by (auto simp: pulse_dir_def)

lemma pulse_value: "\<bar>p\<bar> < 2 ^ 31 \<Longrightarrow> uint (word_of_int \<bar>p\<bar> :: u32) = \<bar>p\<bar>"
  by (simp add: uint_word_of_int)

text \<open>
  each round of the arm thread first commands both motors to an absolute position: the
  drives read the magnitude of the wanted pulses, exactly, and the direction of its sign, which
  is mirrored between the two arms. All commands of the round have an answer the program
  evaluates. Only the smallest 32-bit number overflows.
\<close>

theorem arm_round_commands:
  assumes "- (2 ^ 31) \<le> b" "b < 2 ^ 31" "- (2 ^ 31) \<le> s" "s < 2 ^ 31"
  shows "if b = - (2 ^ 31) \<or> s = - (2 ^ 31) then arm_round b s = Inl SignedOverflow
    else \<exists>fs bp sp. arm_round b s = Inr fs \<and> length fs = 14 \<and> (\<forall>c \<in> set fs. supported (fst c)) \<and>
      emm_decode (snd (fs ! 0)) = Some (Pos 1 (if b > 0 then 0 else 1) 100 20 bp True False) \<and> uint bp = \<bar>b\<bar> \<and>
      emm_decode (snd (fs ! 1)) = Some (Pos 3 (if s > 0 then 1 else 0) 100 20 sp True False) \<and> uint sp = \<bar>s\<bar>"
proof (cases "b = - (2 ^ 31) \<or> s = - (2 ^ 31)")
  case True
  then show ?thesis using assms by (auto simp: arm_round_def pulse_dir_cases)
next
  case False
  then have m: "\<bar>b\<bar> < 2 ^ 31" "\<bar>s\<bar> < 2 ^ 31" using assms by auto
  let ?fs = "[Emm_V5_Pos_Control 1 (if b > 0 then 0 else 1) 100 20 (word_of_int \<bar>b\<bar>) True False,
      Emm_V5_Pos_Control 3 (if s > 0 then 1 else 0) 100 20 (word_of_int \<bar>s\<bar>) True False] @
      map (Emm_V5_Read_Sys_Params 1) [S_CPOS, S_VEL, S_PERR, S_FLAG, S_ORG, S_CPHA] @
      map (Emm_V5_Read_Sys_Params 3) [S_CPOS, S_VEL, S_PERR, S_FLAG, S_ORG, S_CPHA]"
  have r: "arm_round b s = Inr ?fs" using False assms by (simp add: arm_round_def pulse_dir_cases)
  have "length ?fs = 14" by simp
  moreover have "\<forall>c \<in> set ?fs. supported (fst c)" using arm_round_supported [OF r] by blast
  moreover have "?fs ! 0 = Emm_V5_Pos_Control 1 (if b > 0 then 0 else 1) 100 20 (word_of_int \<bar>b\<bar>) True False"
    "?fs ! 1 = Emm_V5_Pos_Control 3 (if s > 0 then 1 else 0) 100 20 (word_of_int \<bar>s\<bar>) True False"
    by simp_all
  ultimately show ?thesis
    using r False pos_control_decode pulse_value [OF m(1)] pulse_value [OF m(2)] by metis
qed

theorem arm_round_commands_witness:
  "\<exists>fs bp. arm_round (-3200) 400 = Inr fs \<and>
     emm_decode (snd (fs ! 0)) = Some (Pos 1 1 100 20 bp True False) \<and> uint bp = 3200"
  using arm_round_commands [of "-3200" 400] by fastforce

end
