(* ===== verification/Arm.thy ===== *)
theory Arm
  imports Ieee StepperRun
begin

section \<open>The kinematics of the arm (arduino_main.cpp, robotarm/)\<close>

text \<open>
  The C++ part of the program: \<open>Interpolation\<close> moves from the last target to the next one,
  \<open>RobotGeometry\<close> computes the angles of the two shanks for a position of the end effector, and
  \<open>loop\<close> of \<open>arduino_main.cpp\<close> turns the angles into the pulses that the arm thread
  (Stepper) sends to the drives. Positions are in millimetres; \<open>fl\<close> rounds to \<open>float\<close>, \<open>fd\<close> to
  \<open>double\<close>, the type of unsuffixed constants. What comes from the Arduino library is a parameter,
  \<open>arduino\<close>: its \<open>PI\<close> and \<open>sq\<close>; the readings of its clock \<open>micros\<close> are arguments. Objects with static
  storage start out as zero. Messages to the log are left out.
\<close>

subsection \<open>The Arduino library and the configuration (config.h)\<close>

record arduino =
  PI :: ieee
  sq :: "rounding \<Rightarrow> ieee \<Rightarrow> ieee"

definition LOW_SHANK_LENGTH :: ieee where "LOW_SHANK_LENGTH = Fin 120"
definition HIGH_SHANK_LENGTH :: ieee where "HIGH_SHANK_LENGTH = Fin 120"
definition END_EFFECTOR_OFFSET :: ieee where "END_EFFECTOR_OFFSET = Fin 47"
definition INITIAL_X :: ieee where "INITIAL_X = Fin 0"
definition INITIAL_Y :: "rounding \<Rightarrow> ieee" where "INITIAL_Y fd = ieee_add fd HIGH_SHANK_LENGTH END_EFFECTOR_OFFSET"
definition INITIAL_Z :: ieee where "INITIAL_Z = LOW_SHANK_LENGTH"
definition INITIAL_E0 :: ieee where "INITIAL_E0 = Fin 0"
definition Z_MIN :: ieee where "Z_MIN = Fin (- 140)"
definition Z_MAX :: "rounding \<Rightarrow> ieee" where "Z_MAX fd = ieee_add fd LOW_SHANK_LENGTH (Fin 30)"
definition SHANKS_MIN_ANGLE_COS :: "rounding \<Rightarrow> ieee" where "SHANKS_MIN_ANGLE_COS fd = Fin (fd 0.791436948)"
definition SHANKS_MAX_ANGLE_COS :: "rounding \<Rightarrow> ieee" where "SHANKS_MAX_ANGLE_COS fd = Fin (fd (- 0.774944489))"

text \<open>The radius at which the shanks enclose an angle of the given cosine.\<close>

definition shank_radius :: "arduino \<Rightarrow> rounding \<Rightarrow> ieee \<Rightarrow> ieee" where
  "shank_radius A fd c =
     ieee_sqrt fd (ieee_sub fd (ieee_add fd (sq A fd LOW_SHANK_LENGTH) (sq A fd HIGH_SHANK_LENGTH))
       (ieee_mul fd (ieee_mul fd (ieee_mul fd (Fin 2) LOW_SHANK_LENGTH) HIGH_SHANK_LENGTH) c))"

definition R_MIN :: "arduino \<Rightarrow> rounding \<Rightarrow> ieee" where
  "R_MIN A fd = shank_radius A fd (SHANKS_MIN_ANGLE_COS fd)"

definition R_MAX :: "arduino \<Rightarrow> rounding \<Rightarrow> ieee" where
  "R_MAX A fd = shank_radius A fd (SHANKS_MAX_ANGLE_COS fd)"

subsection \<open>RobotGeometry\<close>

record RobotGeometry =
  ee_offset :: ieee
  low_shank_length :: ieee
  high_shank_length :: ieee
  g_xmm :: ieee
  g_ymm :: ieee
  g_zmm :: ieee
  rot :: ieee
  low :: ieee
  high :: ieee
  rrot_ee :: ieee

text \<open>The constructor, on an object of zeros.\<close>

definition RobotGeometry_new :: "ieee \<Rightarrow> ieee \<Rightarrow> ieee \<Rightarrow> RobotGeometry" where
  "RobotGeometry_new a_ee_offset a_low_shank_length a_high_shank_length =
     \<lparr>ee_offset = a_ee_offset, low_shank_length = a_low_shank_length, high_shank_length = a_high_shank_length,
      g_xmm = Fin 0, g_ymm = Fin 0, g_zmm = Fin 0, rot = Fin 0, low = Fin 0, high = Fin 0, rrot_ee = Fin 0\<rparr>"

definition calculateGrad :: "arduino \<Rightarrow> rounding \<Rightarrow> rounding \<Rightarrow> RobotGeometry \<Rightarrow> RobotGeometry" where
  "calculateGrad A fl fd g =
     (let r_ee = ieee_hypot fl (g_xmm g) (g_ymm g);
          rrot = ieee_sub fl r_ee (ee_offset g);
          rside = ieee_hypot fl rrot (g_zmm g);
          rside_2 = sq A fl rside;
          low_2 = sq A fl (low_shank_length g);
          high_2 = sq A fl (high_shank_length g);
          a = ieee_asin fl (ieee_div fl (g_xmm g) r_ee);
          elbow = narrow fl (ieee_sub fd (PI A) (ieee_acos fl
            (ieee_div fl (ieee_sub fl (ieee_add fl low_2 high_2) rside_2)
              (ieee_mul fl (ieee_mul fl (Fin 2) (low_shank_length g)) (high_shank_length g)))));
          shoulder = ieee_acos fl
            (ieee_div fl (ieee_add fl (ieee_sub fl low_2 high_2) rside_2)
              (ieee_mul fl (ieee_mul fl (Fin 2) (low_shank_length g)) rside));
          lo = (if ieee_less (Fin 0) (g_zmm g)
                then ieee_sub fl (ieee_acos fl (ieee_div fl (g_zmm g) rside)) shoulder
                else narrow fl (ieee_sub fd (ieee_sub fd (PI A) (ieee_asin fl (ieee_div fl rrot rside))) shoulder))
      in g\<lparr>rrot_ee := r_ee, rot := a, low := lo, high := ieee_add fl elbow lo\<rparr>)"

definition geometry_set :: "arduino \<Rightarrow> rounding \<Rightarrow> rounding \<Rightarrow> ieee \<Rightarrow> ieee \<Rightarrow> ieee \<Rightarrow> RobotGeometry \<Rightarrow> RobotGeometry" where
  "geometry_set A fl fd axmm aymm azmm g = calculateGrad A fl fd (g\<lparr>g_xmm := axmm, g_ymm := aymm, g_zmm := azmm\<rparr>)"

subsection \<open>Interpolation\<close>

record Point =
  p_xmm :: ieee
  p_ymm :: ieee
  p_zmm :: ieee
  p_emm :: ieee

text \<open>
  The start, the way to go and the position are four coordinates each: \<open>xStartmm\<close> to \<open>eStartmm\<close>,
  \<open>xDelta\<close> to \<open>eDelta\<close>, \<open>xPosmm\<close> to \<open>ePosmm\<close>; \<open>pos_tracker\<close> is the array of four. \<open>startTime\<close> and the
  clock are of type \<open>long\<close>, 32 bits wide.
\<close>

record Interpolation =
  speed_profile :: int
  pos_offset :: Point
  pos_tracker :: Point
  istate :: u8
  startTime :: int
  startmm :: Point
  delta :: Point
  posmm :: Point
  vel :: ieee
  tmul :: ieee

definition origin :: Point where
  "origin = \<lparr>p_xmm = Fin 0, p_ymm = Fin 0, p_zmm = Fin 0, p_emm = Fin 0\<rparr>"

definition point_add :: "rounding \<Rightarrow> Point \<Rightarrow> Point \<Rightarrow> Point" where
  "point_add fl p q = \<lparr>p_xmm = ieee_add fl (p_xmm p) (p_xmm q), p_ymm = ieee_add fl (p_ymm p) (p_ymm q),
     p_zmm = ieee_add fl (p_zmm p) (p_zmm q), p_emm = ieee_add fl (p_emm p) (p_emm q)\<rparr>"

definition point_sub :: "rounding \<Rightarrow> Point \<Rightarrow> Point \<Rightarrow> Point" where
  "point_sub fl p q = \<lparr>p_xmm = ieee_sub fl (p_xmm p) (p_xmm q), p_ymm = ieee_sub fl (p_ymm p) (p_ymm q),
     p_zmm = ieee_sub fl (p_zmm p) (p_zmm q), p_emm = ieee_sub fl (p_emm p) (p_emm q)\<rparr>"

definition point_scale :: "rounding \<Rightarrow> ieee \<Rightarrow> Point \<Rightarrow> Point" where
  "point_scale fl c p = \<lparr>p_xmm = ieee_mul fl c (p_xmm p), p_ymm = ieee_mul fl c (p_ymm p),
     p_zmm = ieee_mul fl c (p_zmm p), p_emm = ieee_mul fl c (p_emm p)\<rparr>"

definition Interpolation_new :: Interpolation where
  "Interpolation_new = \<lparr>speed_profile = 2, pos_offset = origin, pos_tracker = origin, istate = 0, startTime = 0,
     startmm = origin, delta = origin, posmm = origin, vel = Fin 0, tmul = Fin 0\<rparr>"

definition setSpeedProfile :: "int \<Rightarrow> Interpolation \<Rightarrow> Interpolation" where
  "setSpeedProfile n i = i\<lparr>speed_profile := n\<rparr>"

definition setPosOffset :: "rounding \<Rightarrow> Point \<Rightarrow> Interpolation \<Rightarrow> Interpolation" where
  "setPosOffset fl new i = i\<lparr>pos_offset := point_sub fl (posmm i) new\<rparr>"

definition resetPosOffset :: "Interpolation \<Rightarrow> Interpolation" where
  "resetPosOffset i = i\<lparr>pos_offset := origin\<rparr>"

definition setCurrentPos :: "Point \<Rightarrow> Interpolation \<Rightarrow> Interpolation" where
  "setCurrentPos p i = i\<lparr>startmm := p, delta := origin\<rparr>"

text \<open>From one point to another; \<open>micros\<close> is the clock when it is read, wrapped to a \<open>long\<close>.\<close>

definition path_dist :: "rounding \<Rightarrow> Point \<Rightarrow> Point \<Rightarrow> ieee" where
  "path_dist fl p0 p1 =
     (let a = ieee_sub fl (p_xmm p1) (p_xmm p0); b = ieee_sub fl (p_ymm p1) (p_ymm p0);
          c = ieee_sub fl (p_zmm p1) (p_zmm p0); e = ieee_abs (ieee_sub fl (p_emm p1) (p_emm p0));
          dst = ieee_sqrt fl (ieee_add fl (ieee_add fl (ieee_mul fl a a) (ieee_mul fl b b)) (ieee_mul fl c c))
      in if ieee_less dst e then e else dst)"

definition path_speed :: "rounding \<Rightarrow> ieee \<Rightarrow> ieee \<Rightarrow> ieee" where
  "path_speed fl av dst =
     (let v = (if ieee_less av (Fin 5) then ieee_mul fl (ieee_sqrt fl dst) (Fin 10) else av)
      in if ieee_less v (Fin 5) then Fin 5 else v)"

definition setInterpolation_from :: "rounding \<Rightarrow> u32 \<Rightarrow> Point \<Rightarrow> Point \<Rightarrow> ieee \<Rightarrow> Interpolation \<Rightarrow> Interpolation" where
  "setInterpolation_from fl micros p0 p1 av i =
     (let dst = path_dist fl p0 p1; v = path_speed fl av dst
      in i\<lparr>vel := v, tmul := ieee_div fl v dst, startmm := p0, delta := point_sub fl p1 p0, istate := 0,
           startTime := sint micros\<rparr>)"

definition setInterpolation :: "rounding \<Rightarrow> u32 \<Rightarrow> Point \<Rightarrow> ieee \<Rightarrow> Interpolation \<Rightarrow> Interpolation" where
  "setInterpolation fl micros p1 v i =
     setInterpolation_from fl micros (point_add fl (startmm i) (delta i)) p1 v i"

definition isAllowedPosition :: "arduino \<Rightarrow> rounding \<Rightarrow> rounding \<Rightarrow> Point \<Rightarrow> bool" where
  "isAllowedPosition A fl fd p =
     (let r_ee = ieee_hypot fl (p_xmm p) (p_ymm p);
          rrot = narrow fl (ieee_sub fd r_ee END_EFFECTOR_OFFSET);
          rrot_x = ieee_mul fl rrot (ieee_div fl (p_ymm p) r_ee);
          rrot_y = ieee_mul fl rrot (ieee_div fl (p_xmm p) r_ee);
          m = ieee_add fl (ieee_add fl (sq A fl rrot_x) (sq A fl rrot_y)) (sq A fl (p_zmm p))
      in ieee_leq m (sq A fd (R_MAX A fd)) \<and> ieee_leq (sq A fd (R_MIN A fd)) m \<and>
         ieee_leq Z_MIN (p_zmm p) \<and> ieee_leq (p_zmm p) (Z_MAX fd))"

text \<open>
  The progress at time \<open>t\<close> and whether the movement is over, for the three speed profiles; another
  profile leaves the variable \<open>progress\<close> unset.
\<close>

definition profile :: "arduino \<Rightarrow> rounding \<Rightarrow> rounding \<Rightarrow> int \<Rightarrow> ieee \<Rightarrow> ieee \<Rightarrow> (ieee \<times> bool) res" where
  "profile A fl fd k t tm =
     (let tt = ieee_mul fl t tm in
      if k = 0 then
        Inr (if ieee_leq (Fin 1) tt then (Fin 1, True) else (tt, False))
      else if k = 1 then
        (let x = ieee_sub fd (ieee_mul fd (ieee_mul fd (PI A) t) tm) (ieee_mul fd (PI A) (Fin (1 / 2)));
             p = narrow fl (ieee_add fd (ieee_mul fd (ieee_atan fd x) (Fin (1 / 2))) (Fin (1 / 2)))
         in Inr (if ieee_leq (Fin 1) p then (Fin 1, True) else (p, False)))
      else if k = 2 then
        (let p = narrow fl (ieee_add fd (ieee_mul fd (ieee_neg (ieee_cos fd (ieee_mul fd tt (PI A)))) (Fin (1 / 2)))
               (Fin (1 / 2)))
         in Inr (if ieee_leq (Fin 1) tt then (Fin 1, True) else (p, False)))
      else Inl Indeterminate)"

definition updateActualPosition ::
    "arduino \<Rightarrow> rounding \<Rightarrow> rounding \<Rightarrow> u32 \<Rightarrow> Interpolation \<Rightarrow> Interpolation res" where
  "updateActualPosition A fl fd micros i =
     (if istate i \<noteq> 0 then Inr i
      else bind_res (sub32 (sint micros) (startTime i)) (\<lambda>d.
        let t = narrow fl (ieee_div fd (Fin (of_int d)) (Fin 1000000)) in
        bind_res (profile A fl fd (speed_profile i) t (tmul i)) (\<lambda>(progress, over).
        let i1 = i\<lparr>istate := if over then 1 else istate i\<rparr>;
            p = point_add fl (startmm i1) (point_scale fl progress (delta i1))
        in Inr (if isAllowedPosition A fl fd p then i1\<lparr>pos_tracker := p, posmm := p\<rparr>
                else i1\<lparr>pos_tracker := posmm i1, istate := 1, startmm := posmm i1, delta := origin\<rparr>))))"

definition isFinished :: "Interpolation \<Rightarrow> bool" where
  "isFinished i \<longleftrightarrow> istate i \<noteq> 0"

subsection \<open>arduino_main.cpp\<close>

record arm_state =
  geometry :: RobotGeometry
  interpolator :: Interpolation
  radToStepFactor :: ieee
  big_arm_TargetPosition :: int
  small_arm_TargetPosition :: int
  abig_arm_pulse :: int
  asmall_arm_pulse :: int

definition arm_static :: arm_state where
  "arm_static = \<lparr>geometry = RobotGeometry_new END_EFFECTOR_OFFSET LOW_SHANK_LENGTH HIGH_SHANK_LENGTH,
     interpolator = Interpolation_new, radToStepFactor = Fin 0, big_arm_TargetPosition = 0,
     small_arm_TargetPosition = 0, abig_arm_pulse = 0, asmall_arm_pulse = 0\<rparr>"

definition initial_point :: "rounding \<Rightarrow> rounding \<Rightarrow> Point" where
  "initial_point fl fd = \<lparr>p_xmm = narrow fl INITIAL_X, p_ymm = narrow fl (INITIAL_Y fd),
     p_zmm = narrow fl INITIAL_Z, p_emm = narrow fl INITIAL_E0\<rparr>"

definition step_factor :: "arduino \<Rightarrow> rounding \<Rightarrow> rounding \<Rightarrow> ieee" where
  "step_factor A fl fd = narrow fl (ieee_div fd (ieee_div fd
     (ieee_mul fd (ieee_div fd (Fin 90) (Fin 20)) (Fin (16 * 200))) (Fin 2)) (PI A))"

text \<open>\<open>setup\<close> also sets the target (\<open>ymm\<close>, \<open>zmm\<close>) that the shell commands of Stepper change.\<close>

definition arm_setup :: "arduino \<Rightarrow> rounding \<Rightarrow> rounding \<Rightarrow> u32 \<Rightarrow> arm_state \<Rightarrow> arm_state \<times> arm_target" where
  "arm_setup A fl fd micros s =
     (s\<lparr>interpolator := (setInterpolation_from fl micros (initial_point fl fd) (initial_point fl fd) (Fin 0)
          (interpolator s))\<lparr>speed_profile := 0\<rparr>, radToStepFactor := step_factor A fl fd\<rparr>,
      \<lparr>ymm = fl (fd (120 + 47)), zmm = fl 120\<rparr>)"

text \<open>The clock is read twice in each \<open>loop\<close>.\<close>

definition target_point :: "arm_target \<Rightarrow> Point" where
  "target_point t = \<lparr>p_xmm = Fin 0, p_ymm = Fin (ymm t), p_zmm = Fin (zmm t), p_emm = Fin 0\<rparr>"

definition arm_pulses :: "arduino \<Rightarrow> rounding \<Rightarrow> rounding \<Rightarrow> arm_state \<Rightarrow> Interpolation \<Rightarrow> arm_state res" where
  "arm_pulses A fl fd s i =
     (let g = geometry_set A fl fd (p_xmm (posmm i)) (p_ymm (posmm i)) (p_zmm (posmm i)) (geometry s) in
      bind_res (to_int32 (ieee_mul fl (low g) (radToStepFactor s))) (\<lambda>b.
      bind_res (to_int32 (ieee_mul fl (high g) (radToStepFactor s))) (\<lambda>h.
      bind_res (sub32 h 3600) (\<lambda>h'.
        Inr (s\<lparr>interpolator := i, geometry := g, big_arm_TargetPosition := b, small_arm_TargetPosition := h,
               abig_arm_pulse := b, asmall_arm_pulse := h'\<rparr>)))))"

definition arm_loop :: "arduino \<Rightarrow> rounding \<Rightarrow> rounding \<Rightarrow> u32 \<Rightarrow> u32 \<Rightarrow> arm_target \<Rightarrow> arm_state \<Rightarrow> arm_state res" where
  "arm_loop A fl fd micros1 micros2 t s =
     bind_res (updateActualPosition A fl fd micros2 (setInterpolation fl micros1 (target_point t) (Fin 5) (interpolator s)))
       (arm_pulses A fl fd s)"

text \<open>Any number of rounds, each with its two readings of the clock and its target.\<close>

fun arm_loops :: "arduino \<Rightarrow> rounding \<Rightarrow> rounding \<Rightarrow> (u32 \<times> u32 \<times> arm_target) list \<Rightarrow> arm_state \<Rightarrow> arm_state res" where
  "arm_loops A fl fd [] s = Inr s"
| "arm_loops A fl fd ((m1, m2, t) # rs) s = bind_res (arm_loop A fl fd m1 m2 t s) (arm_loops A fl fd rs)"

end
