(* ===== verification/ArmGeo.thy ===== *)
theory ArmGeo
  imports Arm
begin

section \<open>The geometry of the arm\<close>

text \<open>
  In exact arithmetic the angles that \<open>calculateGrad\<close> computes put the wrist where it shall be. The
  first lemmas are plane trigonometry of two links; then the evaluation of the code, special
  values included, is followed to them.
\<close>

subsection \<open>Two links\<close>

lemma shoulder_in:
  fixes L H r :: real
  assumes "0 < L" "0 < r" "\<bar>L - H\<bar> \<le> r" "r \<le> L + H" "0 < H"
  shows "\<bar>(L\<^sup>2 - H\<^sup>2 + r\<^sup>2) / (2 * L * r)\<bar> \<le> 1"
proof -
  have "0 \<le> (H - (r - L)) * (H + (r - L))" "0 \<le> (L + r - H) * (L + r + H)"
    using assms by (auto intro!: mult_nonneg_nonneg)
  then have "\<bar>L\<^sup>2 - H\<^sup>2 + r\<^sup>2\<bar> \<le> 2 * L * r" unfolding abs_le_iff by (simp add: algebra_simps power2_eq_square)
  then show ?thesis using assms by (simp add: abs_mult)
qed

lemma elbow_in:
  fixes L H r :: real
  assumes "0 < L" "0 < H" "\<bar>L - H\<bar> \<le> r" "r \<le> L + H"
  shows "\<bar>(L\<^sup>2 + H\<^sup>2 - r\<^sup>2) / (2 * L * H)\<bar> \<le> 1"
proof -
  have "0 \<le> (r - (L - H)) * (r + (L - H))" "0 \<le> (L + H - r) * (L + H + r)"
    using assms by (auto intro!: mult_nonneg_nonneg)
  then have "\<bar>L\<^sup>2 + H\<^sup>2 - r\<^sup>2\<bar> \<le> 2 * L * H" unfolding abs_le_iff by (simp add: algebra_simps power2_eq_square)
  then show ?thesis using assms by (simp add: abs_mult)
qed

lemma two_link:
  fixes L H r :: real
  assumes h: "0 < L" "0 < H" "0 < r" "\<bar>L - H\<bar> \<le> r" "r \<le> L + H"
    and a: "a = arccos ((L\<^sup>2 - H\<^sup>2 + r\<^sup>2) / (2 * L * r))"
    and d: "d = pi - arccos ((L\<^sup>2 + H\<^sup>2 - r\<^sup>2) / (2 * L * H))"
  shows "L * sin (f - a) + H * sin (d + (f - a)) = r * sin f"
    and "L * cos (f - a) + H * cos (d + (f - a)) = r * cos f"
proof -
  note b = shoulder_in [OF h(1,3-5,2)] elbow_in [OF h(1,2,4,5)]
  have ca: "cos a = (L\<^sup>2 - H\<^sup>2 + r\<^sup>2) / (2 * L * r)" and cd: "cos d = (r\<^sup>2 - (L\<^sup>2 + H\<^sup>2)) / (2 * L * H)"
    using b by (simp_all add: a d cos_diff cos_arccos_abs del: abs_divide)
  have sa: "0 \<le> sin a" and sd: "0 \<le> sin d"
    using b by (simp_all add: a d sin_arccos_abs abs_square_le_1 del: abs_divide)
  have x: "L + H * cos d = r * cos a"
    unfolding ca cd using h by (simp add: field_simps power2_eq_square)
  have "(L + H * cos d)\<^sup>2 + (H * sin d)\<^sup>2 = L\<^sup>2 + 2 * L * H * cos d + H\<^sup>2 * ((cos d)\<^sup>2 + (sin d)\<^sup>2)"
    by (simp only: power2_sum power_mult_distrib distrib_left)
  also have "\<dots> = L\<^sup>2 + 2 * L * H * cos d + H\<^sup>2" by simp
  also have "\<dots> = r\<^sup>2" unfolding cd using h by (simp add: field_simps)
  also have "\<dots> = (r * cos a)\<^sup>2 + (r * sin a)\<^sup>2"
    by (simp add: power_mult_distrib sin_squared_eq algebra_simps)
  finally have "(H * sin d)\<^sup>2 = (r * sin a)\<^sup>2" by (simp add: x)
  then have y: "H * sin d = r * sin a" using sa sd h by (simp add: power2_eq_iff_nonneg)
  have "L * sin (f - a) + H * sin (d + (f - a)) = sin (f - a) * (L + H * cos d) + cos (f - a) * (H * sin d)"
    unfolding sin_add by (simp add: algebra_simps)
  also have "\<dots> = r * sin ((f - a) + a)" unfolding x y sin_add by (simp add: algebra_simps)
  finally show "L * sin (f - a) + H * sin (d + (f - a)) = r * sin f" by simp
  have "L * cos (f - a) + H * cos (d + (f - a)) = cos (f - a) * (L + H * cos d) - sin (f - a) * (H * sin d)"
    unfolding cos_add by (simp add: algebra_simps)
  also have "\<dots> = r * cos ((f - a) + a)" unfolding x y cos_add by (simp add: algebra_simps)
  finally show "L * cos (f - a) + H * cos (d + (f - a)) = r * cos f" by simp
qed

subsection \<open>Evaluating the code exactly\<close>

text \<open>What is documented of the Arduino library.\<close>

definition arduino_ok :: "arduino \<Rightarrow> bool" where
  "arduino_ok A \<longleftrightarrow> PI A = Fin pi \<and> (\<forall>r x. sq A r x = ieee_mul r x x)"

lemma arduino_okD: "arduino_ok A \<Longrightarrow> PI A = Fin pi" "arduino_ok A \<Longrightarrow> sq A r x = ieee_mul r x x"
  by (simp_all add: arduino_ok_def)

definition side_radius :: "real \<Rightarrow> real \<Rightarrow> real \<Rightarrow> real" where
  "side_radius q x y = sqrt (x\<^sup>2 + y\<^sup>2) - q"

text \<open>The direction of the wrist, measured from the vertical.\<close>

definition wrist_dir :: "real \<Rightarrow> real \<Rightarrow> real" where
  "wrist_dir q z = (if z > 0 then arccos (z / sqrt (q\<^sup>2 + z\<^sup>2)) else pi - arcsin (q / sqrt (q\<^sup>2 + z\<^sup>2)))"

lemma arccos_range: "\<bar>v\<bar> \<le> 1 \<Longrightarrow> 0 \<le> arccos v \<and> arccos v \<le> pi"
  and arcsin_range: "\<bar>v\<bar> \<le> 1 \<Longrightarrow> - (pi / 2) \<le> arcsin v \<and> arcsin v \<le> pi / 2"
  using arccos_bounded [of v] arcsin_bounded [of v] by (auto simp: abs_le_iff)

lemma hypot_pos:
  assumes "0 < sqrt (q\<^sup>2 + z\<^sup>2)"
  shows "\<bar>q / sqrt (q\<^sup>2 + z\<^sup>2)\<bar> \<le> 1" and "\<bar>z / sqrt (q\<^sup>2 + z\<^sup>2)\<bar> \<le> 1"
  using assms by (simp_all add: real_le_rsqrt)

lemma wrist_dir:
  assumes "0 < sqrt (q\<^sup>2 + z\<^sup>2)"
  shows "sqrt (q\<^sup>2 + z\<^sup>2) * sin (wrist_dir q z) = (if z > 0 then \<bar>q\<bar> else q)"
    and "sqrt (q\<^sup>2 + z\<^sup>2) * cos (wrist_dir q z) = z"
    and "0 \<le> wrist_dir q z" "wrist_dir q z \<le> 3 / 2 * pi"
proof -
  note b = hypot_pos [OF assms]
  let ?r = "sqrt (q\<^sup>2 + z\<^sup>2)"
  have r: "?r\<^sup>2 = q\<^sup>2 + z\<^sup>2" by simp
  have e: "1 - (z / ?r)\<^sup>2 = (q / ?r)\<^sup>2" "1 - (q / ?r)\<^sup>2 = (z / ?r)\<^sup>2"
    using assms by (auto simp: power_divide add_divide_distrib [symmetric] diff_eq_eq)
  have "sqrt (1 - (z / ?r)\<^sup>2) = \<bar>q\<bar> / ?r" "sqrt (1 - (q / ?r)\<^sup>2) = \<bar>z\<bar> / ?r"
    unfolding e by simp_all
  then show "?r * sin (wrist_dir q z) = (if z > 0 then \<bar>q\<bar> else q)" "?r * cos (wrist_dir q z) = z"
    using assms b by (auto simp: wrist_dir_def sin_arccos_abs cos_arccos_abs sin_arcsin cos_arcsin abs_le_iff
        simp del: abs_divide)
  show "0 \<le> wrist_dir q z" "wrist_dir q z \<le> 3 / 2 * pi"
    using arccos_range [OF b(2)] arcsin_range [OF b(1)] by (auto simp: wrist_dir_def)
qed

lemma arcsin_ok: "\<bar>v\<bar> \<le> 1 \<Longrightarrow> ieee_asin (\<lambda>x. x) (Fin v) = Fin (arcsin v)"
  and arccos_ok: "\<bar>v\<bar> \<le> 1 \<Longrightarrow> ieee_acos (\<lambda>x. x) (Fin v) = Fin (arccos v)"
  by (simp_all add: ieee_defs)

lemma calculateGrad_exact:
  assumes A: "arduino_ok A" and g: "ee_offset g = Fin e" "low_shank_length g = Fin L" "high_shank_length g = Fin H"
    and l: "0 < L" "0 < H"
    and r: "r = sqrt ((side_radius e x y)\<^sup>2 + z\<^sup>2)" "0 < r" "\<bar>L - H\<bar> \<le> r" "r \<le> L + H"
    and a: "a = arccos ((L\<^sup>2 - H\<^sup>2 + r\<^sup>2) / (2 * L * r))"
    and d: "d = pi - arccos ((L\<^sup>2 + H\<^sup>2 - r\<^sup>2) / (2 * L * H))"
    and f: "f = wrist_dir (side_radius e x y) z"
  shows "geometry_set A (\<lambda>x. x) (\<lambda>x. x) (Fin x) (Fin y) (Fin z) g =
    g\<lparr>g_xmm := Fin x, g_ymm := Fin y, g_zmm := Fin z, rrot_ee := Fin (sqrt (x\<^sup>2 + y\<^sup>2)),
      rot := ieee_asin (\<lambda>x. x) (ieee_div (\<lambda>x. x) (Fin x) (Fin (sqrt (x\<^sup>2 + y\<^sup>2)))),
      low := Fin (f - a), high := Fin (d + (f - a))\<rparr>"
proof -
  define q where "q = side_radius e x y"
  have q: "sqrt (x\<^sup>2 + y\<^sup>2) - e = q" "sqrt (q\<^sup>2 + z\<^sup>2) = r" by (simp_all add: q_def side_radius_def r(1))
  have p: "0 < sqrt (q\<^sup>2 + z\<^sup>2)" using r(2) q(2) by simp
  note b = hypot_pos [OF p, unfolded q(2)] shoulder_in [OF l(1) r(2-4) l(2)] elbow_in [OF l r(3,4)]
  have sh: "ieee_acos (\<lambda>x. x) (Fin ((L * L - H * H + r * r) / (2 * L * r))) = Fin a"
    and el: "ieee_acos (\<lambda>x. x) (Fin ((L * L + H * H - r * r) / (2 * L * H))) = Fin (pi - d)"
    using arccos_ok [OF b(3)] arccos_ok [OF b(4)] by (simp_all add: a d power2_eq_square)
  have w: "f = (if z > 0 then arccos (z / r) else pi - arcsin (q / r))"
    unfolding f q_def [symmetric] wrist_dir_def q(2) ..
  show ?thesis
    using l r(2) g by (simp add: geometry_set_def calculateGrad_def Let_def arduino_okD [OF A] ieee_sub_def ieee_neg_def
        q sh el w arccos_ok [OF b(2)] arcsin_ok [OF b(1)] narrow_def)
qed

lemma inverse_kinematics:
  assumes "arduino_ok A" "ee_offset g = Fin e" "low_shank_length g = Fin L" "high_shank_length g = Fin H"
    and "0 < L" "0 < H" "q = sqrt (x\<^sup>2 + y\<^sup>2) - e" "r = sqrt (q\<^sup>2 + z\<^sup>2)" "0 < r" "\<bar>L - H\<bar> \<le> r" "r \<le> L + H"
  shows "\<exists>lo hi. low (geometry_set A (\<lambda>x. x) (\<lambda>x. x) (Fin x) (Fin y) (Fin z) g) = Fin lo \<and>
    high (geometry_set A (\<lambda>x. x) (\<lambda>x. x) (Fin x) (Fin y) (Fin z) g) = Fin hi \<and>
    L * sin lo + H * sin hi = (if z > 0 then \<bar>q\<bar> else q) \<and> L * cos lo + H * cos hi = z \<and>
    - pi \<le> lo \<and> lo \<le> 3 / 2 * pi \<and> lo \<le> hi \<and> hi \<le> lo + pi"
proof -
  define a where "a = arccos ((L\<^sup>2 - H\<^sup>2 + r\<^sup>2) / (2 * L * r))"
  define d where "d = pi - arccos ((L\<^sup>2 + H\<^sup>2 - r\<^sup>2) / (2 * L * H))"
  define f where "f = wrist_dir q z"
  have q: "side_radius e x y = q" using assms(7) by (simp add: side_radius_def)
  note c = calculateGrad_exact [where x = x and y = y and z = z, OF assms(1-6), unfolded q, OF assms(8-11) a_def d_def f_def]
  note t = two_link [OF assms(5,6,9-11) a_def d_def, of f]
  note w = wrist_dir [of q z, unfolded assms(8) [symmetric], OF assms(9), folded f_def]
  have "0 \<le> a \<and> a \<le> pi" "0 \<le> d \<and> d \<le> pi"
    using arccos_range [OF shoulder_in [OF assms(5,9-11,6)]] arccos_range [OF elbow_in [OF assms(5,6,10,11)]]
    by (auto simp: a_def d_def)
  then show ?thesis using c t w by (intro exI [of _ "f - a"] exI [of _ "d + (f - a)"]) (simp; linarith)
qed

definition real_arduino :: arduino where
  "real_arduino = \<lparr>PI = Fin pi, sq = (\<lambda>r x. ieee_mul r x x)\<rparr>"

lemma real_arduino_ok: "arduino_ok real_arduino"
  by (simp add: arduino_ok_def real_arduino_def)



end
