(* ===== verification/ArmRun.thy ===== *)
theory ArmRun
  imports ArmGeo
begin

section \<open>Rounds of the arm\<close>

text \<open>
  The rounds of \<open>loop\<close> in exact arithmetic: the position stays within reach, the pulses stay small,
  the position commands of the arm thread carry the end effector to the target, and what happens
  when the clock stands still in the first round. The arm moves in a plane (\<open>xmm\<close> and \<open>emm\<close> are
  zero), so a position is \<open>pl y z\<close>.
\<close>

subsection \<open>Positions\<close>

definition within_reach :: "real \<Rightarrow> real \<Rightarrow> bool" where
  "within_reach y z \<longleftrightarrow> y \<noteq> 0 \<and> 28800 * (1 - 0.791436948) \<le> (\<bar>y\<bar> - 47)\<^sup>2 + z\<^sup>2 \<and>
     (\<bar>y\<bar> - 47)\<^sup>2 + z\<^sup>2 \<le> 28800 * (1 + 0.774944489) \<and> - 140 \<le> z \<and> z \<le> 150"

definition pl :: "real \<Rightarrow> real \<Rightarrow> Point" where
  "pl y z = \<lparr>p_xmm = Fin 0, p_ymm = Fin y, p_zmm = Fin z, p_emm = Fin 0\<rparr>"

lemma pl_simps [simp]: "p_xmm (pl y z) = Fin 0" "p_ymm (pl y z) = Fin y" "p_zmm (pl y z) = Fin z" "p_emm (pl y z) = Fin 0"
  by (simp_all add: pl_def)

lemma pl_eq [simp]: "pl y z = pl y' z' \<longleftrightarrow> y = y' \<and> z = z'"
  by (auto simp: pl_def)

lemma pl_points: "origin = pl 0 0" "target_point t = pl (ymm t) (zmm t)"
  "initial_point (\<lambda>x. x) (\<lambda>x. x) = pl 167 120"
  by (simp_all add: pl_def origin_def target_point_def initial_point_def INITIAL_X_def INITIAL_Y_def INITIAL_Z_def
      INITIAL_E0_def HIGH_SHANK_LENGTH_def LOW_SHANK_LENGTH_def END_EFFECTOR_OFFSET_def narrow_def)

lemma point_ops [simp]:
  "point_add (\<lambda>x. x) (pl y z) (pl y' z') = pl (y + y') (z + z')"
  "point_sub (\<lambda>x. x) (pl y z) (pl y' z') = pl (y - y') (z - z')"
  "point_scale (\<lambda>x. x) (Fin c) (pl y z) = pl (c * y) (c * z)"
  by (simp_all add: point_add_def point_sub_def point_scale_def pl_def ieee_sub_def ieee_neg_def)

lemma R_bounds:
  assumes "arduino_ok A"
  shows "ieee_mul (\<lambda>x. x) (R_MAX A (\<lambda>x. x)) (R_MAX A (\<lambda>x. x)) = Fin (28800 * (1 + 0.774944489))"
    and "ieee_mul (\<lambda>x. x) (R_MIN A (\<lambda>x. x)) (R_MIN A (\<lambda>x. x)) = Fin (28800 * (1 - 0.791436948))"
  by (simp_all add: arduino_okD [OF assms] R_MAX_def R_MIN_def shank_radius_def LOW_SHANK_LENGTH_def HIGH_SHANK_LENGTH_def
      SHANKS_MAX_ANGLE_COS_def SHANKS_MIN_ANGLE_COS_def ieee_sub_def ieee_neg_def ieee_sqrt_def)

lemma ieee_leq_Fin [simp]: "ieee_leq (Fin a) (Fin b) \<longleftrightarrow> a \<le> b"
  by (auto simp: ieee_leq_def)

lemma isAllowedPosition_exact:
  assumes A: "arduino_ok A"
  shows "isAllowedPosition A (\<lambda>x. x) (\<lambda>x. x) (pl y z) \<longleftrightarrow> within_reach y z"
proof (cases "y = 0")
  case True
  then show ?thesis by (simp add: isAllowedPosition_def Let_def arduino_okD [OF A] within_reach_def ieee_leq_def
    END_EFFECTOR_OFFSET_def ieee_sub_def ieee_neg_def narrow_def)
next
  case False
  have "((\<bar>y\<bar> - 47) * (y / \<bar>y\<bar>)) * ((\<bar>y\<bar> - 47) * (y / \<bar>y\<bar>)) = (\<bar>y\<bar> - 47)\<^sup>2 * (y / \<bar>y\<bar>)\<^sup>2"
    by (simp add: power2_eq_square)
  also have "(y / \<bar>y\<bar>)\<^sup>2 = 1" using False by (simp add: power_divide)
  finally have "((\<bar>y\<bar> - 47) * (y / \<bar>y\<bar>)) * ((\<bar>y\<bar> - 47) * (y / \<bar>y\<bar>)) = (\<bar>y\<bar> - 47)\<^sup>2" by simp
  then show ?thesis using False
    by (simp add: isAllowedPosition_def Let_def R_bounds [OF A] arduino_okD(2) [OF A] within_reach_def
      END_EFFECTOR_OFFSET_def ieee_sub_def ieee_neg_def narrow_def Z_MIN_def Z_MAX_def LOW_SHANK_LENGTH_def power2_eq_square conj_ac)
qed

lemma isAllowedPosition_fin: "isAllowedPosition A fl fd p \<Longrightarrow> is_fin (p_zmm p)"
  by (cases "p_zmm p") (auto simp: isAllowedPosition_def Let_def is_fin_def Z_MIN_def Z_MAX_def LOW_SHANK_LENGTH_def ieee_leq_def)

text \<open>A progress that is not finite gives no allowed position.\<close>

lemma isAllowedPosition_progress:
  assumes "isAllowedPosition A fl fd (point_add fl (pl y z) (point_scale fl c (pl y' z')))"
  shows "is_fin c"
  using isAllowedPosition_fin [OF assms]
  by (cases c) (auto simp: point_add_def point_scale_def is_fin_def split: if_splits)

lemma setInterpolation_exact:
  fixes y z :: real
  assumes "startmm i = pl ys zs" "delta i = pl yd zd"
  defines "y0 \<equiv> ys + yd" and "z0 \<equiv> zs + zd"
  defines "d \<equiv> sqrt ((y - y0)\<^sup>2 + (z - z0)\<^sup>2)"
  shows "setInterpolation (\<lambda>x. x) m (pl y z) (Fin 5) i =
    i\<lparr>vel := Fin 5, tmul := if d = 0 then Infty True else Fin (5 / d), startmm := pl y0 z0, delta := pl (y - y0) (z - z0),
      istate := 0, startTime := sint m\<rparr>"
proof -
  have "\<not> (y - y0) * (y - y0) + (z - z0) * (z - z0) < 0" by (simp add: not_less)
  then have "path_dist (\<lambda>x. x) (pl y0 z0) (pl y z) = Fin d"
    by (simp add: path_dist_def Let_def ieee_sub_def ieee_neg_def ieee_sqrt_def ieee_abs_def d_def power2_eq_square)
  moreover have "path_speed (\<lambda>x. x) (Fin 5) (Fin d) = Fin 5" by (simp add: path_speed_def Let_def)
  ultimately show ?thesis
    using assms(1,2) by (simp add: setInterpolation_def setInterpolation_from_def Let_def y0_def z0_def)
qed

definition moved_to :: "real \<Rightarrow> real \<Rightarrow> Interpolation \<Rightarrow> u8 \<Rightarrow> Interpolation" where
  "moved_to y z i n = i\<lparr>istate := n, pos_tracker := pl y z, posmm := pl y z\<rparr>"

definition halted :: "Interpolation \<Rightarrow> Interpolation" where
  "halted i = i\<lparr>pos_tracker := posmm i, istate := 1, startmm := posmm i, delta := origin\<rparr>"

lemma sub32_ok: "\<bar>x - y\<bar> < 2 ^ 31 \<Longrightarrow> sub32 x y = Inr (x - y)"
  by (simp add: sub32_def abs_less_iff)

text \<open>An update with the flat profile: where it leads, and what it does there.\<close>

definition flat_progress :: "ieee \<Rightarrow> ieee" where
  "flat_progress tt = (if ieee_leq (Fin 1) tt then Fin 1 else tt)"

lemma update_exact:
  assumes i: "istate i = 0" "speed_profile i = 0" and t: "\<bar>sint m - startTime i\<bar> < 2 ^ 31"
    and tt: "tt = ieee_mul (\<lambda>x. x) (Fin (of_int (sint m - startTime i) / 1000000)) (tmul i)"
    and p: "p = point_add (\<lambda>x. x) (startmm i) (point_scale (\<lambda>x. x) (flat_progress tt) (delta i))"
  shows "updateActualPosition A (\<lambda>x. x) (\<lambda>x. x) m i =
      Inr (if isAllowedPosition A (\<lambda>x. x) (\<lambda>x. x) p
           then i\<lparr>istate := if ieee_leq (Fin 1) tt then 1 else 0, pos_tracker := p, posmm := p\<rparr> else halted i)"
proof -
  have "profile A (\<lambda>x. x) (\<lambda>x. x) 0 (Fin (of_int (sint m - startTime i) / 1000000)) (tmul i) =
      Inr (flat_progress tt, ieee_leq (Fin 1) tt)"
    by (simp add: profile_def flat_progress_def tt Let_def)
  then show ?thesis
    using i by (auto simp: updateActualPosition_def sub32_ok [OF t] narrow_def p halted_def Let_def)
qed

lemma update_cases:
  assumes A: "arduino_ok A" and i: "istate i = 0" "speed_profile i = 0" "startmm i = pl ys zs" "delta i = pl yd zd"
    and t: "\<bar>sint m - startTime i\<bar> < 2 ^ 31"
  shows "updateActualPosition A (\<lambda>x. x) (\<lambda>x. x) m i = Inr (halted i) \<or>
    (\<exists>y z n. updateActualPosition A (\<lambda>x. x) (\<lambda>x. x) m i = Inr (moved_to y z i n) \<and> within_reach y z)"
proof -
  define tt where "tt = ieee_mul (\<lambda>x. x) (Fin (of_int (sint m - startTime i) / 1000000)) (tmul i)"
  define p where "p = point_add (\<lambda>x. x) (startmm i) (point_scale (\<lambda>x. x) (flat_progress tt) (delta i))"
  note u = update_exact [OF i(1,2) t tt_def p_def, of A]
  show ?thesis
  proof (cases "isAllowedPosition A (\<lambda>x. x) (\<lambda>x. x) p")
    case True
    then obtain c where "flat_progress tt = Fin c"
      using isAllowedPosition_progress [of A _ _ ys zs "flat_progress tt" yd zd] i by (auto simp: p_def is_fin_def)
    then have p: "p = pl (ys + c * yd) (zs + c * zd)" by (simp add: p_def i)
    have "updateActualPosition A (\<lambda>x. x) (\<lambda>x. x) m i =
        Inr (moved_to (ys + c * yd) (zs + c * zd) i (if ieee_leq (Fin 1) tt then 1 else 0))"
      using True u by (simp add: moved_to_def p)
    moreover have "within_reach (ys + c * yd) (zs + c * zd)" using True by (simp add: p isAllowedPosition_exact [OF A])
    ultimately show ?thesis by blast
  qed (simp add: u)
qed

lemma update_arrives:
  assumes A: "arduino_ok A" and i: "istate i = 0" "speed_profile i = 0" "startmm i = pl y z" "delta i = pl 0 0"
      "tmul i = Infty True"
    and t: "0 < sint m - startTime i" "sint m - startTime i < 2 ^ 31" and w: "within_reach y z"
  shows "updateActualPosition A (\<lambda>x. x) (\<lambda>x. x) m i = Inr (moved_to y z i 1)"
proof -
  have "0 < real_of_int (sint m - startTime i)" using t(1) by (simp only: of_int_0_less_iff)
  then have tt: "Infty True = ieee_mul (\<lambda>x. x) (Fin (of_int (sint m - startTime i) / 1000000)) (tmul i)"
    by (simp add: i(5))
  have p: "pl y z = point_add (\<lambda>x. x) (startmm i) (point_scale (\<lambda>x. x) (flat_progress (Infty True)) (delta i))"
    by (simp add: i flat_progress_def ieee_leq_def)
  have "\<bar>sint m - startTime i\<bar> < 2 ^ 31" using t by simp
  from update_exact [OF i(1,2) this tt p, of A] show ?thesis
    using w by (simp add: isAllowedPosition_exact [OF A] moved_to_def ieee_leq_def)
qed

subsection \<open>The invariant of the rounds\<close>

text \<open>The pulses and angles that belong to a position.\<close>

definition arm_at :: "real \<Rightarrow> real \<Rightarrow> arm_state \<Rightarrow> bool" where
  "arm_at y z s \<longleftrightarrow> (\<exists>lo hi. 120 * sin lo + 120 * sin hi = (if z > 0 then \<bar>\<bar>y\<bar> - 47\<bar> else \<bar>y\<bar> - 47) \<and>
     120 * cos lo + 120 * cos hi = z \<and> - pi \<le> lo \<and> lo \<le> 3 / 2 * pi \<and> lo \<le> hi \<and> hi \<le> lo + pi \<and>
     abig_arm_pulse s = trunc (lo * (7200 / pi)) \<and> asmall_arm_pulse s = trunc (hi * (7200 / pi)) - 3600)"

definition safe_pos :: "real \<Rightarrow> real \<Rightarrow> bool" where
  "safe_pos y z \<longleftrightarrow> y = 0 \<and> z = 0 \<or> within_reach y z"

definition arm_inv :: "arm_state \<Rightarrow> bool" where
  "arm_inv s \<longleftrightarrow> ee_offset (geometry s) = Fin 47 \<and> low_shank_length (geometry s) = Fin 120 \<and>
     high_shank_length (geometry s) = Fin 120 \<and> radToStepFactor s = Fin (7200 / pi) \<and>
     speed_profile (interpolator s) = 0 \<and> (\<exists>y z. startmm (interpolator s) = pl y z) \<and>
     (\<exists>y z. delta (interpolator s) = pl y z) \<and> (\<exists>y z. posmm (interpolator s) = pl y z \<and> safe_pos y z)"

lemma safe_pos_radius:
  assumes "safe_pos y z" "r = sqrt ((\<bar>y\<bar> - 47)\<^sup>2 + z\<^sup>2)"
  shows "0 < r" "r \<le> 240"
proof -
  have b: "6006 \<le> (\<bar>y\<bar> - 47)\<^sup>2 + z\<^sup>2 \<and> (\<bar>y\<bar> - 47)\<^sup>2 + z\<^sup>2 \<le> 51119 \<or> (\<bar>y\<bar> - 47)\<^sup>2 + z\<^sup>2 = 2209"
    using assms(1) by (auto simp: safe_pos_def within_reach_def)
  then have "0 < (\<bar>y\<bar> - 47)\<^sup>2 + z\<^sup>2" "(\<bar>y\<bar> - 47)\<^sup>2 + z\<^sup>2 \<le> 240\<^sup>2" by auto
  then show "0 < r" "r \<le> 240" unfolding assms(2) by (auto intro: real_le_lsqrt)
qed

lemma step_bounds:
  assumes "- a * pi \<le> x" "x \<le> b * pi" "0 \<le> a" "0 \<le> b"
  shows "- 7200 * a \<le> of_int (trunc (x * (7200 / pi)))" "of_int (trunc (x * (7200 / pi))) \<le> 7200 * b"
proof -
  have "- 7200 * a \<le> x * (7200 / pi)" "x * (7200 / pi) \<le> 7200 * b"
    using assms by (auto simp: field_simps)
  moreover have "- 7200 * a \<le> 0" "0 \<le> 7200 * b" using assms by auto
  ultimately show "- 7200 * a \<le> of_int (trunc (x * (7200 / pi)))" "of_int (trunc (x * (7200 / pi))) \<le> 7200 * b"
    using trunc_between by blast+
qed

lemma arm_at_bounds:
  assumes "arm_at y z s"
  shows "- 7200 \<le> abig_arm_pulse s" "abig_arm_pulse s \<le> 10800"
    "- 10800 \<le> asmall_arm_pulse s" "asmall_arm_pulse s \<le> 14400"
proof -
  from assms obtain lo hi where h: "- pi \<le> lo" "lo \<le> 3 / 2 * pi" "lo \<le> hi" "hi \<le> lo + pi"
    "abig_arm_pulse s = trunc (lo * (7200 / pi))" "asmall_arm_pulse s = trunc (hi * (7200 / pi)) - 3600"
    by (auto simp: arm_at_def)
  have "- 1 * pi \<le> lo" "lo \<le> 3 / 2 * pi" "- 1 * pi \<le> hi" "hi \<le> 5 / 2 * pi" using h by auto
  note b = step_bounds [OF this(1,2)] step_bounds [OF this(3,4)]
  then show "- 7200 \<le> abig_arm_pulse s" "abig_arm_pulse s \<le> 10800"
    "- 10800 \<le> asmall_arm_pulse s" "asmall_arm_pulse s \<le> 14400" unfolding h by linarith+
qed

lemma arm_setup_inv:
  assumes A: "arduino_ok A" and s: "s = fst (arm_setup A (\<lambda>x. x) (\<lambda>x. x) m arm_static)"
  shows "arm_inv s" "abig_arm_pulse s = 0" "asmall_arm_pulse s = 0"
    "startmm (interpolator s) = pl 167 120" "delta (interpolator s) = pl 0 0"
  unfolding s
  by (simp_all add: arm_inv_def arm_setup_def arm_static_def RobotGeometry_new_def Interpolation_new_def step_factor_def
      setInterpolation_from_def Let_def pl_points arduino_okD [OF A] narrow_def END_EFFECTOR_OFFSET_def
      LOW_SHANK_LENGTH_def HIGH_SHANK_LENGTH_def safe_pos_def)

lemma geometry_set_keeps [simp]:
  "ee_offset (geometry_set A fl fd x y z g) = ee_offset g"
  "low_shank_length (geometry_set A fl fd x y z g) = low_shank_length g"
  "high_shank_length (geometry_set A fl fd x y z g) = high_shank_length g"
  by (simp_all add: geometry_set_def calculateGrad_def Let_def)

lemma arm_pulses_ok:
  assumes A: "arduino_ok A" and s: "arm_inv s" and p: "posmm i = pl y z" "safe_pos y z"
    and i: "speed_profile i = 0" "startmm i = pl ys zs" "delta i = pl yd zd"
  shows "\<exists>s'. arm_pulses A (\<lambda>x. x) (\<lambda>x. x) s i = Inr s' \<and> arm_inv s' \<and> arm_at y z s' \<and> interpolator s' = i"
proof -
  let ?g = "geometry_set A (\<lambda>x. x) (\<lambda>x. x) (Fin 0) (Fin y) (Fin z) (geometry s)"
  have g: "ee_offset (geometry s) = Fin 47" "low_shank_length (geometry s) = Fin 120"
    "high_shank_length (geometry s) = Fin 120" and f: "radToStepFactor s = Fin (7200 / pi)"
    using s by (auto simp: arm_inv_def)
  have q: "\<bar>y\<bar> - 47 = sqrt (0\<^sup>2 + y\<^sup>2) - 47" by simp
  define r where "r = sqrt ((\<bar>y\<bar> - 47)\<^sup>2 + z\<^sup>2)"
  note r = safe_pos_radius [OF p(2) r_def]
  have "\<bar>120 - 120\<bar> \<le> r" "r \<le> 120 + 120" using r by auto
  from inverse_kinematics [OF A g _ _ q r_def r(1) this] obtain lo hi where k: "low ?g = Fin lo" "high ?g = Fin hi"
    "120 * sin lo + 120 * sin hi = (if z > 0 then \<bar>\<bar>y\<bar> - 47\<bar> else \<bar>y\<bar> - 47)" "120 * cos lo + 120 * cos hi = z"
    "- pi \<le> lo" "lo \<le> 3 / 2 * pi" "lo \<le> hi" "hi \<le> lo + pi" by auto
  define b h where "b = trunc (lo * (7200 / pi))" and "h = trunc (hi * (7200 / pi))"
  define s' where "s' = s\<lparr>interpolator := i, geometry := ?g, big_arm_TargetPosition := b, small_arm_TargetPosition := h,
                  abig_arm_pulse := b, asmall_arm_pulse := h - 3600\<rparr>"
  have a: "arm_at y z s'" unfolding arm_at_def s'_def b_def h_def
    by (rule exI [of _ lo], rule exI [of _ hi]) (use k(3-8) in auto)
  note bd = arm_at_bounds [OF a]
  have "b \<in> {- 7200..10800}" "h \<in> {- 7200..18000}" using bd by (auto simp: s'_def)
  then have "to_int32 (Fin (lo * (7200 / pi))) = Inr b" "to_int32 (Fin (hi * (7200 / pi))) = Inr h" "sub32 h 3600 = Inr (h - 3600)"
    by (auto simp: to_int32_def b_def h_def sub32_def)
  then have "arm_pulses A (\<lambda>x. x) (\<lambda>x. x) s i = Inr s'"
    by (simp add: arm_pulses_def Let_def p f k(1,2) s'_def)
  moreover have "arm_inv s'" using s p i by (auto simp: arm_inv_def s'_def)
  ultimately show ?thesis using a by (auto simp: s'_def)
qed

definition heading :: "Interpolation \<Rightarrow> Point" where
  "heading i = point_add (\<lambda>x. x) (startmm i) (delta i)"

text \<open>One round: the interpolation goes on to a position within reach, or stays where it was.\<close>

lemma arm_loop_ok:
  assumes A: "arduino_ok A" and s: "arm_inv s" and t: "\<bar>sint m2 - sint m1\<bar> < 2 ^ 31"
  obtains s' y z where "arm_loop A (\<lambda>x. x) (\<lambda>x. x) m1 m2 t s = Inr s'" "arm_inv s'" "arm_at y z s'"
    "posmm (interpolator s') = pl y z" "safe_pos y z"
    "within_reach y z \<and> heading (interpolator s') = target_point t \<or>
     posmm (interpolator s') = posmm (interpolator s) \<and> heading (interpolator s') = posmm (interpolator s)"
proof -
  let ?i = "setInterpolation (\<lambda>x. x) m1 (target_point t) (Fin 5) (interpolator s)"
  from s obtain ys zs yd zd yp zp where i: "startmm (interpolator s) = pl ys zs" "delta (interpolator s) = pl yd zd"
    "posmm (interpolator s) = pl yp zp" "safe_pos yp zp" "speed_profile (interpolator s) = 0"
    by (auto simp: arm_inv_def)
  note e = setInterpolation_exact [OF i(1,2), of m1 "ymm t" "zmm t"]
  let ?y = "ymm t - (ys + yd)" and ?z = "zmm t - (zs + zd)"
  have f: "istate ?i = 0" "speed_profile ?i = 0" "startmm ?i = pl (ys + yd) (zs + zd)" "delta ?i = pl ?y ?z"
      "startTime ?i = sint m1" "posmm ?i = pl yp zp"
    unfolding pl_points e using i by simp_all
  have "\<bar>sint m2 - startTime ?i\<bar> < 2 ^ 31" using t f(5) by simp
  from update_cases [OF A f(1-4) this] show thesis
  proof (elim disjE exE conjE)
    assume u: "updateActualPosition A (\<lambda>x. x) (\<lambda>x. x) m2 ?i = Inr (halted ?i)"
    obtain s' where s': "arm_pulses A (\<lambda>x. x) (\<lambda>x. x) s (halted ?i) = Inr s'" "arm_inv s'" "arm_at yp zp s'"
        "interpolator s' = halted ?i"
      using arm_pulses_ok [OF A s, of "halted ?i" yp zp yp zp 0 0] f i(4) by (auto simp: halted_def pl_points)
    then show thesis
      using that [of s' yp zp] u f i by (simp add: arm_loop_def halted_def heading_def pl_points)
  next
    fix y z n
    assume u: "updateActualPosition A (\<lambda>x. x) (\<lambda>x. x) m2 ?i = Inr (moved_to y z ?i n)" and w: "within_reach y z"
    obtain s' where s': "arm_pulses A (\<lambda>x. x) (\<lambda>x. x) s (moved_to y z ?i n) = Inr s'" "arm_inv s'" "arm_at y z s'"
        "interpolator s' = moved_to y z ?i n"
      using arm_pulses_ok [OF A s, of "moved_to y z ?i n" y z "ys + yd" "zs + zd" ?y ?z] f w
      by (auto simp: moved_to_def safe_pos_def)
    then show thesis
      using that [of s' y z] u f w by (simp add: arm_loop_def moved_to_def heading_def pl_points safe_pos_def)
  qed
qed

lemma arm_loop_arrives:
  assumes A: "arduino_ok A" and s: "arm_inv s" and h: "heading (interpolator s) = target_point t"
    and t: "0 < sint m2 - sint m1" "sint m2 - sint m1 < 2 ^ 31" and w: "within_reach (ymm t) (zmm t)"
  shows "\<exists>s'. arm_loop A (\<lambda>x. x) (\<lambda>x. x) m1 m2 t s = Inr s' \<and> arm_inv s' \<and> arm_at (ymm t) (zmm t) s' \<and>
    posmm (interpolator s') = target_point t"
proof -
  let ?i = "setInterpolation (\<lambda>x. x) m1 (target_point t) (Fin 5) (interpolator s)"
  from s obtain ys zs yd zd where i: "startmm (interpolator s) = pl ys zs" "delta (interpolator s) = pl yd zd"
    "speed_profile (interpolator s) = 0" by (auto simp: arm_inv_def)
  have y: "ys + yd = ymm t" "zs + zd = zmm t" using h by (simp_all add: heading_def i pl_points)
  note e = setInterpolation_exact [OF i(1,2), of m1 "ymm t" "zmm t", unfolded y]
  have f: "istate ?i = 0" "speed_profile ?i = 0" "startmm ?i = pl (ymm t) (zmm t)" "delta ?i = pl 0 0" "tmul ?i = Infty True"
      "startTime ?i = sint m1"
    unfolding pl_points e using i by simp_all
  have "updateActualPosition A (\<lambda>x. x) (\<lambda>x. x) m2 ?i = Inr (moved_to (ymm t) (zmm t) ?i 1)"
    by (rule update_arrives [OF A f(1-5)]) (use t w f(6) in auto)
  moreover from arm_pulses_ok [OF A s, of "moved_to (ymm t) (zmm t) ?i 1" "ymm t" "zmm t" "ymm t" "zmm t" 0 0]
  obtain s' where "arm_pulses A (\<lambda>x. x) (\<lambda>x. x) s (moved_to (ymm t) (zmm t) ?i 1) = Inr s'" "arm_inv s'"
      "arm_at (ymm t) (zmm t) s'" "interpolator s' = moved_to (ymm t) (zmm t) ?i 1"
    using f w by (auto simp: moved_to_def safe_pos_def)
  ultimately show ?thesis by (auto simp: arm_loop_def moved_to_def pl_points)
qed

lemma arm_loops_ok:
  assumes A: "arduino_ok A" and s: "arm_inv s" and rs: "\<forall>(m1, m2, t) \<in> set rs. \<bar>sint m2 - sint m1\<bar> < 2 ^ 31"
  shows "\<exists>s'. arm_loops A (\<lambda>x. x) (\<lambda>x. x) rs s = Inr s' \<and> arm_inv s' \<and>
    (if rs = [] then s' = s else \<exists>y z. arm_at y z s' \<and> posmm (interpolator s') = pl y z)"
  using s rs
proof (induction rs arbitrary: s)
  case (Cons a rs)
  obtain m1 m2 t where a: "a = (m1, m2, t)" by (cases a) auto
  from Cons.prems a have "\<bar>sint m2 - sint m1\<bar> < 2 ^ 31" by auto
  from arm_loop_ok [OF A Cons.prems(1) this, of t] obtain s1 y z
    where s1: "arm_loop A (\<lambda>x. x) (\<lambda>x. x) m1 m2 t s = Inr s1" "arm_inv s1" "arm_at y z s1"
    "posmm (interpolator s1) = pl y z" by metis
  from Cons.IH [OF s1(2)] Cons.prems(2) s1 show ?case by (auto simp: a split: if_splits)
qed simp

subsection \<open>The commands and the drives\<close>

text \<open>
  The drives' side: the signed pulses in a position command, where \<open>pos\<close> is the direction byte
  that counts upwards, and where the end effector is when both drives have followed the first two
  commands of a round. At the zero of the drives the lower shank is upright and the upper one level.
\<close>

definition drive_pulses :: "u8 \<Rightarrow> emm_frame \<Rightarrow> int" where
  "drive_pulses pos f =
     (case emm_decode (snd f) of
        Some (Pos a d v acc clk raF snF) \<Rightarrow> if d = pos then uint clk else - uint clk
      | _ \<Rightarrow> 0)"

definition end_effector :: "emm_frame list \<Rightarrow> real \<times> real" where
  "end_effector fs =
     (let lo = of_int (drive_pulses 0 (fs ! 0)) * (pi / 7200);
          hi = of_int (drive_pulses 1 (fs ! 1) + 3600) * (pi / 7200)
      in (120 * sin lo + 120 * sin hi + 47, 120 * cos lo + 120 * cos hi))"

lemma arm_round_reads:
  assumes "\<bar>b\<bar> < 2 ^ 31" "\<bar>s\<bar> < 2 ^ 31"
  shows "\<exists>fs. arm_round b s = Inr fs \<and> drive_pulses 0 (fs ! 0) = b \<and> drive_pulses 1 (fs ! 1) = s"
proof -
  have "pulse_dir 0 1 b = Inr (if b > 0 then 0 else 1, word_of_int \<bar>b\<bar>)"
    "pulse_dir 1 0 s = Inr (if s > 0 then 1 else 0, word_of_int \<bar>s\<bar>)"
    using assms by (auto simp: pulse_dir_def)
  then show ?thesis
    using pulse_value [OF assms(1)] pulse_value [OF assms(2)]
    by (auto simp: arm_round_def drive_pulses_def pos_control_decode split: if_splits)
qed

lemma sin_half_bound:
  fixes c d :: real
  assumes "\<bar>c\<bar> \<le> 1"
  shows "\<bar>2 * (sin (d / 2) * c)\<bar> \<le> \<bar>d\<bar>"
proof -
  have "\<bar>sin (d / 2)\<bar> * \<bar>c\<bar> \<le> \<bar>d / 2\<bar> * 1"
    by (intro mult_mono abs_sin_x_le_abs_x assms) auto
  then show ?thesis by (simp add: abs_mult)
qed

lemma sin_cos_lipschitz: "\<bar>sin a - sin b\<bar> \<le> \<bar>a - b\<bar>" "\<bar>cos a - cos b\<bar> \<le> \<bar>a - b\<bar>" for a b :: real
proof -
  have "sin a - sin b = 2 * (sin ((a - b) / 2) * cos ((a + b) / 2))" by (simp add: sin_diff_sin)
  then show "\<bar>sin a - sin b\<bar> \<le> \<bar>a - b\<bar>" using sin_half_bound [of "cos ((a + b) / 2)" "a - b"] by simp
  have "cos a - cos b = 2 * (sin ((b - a) / 2) * sin ((a + b) / 2))" by (simp add: cos_diff_cos)
  then show "\<bar>cos a - cos b\<bar> \<le> \<bar>a - b\<bar>" using sin_half_bound [of "sin ((a + b) / 2)" "b - a"] by simp
qed

lemma steps_close: "\<bar>of_int (trunc (x * (7200 / pi))) * (pi / 7200) - x\<bar> < pi / 7200"
proof -
  have "\<bar>of_int (trunc (x * (7200 / pi))) - x * (7200 / pi)\<bar> * (pi / 7200) < 1 * (pi / 7200)"
    by (intro mult_strict_right_mono trunc_bounds) auto
  also have "\<bar>of_int (trunc (x * (7200 / pi))) - x * (7200 / pi)\<bar> * (pi / 7200) =
      \<bar>(of_int (trunc (x * (7200 / pi))) - x * (7200 / pi)) * (pi / 7200)\<bar>" by (simp add: abs_mult)
  also have "(of_int (trunc (x * (7200 / pi))) - x * (7200 / pi)) * (pi / 7200) =
      of_int (trunc (x * (7200 / pi))) * (pi / 7200) - x" by (simp add: field_simps)
  finally show ?thesis by simp
qed

lemma arm_at_commands:
  assumes "arm_at y z s" "0 < y" "47 \<le> y \<or> z \<le> 0"
  shows "\<exists>fs r h. arm_round (abig_arm_pulse s) (asmall_arm_pulse s) = Inr fs \<and> end_effector fs = (r, h) \<and>
    \<bar>r - y\<bar> < pi / 30 \<and> \<bar>h - z\<bar> < pi / 30"
proof -
  from assms(1) obtain lo hi where k: "120 * sin lo + 120 * sin hi = (if z > 0 then \<bar>\<bar>y\<bar> - 47\<bar> else \<bar>y\<bar> - 47)"
    "120 * cos lo + 120 * cos hi = z" "abig_arm_pulse s = trunc (lo * (7200 / pi))"
    "asmall_arm_pulse s = trunc (hi * (7200 / pi)) - 3600"
    by (auto simp: arm_at_def)
  have y: "y = 120 * sin lo + 120 * sin hi + 47" using k(1) assms(2,3) by (auto split: if_splits)
  have "\<bar>abig_arm_pulse s\<bar> < 2 ^ 31" "\<bar>asmall_arm_pulse s\<bar> < 2 ^ 31" using arm_at_bounds [OF assms(1)] by auto
  from arm_round_reads [OF this] obtain fs where fs: "arm_round (abig_arm_pulse s) (asmall_arm_pulse s) = Inr fs"
    "drive_pulses 0 (fs ! 0) = abig_arm_pulse s" "drive_pulses 1 (fs ! 1) = asmall_arm_pulse s" by blast
  define a b where "a = of_int (trunc (lo * (7200 / pi))) * (pi / 7200)" and "b = of_int (trunc (hi * (7200 / pi))) * (pi / 7200)"
  have e: "end_effector fs = (120 * sin a + 120 * sin b + 47, 120 * cos a + 120 * cos b)"
    by (simp add: end_effector_def Let_def fs k(3,4) a_def b_def del: One_nat_def)
  have "\<bar>a - lo\<bar> < pi / 7200" "\<bar>b - hi\<bar> < pi / 7200" unfolding a_def b_def by (rule steps_close)+
  then have "\<bar>120 * sin a + 120 * sin b + 47 - y\<bar> < pi / 30" "\<bar>120 * cos a + 120 * cos b - z\<bar> < pi / 30"
    using sin_cos_lipschitz [of a lo] sin_cos_lipschitz [of b hi] unfolding y k(2) [symmetric] by linarith+
  with fs e show ?thesis by blast
qed



text \<open>While the clock moves on, the progress of the flat profile is between 0 and 1.\<close>

lemma flat_progress_unit:
  assumes "0 < d" "tm = (if w = 0 then Infty True else Fin (5 / w))" "0 \<le> w"
  shows "\<exists>c. flat_progress (ieee_mul (\<lambda>x. x) (Fin d) tm) = Fin c \<and> 0 \<le> c \<and> c \<le> 1"
proof (cases "w = 0")
  case True
  then show ?thesis using assms by (auto simp: flat_progress_def ieee_leq_def)
next
  case False
  then have "0 \<le> d * (5 / w)" using assms by simp
  then show ?thesis using False assms(2) by (auto simp: flat_progress_def)
qed

definition on_way :: "Point \<Rightarrow> Point \<Rightarrow> real \<Rightarrow> Point" where
  "on_way p q c = point_add (\<lambda>x. x) p (point_scale (\<lambda>x. x) (Fin c) (point_sub (\<lambda>x. x) q p))"

lemma arm_loop_accepts:
  assumes A: "arduino_ok A" and s: "arm_inv s" and t: "0 < sint m2 - sint m1" "sint m2 - sint m1 < 2 ^ 31"
    and way: "\<And>c. 0 \<le> c \<Longrightarrow> c \<le> 1 \<Longrightarrow> isAllowedPosition A (\<lambda>x. x) (\<lambda>x. x) (on_way (heading (interpolator s)) (target_point t) c)"
  shows "\<exists>s'. arm_loop A (\<lambda>x. x) (\<lambda>x. x) m1 m2 t s = Inr s' \<and> arm_inv s' \<and> heading (interpolator s') = target_point t"
proof -
  let ?i = "setInterpolation (\<lambda>x. x) m1 (target_point t) (Fin 5) (interpolator s)"
  from s obtain ys zs yd zd where i: "startmm (interpolator s) = pl ys zs" "delta (interpolator s) = pl yd zd"
    "speed_profile (interpolator s) = 0" by (auto simp: arm_inv_def)
  let ?y = "ymm t - (ys + yd)" and ?z = "zmm t - (zs + zd)"
  note e = setInterpolation_exact [OF i(1,2), of m1 "ymm t" "zmm t"]
  have f: "istate ?i = 0" "speed_profile ?i = 0" "startmm ?i = pl (ys + yd) (zs + zd)" "delta ?i = pl ?y ?z"
      "startTime ?i = sint m1" "tmul ?i = (if sqrt (?y\<^sup>2 + ?z\<^sup>2) = 0 then Infty True else Fin (5 / sqrt (?y\<^sup>2 + ?z\<^sup>2)))"
    unfolding pl_points e using i by simp_all
  define tt where "tt = ieee_mul (\<lambda>x. x) (Fin (of_int (sint m2 - startTime ?i) / 1000000)) (tmul ?i)"
  have "0 < real_of_int (sint m2 - startTime ?i) / 1000000" using t(1) f(5) by (simp only: zero_less_divide_iff of_int_0_less_iff) simp
  from flat_progress_unit [OF this f(6)] obtain c where c: "flat_progress tt = Fin c" "0 \<le> c" "c \<le> 1"
    by (auto simp: tt_def)
  define p where "p = on_way (heading (interpolator s)) (target_point t) c"
  have y: "p = pl (ys + yd + c * ?y) (zs + zd + c * ?z)" by (simp add: p_def on_way_def heading_def i pl_points)
  then have p: "p = point_add (\<lambda>x. x) (startmm ?i) (point_scale (\<lambda>x. x) (flat_progress tt) (delta ?i))" by (simp add: c f)
  have ok: "isAllowedPosition A (\<lambda>x. x) (\<lambda>x. x) p" unfolding p_def by (rule way [OF c(2,3)])
  define i' where "i' = ?i\<lparr>istate := if ieee_leq (Fin 1) tt then 1 else 0, pos_tracker := p, posmm := p\<rparr>"
  have "\<bar>sint m2 - startTime ?i\<bar> < 2 ^ 31" using t f(5) by simp
  from update_exact [OF f(1,2) this tt_def p, of A]
  have "updateActualPosition A (\<lambda>x. x) (\<lambda>x. x) m2 ?i = Inr i'" by (simp only: ok if_True i'_def)
  moreover have "safe_pos (ys + yd + c * ?y) (zs + zd + c * ?z)"
    using ok isAllowedPosition_exact [OF A] by (simp add: y safe_pos_def)
  with arm_pulses_ok [OF A s, of i' "ys + yd + c * ?y" "zs + zd + c * ?z" "ys + yd" "zs + zd" ?y ?z]
  obtain s' where "arm_pulses A (\<lambda>x. x) (\<lambda>x. x) s i' = Inr s'" "arm_inv s'" "interpolator s' = i'"
    using f by (auto simp: i'_def y)
  moreover have "heading i' = pl (ymm t) (zmm t)" by (simp add: i'_def heading_def f)
  ultimately show ?thesis by (auto simp: arm_loop_def pl_points)
qed



subsection \<open>A clock that stands still\<close>

text \<open>
  If the clock does not advance between its two readings in the first round, the progress is not
  a number, no position is accepted and the interpolation falls back to the position of static
  storage, the origin. From there it never gets away: every way out starts outside the reach.
\<close>

definition stuck_at_origin :: "arm_state \<Rightarrow> bool" where
  "stuck_at_origin s \<longleftrightarrow> arm_inv s \<and> startmm (interpolator s) = origin \<and> delta (interpolator s) = origin \<and>
     posmm (interpolator s) = origin"

lemma near_origin: "\<bar>y\<bar> \<le> 5 \<Longrightarrow> \<bar>z\<bar> \<le> 5 \<Longrightarrow> \<not> within_reach y z"
proof -
  assume a: "\<bar>y\<bar> \<le> 5" "\<bar>z\<bar> \<le> 5"
  have "(\<bar>y\<bar> - 47)\<^sup>2 \<le> 47\<^sup>2" using a by (intro power2_le_iff_abs_le [THEN iffD2]) auto
  moreover have "z\<^sup>2 \<le> 5\<^sup>2" using a by (intro power2_le_iff_abs_le [THEN iffD2]) auto
  ultimately have "(\<bar>y\<bar> - 47)\<^sup>2 + z\<^sup>2 \<le> 2234" by simp
  then show ?thesis by (simp add: within_reach_def)
qed

lemma short_way:
  assumes d: "0 \<le> d" "d \<le> 1" and w: "w = sqrt (y\<^sup>2 + z\<^sup>2)" and tm: "tm = (if w = 0 then Infty True else Fin (5 / w))"
    and p: "p = point_add (\<lambda>x. x) (pl 0 0) (point_scale (\<lambda>x. x) (flat_progress (ieee_mul (\<lambda>x. x) (Fin d) tm)) (pl y z))"
    and A: "arduino_ok A"
  shows "\<not> isAllowedPosition A (\<lambda>x. x) (\<lambda>x. x) p"
proof
  assume a: "isAllowedPosition A (\<lambda>x. x) (\<lambda>x. x) p"
  from isAllowedPosition_progress [OF a [unfolded p]] obtain c
    where c: "flat_progress (ieee_mul (\<lambda>x. x) (Fin d) tm) = Fin c" by (auto simp: is_fin_def)
  have "within_reach (c * y) (c * z)" using a isAllowedPosition_exact [OF A] by (simp add: p c)
  moreover have "\<bar>c * y\<bar> \<le> 5 \<and> \<bar>c * z\<bar> \<le> 5"
  proof (cases "w = 0")
    case False
    have w0: "0 < w" using False w by (simp add: less_le)
    have "\<bar>c\<bar> \<le> d * (5 / w)" using c False tm d w0 by (auto simp: flat_progress_def split: if_splits)
    also have "d * (5 / w) \<le> 5 / w" using d w0 by (simp add: field_simps)
    finally have "\<bar>c\<bar> * w \<le> 5" using w0 by (simp add: field_simps)
    moreover have "\<bar>c\<bar> * \<bar>y\<bar> \<le> \<bar>c\<bar> * w" "\<bar>c\<bar> * \<bar>z\<bar> \<le> \<bar>c\<bar> * w"
      unfolding w by (auto intro!: mult_left_mono real_le_rsqrt)
    ultimately show ?thesis by (simp add: abs_mult)
  qed (simp add: w)
  ultimately show False using near_origin by blast
qed

definition origin_pulses :: int where
  "origin_pulses = trunc ((3 / 2 * pi - arccos (47 / 240)) * (7200 / pi))"

lemma origin_pulses: "7200 \<le> origin_pulses"
proof -
  have "arccos (47 / 240) \<le> pi / 2" using arccos_le_pi2 [of "47 / 240"] by simp
  then have "7200 \<le> (3 / 2 * pi - arccos (47 / 240)) * (7200 / pi)" by (simp add: field_simps)
  then show ?thesis unfolding origin_pulses_def trunc_def by (auto simp: le_floor_iff)
qed

lemma arm_pulses_origin:
  assumes A: "arduino_ok A" and s: "arm_inv s" and p: "posmm i = origin"
    and r: "arm_pulses A (\<lambda>x. x) (\<lambda>x. x) s i = Inr s'"
  shows "abig_arm_pulse s' = origin_pulses"
proof -
  have g: "ee_offset (geometry s) = Fin 47" "low_shank_length (geometry s) = Fin 120"
    "high_shank_length (geometry s) = Fin 120" and f: "radToStepFactor s = Fin (7200 / pi)"
    using s by (auto simp: arm_inv_def)
  have q: "side_radius 47 0 0 = - 47" by (simp add: side_radius_def)
  have "low (geometry_set A (\<lambda>x. x) (\<lambda>x. x) (Fin 0) (Fin 0) (Fin 0) (geometry s)) =
      Fin (wrist_dir (- 47) 0 - arccos ((120\<^sup>2 - 120\<^sup>2 + 47\<^sup>2) / (2 * 120 * 47)))"
    using calculateGrad_exact [where x = 0 and y = 0 and z = 0 and r = 47, OF A g _ _ _ _ _ _ refl refl refl]
    by (simp add: q)
  moreover have "wrist_dir (- 47) 0 = 3 / 2 * pi" by (simp add: wrist_dir_def)
  ultimately have "low (geometry_set A (\<lambda>x. x) (\<lambda>x. x) (Fin 0) (Fin 0) (Fin 0) (geometry s)) =
      Fin (3 / 2 * pi - arccos (47 / 240))" by simp
  then show ?thesis
    using r f by (auto simp: arm_pulses_def Let_def p pl_points origin_pulses_def to_int32_def split: if_splits)
qed

lemma origin_step:
  assumes A: "arduino_ok A" and s: "stuck_at_origin s" and t: "0 \<le> sint m2 - sint m1" "sint m2 - sint m1 \<le> 1000000"
  shows "\<exists>s'. arm_loop A (\<lambda>x. x) (\<lambda>x. x) m1 m2 t s = Inr s' \<and> stuck_at_origin s' \<and> abig_arm_pulse s' = origin_pulses"
proof -
  let ?i = "setInterpolation (\<lambda>x. x) m1 (target_point t) (Fin 5) (interpolator s)"
  have i: "startmm (interpolator s) = pl 0 0" "delta (interpolator s) = pl 0 0" "posmm (interpolator s) = pl 0 0"
    "speed_profile (interpolator s) = 0" "arm_inv s"
    using s by (auto simp: stuck_at_origin_def pl_points arm_inv_def)
  note e = setInterpolation_exact [OF i(1,2), of m1 "ymm t" "zmm t"]
  have f: "istate ?i = 0" "speed_profile ?i = 0" "startmm ?i = pl 0 0" "delta ?i = pl (ymm t) (zmm t)"
      "startTime ?i = sint m1" "posmm ?i = pl 0 0"
      "tmul ?i = (if sqrt ((ymm t)\<^sup>2 + (zmm t)\<^sup>2) = 0 then Infty True else Fin (5 / sqrt ((ymm t)\<^sup>2 + (zmm t)\<^sup>2)))"
    unfolding pl_points e using i by simp_all
  let ?d = "real_of_int (sint m2 - startTime ?i) / 1000000"
  have "0 \<le> real_of_int (sint m2 - sint m1)" "real_of_int (sint m2 - sint m1) \<le> 1000000" using t by linarith+
  then have d: "0 \<le> ?d" "?d \<le> 1" unfolding f(5) by simp_all
  have "\<bar>sint m2 - startTime ?i\<bar> < 2 ^ 31" using t f(5) by simp
  note u = update_exact [OF f(1,2) this refl refl, of A]
  have "updateActualPosition A (\<lambda>x. x) (\<lambda>x. x) m2 ?i = Inr (halted ?i)"
    unfolding u if_not_P [OF short_way [OF d refl f(7) refl A], folded f(3,4)] ..
  moreover from arm_pulses_ok [OF A i(5), of "halted ?i" 0 0 0 0 0 0] obtain s' where
    s': "arm_pulses A (\<lambda>x. x) (\<lambda>x. x) s (halted ?i) = Inr s'" "arm_inv s'" "interpolator s' = halted ?i"
    using f by (auto simp: halted_def pl_points safe_pos_def)
  moreover have "abig_arm_pulse s' = origin_pulses"
    using arm_pulses_origin [OF A i(5) _ s'(1)] f(6) by (simp add: halted_def pl_points)
  ultimately show ?thesis using f by (auto simp: arm_loop_def stuck_at_origin_def halted_def pl_points)
qed

lemma origin_loops:
  assumes A: "arduino_ok A" and s: "stuck_at_origin s" "abig_arm_pulse s = origin_pulses"
    and rs: "\<forall>(m1, m2, t) \<in> set rs. 0 \<le> sint m2 - sint m1 \<and> sint m2 - sint m1 \<le> 1000000"
  shows "\<exists>s'. arm_loops A (\<lambda>x. x) (\<lambda>x. x) rs s = Inr s' \<and> stuck_at_origin s' \<and> abig_arm_pulse s' = origin_pulses"
  using s rs
proof (induction rs arbitrary: s)
  case (Cons a rs)
  obtain m1 m2 t where a: "a = (m1, m2, t)" by (cases a) auto
  from Cons.prems a have "0 \<le> sint m2 - sint m1" "sint m2 - sint m1 \<le> 1000000" by auto
  from origin_step [OF A Cons.prems(1) this, of t] obtain s1
    where "arm_loop A (\<lambda>x. x) (\<lambda>x. x) m1 m2 t s = Inr s1" "stuck_at_origin s1" "abig_arm_pulse s1 = origin_pulses" by blast
  with Cons.IH [of s1] Cons.prems(3) show ?case by (auto simp: a)
qed simp

lemma first_round_stands:
  assumes A: "arduino_ok A" and s: "(s, t) = arm_setup A (\<lambda>x. x) (\<lambda>x. x) m arm_static"
  shows "\<exists>s'. arm_loop A (\<lambda>x. x) (\<lambda>x. x) m1 m1 t s = Inr s' \<and> stuck_at_origin s' \<and> abig_arm_pulse s' = origin_pulses"
proof -
  let ?i = "setInterpolation (\<lambda>x. x) m1 (target_point t) (Fin 5) (interpolator s)"
  have st: "s = fst (arm_setup A (\<lambda>x. x) (\<lambda>x. x) m arm_static)" and t: "ymm t = 167" "zmm t = 120"
    using s by (auto simp: arm_setup_def)
  note v = arm_setup_inv [OF A st]
  have p: "posmm (interpolator s) = pl 0 0" "speed_profile (interpolator s) = 0"
    by (simp_all add: st arm_setup_def arm_static_def Interpolation_new_def setInterpolation_from_def Let_def pl_points)
  note e = setInterpolation_exact [OF v(4,5), of m1 167 120]
  have f: "istate ?i = 0" "speed_profile ?i = 0" "startmm ?i = pl 167 120" "delta ?i = pl 0 0"
      "startTime ?i = sint m1" "posmm ?i = pl 0 0" "tmul ?i = Infty True"
    unfolding pl_points t e using p by simp_all
  have "\<bar>sint m1 - startTime ?i\<bar> < 2 ^ 31" using f(5) by simp
  note u = update_exact [OF f(1,2) this refl refl, of A]
  have "\<not> is_fin (flat_progress (ieee_mul (\<lambda>x. x) (Fin (of_int (sint m1 - startTime ?i) / 1000000)) (tmul ?i)))"
    by (simp add: f flat_progress_def is_fin_def ieee_leq_def)
  then have "updateActualPosition A (\<lambda>x. x) (\<lambda>x. x) m1 ?i = Inr (halted ?i)"
    using isAllowedPosition_progress [of A "\<lambda>x. x" "\<lambda>x. x" 167 120 _ 0 0] unfolding u f(3,4) by auto
  moreover from arm_pulses_ok [OF A v(1), of "halted ?i" 0 0 0 0 0 0] obtain s' where
    s': "arm_pulses A (\<lambda>x. x) (\<lambda>x. x) s (halted ?i) = Inr s'" "arm_inv s'" "interpolator s' = halted ?i"
    using f by (auto simp: halted_def pl_points safe_pos_def)
  moreover have "abig_arm_pulse s' = origin_pulses"
    using arm_pulses_origin [OF A v(1) _ s'(1)] f(6) by (simp add: halted_def pl_points)
  ultimately show ?thesis using f by (auto simp: arm_loop_def stuck_at_origin_def halted_def pl_points)
qed

text \<open>
  C27: a clock that stands still stops the arm in a wrong place. If the two readings of the clock in
  the first round are equal, then in this round and in all later ones, with any targets, as
  long as less than a second passes between two readings, the position is the origin, where the end
  effector cannot be, and the lower shank is commanded to at least 7200 pulses, half a turn away from
  upright.
\<close>

theorem arm_clock_stands:
  assumes "arduino_ok A" and "(s, t) = arm_setup A (\<lambda>x. x) (\<lambda>x. x) m arm_static"
    and "\<forall>(m1, m2, t) \<in> set rs. 0 \<le> sint m2 - sint m1 \<and> sint m2 - sint m1 \<le> 1000000"
  shows "\<exists>s'. arm_loops A (\<lambda>x. x) (\<lambda>x. x) ((n, n, t) # rs) s = Inr s' \<and>
    posmm (interpolator s') = origin \<and> 7200 \<le> abig_arm_pulse s'"
proof -
  from first_round_stands [OF assms(1,2), of n] obtain s1 where
    "arm_loop A (\<lambda>x. x) (\<lambda>x. x) n n t s = Inr s1" "stuck_at_origin s1" "abig_arm_pulse s1 = origin_pulses" by blast
  with origin_loops [OF assms(1) this(2,3) assms(3)] show ?thesis
    using origin_pulses by (auto simp: stuck_at_origin_def)
qed

theorem arm_clock_stands_witness:
  "\<exists>s'. arm_loops real_arduino (\<lambda>x. x) (\<lambda>x. x)
      [(7, 7, snd (arm_setup real_arduino (\<lambda>x. x) (\<lambda>x. x) 5 arm_static)), (600, 610, \<lparr>ymm = 187, zmm = 120\<rparr>)]
      (fst (arm_setup real_arduino (\<lambda>x. x) (\<lambda>x. x) 5 arm_static)) = Inr s' \<and> 7200 \<le> abig_arm_pulse s'"
  using arm_clock_stands [where m = 5 and n = 7 and rs = "[(600, 610, \<lparr>ymm = 187, zmm = 120\<rparr>)]",
      OF real_arduino_ok prod.collapse] by auto

end
