(* ===== verification/Ipc.thy ===== *)
theory Ipc
  imports Prelude
begin

section \<open>Semaphores and mutexes of RT-Thread (ipc.c, scheduler_comm.c, thread.c)\<close>

text \<open>
  The kernel objects that the threads of the arm and of the gripper use. A thread is a number;
  of its control block the model has the priorities, whether it is suspended, its error number,
  its timer, the mutex it waits for and the mutexes it has taken. The doubly linked lists of
  suspended threads and of taken mutexes are sequences; a thread's node is in one list at most, so
  \<open>rt_list_remove\<close> removes it from whichever list it is in. The functions run with interrupts
  off (semaphores) or the scheduler locked (mutexes, which interrupts may not use), so each is one step; a function that calls \<open>rt_schedule\<close> after suspending its caller is
  split there: the first part ends with \<open>Blocks\<close>, the second one runs when the thread has
  been resumed. Which of the threads that are not suspended runs is not modelled. Error numbers
  are names, because their values depend on the C library; \<open>PosErr\<close> and \<open>NegErr\<close> are their signs.
  A failed assertion about the state is \<open>BusyLoop\<close>, since the handler of assertions spins; those about the
  kind of the arguments are left out. Statistics, hooks and other cores are not configured.
\<close>

subsection \<open>Data\<close>

datatype ecode = E_ERROR | E_TIMEOUT | E_FULL | E_INVAL | E_INTR
datatype rt_err = RT_EOK | PosErr ecode | NegErr ecode
datatype ipc_flag = RT_IPC_FLAG_FIFO | RT_IPC_FLAG_PRIO

text \<open>A timer is inactive, in the timer list, or taken off it with its callback not yet called.\<close>

datatype timer_state = Inactive | Active | Expiring

record rt_thread =
  init_priority :: u8
  current_priority :: u8
  suspended :: bool
  terror :: rt_err
  sched_flag_ttmr_set :: bool
  thread_timer :: timer_state
  pending_object :: "nat option"
  taken_object_list :: "nat list"

record rt_semaphore =
  sem_value :: u16
  max_value :: u16
  sem_flag :: ipc_flag
  sem_susp :: "nat list"

record rt_mutex =
  ceiling_priority :: u8
  mtx_priority :: u8
  hold :: u8
  mtx_owner :: "nat option"
  mtx_flag :: ipc_flag
  mtx_susp :: "nat list"

record kernel =
  thr :: "nat \<Rightarrow> rt_thread"
  sem :: "nat \<Rightarrow> rt_semaphore"
  mtx :: "nat \<Rightarrow> rt_mutex"

definition RT_SEM_VALUE_MAX :: u16 where "RT_SEM_VALUE_MAX = 0xffff"
definition RT_MUTEX_HOLD_MAX :: u8 where "RT_MUTEX_HOLD_MAX = 0xff"
definition RT_THREAD_PRIORITY_MAX :: u8 where "RT_THREAD_PRIORITY_MAX = 32"

definition upd_thr :: "nat \<Rightarrow> (rt_thread \<Rightarrow> rt_thread) \<Rightarrow> kernel \<Rightarrow> kernel" where
  "upd_thr t f k = k\<lparr>thr := (thr k)(t := f (thr k t))\<rparr>"

definition upd_sem :: "nat \<Rightarrow> (rt_semaphore \<Rightarrow> rt_semaphore) \<Rightarrow> kernel \<Rightarrow> kernel" where
  "upd_sem s f k = k\<lparr>sem := (sem k)(s := f (sem k s))\<rparr>"

definition upd_mtx :: "nat \<Rightarrow> (rt_mutex \<Rightarrow> rt_mutex) \<Rightarrow> kernel \<Rightarrow> kernel" where
  "upd_mtx m f k = k\<lparr>mtx := (mtx k)(m := f (mtx k m))\<rparr>"

definition curr_prio :: "kernel \<Rightarrow> nat \<Rightarrow> u8" where
  "curr_prio k t = current_priority (thr k t)"

text \<open>The lists of suspended threads.\<close>

datatype susp_list = SemList nat | MtxList nat

definition get_list :: "susp_list \<Rightarrow> kernel \<Rightarrow> nat list" where
  "get_list l k = (case l of SemList s \<Rightarrow> sem_susp (sem k s) | MtxList m \<Rightarrow> mtx_susp (mtx k m))"

definition put_list :: "susp_list \<Rightarrow> nat list \<Rightarrow> kernel \<Rightarrow> kernel" where
  "put_list l ts k =
     (case l of SemList s \<Rightarrow> upd_sem s (\<lambda>x. x\<lparr>sem_susp := ts\<rparr>) k | MtxList m \<Rightarrow> upd_mtx m (\<lambda>x. x\<lparr>mtx_susp := ts\<rparr>) k)"

definition rt_list_remove :: "nat \<Rightarrow> kernel \<Rightarrow> kernel" where
  "rt_list_remove t k = k\<lparr>sem := (\<lambda>s. (sem k s)\<lparr>sem_susp := removeAll t (sem_susp (sem k s))\<rparr>),
     mtx := (\<lambda>m. (mtx k m)\<lparr>mtx_susp := removeAll t (mtx_susp (mtx k m))\<rparr>)\<rparr>"

subsection \<open>The scheduler and the lists\<close>

definition rt_timer_stop :: "nat \<Rightarrow> kernel \<Rightarrow> rt_err \<times> kernel" where
  "rt_timer_stop t k =
     (if thread_timer (thr k t) \<noteq> Active then (NegErr E_ERROR, k)
      else (RT_EOK, upd_thr t (\<lambda>x. x\<lparr>thread_timer := Inactive\<rparr>) k))"

definition rt_sched_thread_timer_stop :: "nat \<Rightarrow> kernel \<Rightarrow> rt_err \<times> kernel" where
  "rt_sched_thread_timer_stop t k =
     (if sched_flag_ttmr_set (thr k t)
      then (let (e, k1) = rt_timer_stop t k in (e, upd_thr t (\<lambda>x. x\<lparr>sched_flag_ttmr_set := False\<rparr>) k1))
      else (RT_EOK, k))"

text \<open>Starting the thread's timer, with its flag.\<close>

definition rt_timer_start :: "nat \<Rightarrow> kernel \<Rightarrow> kernel" where
  "rt_timer_start t k = upd_thr t (\<lambda>x. x\<lparr>thread_timer := Active, sched_flag_ttmr_set := True\<rparr>) k"

definition rt_sched_insert_thread :: "nat \<Rightarrow> kernel \<Rightarrow> kernel" where
  "rt_sched_insert_thread t k = upd_thr t (\<lambda>x. x\<lparr>suspended := False\<rparr>) k"

definition rt_sched_thread_ready :: "nat \<Rightarrow> kernel \<Rightarrow> rt_err \<times> kernel" where
  "rt_sched_thread_ready t k =
     (if \<not> suspended (thr k t) then (NegErr E_INVAL, k)
      else (let (e, k1) = (if sched_flag_ttmr_set (thr k t) then rt_sched_thread_timer_stop t k else (RT_EOK, k))
            in if e = RT_EOK then (RT_EOK, rt_sched_insert_thread t (rt_list_remove t k1)) else (e, k1)))"

definition rt_sched_thread_change_priority :: "nat \<Rightarrow> u8 \<Rightarrow> kernel \<Rightarrow> kernel res" where
  "rt_sched_thread_change_priority t p k =
     (if p < RT_THREAD_PRIORITY_MAX then Inr (upd_thr t (\<lambda>x. x\<lparr>current_priority := p\<rparr>) k) else Inl BusyLoop)"

definition rt_susp_list_dequeue :: "susp_list \<Rightarrow> rt_err \<Rightarrow> kernel \<Rightarrow> nat option \<times> kernel" where
  "rt_susp_list_dequeue l err k =
     (case get_list l k of
        [] \<Rightarrow> (None, k)
      | t # ts \<Rightarrow>
          (let (e, k1) = rt_sched_thread_ready t k in
           if e \<noteq> RT_EOK then (None, k1)
           else (Some t, case err of NegErr c \<Rightarrow> k1 | _ \<Rightarrow> upd_thr t (\<lambda>x. x\<lparr>terror := err\<rparr>) k1)))"

text \<open>A queue by priority: behind the threads of the same priority, before the less urgent ones.\<close>

fun prio_insert :: "(nat \<Rightarrow> u8) \<Rightarrow> nat \<Rightarrow> nat list \<Rightarrow> nat list" where
  "prio_insert p t [] = [t]"
| "prio_insert p t (u # us) = (if p t < p u then t # u # us else u # prio_insert p t us)"

definition rt_susp_list_enqueue :: "susp_list \<Rightarrow> nat \<Rightarrow> ipc_flag \<Rightarrow> kernel \<Rightarrow> kernel" where
  "rt_susp_list_enqueue l t flag k =
     (case flag of
        RT_IPC_FLAG_FIFO \<Rightarrow> put_list l (get_list l k @ [t]) k
      | RT_IPC_FLAG_PRIO \<Rightarrow> put_list l (prio_insert (curr_prio k) t (get_list l k)) k)"

definition rt_thread_suspend_to_list :: "nat \<Rightarrow> susp_list \<Rightarrow> ipc_flag \<Rightarrow> kernel \<Rightarrow> rt_err \<times> kernel" where
  "rt_thread_suspend_to_list t l flag k =
     (if suspended (thr k t) then (NegErr E_ERROR, k)
      else (RT_EOK, snd (rt_sched_thread_timer_stop t
             (rt_susp_list_enqueue l t flag (upd_thr t (\<lambda>x. x\<lparr>suspended := True\<rparr>) k)))))"

text \<open>
  Resuming all suspended threads. The loop ends when no thread could be resumed; each round takes
  one off the list, so the length of the list is enough fuel.
\<close>

fun resume_loop :: "nat \<Rightarrow> susp_list \<Rightarrow> rt_err \<Rightarrow> kernel \<Rightarrow> kernel" where
  "resume_loop 0 l err k = k"
| "resume_loop (Suc n) l err k =
     (let (u, k1) = rt_susp_list_dequeue l err k in if u = None then k1 else resume_loop n l err k1)"

definition rt_susp_list_resume_all :: "susp_list \<Rightarrow> rt_err \<Rightarrow> kernel \<Rightarrow> kernel" where
  "rt_susp_list_resume_all l err k = resume_loop (length (get_list l k)) l err k"

text \<open>The timer interrupt takes the timer off its list and then calls \<open>_thread_timeout\<close>.\<close>

definition timer_expires :: "nat \<Rightarrow> kernel \<Rightarrow> kernel" where
  "timer_expires t k = upd_thr t (\<lambda>x. x\<lparr>thread_timer := Expiring\<rparr>) k"

definition thread_timeout :: "nat \<Rightarrow> kernel \<Rightarrow> kernel res" where
  "thread_timeout t k =
     (if \<not> suspended (thr k t) then Inl BusyLoop
      else Inr (rt_sched_insert_thread t (rt_list_remove t
             (upd_thr t (\<lambda>x. x\<lparr>terror := NegErr E_TIMEOUT, thread_timer := Inactive\<rparr>) k))))"

subsection \<open>Semaphores\<close>

datatype outcome = Returns rt_err | Blocks

definition rt_sem_init :: "nat \<Rightarrow> u16 \<Rightarrow> ipc_flag \<Rightarrow> kernel \<Rightarrow> kernel" where
  "rt_sem_init s v flag k =
     upd_sem s (\<lambda>x. \<lparr>sem_value = v, max_value = RT_SEM_VALUE_MAX, sem_flag = flag, sem_susp = []\<rparr>) k"

definition u_rt_sem_take :: "nat \<Rightarrow> int \<Rightarrow> nat \<Rightarrow> kernel \<Rightarrow> outcome \<times> kernel" where
  "u_rt_sem_take s timeout t k =
     (if sem_value (sem k s) > 0 then (Returns RT_EOK, upd_sem s (\<lambda>x. x\<lparr>sem_value := sem_value x - 1\<rparr>) k)
      else if timeout = 0 then (Returns (NegErr E_TIMEOUT), k)
      else (let k1 = upd_thr t (\<lambda>x. x\<lparr>terror := NegErr E_INTR\<rparr>) k;
                (e, k2) = rt_thread_suspend_to_list t (SemList s) (sem_flag (sem k1 s)) k1
            in if e \<noteq> RT_EOK then (Returns e, k2)
               else (Blocks, if timeout > 0 then rt_timer_start t k2 else k2)))"

definition negative :: "rt_err \<Rightarrow> rt_err" where
  "negative e = (case e of PosErr c \<Rightarrow> NegErr c | _ \<Rightarrow> e)"

text \<open>What a take returns after the thread has been resumed.\<close>

definition sem_resumed :: "nat \<Rightarrow> kernel \<Rightarrow> rt_err" where
  "sem_resumed t k = (if terror (thr k t) \<noteq> RT_EOK then negative (terror (thr k t)) else RT_EOK)"

definition rt_sem_release :: "nat \<Rightarrow> kernel \<Rightarrow> rt_err \<times> kernel" where
  "rt_sem_release s k =
     (if sem_susp (sem k s) \<noteq> [] then (RT_EOK, snd (rt_susp_list_dequeue (SemList s) RT_EOK k))
      else if sem_value (sem k s) < max_value (sem k s)
      then (RT_EOK, upd_sem s (\<lambda>x. x\<lparr>sem_value := sem_value x + 1\<rparr>) k)
      else (NegErr E_FULL, k))"

datatype sem_cmd = RT_IPC_CMD_RESET | RT_IPC_CMD_SET_VLIMIT | Other_cmd

definition rt_sem_control :: "nat \<Rightarrow> sem_cmd \<Rightarrow> u32 \<Rightarrow> kernel \<Rightarrow> rt_err \<times> kernel" where
  "rt_sem_control s cmd arg k =
     (case cmd of
        RT_IPC_CMD_RESET \<Rightarrow>
          (RT_EOK, upd_sem s (\<lambda>x. x\<lparr>sem_value := ucast arg\<rparr>) (rt_susp_list_resume_all (SemList s) (PosErr E_ERROR) k))
      | RT_IPC_CMD_SET_VLIMIT \<Rightarrow>
          (let limit = (ucast arg :: u16) in
           if limit > RT_SEM_VALUE_MAX \<or> limit < 1 then (NegErr E_INVAL, k)
           else (RT_EOK, upd_sem s (\<lambda>x. x\<lparr>max_value := limit\<rparr>)
             (if limit < sem_value (sem k s) \<and> sem_susp (sem k s) \<noteq> []
              then rt_susp_list_resume_all (SemList s) (PosErr E_ERROR) k else k)))
      | Other_cmd \<Rightarrow> (NegErr E_ERROR, k))"

definition rt_sem_detach :: "nat \<Rightarrow> kernel \<Rightarrow> rt_err \<times> kernel" where
  "rt_sem_detach s k = (RT_EOK, rt_susp_list_resume_all (SemList s) (PosErr E_ERROR) k)"

subsection \<open>Mutexes\<close>

definition rt_mutex_init :: "nat \<Rightarrow> kernel \<Rightarrow> kernel" where
  "rt_mutex_init m k =
     upd_mtx m (\<lambda>x. \<lparr>ceiling_priority = 0xff, mtx_priority = 0xff, hold = 0, mtx_owner = None,
       mtx_flag = RT_IPC_FLAG_PRIO, mtx_susp = []\<rparr>) k"

fun first_of :: "(nat \<Rightarrow> u8) \<Rightarrow> nat list \<Rightarrow> u8" where
  "first_of p [] = 0xff"
| "first_of p (t # ts) = p t"

definition first_prio :: "nat \<Rightarrow> kernel \<Rightarrow> u8" where
  "first_prio m k = first_of (curr_prio k) (mtx_susp (mtx k m))"

definition u_mutex_update_priority :: "nat \<Rightarrow> kernel \<Rightarrow> kernel" where
  "u_mutex_update_priority m k = upd_mtx m (\<lambda>x. x\<lparr>mtx_priority := first_prio m k\<rparr>) k"

definition u_thread_get_mutex_priority :: "nat \<Rightarrow> kernel \<Rightarrow> u8" where
  "u_thread_get_mutex_priority t k =
     fold (\<lambda>m p. min p (min (mtx_priority (mtx k m)) (ceiling_priority (mtx k m))))
       (taken_object_list (thr k t)) (init_priority (thr k t))"

text \<open>
  The loop that hands a new priority on to the owner of the mutex the thread waits for, and so
  on. \<open>None\<close> would mean that it never ends. The owner of a mutex somebody waits for is not null.
\<close>

partial_function (option) prio_chain :: "nat \<Rightarrow> kernel \<Rightarrow> kernel res option" where
  [code]: "prio_chain t k =
     (if \<not> suspended (thr k t) then Some (Inr k)
      else case pending_object (thr k t) of
        None \<Rightarrow> Some (Inr k)
      | Some m \<Rightarrow>
          (let k1 = u_mutex_update_priority m
                 (rt_susp_list_enqueue (MtxList m) t (mtx_flag (mtx k m)) (rt_list_remove t k))
           in case mtx_owner (mtx k1 m) of
             None \<Rightarrow> Some (Inl NullDeref)
           | Some u \<Rightarrow>
               if u_thread_get_mutex_priority u k1 = curr_prio k1 u then Some (Inr k1)
               else case rt_sched_thread_change_priority u (u_thread_get_mutex_priority u k1) k1 of
                 Inl e \<Rightarrow> Some (Inl e)
               | Inr k2 \<Rightarrow> prio_chain u k2))"

definition u_thread_update_priority :: "nat \<Rightarrow> u8 \<Rightarrow> kernel \<Rightarrow> kernel res option" where
  "u_thread_update_priority t p k =
     (case rt_sched_thread_change_priority t p k of Inl e \<Rightarrow> Some (Inl e) | Inr k1 \<Rightarrow> prio_chain t k1)"

definition u_check_and_update_prio :: "nat \<Rightarrow> nat \<Rightarrow> kernel \<Rightarrow> kernel res" where
  "u_check_and_update_prio t m k =
     (if ceiling_priority (mtx k m) \<noteq> 0xff \<or> curr_prio k t = mtx_priority (mtx k m)
      then rt_sched_thread_change_priority t (u_thread_get_mutex_priority t k) k else Inr k)"

type_synonym 'a call = "('a \<times> kernel) res option"

definition and_then :: "kernel res option \<Rightarrow> (kernel \<Rightarrow> 'a call) \<Rightarrow> 'a call" where
  "and_then x f = (case x of None \<Rightarrow> None | Some (Inl e) \<Rightarrow> Some (Inl e) | Some (Inr k) \<Rightarrow> f k)"

text \<open>The mutex is free: it gets its owner.\<close>

definition mutex_own :: "nat \<Rightarrow> nat \<Rightarrow> kernel \<Rightarrow> outcome call" where
  "mutex_own m t k =
     (let k1 = upd_mtx m (\<lambda>x. x\<lparr>mtx_owner := Some t, mtx_priority := 0xff, hold := 1\<rparr>) k;
          c = ceiling_priority (mtx k1 m)
      in and_then (if c \<noteq> 0xff \<and> c < curr_prio k1 t then u_thread_update_priority t c k1 else Some (Inr k1))
        (\<lambda>k2. Some (Inr (Returns RT_EOK, upd_thr t (\<lambda>x. x\<lparr>taken_object_list := m # taken_object_list x\<rparr>) k2))))"

text \<open>The mutex has another owner \<open>u\<close>: the thread waits, and the owner may inherit its priority.\<close>

definition mutex_wait :: "nat \<Rightarrow> int \<Rightarrow> nat \<Rightarrow> nat \<Rightarrow> kernel \<Rightarrow> outcome call" where
  "mutex_wait m timeout t u k =
     (let (e, k1) = rt_thread_suspend_to_list t (MtxList m) (mtx_flag (mtx k m)) k in
      if e \<noteq> RT_EOK then Some (Inr (Returns e, k1))
      else (let k2 = upd_thr t (\<lambda>x. x\<lparr>pending_object := Some m\<rparr>) k1;
                p = curr_prio k2 t
            in and_then
              (if p < mtx_priority (mtx k2 m)
               then (let k3 = upd_mtx m (\<lambda>x. x\<lparr>mtx_priority := p\<rparr>) k2
                     in if p < curr_prio k3 u then u_thread_update_priority u p k3 else Some (Inr k3))
               else Some (Inr k2))
              (\<lambda>k4. Some (Inr (Blocks, if timeout > 0 then rt_timer_start t k4 else k4)))))"

definition u_rt_mutex_take :: "nat \<Rightarrow> int \<Rightarrow> nat \<Rightarrow> kernel \<Rightarrow> outcome call" where
  "u_rt_mutex_take m timeout t k0 =
     (let k = upd_thr t (\<lambda>x. x\<lparr>terror := RT_EOK\<rparr>) k0 in
      case mtx_owner (mtx k m) of
        None \<Rightarrow> mutex_own m t k
      | Some u \<Rightarrow>
          if u = t then
            (if hold (mtx k m) < RT_MUTEX_HOLD_MAX
             then Some (Inr (Returns RT_EOK, upd_mtx m (\<lambda>x. x\<lparr>hold := hold x + 1\<rparr>) k))
             else Some (Inr (Returns (NegErr E_FULL), k)))
          else if timeout = 0
          then Some (Inr (Returns (NegErr E_TIMEOUT), upd_thr t (\<lambda>x. x\<lparr>terror := PosErr E_TIMEOUT\<rparr>) k))
          else mutex_wait m timeout t u k)"

text \<open>
  The part of the take behind \<open>rt_schedule\<close>: the thread has been given the mutex, or its time is up.
\<close>

definition mutex_resumed :: "nat \<Rightarrow> nat \<Rightarrow> kernel \<Rightarrow> rt_err call" where
  "mutex_resumed m t k =
     (if terror (thr k t) = RT_EOK then
        (if mtx_owner (mtx k m) = Some t then Some (Inr (RT_EOK, k)) else Some (Inl BusyLoop))
      else if mtx_owner (mtx k m) = Some t then Some (Inl BusyLoop)
      else (let k1 = u_mutex_update_priority m k
            in and_then
              (case mtx_owner (mtx k m) of
                 Some u \<Rightarrow>
                   if curr_prio k u = curr_prio k t \<and> u_thread_get_mutex_priority u k1 \<noteq> curr_prio k1 u
                   then u_thread_update_priority u (u_thread_get_mutex_priority u k1) k1 else Some (Inr k1)
               | None \<Rightarrow> Some (Inr k1))
              (\<lambda>k2. Some (Inr (negative (terror (thr k t)), upd_thr t (\<lambda>x. x\<lparr>pending_object := None\<rparr>) k2)))))"

text \<open>
  The next owner: the first suspended thread that can be made ready. One whose time has just
  run out is taken off the list and skipped. \<open>n\<close> is the number of threads in the list.
\<close>

fun next_owner :: "nat \<Rightarrow> nat \<Rightarrow> kernel \<Rightarrow> (nat option \<times> kernel) res" where
  "next_owner 0 m k = Inr (None, k)"
| "next_owner (Suc n) m k =
     (case mtx_susp (mtx k m) of
        [] \<Rightarrow> Inr (None, k)
      | t # ts \<Rightarrow>
          if \<not> suspended (thr k t) then Inl BusyLoop
          else (let (e, k1) = rt_sched_thread_ready t (rt_list_remove t k) in
                if e = RT_EOK then Inr (Some t, k1) else next_owner n m k1))"

definition mutex_hand_over :: "nat \<Rightarrow> kernel \<Rightarrow> kernel res" where
  "mutex_hand_over m k =
     bind_res (next_owner (length (mtx_susp (mtx k m))) m k) (\<lambda>(u, k1).
       Inr (case u of
              None \<Rightarrow> upd_mtx m (\<lambda>x. x\<lparr>mtx_owner := None, mtx_priority := 0xff\<rparr>) k1
            | Some t \<Rightarrow>
                u_mutex_update_priority m
                  (upd_thr t (\<lambda>x. x\<lparr>taken_object_list := m # taken_object_list x, pending_object := None\<rparr>)
                    (upd_mtx m (\<lambda>x. x\<lparr>mtx_owner := Some t, hold := 1\<rparr>) k1))))"

definition rt_mutex_release :: "nat \<Rightarrow> nat \<Rightarrow> kernel \<Rightarrow> (rt_err \<times> kernel) res" where
  "rt_mutex_release m t k =
     (if mtx_owner (mtx k m) \<noteq> Some t then Inr (NegErr E_ERROR, upd_thr t (\<lambda>x. x\<lparr>terror := NegErr E_ERROR\<rparr>) k)
      else (let k1 = upd_mtx m (\<lambda>x. x\<lparr>hold := hold x - 1\<rparr>) k in
            if hold (mtx k1 m) \<noteq> 0 then Inr (RT_EOK, k1)
            else bind_res (u_check_and_update_prio t m
                     (upd_thr t (\<lambda>x. x\<lparr>taken_object_list := removeAll m (taken_object_list x)\<rparr>) k1)) (\<lambda>k2.
                   bind_res (mutex_hand_over m k2) (\<lambda>k3. Inr (RT_EOK, k3)))))"

end
