(* ===== verification/IpcSem.thy ===== *)
theory IpcSem
  imports Ipc
begin

section \<open>What semaphores and mutexes promise\<close>

text \<open>
  The steps of threads and interrupts that use semaphores and mutexes in any order, the
  specification with counters and locks, the invariant, and the proof for the steps of semaphores.
  \<open>w t\<close> is the object the thread is inside a take of. A thread takes at most one mutex at a time and
  waits for it without a limit of time, as the threads of the arm do; a semaphore may be waited for
  with a limit. A timer that runs out is one step with its callback; what can happen
  between the two is shown in IpcRun.
\<close>

subsection \<open>Runs\<close>

datatype ipc_event =
    SemTook nat nat rt_err | SemWaits nat nat | SemPut nat rt_err | Timeout nat | SemBack nat nat rt_err
  | MtxTook nat nat rt_err | MtxWaits nat nat | MtxPut nat nat rt_err | MtxBack nat nat rt_err

type_synonym ipc_state = "kernel \<times> (nat \<Rightarrow> susp_list option)"

inductive ipc_step :: "ipc_state \<Rightarrow> ipc_event \<Rightarrow> ipc_state \<Rightarrow> bool" where
  sem_took: "w t = None \<Longrightarrow> u_rt_sem_take s timeout t k = (Returns e, k') \<Longrightarrow> ipc_step (k, w) (SemTook t s e) (k', w)"
| sem_waits: "w t = None \<Longrightarrow> u_rt_sem_take s timeout t k = (Blocks, k') \<Longrightarrow>
    ipc_step (k, w) (SemWaits t s) (k', w(t := Some (SemList s)))"
| sem_put: "rt_sem_release s k = (e, k') \<Longrightarrow> ipc_step (k, w) (SemPut s e) (k', w)"
| time_up: "thread_timer (thr k t) = Active \<Longrightarrow> thread_timeout t (timer_expires t k) = Inr k' \<Longrightarrow>
    ipc_step (k, w) (Timeout t) (k', w)"
| sem_back: "w t = Some (SemList s) \<Longrightarrow> \<not> suspended (thr k t) \<Longrightarrow>
    ipc_step (k, w) (SemBack t s (sem_resumed t k)) (k, w(t := None))"
| mtx_took: "w t = None \<Longrightarrow> (\<And>m'. m' \<noteq> m \<Longrightarrow> mtx_owner (mtx k m') \<noteq> Some t) \<Longrightarrow>
    u_rt_mutex_take m (- 1) t k = Some (Inr (Returns e, k')) \<Longrightarrow> ipc_step (k, w) (MtxTook t m e) (k', w)"
| mtx_waits: "w t = None \<Longrightarrow> (\<And>m'. m' \<noteq> m \<Longrightarrow> mtx_owner (mtx k m') \<noteq> Some t) \<Longrightarrow>
    u_rt_mutex_take m (- 1) t k = Some (Inr (Blocks, k')) \<Longrightarrow>
    ipc_step (k, w) (MtxWaits t m) (k', w(t := Some (MtxList m)))"
| mtx_put: "w t = None \<Longrightarrow> rt_mutex_release m t k = Inr (e, k') \<Longrightarrow> ipc_step (k, w) (MtxPut t m e) (k', w)"
| mtx_back: "w t = Some (MtxList m) \<Longrightarrow> \<not> suspended (thr k t) \<Longrightarrow> mutex_resumed m t k = Some (Inr (e, k')) \<Longrightarrow>
    ipc_step (k, w) (MtxBack t m e) (k', w(t := None))"

inductive_cases ipc_stepE: "ipc_step (k, w) ev (k', w')"

subsection \<open>The specification\<close>

text \<open>
  A counter for each semaphore, and for each mutex its owner with the number of times it has taken
  it.
\<close>

record ipc_spec =
  tokens :: "nat \<Rightarrow> nat"
  lock :: "nat \<Rightarrow> (nat \<times> nat) option"

definition lock_take :: "'a \<Rightarrow> ('a \<times> nat) option \<Rightarrow> ('a \<times> nat) option option" where
  "lock_take t l =
     (case l of None \<Rightarrow> Some (Some (t, 1)) | Some (u, n) \<Rightarrow> if u = t then Some (Some (t, n + 1)) else None)"

definition lock_release :: "'a \<Rightarrow> ('a \<times> nat) option \<Rightarrow> ('a \<times> nat) option" where
  "lock_release t l =
     (case l of None \<Rightarrow> None | Some (u, n) \<Rightarrow> if u = t then (if n \<le> 1 then None else Some (t, n - 1)) else l)"

fun spec_step :: "ipc_spec \<Rightarrow> ipc_event \<Rightarrow> ipc_spec option" where
  "spec_step a (SemTook t s e) =
     (if e = RT_EOK then (if tokens a s > 0 then Some (a\<lparr>tokens := (tokens a)(s := tokens a s - 1)\<rparr>) else None)
      else if e = NegErr E_TIMEOUT then Some a else None)"
| "spec_step a (SemWaits t s) = Some a"
| "spec_step a (SemPut s e) =
     (if e = RT_EOK then Some (a\<lparr>tokens := (tokens a)(s := tokens a s + 1)\<rparr>)
      else if e = NegErr E_FULL then Some a else None)"
| "spec_step a (Timeout t) = Some a"
| "spec_step a (SemBack t s e) =
     (if e = RT_EOK then (if tokens a s > 0 then Some (a\<lparr>tokens := (tokens a)(s := tokens a s - 1)\<rparr>) else None)
      else if e = NegErr E_TIMEOUT then Some a else None)"
| "spec_step a (MtxTook t m e) =
     (if e = RT_EOK then map_option (\<lambda>l. a\<lparr>lock := (lock a)(m := l)\<rparr>) (lock_take t (lock a m))
      else if e = NegErr E_FULL \<and> lock a m = Some (t, 255) then Some a else None)"
| "spec_step a (MtxWaits t m) = (case lock a m of Some (u, n) \<Rightarrow> if u = t then None else Some a | None \<Rightarrow> Some a)"
| "spec_step a (MtxPut t m e) =
     (if e = RT_EOK then (case lock a m of Some (u, n) \<Rightarrow> if u = t
          then Some (a\<lparr>lock := (lock a)(m := lock_release t (lock a m))\<rparr>) else None | None \<Rightarrow> None)
      else if e = NegErr E_ERROR \<and> (\<forall>n. lock a m \<noteq> Some (t, n)) then Some a else None)"
| "spec_step a (MtxBack t m e) =
     (if e = RT_EOK \<and> lock a m = None then Some (a\<lparr>lock := (lock a)(m := Some (t, 1))\<rparr>) else None)"

subsection \<open>Evaluating updates\<close>

lemma upd_sel [simp]:
  "thr (upd_thr t f k) = (thr k)(t := f (thr k t))" "sem (upd_thr t f k) = sem k" "mtx (upd_thr t f k) = mtx k"
  "sem (upd_sem s g k) = (sem k)(s := g (sem k s))" "thr (upd_sem s g k) = thr k" "mtx (upd_sem s g k) = mtx k"
  "mtx (upd_mtx m h k) = (mtx k)(m := h (mtx k m))" "thr (upd_mtx m h k) = thr k" "sem (upd_mtx m h k) = sem k"
  by (simp_all add: upd_thr_def upd_sem_def upd_mtx_def)

lemma put_list_sel [simp]:
  "thr (put_list l ts k) = thr k"
  "sem (put_list (SemList s) ts k) = (sem k)(s := (sem k s)\<lparr>sem_susp := ts\<rparr>)" "mtx (put_list (SemList s) ts k) = mtx k"
  "mtx (put_list (MtxList m) ts k) = (mtx k)(m := (mtx k m)\<lparr>mtx_susp := ts\<rparr>)" "sem (put_list (MtxList m) ts k) = sem k"
  by (simp_all add: put_list_def split: susp_list.split)

lemma list_remove_sel [simp]:
  "thr (rt_list_remove t k) = thr k"
  "sem (rt_list_remove t k) s = (sem k s)\<lparr>sem_susp := removeAll t (sem_susp (sem k s))\<rparr>"
  "mtx (rt_list_remove t k) m = (mtx k m)\<lparr>mtx_susp := removeAll t (mtx_susp (mtx k m))\<rparr>"
  by (simp_all add: rt_list_remove_def)

lemma get_list_simps [simp]:
  "get_list (SemList s) k = sem_susp (sem k s)" "get_list (MtxList m) k = mtx_susp (mtx k m)"
  by (simp_all add: get_list_def)

lemma set_prio_insert [simp]: "set (prio_insert p t us) = insert t (set us)"
  by (induction us) auto

lemma distinct_prio_insert [simp]: "distinct (prio_insert p t us) \<longleftrightarrow> t \<notin> set us \<and> distinct us"
  by (induction us) auto

lemma sorted_prio_insert: "sorted (map p us) \<Longrightarrow> sorted (map p (prio_insert p t us))"
  by (induction us) (auto simp: not_less intro: order_trans less_imp_le)

lemma prio_insert_cong: "(\<And>u. u \<in> insert t (set us) \<Longrightarrow> p u = q u) \<Longrightarrow> prio_insert p t us = prio_insert q t us"
  by (induction us) auto


subsection \<open>The invariant\<close>

text \<open>
  The lists hold exactly the threads that are suspended inside a take. A semaphore with tokens left has no
  waiting thread; a thread that has been resumed was given a token or ran out of time. A mutex
  without an owner has no waiting thread, a thread resumed inside a take of a mutex owns it, and the
  priority of an owner is the best of its own and that of the first waiting thread.
\<close>

definition list_ok :: "kernel \<Rightarrow> (nat \<Rightarrow> susp_list option) \<Rightarrow> susp_list \<Rightarrow> bool" where
  "list_ok k w l \<longleftrightarrow> distinct (get_list l k) \<and> (\<forall>t. t \<in> set (get_list l k) \<longleftrightarrow> w t = Some l \<and> suspended (thr k t))"

definition lists_ok :: "ipc_state \<Rightarrow> bool" where
  "lists_ok = (\<lambda>(k, w). (\<forall>l. list_ok k w l) \<and> (\<forall>t. w t = None \<longrightarrow> \<not> suspended (thr k t)) \<and> finite (dom w))"

definition timer_ok :: "rt_thread \<Rightarrow> susp_list option \<Rightarrow> bool" where
  "timer_ok x wt \<longleftrightarrow>
     (thread_timer x \<noteq> Inactive \<longrightarrow>
        thread_timer x = Active \<and> suspended x \<and> sched_flag_ttmr_set x \<and> (\<exists>s. wt = Some (SemList s))) \<and>
     (suspended x \<and> sched_flag_ttmr_set x \<longrightarrow> thread_timer x = Active) \<and>
     (\<forall>s. wt = Some (SemList s) \<and> \<not> suspended x \<longrightarrow> terror x = RT_EOK \<or> terror x = NegErr E_TIMEOUT)"

definition sem_ok :: "rt_semaphore \<Rightarrow> bool" where
  "sem_ok x \<longleftrightarrow> (sem_value x > 0 \<longrightarrow> sem_susp x = [])"

definition sems_ok :: "ipc_state \<Rightarrow> bool" where
  "sems_ok = (\<lambda>(k, w). (\<forall>s. sem_ok (sem k s)) \<and> (\<forall>t. timer_ok (thr k t) (w t)))"

definition mtx_ok :: "kernel \<Rightarrow> nat \<Rightarrow> bool" where
  "mtx_ok k m \<longleftrightarrow>
     (mtx_owner (mtx k m) = None \<longrightarrow> mtx_susp (mtx k m) = [] \<and> hold (mtx k m) = 0) \<and>
     (\<forall>t. mtx_owner (mtx k m) = Some t \<longrightarrow> hold (mtx k m) \<noteq> 0 \<and> taken_object_list (thr k t) = [m])"

fun waits_for :: "susp_list option \<Rightarrow> nat option" where
  "waits_for (Some (MtxList m)) = Some m"
| "waits_for wt = None"

definition thr_ok :: "kernel \<Rightarrow> susp_list option \<Rightarrow> nat \<Rightarrow> bool" where
  "thr_ok k wt t \<longleftrightarrow>
     length (taken_object_list (thr k t)) \<le> 1 \<and> (\<forall>m. taken_object_list (thr k t) = [m] \<longrightarrow> mtx_owner (mtx k m) = Some t) \<and>
     (\<forall>m. wt = Some (MtxList m) \<longrightarrow> terror (thr k t) = RT_EOK \<and>
        (if suspended (thr k t) then taken_object_list (thr k t) = []
         else mtx_owner (mtx k m) = Some t \<and> hold (mtx k m) = 1)) \<and>
     pending_object (thr k t) = (if suspended (thr k t) then waits_for wt else None)"

lemma waits_for_None: "waits_for wt = None \<longleftrightarrow> (\<forall>m. wt \<noteq> Some (MtxList m))"
  by (cases wt rule: waits_for.cases) auto

definition mtxs_ok :: "ipc_state \<Rightarrow> bool" where
  "mtxs_ok = (\<lambda>(k, w). (\<forall>m. mtx_ok k m) \<and> (\<forall>t. thr_ok k (w t) t))"

fun best :: "(nat \<Rightarrow> u8) \<Rightarrow> u8 \<Rightarrow> nat list \<Rightarrow> u8" where
  "best f p [] = p"
| "best f p (m # ms) = min p (f m)"

definition owner_prio :: "kernel \<Rightarrow> nat \<Rightarrow> u8" where
  "owner_prio k t = best (\<lambda>m. first_prio m k) (init_priority (thr k t)) (taken_object_list (thr k t))"

definition prios_ok :: "kernel \<Rightarrow> bool" where
  "prios_ok k \<longleftrightarrow>
     (\<forall>m. mtx_flag (mtx k m) = RT_IPC_FLAG_PRIO \<and> ceiling_priority (mtx k m) = 0xff \<and>
        sorted (map (curr_prio k) (mtx_susp (mtx k m))) \<and> mtx_priority (mtx k m) = first_prio m k) \<and>
     (\<forall>t. init_priority (thr k t) < RT_THREAD_PRIORITY_MAX \<and> curr_prio k t = owner_prio k t)"

definition ipc_inv :: "ipc_state \<Rightarrow> bool" where
  "ipc_inv st \<longleftrightarrow> lists_ok st \<and> sems_ok st \<and> mtxs_ok st \<and> prios_ok (fst st)"

definition granted :: "nat \<Rightarrow> ipc_state \<Rightarrow> nat set" where
  "granted s = (\<lambda>(k, w). {t. w t = Some (SemList s) \<and> \<not> suspended (thr k t) \<and> terror (thr k t) = RT_EOK})"

definition lock_of :: "ipc_state \<Rightarrow> nat \<Rightarrow> (nat \<times> nat) option" where
  "lock_of = (\<lambda>(k, w) m. case mtx_owner (mtx k m) of None \<Rightarrow> None
     | Some t \<Rightarrow> if w t = Some (MtxList m) then None else Some (t, unat (hold (mtx k m))))"

definition ipc_abs :: "ipc_state \<Rightarrow> ipc_spec" where
  "ipc_abs st = \<lparr>tokens = (\<lambda>s. unat (sem_value (sem (fst st) s)) + card (granted s st)), lock = lock_of st\<rparr>"

lemma inv_mem: "ipc_inv (k, w) \<Longrightarrow> t \<in> set (get_list l k) \<longleftrightarrow> w t = Some l \<and> suspended (thr k t)"
  and inv_distinct: "ipc_inv (k, w) \<Longrightarrow> distinct (get_list l k)"
  by (auto simp: ipc_inv_def lists_ok_def list_ok_def)

lemma inv_timer: "ipc_inv (k, w) \<Longrightarrow> timer_ok (thr k t) (w t)"
  by (simp add: ipc_inv_def sems_ok_def)

lemma inv_sem: "ipc_inv (k, w) \<Longrightarrow> sem_ok (sem k s)"
  by (simp add: ipc_inv_def sems_ok_def)

lemma inv_finite: "ipc_inv (k, w) \<Longrightarrow> finite (dom w)"
  by (simp add: ipc_inv_def lists_ok_def)

lemma inv_idle:
  assumes "ipc_inv (k, w)" "w t = None"
  shows "\<not> suspended (thr k t)" "thread_timer (thr k t) = Inactive" "t \<notin> set (get_list l k)"
  using assms inv_timer [OF assms(1), of t] inv_mem [OF assms(1)] by (auto simp: ipc_inv_def lists_ok_def timer_ok_def)

lemma finite_granted: "ipc_inv (k, w) \<Longrightarrow> finite (granted s (k, w))"
  by (rule finite_subset [OF _ inv_finite]) (auto simp: granted_def)

text \<open>Operations that leave priorities, taken mutexes and the lists of mutexes alone.\<close>

lemma prios_ok_cong:
  assumes "prios_ok k" "mtx k' = mtx k" "\<And>t. init_priority (thr k' t) = init_priority (thr k t)"
    "\<And>t. current_priority (thr k' t) = current_priority (thr k t)"
    "\<And>t. taken_object_list (thr k' t) = taken_object_list (thr k t)"
  shows "prios_ok k'"
proof -
  have c: "curr_prio k' = curr_prio k" using assms(4) by (auto simp: curr_prio_def)
  have f: "first_prio m k' = first_prio m k" for m unfolding first_prio_def assms(2) c ..
  have "owner_prio k' t = owner_prio k t" for t unfolding owner_prio_def assms(3,5) f ..
  then show ?thesis using assms(1) unfolding prios_ok_def c f assms(2,3) by simp
qed

lemma mtxs_ok_cong:
  assumes "mtxs_ok (k, w)" "mtx k' = mtx k" "\<And>t. taken_object_list (thr k' t) = taken_object_list (thr k t)"
    "\<And>t. pending_object (thr k' t) = pending_object (thr k t)"
    "\<And>t m. w' t = Some (MtxList m) \<longleftrightarrow> w t = Some (MtxList m)"
    "\<And>t m. w t = Some (MtxList m) \<Longrightarrow> terror (thr k' t) = terror (thr k t) \<and> suspended (thr k' t) = suspended (thr k t)"
  shows "mtxs_ok (k', w')"
proof -
  have "mtx_ok k' m" for m using assms(1) by (simp add: mtxs_ok_def mtx_ok_def assms(2,3))
  moreover have "thr_ok k' (w' t) t" for t
  proof -
    have "thr_ok k (w t) t" using assms(1) by (simp add: mtxs_ok_def)
    moreover have "thr_ok k' (w' t) t = thr_ok k (w t) t"
    proof (cases "\<exists>m. w t = Some (MtxList m)")
      case True
      then obtain m where m: "w t = Some (MtxList m)" "w' t = Some (MtxList m)" using assms(5) by auto
      show ?thesis unfolding thr_ok_def m assms(2-4) conjunct1 [OF assms(6) [OF m(1)]] conjunct2 [OF assms(6) [OF m(1)]] ..
    next
      case False
      then have n: "w t \<noteq> Some (MtxList m)" "w' t \<noteq> Some (MtxList m)" for m using assms(5) by auto
      then have "waits_for (w t) = None" "waits_for (w' t) = None" by (auto simp: waits_for_None)
      then show ?thesis using n unfolding thr_ok_def assms(2-4) by simp
    qed
    ultimately show ?thesis by simp
  qed
  ultimately show ?thesis by (auto simp: mtxs_ok_def)
qed

text \<open>A step that changes one thread, its wait and the semaphores.\<close>

lemma ipc_invI:
  assumes i: "ipc_inv (k, w)" and k: "mtx k' = mtx k" "thr k' = (thr k)(t := x)" "w' = w(t := y)"
    and x: "taken_object_list x = taken_object_list (thr k t)" "pending_object x = pending_object (thr k t)"
      "init_priority x = init_priority (thr k t)" "current_priority x = current_priority (thr k t)"
    and n: "\<And>m. w t \<noteq> Some (MtxList m)" "\<And>m. y \<noteq> Some (MtxList m)" "y = None \<Longrightarrow> \<not> suspended x"
    and l: "\<And>s. list_ok k' w' (SemList s)" and o: "\<And>s. sem_ok (sem k' s)" "timer_ok x y"
  shows "ipc_inv (k', w')"
proof -
  have "prios_ok k'" by (rule prios_ok_cong [of k]) (use i x in \<open>auto simp: ipc_inv_def k\<close>)
  moreover have "mtxs_ok (k', w')"
    by (rule mtxs_ok_cong [of k w]) (use i x n(1,2) in \<open>auto simp: ipc_inv_def k\<close>)
  moreover have "sems_ok (k', w')" using o inv_timer [OF i] by (auto simp: sems_ok_def k)
  moreover have "list_ok k' w' (MtxList m)" for m
    using inv_mem [OF i, of _ "MtxList m"] inv_distinct [OF i, of "MtxList m"] n(1,2) by (auto simp: list_ok_def k)
  with l have "list_ok k' w' l" for l by (cases l) auto
  then have "lists_ok (k', w')" using i n(3) by (auto simp: lists_ok_def ipc_inv_def k)
  ultimately show ?thesis by (simp add: ipc_inv_def)
qed

lemma lock_of_cong:
  assumes "mtx k' = mtx k" "\<And>t m. w' t = Some (MtxList m) \<longleftrightarrow> w t = Some (MtxList m)"
  shows "lock_of (k', w') = lock_of (k, w)"
  unfolding lock_of_def assms(1) prod.case assms(2) ..

lemma spec_eqI: "tokens a = tokens b \<Longrightarrow> lock a = lock b \<Longrightarrow> a = (b :: ipc_spec)"
  by simp

lemma abs_simps [simp]:
  "tokens (ipc_abs (k, w)) s = unat (sem_value (sem k s)) + card (granted s (k, w))"
  "lock (ipc_abs st) = lock_of st"
  by (simp_all add: ipc_abs_def)

subsection \<open>Steps of semaphores\<close>

lemma sem_value_ok:
  assumes i: "ipc_inv (k, w)" and k: "k' = upd_sem s (\<lambda>x. x\<lparr>sem_value := v\<rparr>) k" and s: "sem_susp (sem k s) = []"
  shows "ipc_inv (k', w)" "granted s' (k', w) = granted s' (k, w)" "lock_of (k', w) = lock_of (k, w)"
proof -
  have e: "thr k' = thr k" "mtx k' = mtx k" by (simp_all add: k)
  have "prios_ok k'" using i by (auto simp: ipc_inv_def e intro: prios_ok_cong [of k])
  moreover have "mtxs_ok (k', w)" using i by (auto simp: ipc_inv_def e intro: mtxs_ok_cong [of k w])
  moreover have "get_list l k' = get_list l k" for l by (cases l) (auto simp: k)
  then have "lists_ok (k', w)" using i by (simp add: ipc_inv_def lists_ok_def list_ok_def e)
  moreover have "sems_ok (k', w)" using i s by (simp add: ipc_inv_def sems_ok_def e) (simp add: k sem_ok_def)
  ultimately show "ipc_inv (k', w)" by (simp add: ipc_inv_def)
  show "granted s' (k', w) = granted s' (k, w)" by (simp add: granted_def k)
  show "lock_of (k', w) = lock_of (k, w)" by (rule lock_of_cong) (simp_all add: k)
qed

lemma sem_took_ok:
  assumes i: "ipc_inv (k, w)" and t: "w t = None" and r: "u_rt_sem_take s timeout t k = (Returns e, k')"
  shows "ipc_inv (k', w) \<and> spec_step (ipc_abs (k, w)) (SemTook t s e) = Some (ipc_abs (k', w))"
proof (cases "sem_value (sem k s) > 0")
  case True
  then have r: "e = RT_EOK" "k' = upd_sem s (\<lambda>x. x\<lparr>sem_value := sem_value (sem k s) - 1\<rparr>) k"
    using r by (auto simp: u_rt_sem_take_def upd_sem_def)
  have v: "unat (sem_value (sem k s) - 1) = unat (sem_value (sem k s)) - 1" "0 < unat (sem_value (sem k s))"
    using True by (simp_all add: unat_minus_one word_gt_0 unat_gt_0)
  have "sem_susp (sem k s) = []" using inv_sem [OF i] True by (simp add: sem_ok_def)
  note o = sem_value_ok [OF i r(2) this]
  show ?thesis using o v by (auto simp: r(1) intro!: spec_eqI) (auto simp: fun_eq_iff r(2))
next
  case False
  then have "timeout = 0" "e = NegErr E_TIMEOUT" "k' = k"
    using r inv_idle [OF i t] by (auto simp: u_rt_sem_take_def rt_thread_suspend_to_list_def Let_def split: if_splits)
  then show ?thesis using i by simp
qed

text \<open>Suspending a thread, whose timer is not running, in a list.\<close>

lemma upd_thr_id: "f (thr k t) = thr k t \<Longrightarrow> upd_thr t f k = k"
  by (simp add: upd_thr_def)

lemma timer_stop_idle:
  assumes "thread_timer (thr k t) = Inactive"
  shows "snd (rt_sched_thread_timer_stop t k) = upd_thr t (\<lambda>x. x\<lparr>sched_flag_ttmr_set := False\<rparr>) k"
  using assms by (cases "sched_flag_ttmr_set (thr k t)")
    (auto simp: rt_sched_thread_timer_stop_def rt_timer_stop_def intro!: upd_thr_id [symmetric])

lemma thr_enqueue [simp]: "thr (rt_susp_list_enqueue l t flag k) = thr k"
  by (simp add: rt_susp_list_enqueue_def split: ipc_flag.split)

lemma suspend_eq:
  assumes "\<not> suspended (thr k t)" "thread_timer (thr k t) = Inactive"
  shows "rt_thread_suspend_to_list t l flag k = (RT_EOK,
    upd_thr t (\<lambda>x. x\<lparr>sched_flag_ttmr_set := False\<rparr>)
      (rt_susp_list_enqueue l t flag (upd_thr t (\<lambda>x. x\<lparr>suspended := True\<rparr>) k)))"
  using assms by (simp add: rt_thread_suspend_to_list_def timer_stop_idle)

lemma enqueue_sem:
  obtains ts where "rt_susp_list_enqueue (SemList s) t flag k = put_list (SemList s) ts k"
    "set ts = insert t (set (sem_susp (sem k s)))"
    "t \<notin> set (sem_susp (sem k s)) \<Longrightarrow> distinct (sem_susp (sem k s)) \<Longrightarrow> distinct ts"
  by (cases flag) (auto simp: rt_susp_list_enqueue_def)

lemma sem_waits_ok:
  assumes i: "ipc_inv (k, w)" and t: "w t = None" and r: "u_rt_sem_take s timeout t k = (Blocks, k')"
  shows "ipc_inv (k', w(t := Some (SemList s))) \<and>
    spec_step (ipc_abs (k, w)) (SemWaits t s) = Some (ipc_abs (k', w(t := Some (SemList s))))"
proof -
  note n = inv_idle [OF i t]
  have v: "sem_value (sem k s) = 0" "timeout \<noteq> 0"
    using r by (auto simp: u_rt_sem_take_def word_gt_0 split: if_splits)
  let ?k0 = "upd_thr t (\<lambda>x. x\<lparr>terror := NegErr E_INTR\<rparr>) k"
  obtain ts where ts: "rt_susp_list_enqueue (SemList s) t (sem_flag (sem k s)) (upd_thr t (\<lambda>x. x\<lparr>suspended := True\<rparr>) ?k0) =
      put_list (SemList s) ts (upd_thr t (\<lambda>x. x\<lparr>suspended := True\<rparr>) ?k0)"
    "set ts = insert t (set (sem_susp (sem k s)))"
    "t \<notin> set (sem_susp (sem k s)) \<Longrightarrow> distinct (sem_susp (sem k s)) \<Longrightarrow> distinct ts"
    using enqueue_sem [of s t "sem_flag (sem k s)" "upd_thr t (\<lambda>x. x\<lparr>suspended := True\<rparr>) ?k0"] by auto
  define k1 where "k1 = upd_thr t (\<lambda>x. x\<lparr>sched_flag_ttmr_set := False\<rparr>)
      (put_list (SemList s) ts (upd_thr t (\<lambda>x. x\<lparr>suspended := True\<rparr>) ?k0))"
  have "rt_thread_suspend_to_list t (SemList s) (sem_flag (sem ?k0 s)) ?k0 = (RT_EOK, k1)"
    using suspend_eq [of ?k0 t] n ts(1) by (simp add: k1_def)
  then have k': "k' = (if timeout > 0 then rt_timer_start t k1 else k1)"
    using r v by (simp add: u_rt_sem_take_def split: if_splits)
  define x where "x = (thr k t)\<lparr>terror := NegErr E_INTR, suspended := True, sched_flag_ttmr_set := timeout > 0,
       thread_timer := if timeout > 0 then Active else Inactive\<rparr>"
  have sel: "mtx k' = mtx k" "sem k' = (sem k)(s := (sem k s)\<lparr>sem_susp := ts\<rparr>)" "thr k' = (thr k)(t := x)"
    using n(2) by (auto simp: k' k1_def rt_timer_start_def x_def)
  have "ipc_inv (k', w(t := Some (SemList s)))"
  proof (rule ipc_invI [OF i sel(1,3) refl])
    show "list_ok k' (w(t := Some (SemList s))) (SemList s')" for s'
      using inv_mem [OF i, of _ "SemList s'"] inv_distinct [OF i, of "SemList s'"] n(3) [of "SemList s'"] t ts(2,3) by (auto simp: list_ok_def sel x_def)
    show "sem_ok (sem k' s')" for s' using inv_sem [OF i] v by (simp add: sel sem_ok_def)
  qed (use t in \<open>auto simp: x_def timer_ok_def\<close>)
  moreover have "granted s' (k', w(t := Some (SemList s))) = granted s' (k, w)" for s'
    using t by (auto simp: granted_def sel x_def)
  moreover have "lock_of (k', w(t := Some (SemList s))) = lock_of (k, w)"
    by (rule lock_of_cong) (use t in \<open>auto simp: sel\<close>)
  ultimately show ?thesis by (auto intro!: spec_eqI simp: fun_eq_iff sel)
qed

text \<open>Making a suspended thread ready.\<close>

lemma ready_eq:
  assumes i: "ipc_inv (k, w)" and t: "suspended (thr k t)"
  shows "rt_sched_thread_ready t k = (RT_EOK,
    upd_thr t (\<lambda>x. x\<lparr>suspended := False, sched_flag_ttmr_set := False, thread_timer := Inactive\<rparr>) (rt_list_remove t k))"
proof (cases "sched_flag_ttmr_set (thr k t)")
  case True
  then have "thread_timer (thr k t) = Active" using inv_timer [OF i, of t] t by (simp add: timer_ok_def)
  then show ?thesis using t True
    by (cases "thr k t") (simp add: rt_sched_thread_ready_def rt_sched_thread_timer_stop_def rt_timer_stop_def
        rt_sched_insert_thread_def upd_thr_def rt_list_remove_def)
next
  case False
  then have "thread_timer (thr k t) = Inactive" using inv_timer [OF i, of t] t by (auto simp: timer_ok_def)
  then show ?thesis using t False
    by (cases "thr k t") (simp add: rt_sched_thread_ready_def rt_sched_insert_thread_def upd_thr_def rt_list_remove_def)
qed

text \<open>A suspended thread leaves its list with an error number.\<close>

definition woken :: "nat \<Rightarrow> rt_err \<Rightarrow> bool \<Rightarrow> kernel \<Rightarrow> kernel" where
  "woken t e f k = upd_thr t (\<lambda>x. x\<lparr>suspended := False, sched_flag_ttmr_set := f, thread_timer := Inactive, terror := e\<rparr>)
     (rt_list_remove t k)"

lemma woken_ok:
  assumes i: "ipc_inv (k, w)" and t: "w t = Some (SemList s)" "suspended (thr k t)"
    and e: "e = RT_EOK \<or> e = NegErr E_TIMEOUT"
  shows "ipc_inv (woken t e f k, w)"
    and "granted s' (woken t e f k, w) = (if s' = s \<and> e = RT_EOK then insert t (granted s (k, w)) else granted s' (k, w))"
    and "lock_of (woken t e f k, w) = lock_of (k, w)"
    and "sem_value (sem (woken t e f k) s') = sem_value (sem k s')"
proof -
  have "t \<notin> set (mtx_susp (mtx k m))" for m using inv_mem [OF i, of t "MtxList m"] t by simp
  then have mt: "mtx (woken t e f k) = mtx k" by (auto simp: woken_def fun_eq_iff)
  define x where "x = (thr k t)\<lparr>suspended := False, sched_flag_ttmr_set := f, thread_timer := Inactive, terror := e\<rparr>"
  have th: "thr (woken t e f k) = (thr k)(t := x)" by (simp add: woken_def x_def)
  show "ipc_inv (woken t e f k, w)"
  proof (rule ipc_invI [OF i mt th])
    show "w = w(t := w t)" by simp
    have "get_list (SemList s') (woken t e f k) = removeAll t (get_list (SemList s') k)" for s' by (simp add: woken_def)
    then show "list_ok (woken t e f k) w (SemList s')" for s'
      by (auto simp: list_ok_def th x_def inv_mem [OF i] inv_distinct [OF i] distinct_removeAll simp del: get_list_simps)
    show "sem_ok (sem (woken t e f k) s')" for s' using inv_sem [OF i, of s'] by (simp add: sem_ok_def woken_def)
  qed (use t e in \<open>auto simp: x_def timer_ok_def\<close>)
  show "granted s' (woken t e f k, w) = (if s' = s \<and> e = RT_EOK then insert t (granted s (k, w)) else granted s' (k, w))"
    using t by (auto simp: granted_def woken_def)
  show "lock_of (woken t e f k, w) = lock_of (k, w)" by (rule lock_of_cong [OF mt]) simp
  show "sem_value (sem (woken t e f k) s') = sem_value (sem k s')" by (simp add: woken_def)
qed

lemma sem_put_ok:
  assumes i: "ipc_inv (k, w)" and r: "rt_sem_release s k = (e, k')"
  shows "ipc_inv (k', w) \<and> spec_step (ipc_abs (k, w)) (SemPut s e) = Some (ipc_abs (k', w))"
proof (cases "sem_susp (sem k s)")
  case Nil
  show ?thesis
  proof (cases "sem_value (sem k s) < max_value (sem k s)")
    case True
    then have r: "e = RT_EOK" "k' = upd_sem s (\<lambda>x. x\<lparr>sem_value := sem_value (sem k s) + 1\<rparr>) k"
      using r Nil by (auto simp: rt_sem_release_def upd_sem_def)
    have "unat (sem_value (sem k s)) < unat (max_value (sem k s))" using True by (simp add: word_less_nat_alt)
    then have v: "unat (sem_value (sem k s) + 1) = unat (sem_value (sem k s)) + 1"
      using unsigned_less [of "max_value (sem k s)", where 'a = nat] by (simp add: unat_word_ariths)
    note o = sem_value_ok [OF i r(2) Nil]
    show ?thesis using o v by (auto simp: r(1) intro!: spec_eqI) (auto simp: fun_eq_iff r(2))
  next
    case False
    then show ?thesis using r Nil i by (auto simp: rt_sem_release_def)
  qed
next
  case (Cons t ts)
  then have t: "w t = Some (SemList s)" "suspended (thr k t)" using inv_mem [OF i, of t "SemList s"] by auto
  have e: "e = RT_EOK" and k': "k' = woken t RT_EOK False k"
    using r Cons ready_eq [OF i t(2)] by (auto simp: rt_sem_release_def rt_susp_list_dequeue_def woken_def upd_thr_def)
  note w = woken_ok [OF i t, where e = RT_EOK and f = False, folded k']
  have "finite (granted s (k, w))" by (rule finite_granted [OF i])
  moreover have "t \<notin> granted s (k, w)" using t by (simp add: granted_def)
  ultimately show ?thesis using w by (auto simp: e fun_eq_iff intro!: spec_eqI)
qed

lemma time_up_ok:
  assumes i: "ipc_inv (k, w)" and t: "thread_timer (thr k t) = Active"
    and r: "thread_timeout t (timer_expires t k) = Inr k'"
  shows "ipc_inv (k', w) \<and> spec_step (ipc_abs (k, w)) (Timeout t) = Some (ipc_abs (k', w))"
proof -
  obtain s where s: "w t = Some (SemList s)" "suspended (thr k t)" using inv_timer [OF i, of t] t by (auto simp: timer_ok_def)
  have k': "k' = woken t (NegErr E_TIMEOUT) (sched_flag_ttmr_set (thr k t)) k"
    using r s by (cases "thr k t") (auto simp: thread_timeout_def timer_expires_def rt_sched_insert_thread_def woken_def upd_thr_def rt_list_remove_def)
  note w = woken_ok [OF i s, where e = "NegErr E_TIMEOUT" and f = "sched_flag_ttmr_set (thr k t)", folded k']
  show ?thesis using w by (auto intro!: spec_eqI simp: fun_eq_iff)
qed

lemma sem_back_ok:
  assumes i: "ipc_inv (k, w)" and t: "w t = Some (SemList s)" "\<not> suspended (thr k t)"
  shows "ipc_inv (k, w(t := None)) \<and>
    spec_step (ipc_abs (k, w)) (SemBack t s (sem_resumed t k)) = Some (ipc_abs (k, w(t := None)))"
proof -
  have inv: "ipc_inv (k, w(t := None))"
  proof (rule ipc_invI [OF i refl _ refl])
    show "thr k = (thr k)(t := thr k t)" by simp
    show "list_ok k (w(t := None)) (SemList s')" for s' using inv_mem [OF i, of _ "SemList s'"] inv_distinct [OF i, of "SemList s'"] t by (auto simp: list_ok_def)
    show "timer_ok (thr k t) None" using inv_timer [OF i, of t] t by (auto simp: timer_ok_def)
  qed (use t inv_sem [OF i] in auto)
  have g: "granted s' (k, w(t := None)) = granted s' (k, w) - {t}" for s' by (auto simp: granted_def)
  have n: "s' \<noteq> s \<Longrightarrow> t \<notin> granted s' (k, w)" for s' using t by (auto simp: granted_def)
  have l: "lock_of (k, w(t := None)) = lock_of (k, w)" by (rule lock_of_cong) (use t in auto)
  have f: "finite (granted s (k, w))" by (rule finite_granted [OF i])
  consider "terror (thr k t) = RT_EOK" "t \<in> granted s (k, w)" | "terror (thr k t) = NegErr E_TIMEOUT" "t \<notin> granted s (k, w)"
    using inv_timer [OF i, of t] t by (auto simp: timer_ok_def granted_def)
  then show ?thesis
  proof cases
    case 1
    then have "0 < card (granted s (k, w))" using f by (auto simp: card_gt_0_iff)
    then show ?thesis using inv l 1 n f
      by (auto simp: sem_resumed_def intro!: spec_eqI) (auto simp: fun_eq_iff g card_Diff_singleton)
  next
    case 2
    then have "granted s' (k, w) - {t} = granted s' (k, w)" for s' using n by (cases "s' = s") auto
    then show ?thesis using inv l 2 by (auto simp: sem_resumed_def negative_def intro!: spec_eqI) (auto simp: fun_eq_iff g)
  qed
qed


end
