(* ===== verification/IpcMtx.thy ===== *)
theory IpcMtx
  imports IpcSem
begin

section \<open>Mutexes of RT-Thread keep their promise\<close>

text \<open>
  The steps of the mutexes: taking a free one, taking it again, waiting, with the owner inheriting
  the priority of a more urgent waiting thread, giving it back, with the handing over to the first waiting
  thread, and coming back from the wait. Each keeps the invariant and is a step of the specification.
\<close>

subsection \<open>Steps of mutexes\<close>

lemma inv_mtx: "ipc_inv (k, w) \<Longrightarrow> mtx_ok k m"
  and inv_thr: "ipc_inv (k, w) \<Longrightarrow> thr_ok k (w t) t"
  by (simp_all add: ipc_inv_def mtxs_ok_def)

lemma inv_prio:
  assumes "ipc_inv (k, w)"
  shows "mtx_flag (mtx k m) = RT_IPC_FLAG_PRIO" "ceiling_priority (mtx k m) = 0xff"
    "sorted (map (curr_prio k) (mtx_susp (mtx k m)))" "mtx_priority (mtx k m) = first_prio m k"
    "init_priority (thr k t) < RT_THREAD_PRIORITY_MAX" "current_priority (thr k t) = owner_prio k t"
  using assms by (auto simp: ipc_inv_def prios_ok_def curr_prio_def)

lemma owns_iff:
  assumes i: "ipc_inv (k, w)"
  shows "mtx_owner (mtx k m) = Some t \<longleftrightarrow> taken_object_list (thr k t) = [m]"
proof
  show "mtx_owner (mtx k m) = Some t \<Longrightarrow> taken_object_list (thr k t) = [m]"
    using inv_mtx [OF i, of m] by (simp add: mtx_ok_def)
  show "taken_object_list (thr k t) = [m] \<Longrightarrow> mtx_owner (mtx k m) = Some t"
    using inv_thr [OF i, of t] by (simp add: thr_ok_def)
qed

lemma owns_none:
  assumes i: "ipc_inv (k, w)" and n: "\<And>m. mtx_owner (mtx k m) \<noteq> Some t"
  shows "taken_object_list (thr k t) = []"
  using inv_thr [OF i, of t] n by (cases "taken_object_list (thr k t)") (auto simp: thr_ok_def)

text \<open>A thread that is not inside a take of a mutex does not wait for one.\<close>

lemma not_pending:
  assumes i: "ipc_inv (k, w)"
  shows "w t = None \<Longrightarrow> pending_object (thr k t) = None"
    and "mtx_owner (mtx k m) = Some t \<Longrightarrow> pending_object (thr k t) = None"
proof -
  show "w t = None \<Longrightarrow> pending_object (thr k t) = None" using inv_thr [OF i, of t] by (simp add: thr_ok_def)
  assume o: "mtx_owner (mtx k m) = Some t"
  then have "taken_object_list (thr k t) = [m]" using owns_iff [OF i] by simp
  then show "pending_object (thr k t) = None"
    using inv_thr [OF i, of t] by (cases "w t" rule: waits_for.cases) (auto simp: thr_ok_def split: if_splits)
qed

lemma u8_min_max [simp]: "min p (0xff :: u8) = p" "min (0xff :: u8) p = p" for p :: u8
proof -
  have "p \<le> 0xff" using unsigned_less [of p, where 'a = nat] by (simp add: word_le_nat_alt)
  then show "min p (0xff :: u8) = p" "min (0xff :: u8) p = p" by (auto simp: min_def)
qed

lemma mtx_inv_parts:
  assumes "\<And>l. list_ok k' w' l" "\<And>t. w' t = None \<Longrightarrow> \<not> suspended (thr k' t)" "finite (dom w')"
    "\<And>s. sem_ok (sem k' s)" "\<And>t. timer_ok (thr k' t) (w' t)" "\<And>m. mtx_ok k' m" "\<And>t. thr_ok k' (w' t) t" "prios_ok k'"
  shows "ipc_inv (k', w')"
  using assms by (auto simp: ipc_inv_def lists_ok_def sems_ok_def mtxs_ok_def)

lemma timer_ok_simps [simp]:
  "timer_ok (x\<lparr>taken_object_list := a\<rparr>) wt = timer_ok x wt" "timer_ok (x\<lparr>current_priority := p\<rparr>) wt = timer_ok x wt"
  "timer_ok (x\<lparr>pending_object := b\<rparr>) wt = timer_ok x wt"
  by (simp_all add: timer_ok_def)

text \<open>The error number of a thread outside a take does not matter, nor how often a mutex is held.\<close>

lemma terror_ok:
  assumes i: "ipc_inv (k, w)" and t: "w t = None"
  shows "ipc_inv (upd_thr t (\<lambda>x. x\<lparr>terror := e\<rparr>) k, w)" "ipc_abs (upd_thr t (\<lambda>x. x\<lparr>terror := e\<rparr>) k, w) = ipc_abs (k, w)"
proof -
  let ?k = "upd_thr t (\<lambda>x. x\<lparr>terror := e\<rparr>) k"
  show "ipc_inv (?k, w)"
  proof (rule ipc_invI [OF i])
    show "thr ?k = (thr k)(t := (thr k t)\<lparr>terror := e\<rparr>)" "w = w(t := w t)" by simp_all
    show "list_ok ?k w (SemList s)" for s
      using inv_mem [OF i, of _ "SemList s"] inv_distinct [OF i, of "SemList s"] by (auto simp: list_ok_def)
    show "timer_ok ((thr k t)\<lparr>terror := e\<rparr>) (w t)" using inv_timer [OF i, of t] t by (auto simp: timer_ok_def)
  qed (use t inv_sem [OF i] inv_idle [OF i t] in auto)
  have "granted s (?k, w) = granted s (k, w)" for s using t by (auto simp: granted_def)
  moreover have "lock_of (?k, w) = lock_of (k, w)" by (rule lock_of_cong) simp_all
  ultimately show "ipc_abs (?k, w) = ipc_abs (k, w)" by (auto intro!: spec_eqI simp: fun_eq_iff)
qed

lemma mtx_again_ok:
  assumes i: "ipc_inv (k, w)" and t: "w t = None" "mtx_owner (mtx k m) = Some t" and h: "h \<noteq> 0"
    and k': "k' = upd_mtx m (\<lambda>x. x\<lparr>hold := h\<rparr>) k"
  shows "ipc_inv (k', w)" "lock_of (k', w) = (lock_of (k, w))(m := Some (t, unat h))" "granted s (k', w) = granted s (k, w)"
proof -
  have c: "curr_prio k' = curr_prio k" by (simp add: curr_prio_def k' fun_eq_iff)
  have f: "first_prio m' k' = first_prio m' k" for m' unfolding first_prio_def c by (simp add: k')
  have g: "get_list l k' = get_list l k" for l by (cases l) (auto simp: k')
  show "ipc_inv (k', w)"
  proof (rule mtx_inv_parts)
    show "list_ok k' w l" for l using i unfolding list_ok_def g by (simp add: k' inv_mem [OF i] inv_distinct [OF i] del: get_list_simps)
    show "mtx_ok k' m'" for m' using inv_mtx [OF i, of m'] t(2) h by (auto simp: mtx_ok_def k')
    show "thr_ok k' (w u) u" for u using inv_thr [OF i, of u] t by (auto simp: thr_ok_def k')
    show "prios_ok k'" using i by (auto simp: ipc_inv_def prios_ok_def c f owner_prio_def) (auto simp: k')
  qed (use i in \<open>auto simp: k' ipc_inv_def lists_ok_def sems_ok_def\<close>)
  show "lock_of (k', w) = (lock_of (k, w))(m := Some (t, unat h))" using t by (auto simp: lock_of_def k' fun_eq_iff split: option.split)
  show "granted s (k', w) = granted s (k, w)" by (simp add: granted_def k')
qed

text \<open>Taking a free mutex.\<close>

lemma mtx_own_ok:
  assumes i: "ipc_inv (k, w)" and t: "w t = None" and n: "\<And>m'. mtx_owner (mtx k m') \<noteq> Some t"
    and m: "mtx_owner (mtx k m) = None"
    and k': "k' = upd_thr t (\<lambda>x. x\<lparr>taken_object_list := m # taken_object_list x\<rparr>)
      (upd_mtx m (\<lambda>x. x\<lparr>mtx_owner := Some t, mtx_priority := 0xff, hold := 1\<rparr>) k)"
  shows "ipc_inv (k', w)" "lock_of (k', w) = (lock_of (k, w))(m := Some (t, 1))" "granted s (k', w) = granted s (k, w)"
proof -
  have tk: "taken_object_list (thr k t) = []" by (rule owns_none [OF i n])
  have c: "curr_prio k' = curr_prio k" by (simp add: curr_prio_def k' fun_eq_iff)
  have f: "first_prio m' k' = first_prio m' k" for m' unfolding first_prio_def c by (simp add: k')
  have e: "mtx_susp (mtx k m) = []" "hold (mtx k m) = 0" using inv_mtx [OF i, of m] m by (auto simp: mtx_ok_def)
  have f0: "first_prio m k = 0xff" by (simp add: first_prio_def e)
  have o: "owner_prio k' u = owner_prio k u" for u unfolding owner_prio_def f using tk f0 by (simp add: k')
  have g: "get_list l k' = get_list l k" for l by (cases l) (auto simp: k')
  show "ipc_inv (k', w)"
  proof (rule mtx_inv_parts)
    show "list_ok k' w l" for l unfolding list_ok_def g by (simp add: k' inv_mem [OF i] inv_distinct [OF i] del: get_list_simps)
    show "mtx_ok k' m'" for m' using inv_mtx [OF i, of m'] n [of m'] tk by (auto simp: mtx_ok_def k')
    show "thr_ok k' (w u) u" for u using inv_thr [OF i, of u] t m tk by (auto simp: thr_ok_def k')
    show "timer_ok (thr k' u) (w u)" for u by (simp add: k' inv_timer [OF i])
    show "prios_ok k'" using i f0 by (auto simp: ipc_inv_def prios_ok_def c f o) (auto simp: k')
  qed (use i in \<open>auto simp: k' ipc_inv_def lists_ok_def sems_ok_def\<close>)
  show "lock_of (k', w) = (lock_of (k, w))(m := Some (t, 1))" using t by (auto simp: lock_of_def k' fun_eq_iff split: option.split)
  show "granted s (k', w) = granted s (k, w)" by (auto simp: granted_def k')
qed

lemma mtx_took_ok:
  assumes i: "ipc_inv (k, w)" and t: "w t = None" and n: "\<And>m'. m' \<noteq> m \<Longrightarrow> mtx_owner (mtx k m') \<noteq> Some t"
    and r: "u_rt_mutex_take m (- 1) t k = Some (Inr (Returns e, k'))"
  shows "ipc_inv (k', w) \<and> spec_step (ipc_abs (k, w)) (MtxTook t m e) = Some (ipc_abs (k', w))"
proof -
  define k0 where "k0 = upd_thr t (\<lambda>x. x\<lparr>terror := RT_EOK\<rparr>) k"
  note i0 = terror_ok [OF i t, of RT_EOK, folded k0_def]
  have mt: "mtx k0 = mtx k" "taken_object_list (thr k0 t) = taken_object_list (thr k t)" "thread_timer (thr k0 t) = thread_timer (thr k t)"
    by (simp_all add: k0_def)
  show ?thesis
  proof (cases "mtx_owner (mtx k m)")
    case None
    then have n': "mtx_owner (mtx k0 m') \<noteq> Some t" for m' using n [of m'] by (cases "m' = m") (auto simp: mt)
    have "mutex_own m t k0 = Some (Inr (Returns e, k'))"
      using r None by (simp add: u_rt_mutex_take_def Let_def mt flip: k0_def)
    then have "e = RT_EOK" and k': "k' = upd_thr t (\<lambda>x. x\<lparr>taken_object_list := m # taken_object_list x\<rparr>)
      (upd_mtx m (\<lambda>x. x\<lparr>mtx_owner := Some t, mtx_priority := 0xff, hold := 1\<rparr>) k0)"
      using inv_prio(2) [OF i0(1), of m] by (auto simp: mutex_own_def and_then_def Let_def)
    moreover note o = mtx_own_ok [OF i0(1) t n' _ k']
    moreover have "lock_of (k0, w) m = None" using None by (simp add: lock_of_def mt)
    ultimately show ?thesis using None unfolding i0(2) [symmetric]
      by (auto simp: lock_take_def mt fun_eq_iff k' intro!: spec_eqI)
  next
    case (Some u)
    have ot: "u = t"
    proof (rule ccontr)
      assume "u \<noteq> t"
      then show False using r Some suspend_eq [of k0 t] inv_idle [OF i0(1) t]
        by (auto simp: u_rt_mutex_take_def mutex_wait_def and_then_def Let_def mt simp flip: k0_def split: option.splits sum.splits if_splits)
    qed
    have l: "lock_of (k0, w) m = Some (t, unat (hold (mtx k m)))" using Some ot t by (simp add: lock_of_def mt)
    show ?thesis
    proof (cases "hold (mtx k m) < RT_MUTEX_HOLD_MAX")
      case True
      then have e: "e = RT_EOK" and k': "k' = upd_mtx m (\<lambda>x. x\<lparr>hold := hold (mtx k m) + 1\<rparr>) k0"
        using r Some ot by (auto simp: u_rt_mutex_take_def Let_def mt upd_mtx_def simp flip: k0_def)
      have "unat (hold (mtx k m)) < 255" using True by (simp add: word_less_nat_alt RT_MUTEX_HOLD_MAX_def)
      then have v: "unat (hold (mtx k m) + 1) = unat (hold (mtx k m)) + 1" by (simp add: unat_word_ariths)
      then have "hold (mtx k m) + 1 \<noteq> 0" by (metis Suc_eq_plus1 nat.simps(3) unat_0)
      note o = mtx_again_ok [OF i0(1) t _ this k']
      show ?thesis using o Some ot l v e unfolding i0(2) [symmetric]
        by (auto simp: lock_take_def mt intro!: spec_eqI) (auto simp: fun_eq_iff k')
    next
      case False
      then have "hold (mtx k m) = 0xff"
        using unsigned_less [of "hold (mtx k m)", where 'a = nat]
        by (simp add: word_less_nat_alt RT_MUTEX_HOLD_MAX_def word_unat_eq_iff)
      moreover have "e = NegErr E_FULL" "k' = k0"
        using r Some ot False by (auto simp: u_rt_mutex_take_def Let_def mt simp flip: k0_def)
      ultimately show ?thesis using l i0(1) unfolding i0(2) [symmetric] by simp
    qed
  qed
qed

text \<open>Waiting for a mutex. Its owner waits for none, so the chain of priorities ends with it.\<close>

lemma update_prio_eq:
  assumes "p < RT_THREAD_PRIORITY_MAX" "pending_object (thr k u) = None"
  shows "u_thread_update_priority u p k = Some (Inr (upd_thr u (\<lambda>x. x\<lparr>current_priority := p\<rparr>) k))"
  using assms by (simp add: u_thread_update_priority_def rt_sched_thread_change_priority_def prio_chain.simps)

lemma first_of_insert: "first_of p (prio_insert p t us) = (if p t < first_of p us then p t else first_of p us) \<or> us = []"
  by (cases us) auto

lemma first_of_cong: "(\<And>u. u \<in> set us \<Longrightarrow> p u = q u) \<Longrightarrow> first_of p us = first_of q us"
  by (cases us) auto

lemma mtx_wait_sel:
  assumes i: "ipc_inv (k, w)" and t: "w t = None" and o: "mtx_owner (mtx k m) = Some u" "u \<noteq> t"
    and r: "u_rt_mutex_take m (- 1) t k = Some (Inr (b, k'))"
  defines "p \<equiv> curr_prio k t"
  defines "lower \<equiv> p < mtx_priority (mtx k m)"
  shows "b = Blocks" "sem k' = sem k"
    "mtx k' = (mtx k)(m := (mtx k m)\<lparr>mtx_susp := prio_insert (curr_prio k) t (mtx_susp (mtx k m)),
       mtx_priority := if lower then p else mtx_priority (mtx k m)\<rparr>)"
    "curr_prio k' = (curr_prio k)(u := if lower \<and> p < curr_prio k u then p else curr_prio k u)"
    "init_priority (thr k' v) = init_priority (thr k v)" "taken_object_list (thr k' v) = taken_object_list (thr k v)"
    "suspended (thr k' v) = (v = t \<or> suspended (thr k v))" "thread_timer (thr k' v) = thread_timer (thr k v)"
    "sched_flag_ttmr_set (thr k' v) = (v \<noteq> t \<and> sched_flag_ttmr_set (thr k v))"
    "terror (thr k' v) = (if v = t then RT_EOK else terror (thr k v))"
    "pending_object (thr k' v) = (if v = t then Some m else pending_object (thr k v))"
proof -
  define k0 where "k0 = upd_thr t (\<lambda>x. x\<lparr>terror := RT_EOK\<rparr>) k"
  define k2 where "k2 = upd_thr t (\<lambda>x. x\<lparr>pending_object := Some m\<rparr>) (upd_thr t (\<lambda>x. x\<lparr>sched_flag_ttmr_set := False\<rparr>)
      (put_list (MtxList m) (prio_insert (curr_prio k) t (mtx_susp (mtx k m))) (upd_thr t (\<lambda>x. x\<lparr>suspended := True\<rparr>) k0)))"
  note n = inv_idle [OF i t]
  have c: "curr_prio (upd_thr t (\<lambda>x. x\<lparr>suspended := True\<rparr>) k0) = curr_prio k" "curr_prio k2 = curr_prio k"
    by (auto simp: curr_prio_def k0_def k2_def fun_eq_iff)
  have p: "p < RT_THREAD_PRIORITY_MAX"
    using inv_prio(5,6) [OF i, of t] owns_none [OF i, of t] by (cases "\<exists>m'. mtx_owner (mtx k m') = Some t")
      (auto simp: p_def curr_prio_def owner_prio_def owns_iff [OF i] min_def)
  have "mutex_wait m (- 1) t u k0 = Some (Inr (b, k'))"
    using r o by (simp add: u_rt_mutex_take_def Let_def flip: k0_def) (simp add: k0_def)
  moreover have "rt_thread_suspend_to_list t (MtxList m) (mtx_flag (mtx k0 m)) k0 = (RT_EOK,
      upd_thr t (\<lambda>x. x\<lparr>sched_flag_ttmr_set := False\<rparr>)
        (put_list (MtxList m) (prio_insert (curr_prio k) t (mtx_susp (mtx k m))) (upd_thr t (\<lambda>x. x\<lparr>suspended := True\<rparr>) k0)))"
    using suspend_eq [of k0 t "MtxList m" "mtx_flag (mtx k0 m)"] n inv_prio(1) [OF i, of m] c(1)
    by (simp add: rt_susp_list_enqueue_def k0_def)
  moreover have q: "pending_object (thr k2 u) = None" using not_pending(2) [OF i o(1)] o(2) by (simp add: k2_def k0_def)
  moreover have "mtx_priority (mtx k2 m) = mtx_priority (mtx k m)" by (simp add: k2_def k0_def)
  moreover have "curr_prio (upd_mtx m f k2) = curr_prio k" for f by (simp add: curr_prio_def k2_def k0_def fun_eq_iff)
  moreover have "mtx k0 = mtx k" by (simp add: k0_def)
  ultimately have b: "b = Blocks" and k': "k' = (if lower then
      (let k3 = upd_mtx m (\<lambda>x. x\<lparr>mtx_priority := p\<rparr>) k2
       in if p < curr_prio k u then upd_thr u (\<lambda>x. x\<lparr>current_priority := p\<rparr>) k3 else k3) else k2)"
    using p by (auto simp: mutex_wait_def and_then_def Let_def c lower_def update_prio_eq simp flip: k2_def p_def split: if_splits)
  show "b = Blocks" by (rule b)
  show "sem k' = sem k" by (simp add: k' Let_def k2_def k0_def)
  show "mtx k' = (mtx k)(m := (mtx k m)\<lparr>mtx_susp := prio_insert (curr_prio k) t (mtx_susp (mtx k m)),
       mtx_priority := if lower then p else mtx_priority (mtx k m)\<rparr>)"
    by (cases "mtx k m") (simp add: k' Let_def k2_def k0_def)
  show "curr_prio k' = (curr_prio k)(u := if lower \<and> p < curr_prio k u then p else curr_prio k u)"
    by (auto simp: curr_prio_def k' Let_def k2_def k0_def fun_eq_iff)
  show "init_priority (thr k' v) = init_priority (thr k v)" "taken_object_list (thr k' v) = taken_object_list (thr k v)"
    "suspended (thr k' v) = (v = t \<or> suspended (thr k v))" "thread_timer (thr k' v) = thread_timer (thr k v)"
    "sched_flag_ttmr_set (thr k' v) = (v \<noteq> t \<and> sched_flag_ttmr_set (thr k v))"
    "terror (thr k' v) = (if v = t then RT_EOK else terror (thr k v))"
    "pending_object (thr k' v) = (if v = t then Some m else pending_object (thr k v))"
    using o(2) by (simp_all add: k' Let_def k2_def k0_def)
qed

lemma prio_bound:
  assumes i: "ipc_inv (k, w)"
  shows "curr_prio k t < RT_THREAD_PRIORITY_MAX"
proof -
  have "owner_prio k t \<le> init_priority (thr k t)"
    by (cases "taken_object_list (thr k t)") (auto simp: owner_prio_def)
  then show ?thesis using inv_prio(5,6) [OF i, of t] by (simp add: curr_prio_def)
qed

lemma prio_small: "p < RT_THREAD_PRIORITY_MAX \<Longrightarrow> p < 0xff"
  by (erule less_trans) (simp add: RT_THREAD_PRIORITY_MAX_def)

lemma mtx_waits_ok:
  assumes i: "ipc_inv (k, w)" and t: "w t = None" and n: "\<And>m'. m' \<noteq> m \<Longrightarrow> mtx_owner (mtx k m') \<noteq> Some t"
    and r: "u_rt_mutex_take m (- 1) t k = Some (Inr (Blocks, k'))"
  shows "ipc_inv (k', w(t := Some (MtxList m))) \<and>
    spec_step (ipc_abs (k, w)) (MtxWaits t m) = Some (ipc_abs (k', w(t := Some (MtxList m))))"
proof -
  obtain u where o: "mtx_owner (mtx k m) = Some u" "u \<noteq> t"
    using r by (auto simp: u_rt_mutex_take_def mutex_own_def and_then_def Let_def split: option.splits sum.splits if_splits)
  note sel = mtx_wait_sel [OF i t o r]
  let ?w = "w(t := Some (MtxList m))"
  have tk: "taken_object_list (thr k t) = []" "taken_object_list (thr k u) = [m]"
    using owns_none [OF i, of t] n o owns_iff [OF i, of m u] by (metis option.inject, simp)
  have un: "u \<notin> set (mtx_susp (mtx k m'))" "t \<notin> set (mtx_susp (mtx k m'))" for m'
    using inv_mem [OF i, of u "MtxList m'"] inv_thr [OF i, of u] tk(2) inv_mem [OF i, of t "MtxList m'"] t by (auto simp: thr_ok_def)
  then have c: "v \<in> set (mtx_susp (mtx k' m')) \<Longrightarrow> curr_prio k' v = curr_prio k v" for v m'
    using o(2) by (auto simp: sel split: if_splits)
  have sorted: "sorted (map (curr_prio k') (mtx_susp (mtx k' m')))" for m'
  proof -
    have e: "map (curr_prio k') (mtx_susp (mtx k' m')) = map (curr_prio k) (mtx_susp (mtx k' m'))" using c by (simp cong: map_cong)
    show ?thesis unfolding e using inv_prio(3) [OF i, of m'] by (cases "m' = m") (simp_all add: sel(3) sorted_prio_insert)
  qed
  let ?p = "curr_prio k t"
  have f: "first_prio m' k' = (if m' = m \<and> ?p < first_prio m k then ?p else first_prio m' k)" for m'
  proof -
    have "first_prio m' k' = first_of (curr_prio k) (mtx_susp (mtx k' m'))" unfolding first_prio_def using c by (rule first_of_cong)
    moreover have "?p < 0xff" using prio_small [OF prio_bound [OF i]] .
    ultimately show ?thesis
      using first_of_insert [of "curr_prio k" t "mtx_susp (mtx k m)"] by (auto simp: sel(3) first_prio_def)
  qed
  have cu: "curr_prio k u = min (init_priority (thr k u)) (first_prio m k)"
    using inv_prio(6) [OF i, of u] tk(2) by (simp add: curr_prio_def owner_prio_def)
  have oth: "v \<noteq> u \<Longrightarrow> m \<notin> set (taken_object_list (thr k v))" for v
    using inv_thr [OF i, of v] o(1) by (cases "taken_object_list (thr k v)") (auto simp: thr_ok_def)
  have op: "curr_prio k' v = owner_prio k' v" for v
  proof (cases "v = u")
    case True
    then show ?thesis using cu inv_prio(4) [OF i, of m] by (auto simp: owner_prio_def sel f tk(2) min_def)
  next
    case False
    then have "owner_prio k' v = owner_prio k v"
      using oth [OF False] by (cases "taken_object_list (thr k v)") (auto simp: owner_prio_def sel f)
    then show ?thesis using False inv_prio(6) [OF i, of v] by (simp add: sel(4)) (simp add: curr_prio_def)
  qed
  have gl: "get_list l k' = (if l = MtxList m then prio_insert (curr_prio k) t (get_list (MtxList m) k) else get_list l k)" for l
    by (cases l) (auto simp: sel)
  have inv: "ipc_inv (k', ?w)"
  proof (rule mtx_inv_parts)
    show "list_ok k' ?w l" for l
      unfolding list_ok_def gl using inv_idle(1) [OF i t] t
      by (simp add: sel(7) inv_mem [OF i] inv_distinct [OF i] del: get_list_simps)
    show "?w v = None \<Longrightarrow> \<not> suspended (thr k' v)" for v using inv_idle(1) [OF i, of v] by (auto simp: sel split: if_splits)
    show "finite (dom ?w)" using inv_finite [OF i] by simp
    show "sem_ok (sem k' s)" for s using inv_sem [OF i] by (simp add: sel)
    show "timer_ok (thr k' v) (?w v)" for v
    proof (cases "v = t")
      case False
      then have "timer_ok (thr k' v) (w v) = timer_ok (thr k v) (w v)" by (simp add: timer_ok_def sel)
      then show ?thesis using False inv_timer [OF i] by simp
    qed (use inv_idle(2) [OF i t] in \<open>simp add: timer_ok_def sel\<close>)
    show "mtx_ok k' m'" for m' using inv_mtx [OF i, of m'] o(1) by (cases "m' = m") (simp_all add: mtx_ok_def sel(3,6))
    show "thr_ok k' (?w v) v" for v using inv_thr [OF i, of v] tk(1)
      by (cases "v = t") (simp_all add: thr_ok_def sel(3,6,7,10,11))
    show "prios_ok k'"
      using sorted op inv_prio(1,2,4,5) [OF i] by (auto simp: prios_ok_def f) (auto simp: sel)
  qed
  have l: "lock_of (k', ?w) = lock_of (k, w)" using t o by (auto simp: lock_of_def sel fun_eq_iff split: option.split)
  have g: "granted s (k', ?w) = granted s (k, w)" for s using t by (auto simp: granted_def sel)
  have s: "spec_step (ipc_abs (k, w)) (MtxWaits t m) = Some (ipc_abs (k, w))"
    using o by (auto simp: lock_of_def split: option.split)
  have "ipc_abs (k', ?w) = ipc_abs (k, w)" using l g by (auto intro!: spec_eqI simp: fun_eq_iff sel)
  then show ?thesis using inv s by simp
qed

text \<open>Giving a mutex back for the last time: the first waiting thread gets it.\<close>

fun first_thread :: "nat list \<Rightarrow> nat option" where
  "first_thread [] = None"
| "first_thread (v # vs) = Some v"

lemma check_prio_eq:
  assumes i: "ipc_inv (k, w)" and o: "mtx_owner (mtx k m) = Some t"
  shows "u_check_and_update_prio t m (upd_thr t (\<lambda>x. x\<lparr>taken_object_list := removeAll m (taken_object_list x)\<rparr>)
      (upd_mtx m (\<lambda>x. x\<lparr>hold := h\<rparr>) k)) =
    Inr (upd_thr t (\<lambda>x. x\<lparr>taken_object_list := [], current_priority := init_priority x\<rparr>) (upd_mtx m (\<lambda>x. x\<lparr>hold := h\<rparr>) k))"
proof -
  have tk: "taken_object_list (thr k t) = [m]" using o owns_iff [OF i] by simp
  have cu: "current_priority (thr k t) = min (init_priority (thr k t)) (first_prio m k)"
    using inv_prio(6) [OF i, of t] tk by (simp add: owner_prio_def)
  show ?thesis
  proof (cases "current_priority (thr k t) = mtx_priority (mtx k m)")
    case True
    then show ?thesis using tk inv_prio(5) [OF i, of t]
      by (simp add: u_check_and_update_prio_def rt_sched_thread_change_priority_def u_thread_get_mutex_priority_def
          curr_prio_def upd_thr_def)
  next
    case False
    then have "current_priority (thr k t) = init_priority (thr k t)" using cu inv_prio(4) [OF i, of m] by (auto simp: min_def split: if_splits)
    then show ?thesis using False tk inv_prio(2) [OF i, of m]
      by (cases "thr k t") (simp add: u_check_and_update_prio_def curr_prio_def upd_thr_def)
  qed
qed

lemma waiter_facts:
  assumes i: "ipc_inv (k, w)" and v: "v \<in> set (mtx_susp (mtx k m))"
  shows "w v = Some (MtxList m)" "suspended (thr k v)" "\<not> sched_flag_ttmr_set (thr k v)" "taken_object_list (thr k v) = []"
    "v \<notin> set (sem_susp (sem k s))" "m' \<noteq> m \<Longrightarrow> v \<notin> set (mtx_susp (mtx k m'))"
proof -
  show w: "w v = Some (MtxList m)" and s: "suspended (thr k v)" using inv_mem [OF i, of v "MtxList m"] v by auto
  show "\<not> sched_flag_ttmr_set (thr k v)" using inv_timer [OF i, of v] s w by (auto simp: timer_ok_def)
  show "taken_object_list (thr k v) = []" using inv_thr [OF i, of v] s w by (auto simp: thr_ok_def)
  show "v \<notin> set (sem_susp (sem k s))" using inv_mem [OF i, of v "SemList s"] w by auto
  show "m' \<noteq> m \<Longrightarrow> v \<notin> set (mtx_susp (mtx k m'))" using inv_mem [OF i, of v "MtxList m'"] w by auto
qed

text \<open>Handing the mutex over, as one update.\<close>

lemma hand_over_eq:
  assumes i: "ipc_inv (k, w)" and v: "mtx_susp (mtx k m) = v # vs" and t: "t \<notin> set (mtx_susp (mtx k m))"
    and k2: "k2 = upd_thr t (\<lambda>x. x\<lparr>taken_object_list := [], current_priority := init_priority x\<rparr>) (upd_mtx m (\<lambda>x. x\<lparr>hold := 0\<rparr>) k)"
    and k': "mutex_hand_over m k2 = Inr k'"
  shows "sem k' = sem k"
    "mtx k' = (mtx k)(m := (mtx k m)\<lparr>mtx_owner := Some v, hold := 1, mtx_susp := vs, mtx_priority := first_of (curr_prio k) vs\<rparr>)"
    "thr k' = (thr k2)(v := (thr k v)\<lparr>suspended := False, taken_object_list := [m], pending_object := None\<rparr>)"
proof -
  note f = waiter_facts [OF i, of v m]
  have d: "v \<notin> set vs" using inv_distinct [OF i, of "MtxList m"] v by simp
  have tv: "t \<noteq> v" "t \<notin> set vs" using t v by auto
  define k3 where "k3 = upd_thr v (\<lambda>x. x\<lparr>suspended := False\<rparr>) (rt_list_remove v (rt_list_remove v k2))"
  have "next_owner (length (mtx_susp (mtx k2 m))) m k2 = Inr (Some v, k3)"
    using f v tv by (simp add: k2 k3_def rt_sched_thread_ready_def rt_sched_insert_thread_def)
  then have e: "k' = u_mutex_update_priority m (upd_thr v (\<lambda>x. x\<lparr>taken_object_list := m # taken_object_list x, pending_object := None\<rparr>)
                    (upd_mtx m (\<lambda>x. x\<lparr>mtx_owner := Some v, hold := 1\<rparr>) k3))" (is "_ = u_mutex_update_priority m ?k4")
    using k' by (simp add: mutex_hand_over_def)
  have "first_prio m ?k4 = first_of (curr_prio ?k4) vs" using v d by (simp add: first_prio_def k3_def k2)
  also have "\<dots> = first_of (curr_prio k) vs" using d tv by (intro first_of_cong) (auto simp: curr_prio_def k3_def k2)
  finally have p: "first_prio m ?k4 = first_of (curr_prio k) vs" .
  show "sem k' = sem k" using f(5) v by (simp add: e u_mutex_update_priority_def k3_def k2 fun_eq_iff)
  show "mtx k' = (mtx k)(m := (mtx k m)\<lparr>mtx_owner := Some v, hold := 1, mtx_susp := vs, mtx_priority := first_of (curr_prio k) vs\<rparr>)"
    unfolding e u_mutex_update_priority_def p using f(6) v d by (cases "mtx k m") (auto simp: k3_def k2 fun_eq_iff)
  show "thr k' = (thr k2)(v := (thr k v)\<lparr>suspended := False, taken_object_list := [m], pending_object := None\<rparr>)"
    using f(4) v tv by (simp add: e u_mutex_update_priority_def k3_def k2)
qed

text \<open>The situation when the last hold of a mutex is given back.\<close>

definition last_release :: "nat \<Rightarrow> nat \<Rightarrow> kernel \<Rightarrow> (nat \<Rightarrow> susp_list option) \<Rightarrow> rt_err \<Rightarrow> kernel \<Rightarrow> bool" where
  "last_release m t k w e k' \<longleftrightarrow> ipc_inv (k, w) \<and> w t = None \<and> mtx_owner (mtx k m) = Some t \<and> hold (mtx k m) = 1 \<and>
     rt_mutex_release m t k = Inr (e, k')"

lemma mtx_release_sel:
  assumes l: "last_release m t k w e k'"
  defines "q \<equiv> mtx_susp (mtx k m)"
  defines "n \<equiv> first_thread q"
  shows "e = RT_EOK" "sem k' = sem k"
    "mtx k' = (mtx k)(m := (mtx k m)\<lparr>mtx_owner := n, hold := if q = [] then 0 else 1, mtx_susp := tl q,
       mtx_priority := first_of (curr_prio k) (tl q)\<rparr>)" (is ?M)
    "curr_prio k' = (curr_prio k)(t := init_priority (thr k t))"
    "init_priority (thr k' x) = init_priority (thr k x)"
    "taken_object_list (thr k' x) = (if x = t then [] else if n = Some x then [m] else taken_object_list (thr k x))"
    "suspended (thr k' x) = (suspended (thr k x) \<and> n \<noteq> Some x)" "thread_timer (thr k' x) = thread_timer (thr k x)"
    "sched_flag_ttmr_set (thr k' x) = sched_flag_ttmr_set (thr k x)" "terror (thr k' x) = terror (thr k x)"
    "pending_object (thr k' x) = (if n = Some x then None else pending_object (thr k x))"
proof -
  have i: "ipc_inv (k, w)" and t: "w t = None" and o: "mtx_owner (mtx k m) = Some t" and h: "hold (mtx k m) = 1"
    and r: "rt_mutex_release m t k = Inr (e, k')" using l by (simp_all add: last_release_def)
  define k2 where "k2 = upd_thr t (\<lambda>x. x\<lparr>taken_object_list := [], current_priority := init_priority x\<rparr>)
    (upd_mtx m (\<lambda>x. x\<lparr>hold := 0\<rparr>) k)"
  have "rt_mutex_release m t k = bind_res (mutex_hand_over m k2) (\<lambda>k3. Inr (RT_EOK, k3))"
    using o h check_prio_eq [OF i o, of 0] by (simp add: rt_mutex_release_def Let_def k2_def upd_mtx_def)
  then have e: "e = RT_EOK" and k': "mutex_hand_over m k2 = Inr k'" using r by (auto simp: bind_res_def split: sum.splits)
  show "e = RT_EOK" by (rule e)
  have tn: "t \<notin> set q" using inv_idle(3) [OF i t, of "MtxList m"] by (simp add: q_def)
  have smt: "sem k' = sem k \<and> ?M \<and> (\<forall>x. thr k' x = (if n = Some x
      then (thr k x)\<lparr>suspended := False, taken_object_list := [m], pending_object := None\<rparr> else thr k2 x))"
  proof (cases q)
    case Nil
    then have "k' = upd_mtx m (\<lambda>x. x\<lparr>mtx_owner := None, mtx_priority := 0xff\<rparr>) k2"
      using k' by (simp add: mutex_hand_over_def q_def k2_def)
    then show ?thesis using Nil by (cases "mtx k m") (simp add: k2_def n_def q_def)
  next
    case (Cons v vs)
    then show ?thesis using hand_over_eq [OF i Cons [unfolded q_def] tn [unfolded q_def] k2_def k'] by (simp add: n_def)
  qed
  then have th: "thr k' x = (if n = Some x
      then (thr k x)\<lparr>suspended := False, taken_object_list := [m], pending_object := None\<rparr> else thr k2 x)" for x by blast
  show "sem k' = sem k" ?M using smt by blast+
  have nt: "n \<noteq> Some t" using tn by (cases q) (auto simp: n_def)
  then show "curr_prio k' = (curr_prio k)(t := init_priority (thr k t))" by (auto simp: curr_prio_def th k2_def fun_eq_iff)
  show "init_priority (thr k' x) = init_priority (thr k x)"
    "taken_object_list (thr k' x) = (if x = t then [] else if n = Some x then [m] else taken_object_list (thr k x))"
    "suspended (thr k' x) = (suspended (thr k x) \<and> n \<noteq> Some x)" "thread_timer (thr k' x) = thread_timer (thr k x)"
    "sched_flag_ttmr_set (thr k' x) = sched_flag_ttmr_set (thr k x)" "terror (thr k' x) = terror (thr k x)"
    "pending_object (thr k' x) = (if n = Some x then None else pending_object (thr k x))"
    using nt by (simp_all add: th k2_def)
qed

lemma first_thread_Some: "first_thread q = Some v \<longleftrightarrow> (\<exists>vs. q = v # vs)"
  by (cases q) auto

lemma last_releaseD:
  assumes l: "last_release m t k w e k'"
  shows "ipc_inv (k, w)" "w t = None" "mtx_owner (mtx k m) = Some t" "t \<notin> set (mtx_susp (mtx k m'))"
    "distinct (mtx_susp (mtx k m))"
proof -
  show i: "ipc_inv (k, w)" and t: "w t = None" and "mtx_owner (mtx k m) = Some t" using l by (simp_all add: last_release_def)
  show "t \<notin> set (mtx_susp (mtx k m'))" "distinct (mtx_susp (mtx k m))"
    using inv_idle(3) [OF i t, of "MtxList m'"] inv_distinct [OF i, of "MtxList m"] by simp_all
qed

lemma release_new_owner:
  assumes l: "last_release m t k w e k'" and n: "first_thread (mtx_susp (mtx k m)) = Some v"
  shows "w v = Some (MtxList m)" "taken_object_list (thr k v) = []" "v \<noteq> t" 
proof -
  have "v \<in> set (mtx_susp (mtx k m))" using n by (auto simp: first_thread_Some)
  then show w: "w v = Some (MtxList m)" and "taken_object_list (thr k v) = []"
    using waiter_facts [OF last_releaseD(1) [OF l]] by blast+
  then show "v \<noteq> t" using last_releaseD(2) [OF l] by auto
qed

lemma release_list_ok:
  assumes l: "last_release m t k w e k'"
  shows "list_ok k' w l"
proof -
  note i = last_releaseD(1) [OF l] and dq = last_releaseD(5) [OF l] and sel = mtx_release_sel [OF l]
  have gl: "get_list l k' = (if l = MtxList m then tl (mtx_susp (mtx k m)) else get_list l k)" by (cases l) (auto simp: sel)
  show ?thesis
  proof (cases "l = MtxList m")
    case True
    have "set (tl q) = {v \<in> set q. first_thread q \<noteq> Some v}" if "distinct q" for q using that by (cases q) auto
    from this [OF dq] show ?thesis unfolding list_ok_def gl using True inv_mem [OF i, of _ "MtxList m", simplified] dq
      by (simp add: sel(7) distinct_tl)
  next
    case False
    then have "w v = Some l \<Longrightarrow> first_thread (mtx_susp (mtx k m)) \<noteq> Some v" for v using release_new_owner(1) [OF l, of v] by auto
    then show ?thesis unfolding list_ok_def gl using False inv_mem [OF i, of _ l] inv_distinct [OF i, of l]
      by (simp add: sel(7) del: get_list_simps) blast
  qed
qed

lemma release_first_prio:
  assumes l: "last_release m t k w e k'"
  shows "map (curr_prio k') (mtx_susp (mtx k' m')) = map (curr_prio k) (mtx_susp (mtx k' m'))"
    and "first_prio m' k' = (if m' = m then first_of (curr_prio k) (tl (mtx_susp (mtx k m))) else first_prio m' k)"
proof -
  note sel = mtx_release_sel [OF l]
  have "t \<notin> set (mtx_susp (mtx k' m'))"
    using last_releaseD(4) [OF l, of m'] by (cases "mtx_susp (mtx k m)") (auto simp: sel(3))
  then show c: "map (curr_prio k') (mtx_susp (mtx k' m')) = map (curr_prio k) (mtx_susp (mtx k' m'))" by (auto simp: sel(4))
  show "first_prio m' k' = (if m' = m then first_of (curr_prio k) (tl (mtx_susp (mtx k m))) else first_prio m' k)"
    unfolding first_prio_def using c by (cases "mtx_susp (mtx k' m')") (auto simp: sel(3))
qed

lemma release_owner_prio:
  assumes l: "last_release m t k w e k'"
  shows "curr_prio k' v = owner_prio k' v"
proof -
  note i = last_releaseD(1) [OF l] and sel = mtx_release_sel [OF l] and f = release_first_prio(2) [OF l]
  show ?thesis
  proof (cases "first_thread (mtx_susp (mtx k m)) = Some v")
    case True
    note n = release_new_owner [OF l True]
    obtain vs where vs: "mtx_susp (mtx k m) = v # vs" using True by (auto simp: first_thread_Some)
    have "curr_prio k v = init_priority (thr k v)" using inv_prio(6) [OF i, of v] n(2) by (simp add: curr_prio_def owner_prio_def)
    moreover have "curr_prio k v \<le> first_of (curr_prio k) vs"
      using inv_prio(3) [OF i, of m] vs prio_small [OF prio_bound [OF i, of v]] by (cases vs) auto
    ultimately show ?thesis using True n(3) vs by (simp add: sel(4) owner_prio_def sel(5,6) f min_absorb1)
  next
    case False
    have "v \<noteq> t \<Longrightarrow> m \<notin> set (taken_object_list (thr k v))"
      using inv_thr [OF i, of v] last_releaseD(3) [OF l] by (cases "taken_object_list (thr k v)") (auto simp: thr_ok_def)
    then have "v \<noteq> t \<Longrightarrow> owner_prio k' v = owner_prio k v"
      using False by (cases "taken_object_list (thr k v)") (auto simp: owner_prio_def sel(5,6) f)
    then show ?thesis using inv_prio(6) [OF i, of v] by (cases "v = t") (auto simp: sel(4) curr_prio_def owner_prio_def sel(5,6))
  qed
qed

lemma release_prios_ok:
  assumes l: "last_release m t k w e k'"
  shows "prios_ok k'"
proof -
  note i = last_releaseD(1) [OF l] and sel = mtx_release_sel [OF l] and f = release_first_prio [OF l]
  have "sorted (map (curr_prio k') (mtx_susp (mtx k' m')))" for m'
    unfolding f(1) using inv_prio(3) [OF i, of m'] by (cases "m' = m") (auto simp: sel(3) map_tl sorted_tl)
  then show ?thesis using release_owner_prio [OF l] inv_prio(1,2,4,5) [OF i] by (auto simp: prios_ok_def f(2)) (auto simp: sel(3,5))
qed

lemma release_mtx_ok:
  assumes l: "last_release m t k w e k'"
  shows "mtx_ok k' m'"
proof (cases "m' = m")
  case True
  then show ?thesis using mtx_release_sel(3,6) [OF l] release_new_owner(3) [OF l] by (cases "mtx_susp (mtx k m)") (auto simp: mtx_ok_def)
next
  case False
  note i = last_releaseD(1) [OF l] and n = release_new_owner(2) [OF l]
  have "mtx_owner (mtx k m') = Some u \<Longrightarrow> u \<noteq> t \<and> first_thread (mtx_susp (mtx k m)) \<noteq> Some u" for u
    using owns_iff [OF i, of m' u] owns_iff [OF i, of m t] last_releaseD(3) [OF l] n [of u] False by auto
  then show ?thesis using False inv_mtx [OF i, of m'] by (auto simp: mtx_ok_def mtx_release_sel(3,6) [OF l])
qed

lemma release_thr_ok:
  assumes l: "last_release m t k w e k'"
  shows "thr_ok k' (w v) v" "timer_ok (thr k' v) (w v)"
proof -
  let ?n = "first_thread (mtx_susp (mtx k m))"
  note i = last_releaseD(1) [OF l] and t = last_releaseD(2) [OF l] and sel = mtx_release_sel [OF l]
  consider "v = t" "?n \<noteq> Some v" | "?n = Some v" "v \<noteq> t" | "v \<noteq> t" "?n \<noteq> Some v" using release_new_owner(3) [OF l] by blast
  then show "thr_ok k' (w v) v"
  proof cases
    case 1
    then show ?thesis using inv_thr [OF i, of t] t inv_idle(1) [OF i t] by (simp add: thr_ok_def sel(6,7,11))
  next
    case 2
    then show ?thesis using inv_thr [OF i, of v] release_new_owner(1) [OF l 2(1)] by (auto simp: thr_ok_def sel(3,6,7,10,11))
  next
    case 3
    then show ?thesis using inv_thr [OF i, of v] last_releaseD(3) [OF l] by (auto simp: thr_ok_def sel(3,6,7,10,11))
  qed
  show "timer_ok (thr k' v) (w v)"
  proof (cases "?n = Some v")
    case True
    then show ?thesis using inv_timer [OF i, of v] release_new_owner(1) [OF l True] by (simp add: timer_ok_def sel(7-10))
  next
    case False
    then have "timer_ok (thr k' v) (w v) = timer_ok (thr k v) (w v)" by (simp add: timer_ok_def sel(7-10))
    then show ?thesis using inv_timer [OF i] by simp
  qed
qed

lemma mtx_release_ok:
  assumes l: "last_release m t k w e k'"
  shows "ipc_inv (k', w)" "lock_of (k', w) = (lock_of (k, w))(m := None)" "granted s (k', w) = granted s (k, w)"
proof -
  note i = last_releaseD(1) [OF l] and sel = mtx_release_sel [OF l] and n = release_new_owner(1) [OF l]
  show "ipc_inv (k', w)"
  proof (rule mtx_inv_parts)
    show "w v = None \<Longrightarrow> \<not> suspended (thr k' v)" for v using inv_idle(1) [OF i, of v] by (simp add: sel(7))
    show "finite (dom w)" by (rule inv_finite [OF i])
    show "sem_ok (sem k' s)" for s using inv_sem [OF i] by (simp add: sel(2))
  qed (rule release_list_ok [OF l] release_thr_ok [OF l] release_mtx_ok [OF l] release_prios_ok [OF l])+
  show "lock_of (k', w) = (lock_of (k, w))(m := None)" using n by (auto simp: lock_of_def sel(3) fun_eq_iff split: option.split)
  show "granted s (k', w) = granted s (k, w)" using n by (auto simp: granted_def sel(7,10))
qed

lemma mtx_put_ok:
  assumes i: "ipc_inv (k, w)" and t: "w t = None" and r: "rt_mutex_release m t k = Inr (e, k')"
  shows "ipc_inv (k', w) \<and> spec_step (ipc_abs (k, w)) (MtxPut t m e) = Some (ipc_abs (k', w))"
proof (cases "mtx_owner (mtx k m) = Some t")
  case False
  then have "e = NegErr E_ERROR" "k' = upd_thr t (\<lambda>x. x\<lparr>terror := NegErr E_ERROR\<rparr>) k" using r by (auto simp: rt_mutex_release_def)
  moreover have "lock_of (k, w) m \<noteq> Some (t, n)" for n using False by (auto simp: lock_of_def split: option.split)
  ultimately show ?thesis using terror_ok [OF i t] by simp
next
  case True
  have l: "lock_of (k, w) m = Some (t, unat (hold (mtx k m)))" using True t by (simp add: lock_of_def)
  have p: "hold (mtx k m) \<noteq> 0" using inv_mtx [OF i, of m] True by (simp add: mtx_ok_def)
  show ?thesis
  proof (cases "hold (mtx k m) = 1")
    case one: True
    then have "last_release m t k w e k'" using i t True r by (simp add: last_release_def)
    note o = mtx_release_ok [OF this] mtx_release_sel(1,2) [OF this]
    show ?thesis using o(1-3) l one unfolding o(4)
      by (auto simp: lock_release_def o(5) intro!: spec_eqI)
  next
    case False
    then have h: "hold (mtx k m) - 1 \<noteq> 0" by (metis add_0 diff_add_cancel)
    then have e: "e = RT_EOK" and k': "k' = upd_mtx m (\<lambda>x. x\<lparr>hold := hold (mtx k m) - 1\<rparr>) k"
      using r True by (auto simp: rt_mutex_release_def Let_def upd_mtx_def)
    have u: "unat (hold (mtx k m) - 1) = unat (hold (mtx k m)) - 1" using p by (simp add: unat_minus_one)
    then have "\<not> unat (hold (mtx k m)) \<le> 1" using h by (metis diff_is_0_eq unat_eq_zero)
    then show ?thesis using mtx_again_ok [OF i t True h k'] l u
      by (auto simp: e lock_release_def intro!: spec_eqI) (auto simp: k' fun_eq_iff)
  qed
qed

lemma mtx_back_ok:
  assumes i: "ipc_inv (k, w)" and t: "w t = Some (MtxList m)" "\<not> suspended (thr k t)"
    and r: "mutex_resumed m t k = Some (Inr (e, k'))"
  shows "ipc_inv (k', w(t := None)) \<and> spec_step (ipc_abs (k, w)) (MtxBack t m e) = Some (ipc_abs (k', w(t := None)))"
proof -
  have o: "terror (thr k t) = RT_EOK" "mtx_owner (mtx k m) = Some t" "hold (mtx k m) = 1"
    using inv_thr [OF i, of t] t by (auto simp: thr_ok_def)
  then have e: "e = RT_EOK" and k': "k' = k" using r by (auto simp: mutex_resumed_def)
  have tk: "taken_object_list (thr k t) = [m]" using owns_iff [OF i] o by simp
  have tt: "thread_timer (thr k t) = Inactive" using inv_timer [OF i, of t] t unfolding timer_ok_def by auto
  have "ipc_inv (k, w(t := None))"
  proof (rule mtx_inv_parts)
    show "list_ok k (w(t := None)) l" for l
      using inv_mem [OF i, of _ l] inv_distinct [OF i, of l] t(2) unfolding list_ok_def by (simp del: get_list_simps)
    show "(w(t := None)) v = None \<Longrightarrow> \<not> suspended (thr k v)" for v using inv_idle(1) [OF i, of v] t by (auto split: if_splits)
    show "finite (dom (w(t := None)))" using inv_finite [OF i] by simp
    show "timer_ok (thr k v) ((w(t := None)) v)" for v
      using tt t(2) by (cases "v = t") (simp_all add: timer_ok_def [of _ None] inv_timer [OF i])
    show "thr_ok k ((w(t := None)) v) v" for v using inv_thr [OF i, of v] t by (cases "v = t") (auto simp: thr_ok_def)
  qed (use i inv_sem [OF i] inv_mtx [OF i] in \<open>auto simp: ipc_inv_def\<close>)
  moreover have "lock_of (k, w(t := None)) = (lock_of (k, w))(m := Some (t, 1))"
    using o t by (auto simp: lock_of_def fun_eq_iff split: option.split)
  moreover have "lock_of (k, w) m = None" using o t by (simp add: lock_of_def)
  moreover have "granted s (k, w(t := None)) = granted s (k, w)" for s using t by (auto simp: granted_def)
  ultimately show ?thesis unfolding e k' by (auto intro!: spec_eqI)
qed

end
