(* ===== verification/IpcRun.thy ===== *)
theory IpcRun
  imports IpcMtx Stepper
begin

section \<open>Runs of threads over semaphores and mutexes\<close>

text \<open>
  Runs are sequences of steps; they refine the counters and locks of the specification, and no call
  faults. Then what lies outside the runs: resetting a semaphore, a release in the gap of the timer
  interrupt, and the link to the mutex of the arm's threads.
\<close>

lemma ipc_step_ok:
  assumes "ipc_step st ev st'" "ipc_inv st"
  shows "ipc_inv st' \<and> spec_step (ipc_abs st) ev = Some (ipc_abs st')"
  using assms
proof (cases rule: ipc_step.cases)
  case sem_took
  then show ?thesis using sem_took_ok assms by blast
next
  case sem_waits
  then show ?thesis using sem_waits_ok assms by blast
next
  case sem_put
  then show ?thesis using sem_put_ok assms by blast
next
  case time_up
  then show ?thesis using time_up_ok assms by blast
next
  case sem_back
  then show ?thesis using sem_back_ok assms by blast
next
  case mtx_took
  then show ?thesis using mtx_took_ok assms by blast
next
  case mtx_waits
  then show ?thesis using mtx_waits_ok assms by blast
next
  case mtx_put
  then show ?thesis using mtx_put_ok assms by blast
next
  case mtx_back
  then show ?thesis using mtx_back_ok assms by blast
qed

subsection \<open>Runs\<close>

text \<open>A run is a list of events; the specification runs over the same list.\<close>

inductive runs :: "('c \<Rightarrow> 'e \<Rightarrow> 'c \<Rightarrow> bool) \<Rightarrow> 'c \<Rightarrow> 'e list \<Rightarrow> 'c \<Rightarrow> bool" for step where
  at_end: "runs step c [] c"
| then_run: "step c e c1 \<Longrightarrow> runs step c1 es c2 \<Longrightarrow> runs step c (e # es) c2"

fun spec_runs :: "('a \<Rightarrow> 'e \<Rightarrow> 'a option) \<Rightarrow> 'a \<Rightarrow> 'e list \<Rightarrow> 'a option" where
  "spec_runs f a [] = Some a"
| "spec_runs f a (e # es) = Option.bind (f a e) (\<lambda>b. spec_runs f b es)"

lemma runs_append: "runs step c es c1 \<Longrightarrow> runs step c1 fs c2 \<Longrightarrow> runs step c (es @ fs) c2"
  by (induction rule: runs.induct) (auto intro: runs.intros)

text \<open>The interface: a step relation whose steps keep an invariant and are steps of a specification.\<close>

locale refined_steps =
  fixes step :: "'c \<Rightarrow> 'e \<Rightarrow> 'c \<Rightarrow> bool" and inv :: "'c \<Rightarrow> bool" and abs :: "'c \<Rightarrow> 'a" and spec :: "'a \<Rightarrow> 'e \<Rightarrow> 'a option"
  assumes step_inv: "step c e c' \<Longrightarrow> inv c \<Longrightarrow> inv c'"
    and step_spec: "step c e c' \<Longrightarrow> inv c \<Longrightarrow> spec (abs c) e = Some (abs c')"
begin

lemma runs_inv: "runs step c es c' \<Longrightarrow> inv c \<Longrightarrow> inv c'"
  by (induction rule: runs.induct) (auto dest: step_inv)

lemma runs_spec: "runs step c es c' \<Longrightarrow> inv c \<Longrightarrow> spec_runs spec (abs c) es = Some (abs c')"
  by (induction rule: runs.induct) (auto simp: step_spec dest: step_inv)

end

interpretation ipc: refined_steps ipc_step ipc_inv ipc_abs spec_step
  by unfold_locales (use ipc_step_ok in blast)+

text \<open>The start: every object has been initialised, and no thread is inside a take.\<close>

definition thread_fresh :: "rt_thread \<Rightarrow> bool" where
  "thread_fresh x \<longleftrightarrow> \<not> suspended x \<and> thread_timer x = Inactive \<and> pending_object x = None \<and> taken_object_list x = [] \<and>
     current_priority x = init_priority x \<and> init_priority x < RT_THREAD_PRIORITY_MAX"

definition ipc_start :: "kernel \<Rightarrow> bool" where
  "ipc_start k \<longleftrightarrow> (\<forall>t. thread_fresh (thr k t)) \<and>
     (\<forall>s. \<exists>v flag. sem k s = sem (rt_sem_init s v flag k) s) \<and> (\<forall>m. mtx k m = mtx (rt_mutex_init m k) m)"

lemma start_objects:
  assumes "ipc_start k"
  shows "sem_susp (sem k s) = []" "mtx k m = \<lparr>ceiling_priority = 0xff, mtx_priority = 0xff, hold = 0, mtx_owner = None,
       mtx_flag = RT_IPC_FLAG_PRIO, mtx_susp = []\<rparr>" "thread_fresh (thr k t)"
proof -
  obtain v flag where "sem k s = sem (rt_sem_init s v flag k) s" using assms unfolding ipc_start_def by blast
  then show "sem_susp (sem k s) = []" by (simp add: rt_sem_init_def)
  have "mtx k m = mtx (rt_mutex_init m k) m" using assms unfolding ipc_start_def by blast
  then show "mtx k m = \<lparr>ceiling_priority = 0xff, mtx_priority = 0xff, hold = 0, mtx_owner = None,
       mtx_flag = RT_IPC_FLAG_PRIO, mtx_susp = []\<rparr>" by (simp add: rt_mutex_init_def)
  show "thread_fresh (thr k t)" using assms by (simp add: ipc_start_def)
qed

lemma start_inv:
  assumes s: "ipc_start k"
  shows "ipc_inv (k, \<lambda>_. None)"
proof (rule mtx_inv_parts)
  note o = start_objects [OF s]
  note t = o(3) [unfolded thread_fresh_def]
  show "list_ok k (\<lambda>_. None) l" for l by (cases l) (simp_all add: list_ok_def o(1,2))
  show "\<not> suspended (thr k t)" for t using t by simp
  show "sem_ok (sem k s)" for s by (simp add: sem_ok_def o)
  show "timer_ok (thr k t) None" for t using t [of t] by (simp add: timer_ok_def)
  show "mtx_ok k m" for m by (simp add: mtx_ok_def o(2))
  show "thr_ok k None t" for t using t [of t] by (simp add: thr_ok_def)
  show "prios_ok k" using t by (simp add: prios_ok_def o(2) first_prio_def curr_prio_def owner_prio_def)
qed simp

lemma start_abs: "ipc_start k \<Longrightarrow> ipc_abs (k, \<lambda>_. None) = \<lparr>tokens = \<lambda>s. unat (sem_value (sem k s)), lock = \<lambda>_. None\<rparr>"
  by (auto simp: ipc_abs_def granted_def lock_of_def start_objects(2))

subsection \<open>No call faults\<close>

lemma mtx_take_returns:
  assumes i: "ipc_inv (k, w)" and t: "w t = None"
  shows "\<exists>b k'. u_rt_mutex_take m (- 1) t k = Some (Inr (b, k'))"
proof -
  define k0 where "k0 = upd_thr t (\<lambda>x. x\<lparr>terror := RT_EOK\<rparr>) k"
  note i0 = terror_ok(1) [OF i t, of RT_EOK, folded k0_def]
  have m0: "mtx k0 = mtx k" by (simp add: k0_def)
  show ?thesis
  proof (cases "mtx_owner (mtx k m)")
    case None
    then show ?thesis using inv_prio(2) [OF i0, of m]
      by (simp add: u_rt_mutex_take_def m0 mutex_own_def and_then_def Let_def flip: k0_def)
  next
    case (Some u)
    note s = suspend_eq [OF inv_idle(1,2) [OF i0 t], of "MtxList m" "mtx_flag (mtx k m)"]
    define k1 where "k1 = snd (rt_thread_suspend_to_list t (MtxList m) (mtx_flag (mtx k m)) k0)"
    have k1: "rt_thread_suspend_to_list t (MtxList m) (mtx_flag (mtx k m)) k0 = (RT_EOK, k1)" by (simp add: k1_def s)
    have p: "curr_prio k1 t < RT_THREAD_PRIORITY_MAX" using prio_bound [OF i0, of t] by (simp add: k1_def s curr_prio_def)
    have "u \<noteq> t \<Longrightarrow> pending_object (thr k1 u) = None" using not_pending(2) [OF i0, of m u] Some by (simp add: m0 k1_def s)
    then have "u \<noteq> t \<Longrightarrow> ?thesis" using p Some
      by (simp add: u_rt_mutex_take_def m0 mutex_wait_def k1 and_then_def Let_def curr_prio_def update_prio_eq flip: k0_def)
    then show ?thesis using Some by (cases "u = t") (auto simp: u_rt_mutex_take_def Let_def)
  qed
qed

lemma hand_over_returns:
  assumes i: "ipc_inv (k, w)" and t: "t \<notin> set (mtx_susp (mtx k m))"
  shows "\<exists>k'. mutex_hand_over m
    (upd_thr t (\<lambda>x. x\<lparr>taken_object_list := [], current_priority := init_priority x\<rparr>) (upd_mtx m (\<lambda>x. x\<lparr>hold := 0\<rparr>) k)) = Inr k'"
proof (cases "mtx_susp (mtx k m)")
  case (Cons v vs)
  then show ?thesis using waiter_facts(2,3) [OF i, of v m] t
    by (simp add: mutex_hand_over_def rt_sched_thread_ready_def rt_sched_insert_thread_def)
qed (simp add: mutex_hand_over_def)

lemma mtx_release_returns:
  assumes i: "ipc_inv (k, w)" and t: "w t = None"
  shows "\<exists>e k'. rt_mutex_release m t k = Inr (e, k')"
proof (cases "mtx_owner (mtx k m) = Some t \<and> hold (mtx k m) = 1")
  case True
  then have "mtx_owner (mtx k m) = Some t" "hold (mtx k m) = 1" by auto
  then show ?thesis using check_prio_eq [OF i, of m t 0] hand_over_returns [OF i, of t m] inv_idle(3) [OF i t, of "MtxList m"]
    by (auto simp: rt_mutex_release_def Let_def upd_mtx_def)
next
  case False
  then show ?thesis by (auto simp: rt_mutex_release_def Let_def)
qed

text \<open>The owner of a mutex is at least as urgent as every thread that waits for it.\<close>

lemma owner_urgent:
  assumes i: "ipc_inv (k, w)" and o: "mtx_owner (mtx k m) = Some u" and v: "v \<in> set (mtx_susp (mtx k m))"
  shows "curr_prio k u \<le> curr_prio k v"
proof -
  obtain q qs where q: "mtx_susp (mtx k m) = q # qs" using v by (cases "mtx_susp (mtx k m)") auto
  have "curr_prio k u = min (init_priority (thr k u)) (curr_prio k q)"
    using inv_prio(6) [OF i, of u] owns_iff [OF i, of m u] o q by (simp add: curr_prio_def owner_prio_def first_prio_def)
  moreover have "curr_prio k q \<le> curr_prio k v" using inv_prio(3) [OF i, of m] v q by auto
  ultimately show ?thesis by (auto simp: min_def split: if_splits)
qed

lemma safe_calls:
  assumes i: "ipc_inv (k, w)"
  shows "w t = Some (MtxList m) \<Longrightarrow> \<not> suspended (thr k t) \<Longrightarrow> mutex_resumed m t k = Some (Inr (RT_EOK, k))"
    and "thread_timer (thr k t) = Active \<Longrightarrow> \<exists>k2. thread_timeout t (timer_expires t k) = Inr k2"
    and "v \<in> set (mtx_susp (mtx k m)) \<Longrightarrow> \<exists>u. mtx_owner (mtx k m) = Some u \<and> (\<forall>m'. u \<notin> set (mtx_susp (mtx k m')))"
    and "(\<And>m. mtx_owner (mtx k m) \<noteq> Some t) \<Longrightarrow> curr_prio k t = init_priority (thr k t)"
proof -
  show "w t = Some (MtxList m) \<Longrightarrow> \<not> suspended (thr k t) \<Longrightarrow> mutex_resumed m t k = Some (Inr (RT_EOK, k))"
    using inv_thr [OF i, of t] by (simp add: thr_ok_def mutex_resumed_def)
  show "thread_timer (thr k t) = Active \<Longrightarrow> \<exists>k2. thread_timeout t (timer_expires t k) = Inr k2"
    using inv_timer [OF i, of t] by (auto simp: thread_timeout_def timer_expires_def timer_ok_def)
  show "curr_prio k t = init_priority (thr k t)" if "\<And>m. mtx_owner (mtx k m) \<noteq> Some t"
    using inv_prio(6) [OF i, of t] owns_none [OF i that] by (simp add: curr_prio_def owner_prio_def)
  assume v: "v \<in> set (mtx_susp (mtx k m))"
  then obtain u where u: "mtx_owner (mtx k m) = Some u" using inv_mtx [OF i, of m] by (cases "mtx_owner (mtx k m)") (auto simp: mtx_ok_def)
  then have "taken_object_list (thr k u) = [m]" using owns_iff [OF i] by simp
  then have "u \<notin> set (mtx_susp (mtx k m'))" for m' using waiter_facts(4) [OF i, of u m'] by auto
  then show "\<exists>u. mtx_owner (mtx k m) = Some u \<and> (\<forall>m'. u \<notin> set (mtx_susp (mtx k m')))" using u by blast
qed

subsection \<open>A run\<close>

text \<open>Two threads; the more urgent one waits for the mutex that the other one has, and gets it.\<close>

definition demo_thread :: "u8 \<Rightarrow> rt_thread" where
  "demo_thread p = \<lparr>init_priority = p, current_priority = p, suspended = False, terror = RT_EOK, sched_flag_ttmr_set = False,
     thread_timer = Inactive, pending_object = None, taken_object_list = []\<rparr>"

definition demo :: kernel where
  "demo = \<lparr>thr = \<lambda>t. demo_thread (if t = 1 then 5 else 10),
     sem = \<lambda>_. \<lparr>sem_value = 0, max_value = RT_SEM_VALUE_MAX, sem_flag = RT_IPC_FLAG_FIFO, sem_susp = []\<rparr>,
     mtx = \<lambda>_. \<lparr>ceiling_priority = 0xff, mtx_priority = 0xff, hold = 0, mtx_owner = None, mtx_flag = RT_IPC_FLAG_PRIO, mtx_susp = []\<rparr>\<rparr>"

lemma demo_start: "ipc_start demo"
  by (auto simp: ipc_start_def demo_def demo_thread_def thread_fresh_def RT_THREAD_PRIORITY_MAX_def rt_sem_init_def
      rt_mutex_init_def upd_sem_def upd_mtx_def)

definition demo1 :: kernel where "demo1 = snd (projr (the (u_rt_mutex_take 0 (- 1) 0 demo)))"
definition demo2 :: kernel where "demo2 = snd (projr (the (u_rt_mutex_take 0 (- 1) 1 demo1)))"

lemmas demo_defs = demo_def demo_thread_def u_rt_mutex_take_def mutex_own_def mutex_wait_def and_then_def
  suspend_eq rt_susp_list_enqueue_def curr_prio_def update_prio_eq RT_THREAD_PRIORITY_MAX_def

lemma demo1_eq: "u_rt_mutex_take 0 (- 1) 0 demo = Some (Inr (Returns RT_EOK, demo1))"
  by (simp add: demo1_def demo_defs)

lemma demo2_eq: "u_rt_mutex_take 0 (- 1) 1 demo1 = Some (Inr (Blocks, demo2))"
  unfolding demo2_def demo1_def by (simp add: demo_defs)

lemma demo1_state: "mtx_owner (mtx demo1 m) = (if m = 0 then Some 0 else None)"
  by (simp add: demo1_def demo_defs)

lemma demo2_state: "mtx (demo2) 0 = \<lparr>ceiling_priority = 0xff, mtx_priority = 5, hold = 1, mtx_owner = Some 0,
    mtx_flag = RT_IPC_FLAG_PRIO, mtx_susp = [1]\<rparr>"
  by (simp add: demo2_def demo1_def demo_defs)

lemma demo_waits: "runs ipc_step (demo, \<lambda>_. None) [MtxTook 0 0 RT_EOK, MtxWaits 1 0] (demo2, [1 \<mapsto> MtxList 0])"
proof -
  have "ipc_step (demo, \<lambda>_. None) (MtxTook 0 0 RT_EOK) (demo1, \<lambda>_. None)"
    by (rule mtx_took [OF _ _ demo1_eq]) (simp_all add: demo_def)
  moreover have "ipc_step (demo1, \<lambda>_. None) (MtxWaits 1 0) (demo2, [1 \<mapsto> MtxList 0])"
    by (rule mtx_waits [OF _ _ demo2_eq]) (simp_all add: demo1_state)
  ultimately show ?thesis by (meson runs.intros)
qed

lemma demo_run:
  obtains k w where "runs ipc_step (demo, \<lambda>_. None) [MtxTook 0 0 RT_EOK, MtxWaits 1 0, MtxPut 0 0 RT_EOK, MtxBack 1 0 RT_EOK] (k, w)"
proof -
  let ?w = "[1 \<mapsto> MtxList 0]"
  have i: "ipc_inv (demo2, ?w)" using ipc.runs_inv [OF demo_waits start_inv [OF demo_start]] .
  obtain e k3 where r: "rt_mutex_release 0 0 demo2 = Inr (e, k3)" using mtx_release_returns [OF i, of 0 0] by auto
  then have l: "last_release 0 0 demo2 ?w e k3" using i by (simp add: last_release_def demo2_state)
  note sel = mtx_release_sel [OF l]
  have i3: "ipc_inv (k3, ?w)" by (rule mtx_release_ok(1) [OF l])
  have s3: "\<not> suspended (thr k3 1)" by (simp add: sel(7) demo2_state)
  have "mutex_resumed 0 1 k3 = Some (Inr (RT_EOK, k3))" using inv_thr [OF i3, of 1] s3 by (simp add: thr_ok_def mutex_resumed_def)
  then have "ipc_step (k3, ?w) (MtxBack 1 0 RT_EOK) (k3, ?w(1 := None))" using s3 by (intro mtx_back) simp_all
  moreover have "ipc_step (demo2, ?w) (MtxPut 0 0 RT_EOK) (k3, ?w)" using r sel(1) by (intro mtx_put) simp_all
  ultimately have "runs ipc_step (demo2, ?w) [MtxPut 0 0 RT_EOK, MtxBack 1 0 RT_EOK] (k3, ?w(1 := None))" by (meson runs.intros)
  then show ?thesis using that runs_append [OF demo_waits] by fastforce
qed

subsection \<open>Beyond the runs\<close>

text \<open>Resetting or detaching a semaphore resumes all threads waiting for it; their takes fail.\<close>

definition can_wake :: "kernel \<Rightarrow> nat \<Rightarrow> bool" where
  "can_wake k t \<longleftrightarrow> suspended (thr k t) \<and> (sched_flag_ttmr_set (thr k t) \<longrightarrow> thread_timer (thr k t) = Active)"

lemma dequeue_wakes:
  assumes "get_list l k = t # ts" "distinct (t # ts)" "can_wake k t"
  obtains k1 where "rt_susp_list_dequeue l (PosErr c) k = (Some t, k1)" "get_list l k1 = ts"
    "\<not> suspended (thr k1 t)" "terror (thr k1 t) = PosErr c" "\<And>u. u \<noteq> t \<Longrightarrow> thr k1 u = thr k u"
proof -
  obtain k0 where k0: "rt_sched_thread_ready t k = (RT_EOK, rt_sched_insert_thread t (rt_list_remove t k0))"
    "get_list l k0 = get_list l k" "\<And>u. u \<noteq> t \<Longrightarrow> thr k0 u = thr k u"
    using assms(3) by (cases "sched_flag_ttmr_set (thr k t)"; cases l) (auto simp: rt_sched_thread_ready_def can_wake_def
        rt_sched_thread_timer_stop_def rt_timer_stop_def)
  have "get_list l (rt_list_remove t k0) = ts" using assms(1,2) k0(2) by (cases l) auto
  then have "get_list l (upd_thr t f (rt_sched_insert_thread t (rt_list_remove t k0))) = ts" for f
    by (cases l) (simp_all add: rt_sched_insert_thread_def)
  then show ?thesis using assms(1) k0(1,3)
    by (intro that [of "upd_thr t (\<lambda>x. x\<lparr>terror := PosErr c\<rparr>) (rt_sched_insert_thread t (rt_list_remove t k0))"])
      (simp_all add: rt_susp_list_dequeue_def, simp_all add: rt_sched_insert_thread_def)
qed

lemma resume_loop_wakes:
  assumes "get_list l k = ts" "distinct ts" "\<And>t. t \<in> set ts \<Longrightarrow> can_wake k t"
  shows "get_list l (resume_loop (length ts) l (PosErr c) k) = [] \<and>
    (\<forall>t. if t \<in> set ts then \<not> suspended (thr (resume_loop (length ts) l (PosErr c) k) t) \<and>
        terror (thr (resume_loop (length ts) l (PosErr c) k) t) = PosErr c
      else thr (resume_loop (length ts) l (PosErr c) k) t = thr k t)"
  using assms
proof (induction ts arbitrary: k)
  case (Cons t ts)
  obtain k1 where k1: "rt_susp_list_dequeue l (PosErr c) k = (Some t, k1)" "get_list l k1 = ts"
    "\<not> suspended (thr k1 t)" "terror (thr k1 t) = PosErr c" "\<And>u. u \<noteq> t \<Longrightarrow> thr k1 u = thr k u"
    using Cons.prems dequeue_wakes [of l k t ts c] by auto
  have "can_wake k1 u" if "u \<in> set ts" for u 
  proof -
    have "u \<noteq> t" using Cons.prems(2) that by auto
    then show ?thesis using Cons.prems(3) [of u] that k1(5) [of u] by (simp add: can_wake_def)
  qed
  then show ?case using Cons.IH [OF k1(2)] Cons.prems k1 by (auto split: if_splits)
qed simp

lemma sem_reset_wakes:
  assumes i: "ipc_inv (k, w)" and k': "k' = snd (rt_sem_detach s k)"
  shows "sem_susp (sem k' s) = []" "t \<in> set (sem_susp (sem k s)) \<Longrightarrow> \<not> suspended (thr k' t) \<and> sem_resumed t k' = NegErr E_ERROR"
proof -
  have "can_wake k t" if "t \<in> set (sem_susp (sem k s))" for t
    using inv_mem [OF i, of t "SemList s"] inv_timer [OF i, of t] that by (auto simp: can_wake_def timer_ok_def)
  note r = resume_loop_wakes [of "SemList s" k, OF refl inv_distinct [OF i], simplified, OF this, of E_ERROR]
  show "sem_susp (sem k' s) = []" using r by (simp add: k' rt_sem_detach_def rt_susp_list_resume_all_def)
  show "t \<in> set (sem_susp (sem k s)) \<Longrightarrow> \<not> suspended (thr k' t) \<and> sem_resumed t k' = NegErr E_ERROR"
    using r by (auto simp: k' rt_sem_detach_def rt_susp_list_resume_all_def sem_resumed_def negative_def split: if_splits)
qed

text \<open>
  Between the timer interrupt's taking the timer of a waiting thread off its list and the call of
  \<open>_thread_timeout\<close> interrupts are on. A release in that gap reports success, but the token
  is in neither the counter nor the hands of a thread: the take ends with a timeout.
\<close>

lemma sem_release_lost:
  assumes t: "sem_susp (sem k s) = [t]" "\<And>s'. s' \<noteq> s \<Longrightarrow> t \<notin> set (sem_susp (sem k s'))"
    "suspended (thr k t)" "sched_flag_ttmr_set (thr k t)"
    and r: "rt_sem_release s (timer_expires t k) = (e, k1)" and o: "thread_timeout t k1 = Inr k2"
  shows "e = RT_EOK \<and> sem_value (sem k2 s) = sem_value (sem k s) \<and> sem_susp (sem k2 s) = [] \<and> sem_resumed t k2 = NegErr E_TIMEOUT"
  using assms by (auto simp: rt_sem_release_def rt_susp_list_dequeue_def rt_sched_thread_ready_def timer_expires_def
      rt_sched_thread_timer_stop_def rt_timer_stop_def thread_timeout_def rt_sched_insert_thread_def sem_resumed_def negative_def)

text \<open>A thread waits with a limit of ten ticks, which run out while the semaphore is released.\<close>

lemma sem_release_lost_run:
  "\<exists>k1 k2. rt_sem_release 0 (timer_expires 1 (snd (u_rt_sem_take 0 10 1 demo))) = (RT_EOK, k1) \<and> thread_timeout 1 k1 = Inr k2 \<and>
     sem_value (sem k2 0) = 0 \<and> sem_susp (sem k2 0) = [] \<and> sem_resumed 1 k2 = NegErr E_TIMEOUT"
  by (simp add: u_rt_sem_take_def demo_def demo_thread_def suspend_eq rt_susp_list_enqueue_def rt_timer_start_def
      rt_sem_release_def rt_susp_list_dequeue_def rt_sched_thread_ready_def timer_expires_def rt_sched_thread_timer_stop_def
      rt_timer_stop_def thread_timeout_def rt_sched_insert_thread_def sem_resumed_def negative_def)

text \<open>The mutex of the arm's threads (\<open>Stepper\<close>) is the lock of the specification.\<close>

lemma arm_mutex_is_lock:
  "mutex_take t st = map_option (\<lambda>l. st\<lparr>mutex_step := l\<rparr>) (lock_take t (mutex_step st))"
  "mutex_release t st = st\<lparr>mutex_step := lock_release t (mutex_step st)\<rparr>"
  by (auto simp: mutex_take_def lock_take_def mutex_release_def lock_release_def split: option.split)

subsection \<open>The properties\<close>





end
