(* ===== verification/Servo.thy ===== *)
theory Servo
  imports Bytes Apid
begin

section \<open>The bus servo of the gripper (FasionStar/fashion_star_uart_servo.c)\<close>

text \<open>
  The servo is spoken to in frames: two header bytes, a command number, the length of the
  content, the content and the sum of all bytes before. Sending fills \<open>tx_buf\<close> and writes it to
  the serial device; receiving is a state machine over single bytes that waits for the
  semaphore of the receive interrupt when the device has no byte left.

  The record \<open>servo_t\<close> holds, beside \<open>tx_buf\<close>, the state of the device and of the kernel objects
  the functions use: the unread bytes, the semaphore, what arrives while a thread waits for it
  (\<open>None\<close>: nothing for 100 ms; \<open>Some (bs, k)\<close>: bytes \<open>bs\<close> and \<open>k + 1\<close> interrupts), how often the
  calling thread holds the mutex, whether the next attempts to take it fail because another
  thread has it, and the frames written. Two things come from the stack: the variable
  \<open>checksum\<close> of \<open>FSUS_CalcChecksum\<close>, which is used without having been set (\<open>fs_stack\<close> has
  the values it happens to have), and the bytes of a package nothing has been received into
  (\<open>fs_junk\<close>). Floats are reals with the roundings \<open>fl\<close> (single) and \<open>fd\<close> (double).
\<close>

subsection \<open>Constants\<close>

definition FSUS_PACK_RESPONSE_MAX_SIZE :: nat where "FSUS_PACK_RESPONSE_MAX_SIZE = 50"
definition FSUS_PACK_REQUEST_HEADER :: u16 where "FSUS_PACK_REQUEST_HEADER = 0x4c12"
definition FSUS_PACK_RESPONSE_HEADER :: u16 where "FSUS_PACK_RESPONSE_HEADER = 0x1c05"
definition FSUS_CMD_NUM :: u8 where "FSUS_CMD_NUM = 17"
definition FSUS_CMD_PING :: u8 where "FSUS_CMD_PING = 1"
definition FSUS_CMD_RESET_USER_DATA :: u8 where "FSUS_CMD_RESET_USER_DATA = 2"
definition FSUS_CMD_READ_DATA :: u8 where "FSUS_CMD_READ_DATA = 3"
definition FSUS_CMD_WRITE_DATA :: u8 where "FSUS_CMD_WRITE_DATA = 4"
definition FSUS_CMD_SPIN :: u8 where "FSUS_CMD_SPIN = 7"
definition FSUS_CMD_ROTATE :: u8 where "FSUS_CMD_ROTATE = 8"
definition FSUS_CMD_DAMPING :: u8 where "FSUS_CMD_DAMPING = 9"
definition FSUS_CMD_READ_ANGLE :: u8 where "FSUS_CMD_READ_ANGLE = 10"
definition FSUS_CMD_SET_SERVO_ANGLE_BY_INTERVAL :: u8 where "FSUS_CMD_SET_SERVO_ANGLE_BY_INTERVAL = 11"
definition FSUS_CMD_SET_SERVO_ANGLE_BY_VELOCITY :: u8 where "FSUS_CMD_SET_SERVO_ANGLE_BY_VELOCITY = 12"
definition FSUS_CMD_SET_SERVO_ANGLE_MTURN :: u8 where "FSUS_CMD_SET_SERVO_ANGLE_MTURN = 13"
definition FSUS_CMD_SET_SERVO_ANGLE_MTURN_BY_INTERVAL :: u8 where "FSUS_CMD_SET_SERVO_ANGLE_MTURN_BY_INTERVAL = 14"
definition FSUS_CMD_SET_SERVO_ANGLE_MTURN_BY_VELOCITY :: u8 where "FSUS_CMD_SET_SERVO_ANGLE_MTURN_BY_VELOCITY = 15"
definition FSUS_CMD_QUERY_SERVO_ANGLE_MTURN :: u8 where "FSUS_CMD_QUERY_SERVO_ANGLE_MTURN = 16"
definition FSUS_STATUS_SUCCESS :: u8 where "FSUS_STATUS_SUCCESS = 0"
definition FSUS_STATUS_FAIL :: u8 where "FSUS_STATUS_FAIL = 1"
definition FSUS_STATUS_TIMEOUT :: u8 where "FSUS_STATUS_TIMEOUT = 2"
definition FSUS_STATUS_WRONG_RESPONSE_HEADER :: u8 where "FSUS_STATUS_WRONG_RESPONSE_HEADER = 3"
definition FSUS_STATUS_UNKOWN_CMD_ID :: u8 where "FSUS_STATUS_UNKOWN_CMD_ID = 4"
definition FSUS_STATUS_SIZE_TOO_BIG :: u8 where "FSUS_STATUS_SIZE_TOO_BIG = 5"
definition FSUS_STATUS_CHECKSUM_ERROR :: u8 where "FSUS_STATUS_CHECKSUM_ERROR = 6"
definition FSUS_STATUS_ID_NOT_MATCH :: u8 where "FSUS_STATUS_ID_NOT_MATCH = 7"
definition FSUS_RECV_FLAG_HEADER :: u8 where "FSUS_RECV_FLAG_HEADER = 1"
definition FSUS_RECV_FLAG_CMD_ID :: u8 where "FSUS_RECV_FLAG_CMD_ID = 2"
definition FSUS_RECV_FLAG_SIZE :: u8 where "FSUS_RECV_FLAG_SIZE = 4"
definition FSUS_RECV_FLAG_CONTENT :: u8 where "FSUS_RECV_FLAG_CONTENT = 8"
definition FSUS_RECV_FLAG_CHECKSUM :: u8 where "FSUS_RECV_FLAG_CHECKSUM = 16"
definition FSUS_ANGLE_DEADAREA :: real where "FSUS_ANGLE_DEADAREA = 1"
definition FSUS_WAIT_COUNT_MAX :: nat where "FSUS_WAIT_COUNT_MAX = 10000"

lemmas fs_codes = FSUS_STATUS_SUCCESS_def FSUS_STATUS_FAIL_def FSUS_STATUS_TIMEOUT_def
  FSUS_STATUS_WRONG_RESPONSE_HEADER_def FSUS_STATUS_UNKOWN_CMD_ID_def FSUS_STATUS_SIZE_TOO_BIG_def
  FSUS_STATUS_CHECKSUM_ERROR_def FSUS_STATUS_ID_NOT_MATCH_def
lemmas fs_flags = FSUS_RECV_FLAG_HEADER_def FSUS_RECV_FLAG_CMD_ID_def FSUS_RECV_FLAG_SIZE_def
  FSUS_RECV_FLAG_CONTENT_def FSUS_RECV_FLAG_CHECKSUM_def
lemmas fs_headers = FSUS_PACK_REQUEST_HEADER_def FSUS_PACK_RESPONSE_HEADER_def

subsection \<open>Data\<close>

record PackageTypeDef =
  pk_header :: u16
  pk_cmdId :: u8
  pk_size :: u8
  pk_content :: "u8 list"
  pk_checksum :: u8
  pk_status :: u8

record servo_t =
  fs_rx :: "u8 list"
  rx_sem :: nat
  fs_arrivals :: "(u8 list \<times> nat) option list"
  fs_held :: nat
  fs_refused :: "bool list"
  fs_stack :: "u8 list"
  fs_junk :: PackageTypeDef
  tx_buf :: "u8 list"
  fs_sent :: "u8 list list"

subsection \<open>Frames\<close>

text \<open>\<open>g\<close> is the value of \<open>checksum\<close> before its first use.\<close>

definition FSUS_CalcChecksum :: "u8 \<Rightarrow> PackageTypeDef \<Rightarrow> u8 res" where
  "FSUS_CalcChecksum g pkg =
     (if unat (pk_size pkg) \<le> length (pk_content pkg) then
        Inr (fold (\<lambda>b c. c + b) (take (unat (pk_size pkg)) (pk_content pkg))
          (g + lo16 (pk_header pkg) + hi16 (pk_header pkg) + pk_cmdId pkg + pk_size pkg))
      else Inl OutOfBounds)"

definition FSUS_IsValidResponsePackage :: "u8 \<Rightarrow> PackageTypeDef \<Rightarrow> u8 res" where
  "FSUS_IsValidResponsePackage g pkg =
     (if pk_header pkg \<noteq> FSUS_PACK_RESPONSE_HEADER then Inr FSUS_STATUS_WRONG_RESPONSE_HEADER
      else if pk_cmdId pkg > FSUS_CMD_NUM then Inr FSUS_STATUS_UNKOWN_CMD_ID
      else if unat (pk_size pkg) > FSUS_PACK_RESPONSE_MAX_SIZE - 5 then Inr FSUS_STATUS_SIZE_TOO_BIG
      else bind_res (FSUS_CalcChecksum g pkg) (\<lambda>c.
        Inr (if c \<noteq> pk_checksum pkg then FSUS_STATUS_CHECKSUM_ERROR else FSUS_STATUS_SUCCESS)))"

text \<open>The next value an unset byte of the stack has.\<close>

definition stack_byte :: "servo_t \<Rightarrow> u8 \<times> servo_t" where
  "stack_byte st = (case fs_stack st of [] \<Rightarrow> (0, st) | g # gs \<Rightarrow> (g, st\<lparr>fs_stack := gs\<rparr>))"

definition FSUS_UART_Send :: "servo_t \<Rightarrow> PackageTypeDef \<Rightarrow> servo_t res" where
  "FSUS_UART_Send st pkg =
     (let n = unat (pk_size pkg) in
      bind_res (memcpy (tx_buf st) 0 [lo16 (pk_header pkg), hi16 (pk_header pkg)] 0 2) (\<lambda>t1.
      bind_res (memcpy t1 2 [pk_cmdId pkg] 0 1) (\<lambda>t2.
      bind_res (memcpy t2 3 [pk_size pkg] 0 1) (\<lambda>t3.
      bind_res (memcpy t3 4 (pk_content pkg) 0 n) (\<lambda>t4.
      bind_res (memcpy t4 (4 + n) [pk_checksum pkg] 0 1) (\<lambda>t5.
      Inr (st\<lparr>tx_buf := t5, fs_sent := fs_sent st @ [take (n + 5) t5]\<rparr>)))))))"

definition FSUS_SendPackage :: "servo_t \<Rightarrow> u8 \<Rightarrow> u8 \<Rightarrow> u8 list \<Rightarrow> servo_t res" where
  "FSUS_SendPackage st cmdId n content =
     (let pkg = (fs_junk st)\<lparr>pk_header := FSUS_PACK_REQUEST_HEADER, pk_cmdId := cmdId, pk_size := n\<rparr>;
          (g, st1) = stack_byte st
      in bind_res (memcpy (pk_content pkg) 0 content 0 (unat n)) (\<lambda>c.
         let pkg1 = pkg\<lparr>pk_content := c\<rparr> in
         bind_res (FSUS_CalcChecksum g pkg1) (\<lambda>checksum.
         FSUS_UART_Send st1 (pkg1\<lparr>pk_checksum := checksum\<rparr>))))"

subsection \<open>Receiving\<close>

record recv =
  rc_pkg :: PackageTypeDef
  rc_bIdx :: u8
  rc_header :: u16

definition has :: "u8 \<Rightarrow> recv \<Rightarrow> bool" where
  "has f r \<longleftrightarrow> pk_status (rc_pkg r) AND f \<noteq> 0"

definition set_flag :: "u8 \<Rightarrow> PackageTypeDef \<Rightarrow> PackageTypeDef" where
  "set_flag f p = p\<lparr>pk_status := pk_status p OR f\<rparr>"

text \<open>
  The body of the loop of \<open>FSUS_RecvPackage\<close> on one byte: the status to return, or \<open>None\<close> to go
  on, and the variables after it.
\<close>

definition recv_byte :: "u8 \<Rightarrow> u8 \<Rightarrow> recv \<Rightarrow> (u8 option \<times> recv) res" where
  "recv_byte g tmpdata r =
     (let p = rc_pkg r in
      if has FSUS_RECV_FLAG_CONTENT r then
        let p1 = set_flag FSUS_RECV_FLAG_CHECKSUM (p\<lparr>pk_checksum := tmpdata\<rparr>) in
        bind_res (FSUS_CalcChecksum g p1) (\<lambda>c.
          Inr (Some (if c \<noteq> pk_checksum p1 then FSUS_STATUS_CHECKSUM_ERROR else FSUS_STATUS_SUCCESS),
               r\<lparr>rc_pkg := p1\<rparr>))
      else if has FSUS_RECV_FLAG_SIZE r then
        if unat (rc_bIdx r) < length (pk_content p) then
          let p1 = p\<lparr>pk_content := (pk_content p)[unat (rc_bIdx r) := tmpdata]\<rparr>;
              i = rc_bIdx r + 1;
              p2 = (if i = pk_size p1 then set_flag FSUS_RECV_FLAG_CONTENT p1 else p1)
          in Inr (None, r\<lparr>rc_pkg := p2, rc_bIdx := i\<rparr>)
        else Inl OutOfBounds
      else if has FSUS_RECV_FLAG_CMD_ID r then
        let p1 = p\<lparr>pk_size := tmpdata\<rparr> in
        if unat (pk_size p1) > FSUS_PACK_RESPONSE_MAX_SIZE - 5
        then Inr (Some FSUS_STATUS_SIZE_TOO_BIG, r\<lparr>rc_pkg := p1\<rparr>)
        else Inr (None, r\<lparr>rc_pkg := set_flag FSUS_RECV_FLAG_SIZE p1\<rparr>)
      else if has FSUS_RECV_FLAG_HEADER r then
        let p1 = p\<lparr>pk_cmdId := tmpdata\<rparr> in
        if pk_cmdId p1 > FSUS_CMD_NUM
        then Inr (Some FSUS_STATUS_UNKOWN_CMD_ID, r\<lparr>rc_pkg := p1\<rparr>)
        else Inr (None, r\<lparr>rc_pkg := set_flag FSUS_RECV_FLAG_CMD_ID p1\<rparr>)
      else if rc_header r = 0 then
        let h = ucast tmpdata in
        Inr (None, r\<lparr>rc_header := if h \<noteq> FSUS_PACK_RESPONSE_HEADER AND 0x0F then 0 else h\<rparr>)
      else if rc_header r = FSUS_PACK_RESPONSE_HEADER AND 0x0F then
        let h = rc_header r OR push_bit 8 (ucast tmpdata) in
        if h \<noteq> FSUS_PACK_RESPONSE_HEADER then Inr (None, r\<lparr>rc_header := 0\<rparr>)
        else Inr (None, r\<lparr>rc_header := h, rc_pkg := set_flag FSUS_RECV_FLAG_HEADER (p\<lparr>pk_header := h\<rparr>)\<rparr>)
      else Inr (None, r\<lparr>rc_header := 0\<rparr>))"

definition FSUS_uart_receive_callback1 :: "servo_t \<Rightarrow> servo_t" where
  "FSUS_uart_receive_callback1 st = st\<lparr>rx_sem := rx_sem st + 1\<rparr>"

text \<open>
  The loop. Waiting for the semaphore takes it when it has been released before; otherwise it
  depends on what arrives.
\<close>

function recv_loop :: "u8 \<Rightarrow> recv \<Rightarrow> servo_t \<Rightarrow> (u8 \<times> PackageTypeDef \<times> servo_t) res" where
  "recv_loop g r st =
     (case fs_rx st of
        b # bs \<Rightarrow>
          (case recv_byte g b r of
             Inl e \<Rightarrow> Inl e
           | Inr (Some c, r') \<Rightarrow> Inr (c, rc_pkg r', st\<lparr>fs_rx := bs\<rparr>)
           | Inr (None, r') \<Rightarrow> recv_loop g r' (st\<lparr>fs_rx := bs\<rparr>))
      | [] \<Rightarrow>
          if rx_sem st > 0 then recv_loop g r (st\<lparr>rx_sem := rx_sem st - 1\<rparr>)
          else (case fs_arrivals st of
                  [] \<Rightarrow> Inr (FSUS_STATUS_TIMEOUT, rc_pkg r, st)
                | None # as \<Rightarrow> Inr (FSUS_STATUS_TIMEOUT, rc_pkg r, st\<lparr>fs_arrivals := as\<rparr>)
                | Some (bs, k) # as \<Rightarrow>
                    recv_loop g r (st\<lparr>fs_rx := bs, rx_sem := k, fs_arrivals := as\<rparr>)))"
  by pat_completeness auto
termination
  by (relation "measure (\<lambda>(g, r, st). length (fs_rx st) + rx_sem st +
        sum_list (map (\<lambda>a. case a of None \<Rightarrow> 1 | Some (bs, k) \<Rightarrow> length bs + k + 1) (fs_arrivals st)))")
    auto

declare recv_loop.simps [simp del]

definition FSUS_RecvPackage :: "servo_t \<Rightarrow> (u8 \<times> PackageTypeDef \<times> servo_t) res" where
  "FSUS_RecvPackage st =
     (let (g, st1) = stack_byte st in
      recv_loop g \<lparr>rc_pkg = (fs_junk st)\<lparr>pk_status := 0\<rparr>, rc_bIdx = 0, rc_header = 0\<rparr> st1)"

subsection \<open>The mutex\<close>

definition fs_take :: "servo_t \<Rightarrow> bool \<times> servo_t" where
  "fs_take st =
     (if fs_held st > 0 then (True, st\<lparr>fs_held := fs_held st + 1\<rparr>)
      else (case fs_refused st of
              [] \<Rightarrow> (True, st\<lparr>fs_held := 1\<rparr>)
            | f # fs \<Rightarrow> if f then (False, st\<lparr>fs_refused := fs\<rparr>) else (True, st\<lparr>fs_held := 1, fs_refused := fs\<rparr>)))"

definition fs_release :: "servo_t \<Rightarrow> servo_t" where
  "fs_release st = st\<lparr>fs_held := fs_held st - 1\<rparr>"

text \<open>The two patterns of the operations: send under the mutex, and send and receive under it.\<close>

definition request :: "servo_t \<Rightarrow> u8 \<Rightarrow> u8 list \<Rightarrow> (u8 \<times> servo_t) res" where
  "request st cmd content =
     (let (ok, st1) = fs_take st in
      if \<not> ok then Inr (FSUS_STATUS_TIMEOUT, st1)
      else bind_res (FSUS_SendPackage st1 cmd (of_nat (length content)) content) (\<lambda>st2.
        Inr (FSUS_STATUS_SUCCESS, fs_release st2)))"

definition ask :: "servo_t \<Rightarrow> u8 \<Rightarrow> u8 list \<Rightarrow> (u8 \<times> PackageTypeDef \<times> servo_t) res" where
  "ask st cmd content =
     (let (ok, st1) = fs_take st in
      if \<not> ok then Inr (FSUS_STATUS_TIMEOUT, fs_junk st1, st1)
      else bind_res (FSUS_SendPackage st1 cmd (of_nat (length content)) content) (\<lambda>st2.
        bind_res (FSUS_RecvPackage st2) (\<lambda>(c, p, st3). Inr (c, p, fs_release st3))))"

subsection \<open>Operations with an answer\<close>

definition FSUS_Ping :: "servo_t \<Rightarrow> u8 \<Rightarrow> (u8 \<times> servo_t) res" where
  "FSUS_Ping st servo_id =
     bind_res (ask st FSUS_CMD_PING [servo_id]) (\<lambda>(c, p, st1).
       Inr (if c = FSUS_STATUS_SUCCESS \<and> pk_content p ! 0 \<noteq> servo_id then FSUS_STATUS_ID_NOT_MATCH else c, st1))"

definition FSUS_ResetUserData :: "servo_t \<Rightarrow> u8 \<Rightarrow> (u8 \<times> servo_t) res" where
  "FSUS_ResetUserData st servo_id =
     bind_res (ask st FSUS_CMD_RESET_USER_DATA [servo_id]) (\<lambda>(c, p, st1).
       Inr (if c = FSUS_STATUS_SUCCESS
            then if pk_content p ! 1 = 1 then FSUS_STATUS_SUCCESS else FSUS_STATUS_FAIL
            else c, st1))"

text \<open>
  Reading and writing parameters do not take the mutex. \<open>value\<close> is the caller's array; the
  length of the answer less two is a byte, so it wraps for an answer of one byte.
\<close>

definition FSUS_ReadData :: "servo_t \<Rightarrow> u8 \<Rightarrow> u8 \<Rightarrow> u8 list \<Rightarrow> u8 \<Rightarrow> (u8 \<times> u8 list \<times> u8 \<times> servo_t) res" where
  "FSUS_ReadData st servo_id address value n =
     bind_res (FSUS_SendPackage st FSUS_CMD_READ_DATA 2 [servo_id, address]) (\<lambda>st1.
     bind_res (FSUS_RecvPackage st1) (\<lambda>(c, p, st2).
       if c = FSUS_STATUS_SUCCESS
       then bind_res (memcpy value 0 (pk_content p) 2 (unat (pk_size p - 2))) (\<lambda>v. Inr (c, v, pk_size p - 2, st2))
       else Inr (c, value, n, st2)))"

definition FSUS_WriteData :: "servo_t \<Rightarrow> u8 \<Rightarrow> u8 \<Rightarrow> u8 list \<Rightarrow> u8 \<Rightarrow> (u8 \<times> servo_t) res" where
  "FSUS_WriteData st servo_id address value n =
     bind_res (memcpy (servo_id # address # replicate (unat n) 0) 2 value 0 (unat n)) (\<lambda>buffer.
     bind_res (FSUS_SendPackage st FSUS_CMD_WRITE_DATA (n + 2) buffer) (\<lambda>st1.
     bind_res (FSUS_RecvPackage st1) (\<lambda>(c, p, st2).
       Inr (if c = FSUS_STATUS_SUCCESS
            then if pk_content p ! 2 = 1 then FSUS_STATUS_SUCCESS else FSUS_STATUS_FAIL
            else c, st2))))"

text \<open>The angle is written through a pointer: \<open>None\<close> when it is not.\<close>

definition FSUS_QueryServoAngle :: "rounding \<Rightarrow> rounding \<Rightarrow> servo_t \<Rightarrow> u8 \<Rightarrow> (u8 \<times> real option \<times> servo_t) res" where
  "FSUS_QueryServoAngle fl fd st servo_id =
     bind_res (ask st FSUS_CMD_READ_ANGLE [servo_id]) (\<lambda>(c, p, st1).
       if c = FSUS_STATUS_SUCCESS then
         if pk_content p ! 0 \<noteq> servo_id then Inr (FSUS_STATUS_ID_NOT_MATCH, None, st1)
         else Inr (c, Some (fl (fd (of_int (sint (join16 (pk_content p ! 2) (pk_content p ! 1))) / 10))), st1)
       else Inr (c, None, st1))"

text \<open>The multi-turn query returns from the mismatch before it releases the mutex.\<close>

definition FSUS_QueryServoAngleMTurn :: "rounding \<Rightarrow> rounding \<Rightarrow> servo_t \<Rightarrow> u8 \<Rightarrow> (u8 \<times> real option \<times> servo_t) res" where
  "FSUS_QueryServoAngleMTurn fl fd st servo_id =
     (let (ok, st1) = fs_take st in
      if \<not> ok then Inr (FSUS_STATUS_TIMEOUT, None, st1)
      else bind_res (FSUS_SendPackage st1 FSUS_CMD_QUERY_SERVO_ANGLE_MTURN 1 [servo_id]) (\<lambda>st2.
        bind_res (FSUS_RecvPackage st2) (\<lambda>(c, p, st3).
          if c = FSUS_STATUS_SUCCESS then
            if pk_content p ! 0 \<noteq> servo_id then Inr (FSUS_STATUS_ID_NOT_MATCH, None, st3)
            else Inr (c, Some (fl (fd (of_int (sint (join32 (pk_content p ! 4) (pk_content p ! 3)
                   (pk_content p ! 2) (pk_content p ! 1))) / 10))), fs_release st3)
          else Inr (c, None, fs_release st3))))"

subsection \<open>Waiting for an angle\<close>

text \<open>
  \<open>left\<close> counts down from 10000, the number of queries after which the function gives up.
  \<open>angle_read\<close> keeps its value, at first that of the stack, when a query fails.
\<close>

primrec wait_loop :: "rounding \<Rightarrow> rounding \<Rightarrow> u8 \<Rightarrow> real \<Rightarrow> bool \<Rightarrow> nat \<Rightarrow> real \<Rightarrow> servo_t \<Rightarrow> (u8 \<times> servo_t) res" where
  "wait_loop fl fd servo_id target_angle is_mturn 0 angle_read st = Inr (FSUS_STATUS_FAIL, st)"
| "wait_loop fl fd servo_id target_angle is_mturn (Suc left) angle_read st =
     bind_res (if is_mturn then FSUS_QueryServoAngleMTurn fl fd st servo_id else FSUS_QueryServoAngle fl fd st servo_id)
       (\<lambda>(c, a, st1).
         let angle = (case a of None \<Rightarrow> angle_read | Some v \<Rightarrow> v) in
         if \<bar>fl (target_angle - angle)\<bar> \<le> FSUS_ANGLE_DEADAREA then Inr (FSUS_STATUS_SUCCESS, st1)
         else wait_loop fl fd servo_id target_angle is_mturn left angle st1)"

definition FSUS_Wait :: "rounding \<Rightarrow> rounding \<Rightarrow> real \<Rightarrow> servo_t \<Rightarrow> u8 \<Rightarrow> real \<Rightarrow> bool \<Rightarrow> (u8 \<times> servo_t) res" where
  "FSUS_Wait fl fd junk st servo_id target_angle is_mturn =
     wait_loop fl fd servo_id target_angle is_mturn FSUS_WAIT_COUNT_MAX junk st"

definition then_wait ::
    "rounding \<Rightarrow> rounding \<Rightarrow> real \<Rightarrow> u8 \<Rightarrow> real \<Rightarrow> bool \<Rightarrow> bool \<Rightarrow> (u8 \<times> servo_t) res \<Rightarrow> (u8 \<times> servo_t) res" where
  "then_wait fl fd junk servo_id angle is_mturn wait m =
     bind_res m (\<lambda>(c, st).
       if c \<noteq> FSUS_STATUS_SUCCESS then Inr (c, st)
       else if wait then FSUS_Wait fl fd junk st servo_id angle is_mturn else Inr (FSUS_STATUS_SUCCESS, st))"

subsection \<open>Wheel mode\<close>

definition FSUS_WheelMove :: "servo_t \<Rightarrow> u8 \<Rightarrow> u8 \<Rightarrow> u16 \<Rightarrow> u16 \<Rightarrow> (u8 \<times> servo_t) res" where
  "FSUS_WheelMove st servo_id method speed value =
     request st FSUS_CMD_SPIN [servo_id, method, lo16 speed, hi16 speed, lo16 value, hi16 value]"

definition FSUS_WheelStop :: "servo_t \<Rightarrow> u8 \<Rightarrow> (u8 \<times> servo_t) res" where
  "FSUS_WheelStop st servo_id = FSUS_WheelMove st servo_id 0 0 0"

definition wheel_method :: "u8 \<Rightarrow> bool \<Rightarrow> u8" where
  "wheel_method method is_cw = (if is_cw then method OR 0x80 else method)"

definition FSUS_WheelKeepMove :: "servo_t \<Rightarrow> u8 \<Rightarrow> bool \<Rightarrow> u16 \<Rightarrow> (u8 \<times> servo_t) res" where
  "FSUS_WheelKeepMove st servo_id is_cw speed = FSUS_WheelMove st servo_id (wheel_method 1 is_cw) speed 0"

definition FSUS_WheelMoveTime :: "servo_t \<Rightarrow> u8 \<Rightarrow> bool \<Rightarrow> u16 \<Rightarrow> u16 \<Rightarrow> (u8 \<times> servo_t) res" where
  "FSUS_WheelMoveTime st servo_id is_cw speed nTime = FSUS_WheelMove st servo_id (wheel_method 3 is_cw) speed nTime"

definition FSUS_WheelMoveNCircle :: "servo_t \<Rightarrow> u8 \<Rightarrow> bool \<Rightarrow> u16 \<Rightarrow> u16 \<Rightarrow> (u8 \<times> servo_t) res" where
  "FSUS_WheelMoveNCircle st servo_id is_cw speed nCircle = FSUS_WheelMove st servo_id (wheel_method 2 is_cw) speed nCircle"

subsection \<open>Angles\<close>

text \<open>Conversions truncate; a value that does not fit is undefined behaviour.\<close>

definition float_int16 :: "real \<Rightarrow> u16 res" where
  "float_int16 x = (if - (2 ^ 15) \<le> trunc x \<and> trunc x < 2 ^ 15 then Inr (word_of_int (trunc x)) else Inl BadConversion)"

definition float_uint16 :: "real \<Rightarrow> u16 res" where
  "float_uint16 x = (if 0 \<le> trunc x \<and> trunc x < 2 ^ 16 then Inr (word_of_int (trunc x)) else Inl BadConversion)"

definition float_int32 :: "real \<Rightarrow> u32 res" where
  "float_int32 x = (if - (2 ^ 31) \<le> trunc x \<and> trunc x < 2 ^ 31 then Inr (word_of_int (trunc x)) else Inl BadConversion)"

definition limit :: "real \<Rightarrow> real \<Rightarrow> real \<Rightarrow> real" where
  "limit lo hi x = (if x > hi then hi else if x < lo then lo else x)"

definition limit_velocity :: "real \<Rightarrow> real" where
  "limit_velocity v = (if v < 1 then 1 else if v > 750 then 750 else v)"

definition at_least_20 :: "u16 \<Rightarrow> u16" where
  "at_least_20 t = (if t < 20 then 20 else t)"

definition FSUS_SetServoAngle ::
    "rounding \<Rightarrow> rounding \<Rightarrow> real \<Rightarrow> servo_t \<Rightarrow> u8 \<Rightarrow> real \<Rightarrow> u16 \<Rightarrow> u16 \<Rightarrow> bool \<Rightarrow> (u8 \<times> servo_t) res" where
  "FSUS_SetServoAngle fl fd junk st servo_id angle0 interval pwr wait =
     (let angle = limit (- 180) 180 angle0 in
      bind_res (float_int16 (fl (10 * angle))) (\<lambda>a.
      then_wait fl fd junk servo_id angle False wait
        (request st FSUS_CMD_ROTATE [servo_id, lo16 a, hi16 a, lo16 interval, hi16 interval, lo16 pwr, hi16 pwr])))"

definition FSUS_SetServoAngleByInterval ::
    "rounding \<Rightarrow> rounding \<Rightarrow> real \<Rightarrow> servo_t \<Rightarrow> u8 \<Rightarrow> real \<Rightarrow> u16 \<Rightarrow> u16 \<Rightarrow> u16 \<Rightarrow> u16 \<Rightarrow> bool \<Rightarrow> (u8 \<times> servo_t) res" where
  "FSUS_SetServoAngleByInterval fl fd junk st servo_id angle0 interval t_acc0 t_dec0 pwr wait =
     (let angle = limit (- 180) 180 angle0; t_acc = at_least_20 t_acc0; t_dec = at_least_20 t_dec0 in
      bind_res (float_int16 (fl (10 * angle))) (\<lambda>a.
      then_wait fl fd junk servo_id angle False wait
        (request st FSUS_CMD_SET_SERVO_ANGLE_BY_INTERVAL [servo_id, lo16 a, hi16 a, lo16 interval, hi16 interval,
           lo16 t_acc, hi16 t_acc, lo16 t_dec, hi16 t_dec, lo16 pwr, hi16 pwr])))"

definition FSUS_SetServoAngleByVelocity ::
    "rounding \<Rightarrow> rounding \<Rightarrow> real \<Rightarrow> servo_t \<Rightarrow> u8 \<Rightarrow> real \<Rightarrow> real \<Rightarrow> u16 \<Rightarrow> u16 \<Rightarrow> u16 \<Rightarrow> bool \<Rightarrow> (u8 \<times> servo_t) res" where
  "FSUS_SetServoAngleByVelocity fl fd junk st servo_id angle0 velocity0 t_acc0 t_dec0 pwr wait =
     (let angle = limit (- 180) 180 angle0; velocity = limit_velocity velocity0;
          t_acc = at_least_20 t_acc0; t_dec = at_least_20 t_dec0 in
      bind_res (float_int16 (fl (10 * angle))) (\<lambda>a.
      bind_res (float_uint16 (fl (10 * velocity))) (\<lambda>v.
      then_wait fl fd junk servo_id angle False wait
        (request st FSUS_CMD_SET_SERVO_ANGLE_BY_VELOCITY [servo_id, lo16 a, hi16 a, lo16 v, hi16 v,
           lo16 t_acc, hi16 t_acc, lo16 t_dec, hi16 t_dec, lo16 pwr, hi16 pwr]))))"

text \<open>In the first of the multi-turn functions too large an interval replaces the angle.\<close>

definition FSUS_SetServoAngleMTurn ::
    "rounding \<Rightarrow> rounding \<Rightarrow> real \<Rightarrow> servo_t \<Rightarrow> u8 \<Rightarrow> real \<Rightarrow> u32 \<Rightarrow> u16 \<Rightarrow> bool \<Rightarrow> (u8 \<times> servo_t) res" where
  "FSUS_SetServoAngleMTurn fl fd junk st servo_id angle0 interval pwr wait =
     (let angle = (if interval > 4096000 then 4096000 else limit (- 368640) 368640 angle0) in
      bind_res (float_int32 (fl (10 * angle))) (\<lambda>a.
      then_wait fl fd junk servo_id angle True wait
        (request st FSUS_CMD_SET_SERVO_ANGLE_MTURN [servo_id, byte32 0 a, byte32 8 a, byte32 16 a, byte32 24 a,
           byte32 0 interval, byte32 8 interval, byte32 16 interval, byte32 24 interval, lo16 pwr, hi16 pwr])))"

definition FSUS_SetServoAngleMTurnByInterval ::
    "rounding \<Rightarrow> rounding \<Rightarrow> real \<Rightarrow> servo_t \<Rightarrow> u8 \<Rightarrow> real \<Rightarrow> u32 \<Rightarrow> u16 \<Rightarrow> u16 \<Rightarrow> u16 \<Rightarrow> bool \<Rightarrow> (u8 \<times> servo_t) res" where
  "FSUS_SetServoAngleMTurnByInterval fl fd junk st servo_id angle0 interval0 t_acc0 t_dec0 pwr wait =
     (let angle = limit (- 368640) 368640 angle0; interval = (if interval0 > 4096000 then 4096000 else interval0);
          t_acc = at_least_20 t_acc0; t_dec = at_least_20 t_dec0 in
      bind_res (float_int32 (fl (10 * angle))) (\<lambda>a.
      then_wait fl fd junk servo_id angle True wait
        (request st FSUS_CMD_SET_SERVO_ANGLE_MTURN_BY_INTERVAL [servo_id, byte32 0 a, byte32 8 a, byte32 16 a, byte32 24 a,
           byte32 0 interval, byte32 8 interval, byte32 16 interval, byte32 24 interval,
           lo16 t_acc, hi16 t_acc, lo16 t_dec, hi16 t_dec, lo16 pwr, hi16 pwr])))"

definition FSUS_SetServoAngleMTurnByVelocity ::
    "rounding \<Rightarrow> rounding \<Rightarrow> real \<Rightarrow> servo_t \<Rightarrow> u8 \<Rightarrow> real \<Rightarrow> real \<Rightarrow> u16 \<Rightarrow> u16 \<Rightarrow> u16 \<Rightarrow> bool \<Rightarrow> (u8 \<times> servo_t) res" where
  "FSUS_SetServoAngleMTurnByVelocity fl fd junk st servo_id angle0 velocity0 t_acc0 t_dec0 pwr wait =
     (let angle = limit (- 368640) 368640 angle0; velocity = limit_velocity velocity0;
          t_acc = at_least_20 t_acc0; t_dec = at_least_20 t_dec0 in
      bind_res (float_int32 (fl (10 * angle))) (\<lambda>a.
      bind_res (float_uint16 (fl (10 * velocity))) (\<lambda>v.
      then_wait fl fd junk servo_id angle True wait
        (request st FSUS_CMD_SET_SERVO_ANGLE_MTURN_BY_VELOCITY [servo_id, byte32 0 a, byte32 8 a, byte32 16 a, byte32 24 a,
           lo16 v, hi16 v, lo16 t_acc, hi16 t_acc, lo16 t_dec, hi16 t_dec, lo16 pwr, hi16 pwr]))))"

definition FSUS_DampingMode :: "servo_t \<Rightarrow> u8 \<Rightarrow> u16 \<Rightarrow> (u8 \<times> servo_t) res" where
  "FSUS_DampingMode st servo_id pwr = request st FSUS_CMD_DAMPING [servo_id, lo16 pwr, hi16 pwr]"

text \<open>
  The angle \<open>curAngle\<close> is a global variable; dividing by a speed of zero gives no number that can
  be converted.
\<close>

definition calcIntervalMs ::
    "rounding \<Rightarrow> rounding \<Rightarrow> servo_t \<Rightarrow> u8 \<Rightarrow> real \<Rightarrow> real \<Rightarrow> real \<Rightarrow> (u16 \<times> real \<times> servo_t) res" where
  "calcIntervalMs fl fd st servoId nextAngle speed curAngle0 =
     bind_res (FSUS_QueryServoAngle fl fd st servoId) (\<lambda>(c, a, st1).
       let curAngle = (case a of None \<Rightarrow> curAngle0 | Some v \<Rightarrow> v);
           dAngle = (if nextAngle > curAngle then fl (nextAngle - curAngle) else fl (curAngle - nextAngle))
       in if speed = 0 then Inl BadConversion
          else bind_res (float_uint16 (fd (fl (dAngle / speed) * 1000))) (\<lambda>t. Inr (t, curAngle, st1)))"

text \<open>
  A loop that queries until the angle is within the dead block of one degree and has no other
  way out; when it does not end its value is \<open>None\<close>. Nothing calls it.
\<close>

definition near_angle :: "rounding \<Rightarrow> real \<Rightarrow> real \<Rightarrow> bool" where
  "near_angle fl nextAngle curAngle \<longleftrightarrow>
     (if nextAngle > curAngle then fl (nextAngle - curAngle) else fl (curAngle - nextAngle)) \<le> 1"

partial_function (option) waitUntilServoIDLE ::
    "rounding \<Rightarrow> rounding \<Rightarrow> u8 \<Rightarrow> real \<Rightarrow> real \<Rightarrow> servo_t \<Rightarrow> (real \<times> servo_t) res option" where
  "waitUntilServoIDLE fl fd servoId nextAngle curAngle0 st =
     (case FSUS_QueryServoAngle fl fd st servoId of
        Inl e \<Rightarrow> Some (Inl e)
      | Inr q \<Rightarrow>
          (let curAngle = (case fst (snd q) of None \<Rightarrow> curAngle0 | Some v \<Rightarrow> v) in
           if near_angle fl nextAngle curAngle then Some (Inr (curAngle, snd (snd q)))
           else waitUntilServoIDLE fl fd servoId nextAngle curAngle (snd (snd q))))"

subsection \<open>The gripper\<close>

text \<open>Two recorded messages are written as they are, then the wheel turns for 3.8 seconds.\<close>

definition raw_write :: "u8 list \<Rightarrow> servo_t \<Rightarrow> servo_t" where
  "raw_write bs st = st\<lparr>fs_sent := fs_sent st @ [bs]\<rparr>"

definition recorded :: "u8 \<Rightarrow> u8 \<Rightarrow> u8 \<Rightarrow> u8 \<Rightarrow> u8 \<Rightarrow> u8 list" where
  "recorded a b c d s = [0x01, 0x00, 0x69, 0x12, 0x4C, 0x06, 0x21, 0x00, 0x01, 0x00, 0x00, 0x01, 0x05, 0x01, a, b,
     0xD3, 0x14, 0x8E, 0x23, 0x22, 0x04, c, d, 0x50, 0x00, 0x00, 0x00, 0x00, 0x00, 0x00, 0x00, 0x95, 0x02, 0xBC, 0x02,
     0x40, 0xFC, 0x00, 0x00, s, 0x12, 0x4C, 0x05, 0x01, 0x00, 0x64, 0x12, 0x4C, 0x0A]"

definition My_FSUS_up :: "servo_t \<Rightarrow> servo_t res" where
  "My_FSUS_up st =
     (let st1 = raw_write (recorded 0x01 0x00 0x01 0x00 0x2E) st;
          st2 = raw_write (recorded 0x01 0x00 0x01 0x00 0x2E) st1
      in bind_res (FSUS_WheelMoveTime st2 0 True 500 3800) (\<lambda>(c, st3). Inr st3))"

definition My_FSUS_pick :: "servo_t \<Rightarrow> servo_t res" where
  "My_FSUS_pick st =
     (let st1 = raw_write (recorded 0x90 0x01 0x2C 0x01 0xEA) st;
          st2 = raw_write (recorded 0x01 0x00 0x2C 0x01 0xBE) st1
      in bind_res (FSUS_WheelMoveTime st2 0 False 500 3800) (\<lambda>(c, st3). Inr st3))"

text \<open>
  The start: the semaphore and the mutex are made and the serial device is looked for; either of
  the last two may fail.
\<close>

definition FSUS_Init :: "bool \<Rightarrow> bool \<Rightarrow> servo_t \<Rightarrow> int \<times> servo_t" where
  "FSUS_Init mutex_made uart_found st =
     (let st1 = st\<lparr>rx_sem := 0\<rparr> in
      if \<not> mutex_made then (- 1, st1)
      else let st2 = st1\<lparr>fs_held := 0\<rparr> in
        if \<not> uart_found then (- 1, st2) else (0, st2))"

text \<open>What the thread of the servo does before it only sleeps.\<close>

definition FSUS_process :: "servo_t \<Rightarrow> servo_t res" where
  "FSUS_process st = bind_res (FSUS_Ping st 0) (\<lambda>(ret, st1). My_FSUS_up st1)"

end
