(* ===== verification/ServoRun.thy ===== *)
theory ServoRun
  imports Servo
begin

section \<open>What the servo protocol does\<close>

text \<open>
  Receiving is first shown to depend only on the bytes that come before the first silence of 100
  ms, not on how they are spread over interrupts (\<open>recv_loop_feed\<close>); the properties of the
  receiver are then properties of \<open>fs_feed\<close>, which reads a list of bytes.
\<close>

subsection \<open>The receiver as a reader of bytes\<close>

fun fs_feed :: "u8 \<Rightarrow> recv \<Rightarrow> u8 list \<Rightarrow> (u8 \<times> PackageTypeDef) res" where
  "fs_feed g r [] = Inr (FSUS_STATUS_TIMEOUT, rc_pkg r)"
| "fs_feed g r (b # bs) =
     (case recv_byte g b r of
        Inl e \<Rightarrow> Inl e
      | Inr (Some c, r') \<Rightarrow> Inr (c, rc_pkg r')
      | Inr (None, r') \<Rightarrow> fs_feed g r' bs)"

fun pend :: "(u8 list \<times> nat) option list \<Rightarrow> u8 list" where
  "pend [] = []"
| "pend (None # as) = []"
| "pend (Some (bs, k) # as) = bs @ pend as"

definition stream :: "servo_t \<Rightarrow> u8 list" where
  "stream st = fs_rx st @ pend (fs_arrivals st)"

definition same_servo :: "servo_t \<Rightarrow> servo_t \<Rightarrow> bool" where
  "same_servo st st' \<longleftrightarrow> fs_held st' = fs_held st \<and> fs_refused st' = fs_refused st \<and> fs_stack st' = fs_stack st \<and>
     fs_junk st' = fs_junk st \<and> tx_buf st' = tx_buf st \<and> fs_sent st' = fs_sent st"

lemma recv_loop_feed:
  "(case recv_loop g r st of Inl e \<Rightarrow> fs_feed g r (stream st) = Inl e
    | Inr (c, p, st') \<Rightarrow> fs_feed g r (stream st) = Inr (c, p) \<and> same_servo st st')"
proof (induction g r st rule: recv_loop.induct)
  case (1 g r st)
  show ?case
  proof (cases "fs_rx st")
    case (Cons b bs)
    show ?thesis
    proof (cases "recv_byte g b r")
      case (Inl e)
      then show ?thesis using Cons by (subst recv_loop.simps) (simp add: stream_def)
    next
      case (Inr x)
      obtain o' r' where x: "x = (o', r')" by (cases x)
      show ?thesis
      proof (cases o')
        case None
        then show ?thesis using 1(3) [OF Cons Inr x [symmetric] None] Inr x Cons
          by (subst recv_loop.simps) (auto simp: stream_def same_servo_def split: sum.splits prod.splits)
      next
        case (Some c)
        then show ?thesis using Inr x Cons by (subst recv_loop.simps) (simp add: stream_def same_servo_def)
      qed
    qed
  next
    case Nil
    show ?thesis
    proof (cases "rx_sem st > 0")
      case True
      then show ?thesis using 1(1) [OF Nil True] Nil True
        by (subst recv_loop.simps) (auto simp: stream_def same_servo_def split: sum.splits prod.splits)
    next
      case False
      show ?thesis
      proof (cases "fs_arrivals st")
        case (Cons a as)
        then show ?thesis
        proof (cases a)
          case (Some y)
          obtain bs k where y: "y = (bs, k)" by (cases y)
          then show ?thesis using 1(2) [OF Nil False Cons Some y [symmetric]] Nil False Cons Some
            by (subst recv_loop.simps) (auto simp: stream_def same_servo_def split: sum.splits prod.splits)
        qed (use Nil False Cons in \<open>subst recv_loop.simps, simp add: stream_def same_servo_def\<close>)
      qed (use Nil False in \<open>subst recv_loop.simps, simp add: stream_def same_servo_def\<close>)
    qed
  qed
qed

lemma recv_loop_result:
  "(\<exists>st'. recv_loop g r st = Inr (c, p, st') \<and> same_servo st st') \<longleftrightarrow> fs_feed g r (stream st) = Inr (c, p)"
  "recv_loop g r st = Inl e \<longleftrightarrow> fs_feed g r (stream st) = Inl e"
  using recv_loop_feed [of g r st] by (auto split: sum.splits)

subsection \<open>A frame of the servo\<close>

definition frame_with :: "u8 \<Rightarrow> u16 \<Rightarrow> u8 \<Rightarrow> u8 list \<Rightarrow> u8 list" where
  "frame_with g h cmd content =
     (let bs = [lo16 h, hi16 h, cmd, of_nat (length content)] @ content in bs @ [g + sum_list bs])"

abbreviation framed :: "u16 \<Rightarrow> u8 \<Rightarrow> u8 list \<Rightarrow> u8 list" where
  "framed \<equiv> frame_with 0"

definition recv_start :: "PackageTypeDef \<Rightarrow> recv" where
  "recv_start junk = \<lparr>rc_pkg = junk\<lparr>pk_status := 0\<rparr>, rc_bIdx = 0, rc_header = 0\<rparr>"

lemma fold_plus: "fold (\<lambda>b c. c + b) bs (a :: u8) = a + sum_list bs"
  by (induction bs arbitrary: a) (simp_all add: algebra_simps)

lemma header_bytes [simp]:
  "lo16 FSUS_PACK_RESPONSE_HEADER = 5" "hi16 FSUS_PACK_RESPONSE_HEADER = 0x1c"
  "lo16 FSUS_PACK_REQUEST_HEADER = 0x12" "hi16 FSUS_PACK_REQUEST_HEADER = 0x4c"
  "lo16 0x1c05 = 5" "hi16 0x1c05 = 0x1c"
  by (simp_all add: fs_headers lo16_def hi16_def)

lemma calc_ok:
  "length (pk_content p) = 50 \<Longrightarrow> unat (pk_size p) \<le> 50 \<Longrightarrow>
   FSUS_CalcChecksum g p = Inr (g + lo16 (pk_header p) + hi16 (pk_header p) + pk_cmdId p + pk_size p +
     sum_list (take (unat (pk_size p)) (pk_content p)))"
  by (simp add: FSUS_CalcChecksum_def fold_plus)

lemmas recv_defs = recv_byte_def has_def set_flag_def fs_flags

lemma recv_hunt: "pk_status (rc_pkg r) = 0 \<Longrightarrow> rc_header r = 0 \<Longrightarrow> b \<noteq> 5 \<Longrightarrow> recv_byte g b r = Inr (None, r)"
proof -
  assume a: "pk_status (rc_pkg r) = 0" "rc_header r = 0" "b \<noteq> 5"
  have "(ucast b :: u16) \<noteq> 5"
  proof
    assume "(ucast b :: u16) = 5"
    then have "(ucast (ucast b :: u16) :: u8) = ucast (5 :: u16)" by simp
    then have "b = 5" by (simp add: ucast_up_ucast_id is_up)
    then show False using a by simp
  qed
  then show ?thesis using a by (simp add: recv_defs fs_headers Let_def)
qed

lemma feed_noise:
  "pk_status (rc_pkg r) = 0 \<Longrightarrow> rc_header r = 0 \<Longrightarrow> 5 \<notin> set noise \<Longrightarrow> fs_feed g r (noise @ bs) = fs_feed g r bs"
  by (induction noise) (simp_all add: recv_hunt)

lemma feed_header:
  assumes "pk_status (rc_pkg r) = 0" "rc_header r = 0"
  shows "fs_feed g r (5 # 0x1c # bs) = fs_feed g (r\<lparr>rc_header := 0x1c05,
     rc_pkg := (rc_pkg r)\<lparr>pk_header := 0x1c05, pk_status := 1\<rparr>\<rparr>) bs"
  using assms by (simp add: recv_defs fs_headers Let_def)

lemma feed_cmd:
  assumes "pk_status (rc_pkg r) = 1" "c \<le> 17"
  shows "fs_feed g r (c # bs) = fs_feed g (r\<lparr>rc_pkg := (rc_pkg r)\<lparr>pk_cmdId := c, pk_status := 3\<rparr>\<rparr>) bs"
  using assms leD [OF assms(2)] by (simp add: recv_defs FSUS_CMD_NUM_def Let_def)

lemma feed_size:
  assumes "pk_status (rc_pkg r) = 3" "unat n \<le> 45"
  shows "fs_feed g r (n # bs) = fs_feed g (r\<lparr>rc_pkg := (rc_pkg r)\<lparr>pk_size := n, pk_status := 7\<rparr>\<rparr>) bs"
  using assms by (simp add: recv_defs FSUS_PACK_RESPONSE_MAX_SIZE_def Let_def not_less)

lemma blit_Cons: "i < length xs \<Longrightarrow> blit (blit xs i [c]) (Suc i) cs = blit xs i (c # cs)"
  by (simp add: blit_def min_def Suc_diff_le add.commute)

lemma feed_content:
  "pk_status (rc_pkg r) = 7 \<Longrightarrow> length (pk_content (rc_pkg r)) = 50 \<Longrightarrow> cs \<noteq> [] \<Longrightarrow>
   unat (rc_bIdx r) + length cs = unat (pk_size (rc_pkg r)) \<Longrightarrow> unat (pk_size (rc_pkg r)) \<le> 45 \<Longrightarrow>
   fs_feed g r (cs @ bs) = fs_feed g (r\<lparr>rc_pkg := (rc_pkg r)\<lparr>pk_content := blit (pk_content (rc_pkg r)) (unat (rc_bIdx r)) cs,
     pk_status := 15\<rparr>, rc_bIdx := pk_size (rc_pkg r)\<rparr>) bs"
proof (induction cs arbitrary: r)
  case (Cons c cs)
  let ?i = "unat (rc_bIdx r)"
  have n: "unat (rc_bIdx r + 1) = ?i + 1" using Cons.prems by (simp add: unat_plus_if')
  have u: "(pk_content (rc_pkg r))[?i := c] = blit (pk_content (rc_pkg r)) ?i [c]"
    using Cons.prems by (simp add: blit_def upd_conv_take_nth_drop)
  show ?case
  proof (cases "cs = []")
    case True
    then have "rc_bIdx r + 1 = pk_size (rc_pkg r)" using Cons.prems n by (simp add: word_unat_eq_iff)
    then show ?thesis using True Cons.prems u by (simp add: recv_defs Let_def)
  next
    case False
    let ?r = "r\<lparr>rc_pkg := (rc_pkg r)\<lparr>pk_content := blit (pk_content (rc_pkg r)) ?i [c]\<rparr>, rc_bIdx := rc_bIdx r + 1\<rparr>"
    have "rc_bIdx r + 1 \<noteq> pk_size (rc_pkg r)" using Cons.prems(4) n False by (auto simp: neq_Nil_conv)
    then have "fs_feed g r ((c # cs) @ bs) = fs_feed g ?r (cs @ bs)"
      using Cons.prems u by (simp add: recv_defs Let_def)
    also have "\<dots> = fs_feed g (?r\<lparr>rc_pkg := (rc_pkg ?r)\<lparr>pk_content := blit (pk_content (rc_pkg ?r)) (unat (rc_bIdx ?r)) cs,
        pk_status := 15\<rparr>, rc_bIdx := pk_size (rc_pkg ?r)\<rparr>) bs"
      by (rule Cons.IH) (use Cons.prems n False in auto)
    also have "blit (pk_content (rc_pkg ?r)) (unat (rc_bIdx ?r)) cs = blit (pk_content (rc_pkg r)) ?i (c # cs)"
      using Cons.prems n by (simp add: blit_Cons)
    finally show ?thesis using n by simp
  qed
qed simp

lemma feed_sum:
  assumes "pk_status (rc_pkg r) = 15" "length (pk_content (rc_pkg r)) = 50" "unat (pk_size (rc_pkg r)) \<le> 50"
  shows "fs_feed g r (b # bs) = Inr (if g + lo16 (pk_header (rc_pkg r)) + hi16 (pk_header (rc_pkg r)) +
      pk_cmdId (rc_pkg r) + pk_size (rc_pkg r) + sum_list (take (unat (pk_size (rc_pkg r))) (pk_content (rc_pkg r))) = b
      then FSUS_STATUS_SUCCESS else FSUS_STATUS_CHECKSUM_ERROR, (rc_pkg r)\<lparr>pk_checksum := b, pk_status := 31\<rparr>)"
  using assms by (simp add: recv_defs Let_def calc_ok)

text \<open>A whole frame, after bytes that are not the beginning of one.\<close>

lemma feed_frame:
  assumes j: "length (pk_content junk) = 50" and c: "cmd \<le> 17" and l: "1 \<le> length content" "length content \<le> 45"
    and n: "5 \<notin> set noise"
  shows "\<exists>p. fs_feed g (recv_start junk) (noise @ framed FSUS_PACK_RESPONSE_HEADER cmd content @ rest) =
      Inr (if g = 0 then FSUS_STATUS_SUCCESS else FSUS_STATUS_CHECKSUM_ERROR, p) \<and>
    length (pk_content p) = 50 \<and> pk_cmdId p = cmd \<and> unat (pk_size p) = length content \<and>
    take (length content) (pk_content p) = content"
proof -
  have u: "unat (of_nat (length content) :: u8) = length content"
    using l by (simp add: unat_of_nat take_bit_nat_eq_self)
  have "content \<noteq> []" using l by auto
  let ?s = "sum_list ([5, 0x1c, cmd, of_nat (length content)] @ content)"
  let ?p = "junk\<lparr>pk_header := 0x1c05, pk_cmdId := cmd, pk_size := of_nat (length content),
     pk_content := blit (pk_content junk) 0 content, pk_checksum := ?s, pk_status := 31\<rparr>"
  have "fs_feed g (recv_start junk) (noise @ framed FSUS_PACK_RESPONSE_HEADER cmd content @ rest) =
    Inr (if g + ?s = ?s then FSUS_STATUS_SUCCESS else FSUS_STATUS_CHECKSUM_ERROR, ?p)"
    using c l(2) u j n \<open>content \<noteq> []\<close>
    by (simp add: frame_with_def Let_def recv_start_def feed_noise feed_header feed_cmd feed_size feed_content feed_sum
        blit_def add.assoc del: fs_feed.simps cong: if_cong)
  then show ?thesis using j l u by (intro exI [of _ ?p]) (simp add: blit_def)
qed

subsection \<open>The receiver's only fault\<close>

text \<open>An answer whose length byte is zero is never complete: its bytes run over the end of \<open>content\<close>.\<close>

lemma feed_zero:
  assumes "pk_status (rc_pkg r) = 7" "pk_size (rc_pkg r) = 0" "length (pk_content (rc_pkg r)) = 50"
    "unat (rc_bIdx r) \<le> 50" "unat (rc_bIdx r) + length bs > 50"
  shows "fs_feed g r bs = Inl OutOfBounds"
  using assms
proof (induction bs arbitrary: r)
  case (Cons b bs)
  show ?case
  proof (cases "unat (rc_bIdx r) < 50")
    case True
    then have n: "unat (rc_bIdx r + 1) = unat (rc_bIdx r) + 1" by (simp add: unat_plus_if')
    then have "rc_bIdx r + 1 \<noteq> 0" by (auto simp: unat_eq_zero [symmetric])
    then have "fs_feed g r (b # bs) = fs_feed g (r\<lparr>rc_pkg := (rc_pkg r)\<lparr>pk_content := (pk_content (rc_pkg r))[unat (rc_bIdx r) := b]\<rparr>,
        rc_bIdx := rc_bIdx r + 1\<rparr>) bs"
      using Cons.prems True by (simp add: recv_defs Let_def)
    also have "\<dots> = Inl OutOfBounds" by (rule Cons.IH) (use Cons.prems True n in auto)
    finally show ?thesis .
  next
    case False
    then show ?thesis using Cons.prems by (simp add: recv_defs Let_def)
  qed
qed simp

lemma feed_empty_answer:
  assumes "length (pk_content junk) = 50" "cmd \<le> 17" "5 \<notin> set noise" "length rest > 50"
  shows "fs_feed g (recv_start junk) (noise @ [5, 0x1c, cmd, 0] @ rest) = Inl OutOfBounds"
  using assms
  by (simp add: recv_start_def feed_noise feed_header feed_cmd feed_size feed_zero del: fs_feed.simps)

text \<open>What has been read when the receiver is in a given state.\<close>

definition hist_ok :: "u8 list \<Rightarrow> recv \<Rightarrow> bool" where
  "hist_ok h r \<longleftrightarrow> length (pk_content (rc_pkg r)) = 50 \<and>
     (rc_bIdx r = 0 \<and> pk_status (rc_pkg r) = 0 \<and> (rc_header r = 0 \<or> rc_header r = 5 \<and> (\<exists>pre. h = pre @ [5])) \<or>
      rc_bIdx r = 0 \<and> pk_status (rc_pkg r) = 1 \<and> (\<exists>pre. h = pre @ [5, 0x1c]) \<or>
      rc_bIdx r = 0 \<and> pk_status (rc_pkg r) = 3 \<and> (\<exists>pre c. h = pre @ [5, 0x1c, c]) \<or>
      pk_status (rc_pkg r) = 7 \<and> pk_size (rc_pkg r) = 0 \<and> unat (rc_bIdx r) \<le> 50 \<and>
        (\<exists>pre c post. h = pre @ [5, 0x1c, c, 0] @ post \<and> unat (rc_bIdx r) = length post) \<or>
      pk_status (rc_pkg r) = 7 \<and> unat (rc_bIdx r) < unat (pk_size (rc_pkg r)) \<and> unat (pk_size (rc_pkg r)) \<le> 45 \<or>
      pk_status (rc_pkg r) = 15 \<and> unat (pk_size (rc_pkg r)) \<le> 45)"

lemma second_header: "5 OR push_bit 8 (ucast (b :: u8)) = (0x1c05 :: u16) \<Longrightarrow> b = 0x1c"
proof -
  assume "5 OR push_bit 8 (ucast b) = (0x1c05 :: u16)"
  then have "hi16 (5 OR push_bit 8 (ucast b)) = 0x1c" by simp
  moreover have "hi16 (5 OR push_bit 8 (ucast b)) = b"
    by (rule bit_word_eqI) (simp add: hi16_def bit_simps)
  ultimately show ?thesis by simp
qed

lemma hist_start: "length (pk_content junk) = 50 \<Longrightarrow> hist_ok [] (recv_start junk)"
  by (simp add: hist_ok_def recv_start_def)

lemma hist_zero:
  "length (pk_content (rc_pkg r)) = 50 \<Longrightarrow> pk_status (rc_pkg r) = 7 \<Longrightarrow> pk_size (rc_pkg r) = 0 \<Longrightarrow>
   unat (rc_bIdx r) \<le> 50 \<Longrightarrow> h = pre @ [5, 0x1c, c, 0] @ post \<Longrightarrow> unat (rc_bIdx r) = length post \<Longrightarrow> hist_ok h r"
  unfolding hist_ok_def by blast

lemma hist_part:
  "length (pk_content (rc_pkg r)) = 50 \<Longrightarrow> pk_status (rc_pkg r) = 7 \<Longrightarrow>
   unat (rc_bIdx r) < unat (pk_size (rc_pkg r)) \<Longrightarrow> unat (pk_size (rc_pkg r)) \<le> 45 \<Longrightarrow> hist_ok h r"
  unfolding hist_ok_def by blast

lemma hist_full:
  "length (pk_content (rc_pkg r)) = 50 \<Longrightarrow> pk_status (rc_pkg r) = 15 \<Longrightarrow> unat (pk_size (rc_pkg r)) \<le> 45 \<Longrightarrow> hist_ok h r"
  unfolding hist_ok_def by blast

lemma recv_byte_hist:
  assumes "hist_ok h r" "recv_byte g b r = Inr (None, r')"
  shows "hist_ok (h @ [b]) r'"
proof -
  from assms(1) consider (a) "rc_bIdx r = 0" "pk_status (rc_pkg r) = 0" "rc_header r = 0"
    | (b) pre where "rc_bIdx r = 0" "pk_status (rc_pkg r) = 0" "rc_header r = 5" "h = pre @ [5]"
    | (c) pre where "rc_bIdx r = 0" "pk_status (rc_pkg r) = 1" "h = pre @ [5, 0x1c]"
    | (d) pre c where "rc_bIdx r = 0" "pk_status (rc_pkg r) = 3" "h = pre @ [5, 0x1c, c]"
    | (e) pre c post where "pk_status (rc_pkg r) = 7" "pk_size (rc_pkg r) = 0" "unat (rc_bIdx r) \<le> 50"
        "h = pre @ [5, 0x1c, c, 0] @ post" "unat (rc_bIdx r) = length post"
    | (f) "pk_status (rc_pkg r) = 7" "unat (rc_bIdx r) < unat (pk_size (rc_pkg r))" "unat (pk_size (rc_pkg r)) \<le> 45"
    | (g) "pk_status (rc_pkg r) = 15" "unat (pk_size (rc_pkg r)) \<le> 45"
    unfolding hist_ok_def by blast
  moreover have l: "length (pk_content (rc_pkg r)) = 50" using assms(1) by (simp add: hist_ok_def)
  ultimately show ?thesis
  proof cases
    case a
    then show ?thesis using assms(2) l recv_hunt [of r b g]
      by (cases "b = 5") (auto simp: recv_defs fs_headers Let_def hist_ok_def)
  next
    case b
    then show ?thesis using assms(2) l second_header
      by (auto simp: recv_defs fs_headers Let_def hist_ok_def split: if_splits)
  next
    case c
    then show ?thesis using assms(2) l
      by (auto simp: recv_defs Let_def hist_ok_def split: if_splits)
  next
    case d
    then show ?thesis using assms(2) l
      by (auto simp: recv_defs Let_def hist_ok_def FSUS_PACK_RESPONSE_MAX_SIZE_def unat_gt_0 split: if_splits)
  next
    case (e pre c post)
    then have i: "unat (rc_bIdx r) < 50" using assms(2) l by (auto simp: recv_defs Let_def split: if_splits)
    then have n: "unat (rc_bIdx r + 1) = unat (rc_bIdx r) + 1" by (simp add: unat_plus_if')
    then have z: "rc_bIdx r + 1 \<noteq> 0" by (auto simp: unat_eq_zero [symmetric])
    have "r' = r\<lparr>rc_pkg := (rc_pkg r)\<lparr>pk_content := (pk_content (rc_pkg r))[unat (rc_bIdx r) := b]\<rparr>, rc_bIdx := rc_bIdx r + 1\<rparr>"
      using e i z assms(2) l by (simp add: recv_defs Let_def)
    moreover have "h @ [b] = pre @ [5, 0x1c, c, 0] @ (post @ [b])" using e by simp
    ultimately show ?thesis using e i n l
      by (intro hist_zero [where pre = pre and c = c and post = "post @ [b]"]) simp_all
  next
    case f
    then have n: "unat (rc_bIdx r + 1) = unat (rc_bIdx r) + 1" by (simp add: unat_plus_if')
    show ?thesis
    proof (cases "rc_bIdx r + 1 = pk_size (rc_pkg r)")
      case True
      have "r' = r\<lparr>rc_pkg := (rc_pkg r)\<lparr>pk_content := (pk_content (rc_pkg r))[unat (rc_bIdx r) := b], pk_status := 15\<rparr>,
          rc_bIdx := rc_bIdx r + 1\<rparr>"
        using f True assms(2) l by (simp add: recv_defs Let_def)
      then show ?thesis using f(3) l by (intro hist_full) simp_all
    next
      case False
      then have "unat (rc_bIdx r) + 1 < unat (pk_size (rc_pkg r))"
        using f n by (metis Suc_eq_plus1 Suc_lessI word_unat_eq_iff)
      moreover have "r' = r\<lparr>rc_pkg := (rc_pkg r)\<lparr>pk_content := (pk_content (rc_pkg r))[unat (rc_bIdx r) := b]\<rparr>,
          rc_bIdx := rc_bIdx r + 1\<rparr>"
        using f False assms(2) l by (simp add: recv_defs Let_def)
      ultimately show ?thesis using f n l by (intro hist_part) simp_all
    qed
  next
    case g
    then show ?thesis using assms(2) l by (auto simp: recv_defs Let_def calc_ok)
  qed
qed

lemma recv_byte_fault:
  assumes "hist_ok h r" "recv_byte g b r = Inl e"
  shows "e = OutOfBounds \<and> (\<exists>pre c post. h = pre @ [5, 0x1c, c, 0] @ post \<and> length post = 50)"
proof -
  have s: "pk_status (rc_pkg r) = 7" "unat (rc_bIdx r) \<ge> 50" "e = OutOfBounds"
    using assms by (auto simp: recv_defs Let_def hist_ok_def calc_ok fs_headers split: if_splits)
  then obtain pre c post where "h = pre @ [5, 0x1c, c, 0] @ post" "unat (rc_bIdx r) = length post"
      "unat (rc_bIdx r) \<le> 50"
    using assms(1) by (auto simp: hist_ok_def)
  then have "h = pre @ [5, 0x1c, c, 0] @ post" "length post = 50" using s by linarith+
  then show ?thesis using s(3) by blast
qed

lemma feed_fault:
  "fs_feed g r bs = Inl e \<Longrightarrow> hist_ok h r \<Longrightarrow>
     e = OutOfBounds \<and> (\<exists>pre c post. h @ bs = pre @ [5, 0x1c, c, 0] @ post \<and> 50 < length post)"
proof (induction bs arbitrary: h r)
  case (Cons b bs)
  show ?case
  proof (cases "recv_byte g b r")
    case (Inl e')
    then obtain pre c post where "e' = OutOfBounds" "h = pre @ [5, 0x1c, c, 0] @ post" "length post = 50"
      using recv_byte_fault [OF Cons.prems(2)] by blast
    then have "e = OutOfBounds" "h @ b # bs = pre @ [5, 0x1c, c, 0] @ (post @ b # bs)" "50 < length (post @ b # bs)"
      using Inl Cons.prems(1) by auto
    then show ?thesis by blast
  next
    case (Inr x)
    then obtain r' where r': "recv_byte g b r = Inr (None, r')" "fs_feed g r' bs = Inl e"
      using Cons.prems(1) by (cases x) (auto split: option.splits)
    then show ?thesis using Cons.IH [OF r'(2) recv_byte_hist [OF Cons.prems(2) r'(1)]] by simp
  qed
qed simp

subsection \<open>Sending\<close>

definition servo_ok :: "servo_t \<Rightarrow> bool" where
  "servo_ok st \<longleftrightarrow> length (tx_buf st) = 55 \<and> length (pk_content (fs_junk st)) = 50"

definition garbage :: "servo_t \<Rightarrow> u8" where
  "garbage st = (case fs_stack st of [] \<Rightarrow> 0 | g # gs \<Rightarrow> g)"

lemma stack_byte_eq: "stack_byte st = (garbage st, st\<lparr>fs_stack := tl (fs_stack st)\<rparr>)"
  by (simp add: stack_byte_def garbage_def split: list.split)

lemma memcpy_end:
  "length xs = k \<Longrightarrow> n \<le> length ys \<Longrightarrow> n \<le> length zs \<Longrightarrow>
   memcpy (xs @ ys) k zs 0 n = Inr ((xs @ take n zs) @ drop n ys)"
  by (simp add: memcpy_def blit_def min_def)

lemma uart_send_ok:
  assumes t: "length (tx_buf st) = 55" and p: "length (pk_content p) = 50" "unat (pk_size p) \<le> 50"
  shows "\<exists>t. length t = 55 \<and> FSUS_UART_Send st p = Inr (st\<lparr>tx_buf := t, fs_sent := fs_sent st @
     [[lo16 (pk_header p), hi16 (pk_header p), pk_cmdId p, pk_size p] @ take (unat (pk_size p)) (pk_content p) @ [pk_checksum p]]\<rparr>)"
proof -
  define n where "n = unat (pk_size p)"
  define c where "c = take n (pk_content p)"
  define b where "b = tx_buf st"
  let ?h = "[lo16 (pk_header p), hi16 (pk_header p)]"
  let ?w = "(((?h @ [pk_cmdId p]) @ [pk_size p]) @ c) @ [pk_checksum p]"
  have l: "length b = 55" "n \<le> 50" "length c = n" using assms by (simp_all add: b_def n_def c_def)
  have "memcpy b 0 ?h 0 2 = Inr (?h @ drop 2 b)" using memcpy_end [of "[]" 0 2 b ?h] l by simp
  moreover have "memcpy (?h @ drop 2 b) 2 [pk_cmdId p] 0 1 = Inr ((?h @ [pk_cmdId p]) @ drop 3 b)"
    using memcpy_end [of ?h 2 1 "drop 2 b" "[pk_cmdId p]"] l by (simp add: eval_nat_numeral)
  moreover have "memcpy ((?h @ [pk_cmdId p]) @ drop 3 b) 3 [pk_size p] 0 1 = Inr (((?h @ [pk_cmdId p]) @ [pk_size p]) @ drop 4 b)"
    using memcpy_end [of "?h @ [pk_cmdId p]" 3 1 "drop 3 b" "[pk_size p]"] l by (simp add: eval_nat_numeral)
  moreover have "memcpy (((?h @ [pk_cmdId p]) @ [pk_size p]) @ drop 4 b) 4 (pk_content p) 0 n =
      Inr ((((?h @ [pk_cmdId p]) @ [pk_size p]) @ c) @ drop (n + 4) b)"
    using memcpy_end [of "(?h @ [pk_cmdId p]) @ [pk_size p]" 4 n "drop 4 b" "pk_content p"] l p by (simp add: c_def)
  moreover have "memcpy ((((?h @ [pk_cmdId p]) @ [pk_size p]) @ c) @ drop (n + 4) b) (4 + n) [pk_checksum p] 0 1 =
      Inr (?w @ drop (n + 5) b)"
    using memcpy_end [of "((?h @ [pk_cmdId p]) @ [pk_size p]) @ c" "4 + n" 1 "drop (n + 4) b" "[pk_checksum p]"] l
    by (simp add: add.commute)
  ultimately have "FSUS_UART_Send st p = Inr (st\<lparr>tx_buf := ?w @ drop (n + 5) b,
      fs_sent := fs_sent st @ [take (n + 5) (?w @ drop (n + 5) b)]\<rparr>)"
    unfolding FSUS_UART_Send_def Let_def n_def [symmetric] b_def [symmetric] by (simp only: bind_res_Inr)
  moreover have w: "length ?w = n + 5" using l by simp
  then have "take (n + 5) (?w @ drop (n + 5) b) = ?w" by (metis append_eq_conv_conj)
  moreover have "length (?w @ drop (n + 5) b) = 55" using l by simp
  ultimately show ?thesis by (intro exI [of _ "?w @ drop (n + 5) b"]) (simp add: n_def c_def)
qed

lemma send_ok:
  assumes s: "servo_ok st" and l: "length content \<le> 50"
  shows "\<exists>t. length t = 55 \<and> FSUS_SendPackage st cmd (of_nat (length content)) content =
     Inr (st\<lparr>fs_stack := tl (fs_stack st), tx_buf := t,
       fs_sent := fs_sent st @ [frame_with (garbage st) FSUS_PACK_REQUEST_HEADER cmd content]\<rparr>)"
proof -
  define g where "g = garbage st"
  define n where "n = (of_nat (length content) :: u8)"
  define c where "c = content @ drop (length content) (pk_content (fs_junk st))"
  define p where "p = (fs_junk st)\<lparr>pk_header := FSUS_PACK_REQUEST_HEADER, pk_cmdId := cmd, pk_size := n, pk_content := c\<rparr>"
  define s' where "s' = g + sum_list ([0x12, 0x4c, cmd, n] @ content)"
  have u: "unat n = length content" using l by (simp add: n_def unat_of_nat take_bit_nat_eq_self)
  have lc: "length c = 50" using s l by (simp add: c_def servo_ok_def)
  have m: "memcpy (pk_content (fs_junk st)) 0 content 0 (unat n) = Inr c"
    using s l u by (simp add: memcpy_def servo_ok_def blit_def c_def)
  have "FSUS_CalcChecksum g p = Inr s'"
    using l u lc by (simp add: calc_ok p_def s'_def c_def add.assoc)
  then have "FSUS_SendPackage st cmd n content = FSUS_UART_Send (st\<lparr>fs_stack := tl (fs_stack st)\<rparr>) (p\<lparr>pk_checksum := s'\<rparr>)"
    unfolding FSUS_SendPackage_def stack_byte_eq Let_def g_def [symmetric] p_def
    by (simp add: m)
  moreover have "frame_with g FSUS_PACK_REQUEST_HEADER cmd content = [0x12, 0x4c, cmd, n] @ content @ [s']"
    by (simp add: frame_with_def Let_def s'_def n_def)
  ultimately show ?thesis
    using uart_send_ok [of "st\<lparr>fs_stack := tl (fs_stack st)\<rparr>" "p\<lparr>pk_checksum := s'\<rparr>"] s l u lc
    unfolding g_def [symmetric] n_def [symmetric] by (simp add: servo_ok_def p_def c_def)
qed

text \<open>What the servo reads from a request.\<close>

definition servo_reads :: "u8 list \<Rightarrow> (u8 \<times> u8 list) option" where
  "servo_reads bs =
     (if length bs \<ge> 5 \<and> bs ! 0 = 0x12 \<and> bs ! 1 = 0x4c \<and> length bs = unat (bs ! 3) + 5 \<and> last bs = sum_list (butlast bs)
      then Some (bs ! 2, butlast (drop 4 bs)) else None)"

lemma servo_reads_frame:
  assumes "length content \<le> 50"
  shows "servo_reads (frame_with g FSUS_PACK_REQUEST_HEADER cmd content) = (if g = 0 then Some (cmd, content) else None)"
proof -
  have u: "unat (of_nat (length content) :: u8) = length content"
    using assms by (simp add: unat_of_nat take_bit_nat_eq_self)
  show ?thesis by (simp add: servo_reads_def frame_with_def Let_def u butlast_append)
qed

interpretation servo_codec: codec "\<lambda>(cmd, content). framed FSUS_PACK_REQUEST_HEADER cmd content" servo_reads
    "\<lambda>(cmd, content). length content \<le> 50"
  by unfold_locales (auto simp: servo_reads_frame)

lemma requests_differ:
  "length c \<le> 50 \<Longrightarrow> length c' \<le> 50 \<Longrightarrow>
   framed FSUS_PACK_REQUEST_HEADER cmd c = framed FSUS_PACK_REQUEST_HEADER cmd' c' \<longleftrightarrow> cmd = cmd' \<and> c = c'"
  using servo_codec.encode_unique [of "(cmd, c)" "(cmd', c')"] by auto

subsection \<open>What every operation keeps\<close>

definition kept :: "servo_t \<Rightarrow> servo_t \<Rightarrow> bool" where
  "kept st st' \<longleftrightarrow> length (tx_buf st') = length (tx_buf st) \<and> fs_junk st' = fs_junk st \<and> fs_held st' = fs_held st"

lemma kept_refl [simp]: "kept st st"
  by (simp add: kept_def)

lemma kept_trans: "kept a b \<Longrightarrow> kept b c \<Longrightarrow> kept a c"
  by (simp add: kept_def)

lemma kept_ok: "kept st st' \<Longrightarrow> servo_ok st \<Longrightarrow> servo_ok st'"
  by (simp add: kept_def servo_ok_def)

lemma memcpy_length: "memcpy d i s j n = Inr d' \<Longrightarrow> length d' = length d"
  by (auto simp: memcpy_def split: if_splits)

lemma send_keeps: "FSUS_SendPackage st cmd n content = Inr st' \<Longrightarrow> kept st st'"
  by (auto simp: FSUS_SendPackage_def FSUS_UART_Send_def Let_def stack_byte_eq kept_def dest!: memcpy_length)

lemma recv_byte_content: "recv_byte g b r = Inr (o', r') \<Longrightarrow> length (pk_content (rc_pkg r')) = length (pk_content (rc_pkg r))"
  by (auto simp: recv_byte_def set_flag_def Let_def split: if_splits)

definition recv_codes :: "u8 set" where
  "recv_codes = {FSUS_STATUS_SUCCESS, FSUS_STATUS_TIMEOUT, FSUS_STATUS_UNKOWN_CMD_ID, FSUS_STATUS_SIZE_TOO_BIG,
     FSUS_STATUS_CHECKSUM_ERROR}"

lemma recv_byte_code: "recv_byte g b r = Inr (Some c, r') \<Longrightarrow> c \<in> recv_codes"
  by (auto simp: recv_byte_def recv_codes_def Let_def split: if_splits)

lemma feed_code:
  "fs_feed g r bs = Inr (c, p) \<Longrightarrow> c \<in> recv_codes \<and> length (pk_content p) = length (pk_content (rc_pkg r))"
proof (induction bs arbitrary: r)
  case (Cons b bs)
  then show ?case
    by (auto split: sum.splits option.splits dest: recv_byte_code recv_byte_content)
qed (auto simp: recv_codes_def)

lemma recv_package_feed:
  "FSUS_RecvPackage st = recv_loop (garbage st) (recv_start (fs_junk st)) (st\<lparr>fs_stack := tl (fs_stack st)\<rparr>)"
  by (simp add: FSUS_RecvPackage_def stack_byte_eq recv_start_def)

lemma stream_stack [simp]: "stream (st\<lparr>fs_stack := x\<rparr>) = stream st"
  by (simp add: stream_def)

lemma recv_package_keeps:
  assumes "FSUS_RecvPackage st = Inr (c, p, st')"
  shows "kept st st' \<and> fs_sent st' = fs_sent st \<and> fs_refused st' = fs_refused st \<and> c \<in> recv_codes \<and>
    length (pk_content p) = length (pk_content (fs_junk st))"
  using recv_loop_feed [of "garbage st" "recv_start (fs_junk st)" "st\<lparr>fs_stack := tl (fs_stack st)\<rparr>"] assms
    feed_code [of "garbage st" "recv_start (fs_junk st)" "stream st" c p]
  by (auto simp: recv_package_feed same_servo_def kept_def recv_start_def)

text \<open>Taking the mutex.\<close>

definition granted :: "servo_t \<Rightarrow> bool" where
  "granted st \<longleftrightarrow> fs_held st > 0 \<or> fs_refused st = [] \<or> \<not> hd (fs_refused st)"

lemma fs_take_eq:
  "fs_take st = (granted st, st\<lparr>fs_held := fs_held st + of_bool (granted st),
     fs_refused := if fs_held st > 0 then fs_refused st else tl (fs_refused st)\<rparr>)"
  by (auto simp: fs_take_def granted_def split: list.split)

lemma release_kept: "kept (st\<lparr>fs_held := fs_held st + 1, fs_refused := x\<rparr>) st' \<Longrightarrow> kept st (fs_release st')"
  by (simp add: kept_def fs_release_def)

lemma request_keeps: "request st cmd content = Inr (c, st') \<Longrightarrow> kept st st' \<and> c \<in> recv_codes"
  by (auto simp: request_def fs_take_eq recv_codes_def release_kept kept_def split: if_splits dest!: send_keeps
      simp: fs_release_def)

lemma ask_keeps:
  assumes "ask st cmd content = Inr (c, p, st')"
  shows "kept st st' \<and> c \<in> recv_codes"
proof (cases "granted st")
  case True
  let ?st = "st\<lparr>fs_held := fs_held st + 1, fs_refused := if fs_held st > 0 then fs_refused st else tl (fs_refused st)\<rparr>"
  obtain st2 st3 where s: "FSUS_SendPackage ?st cmd (of_nat (length content)) content = Inr st2"
      "FSUS_RecvPackage st2 = Inr (c, p, st3)" "st' = fs_release st3"
    using assms True by (auto simp: ask_def fs_take_eq)
  then have "kept ?st st3" "c \<in> recv_codes" using send_keeps recv_package_keeps kept_trans by blast+
  then show ?thesis using release_kept s(3) by blast
next
  case False
  then show ?thesis using assms by (auto simp: ask_def fs_take_eq kept_def recv_codes_def)
qed

lemma recv_codes_not_7: "c \<in> recv_codes \<Longrightarrow> c \<noteq> FSUS_STATUS_ID_NOT_MATCH"
  by (auto simp: recv_codes_def fs_codes)

lemma query_keeps: "FSUS_QueryServoAngle fl fd st i = Inr (c, a, st') \<Longrightarrow> kept st st'"
  by (auto simp: FSUS_QueryServoAngle_def split: if_splits dest!: ask_keeps)

text \<open>The multi-turn query leaves the mutex taken once more exactly when the answer names another servo.\<close>

lemma query_mturn_keeps:
  assumes "FSUS_QueryServoAngleMTurn fl fd st i = Inr (c, a, st')"
  shows "length (tx_buf st') = length (tx_buf st) \<and> fs_junk st' = fs_junk st \<and>
    fs_held st' = fs_held st + of_bool (c = FSUS_STATUS_ID_NOT_MATCH)"
proof (cases "granted st")
  case True
  let ?st = "st\<lparr>fs_held := fs_held st + 1, fs_refused := if fs_held st > 0 then fs_refused st else tl (fs_refused st)\<rparr>"
  obtain st2 d p st3 where s: "FSUS_SendPackage ?st FSUS_CMD_QUERY_SERVO_ANGLE_MTURN 1 [i] = Inr st2"
      "FSUS_RecvPackage st2 = Inr (d, p, st3)"
      "if d = FSUS_STATUS_SUCCESS \<and> pk_content p ! 0 \<noteq> i then c = FSUS_STATUS_ID_NOT_MATCH \<and> st' = st3
       else c = d \<and> st' = fs_release st3"
    using assms True by (auto simp: FSUS_QueryServoAngleMTurn_def fs_take_eq split: if_splits)
  then have "kept ?st st3" "d \<in> recv_codes" using send_keeps recv_package_keeps kept_trans by blast+
  then show ?thesis using s(3) recv_codes_not_7 [of d]
    by (auto simp: kept_def fs_release_def split: if_splits)
next
  case False
  then show ?thesis using assms by (auto simp: FSUS_QueryServoAngleMTurn_def fs_take_eq fs_codes)
qed

lemma query_mturn_code: "FSUS_QueryServoAngleMTurn fl fd st i = Inr (c, a, st') \<Longrightarrow> c \<le> 7"
  using recv_package_keeps
  by (fastforce simp: FSUS_QueryServoAngleMTurn_def fs_take_eq fs_codes recv_codes_def split: if_splits)

lemma wait_keeps:
  "wait_loop fl fd i tg mt n a st = Inr (c, st') \<Longrightarrow>
   length (tx_buf st') = length (tx_buf st) \<and> fs_junk st' = fs_junk st \<and> fs_held st \<le> fs_held st' \<and>
   (\<not> mt \<longrightarrow> fs_held st' = fs_held st) \<and> c \<in> {FSUS_STATUS_SUCCESS, FSUS_STATUS_FAIL}"
proof (induction n arbitrary: a st)
  case (Suc n)
  let ?q = "if mt then FSUS_QueryServoAngleMTurn fl fd st i else FSUS_QueryServoAngle fl fd st i"
  obtain d b st1 where q: "?q = Inr (d, b, st1)" using Suc.prems by auto
  have k: "length (tx_buf st1) = length (tx_buf st) \<and> fs_junk st1 = fs_junk st \<and> fs_held st \<le> fs_held st1 \<and>
      (\<not> mt \<longrightarrow> fs_held st1 = fs_held st)"
    using q query_mturn_keeps [of fl fd st i d b st1] query_keeps [of fl fd st i d b st1]
    by (auto simp: kept_def split: if_splits)
  show ?case
  proof (cases "\<bar>fl (tg - (case b of None \<Rightarrow> a | Some v \<Rightarrow> v))\<bar> \<le> FSUS_ANGLE_DEADAREA")
    case True
    then show ?thesis using Suc.prems q k by (simp add: Let_def)
  next
    case False
    then have "wait_loop fl fd i tg mt n (case b of None \<Rightarrow> a | Some v \<Rightarrow> v) st1 = Inr (c, st')"
      using Suc.prems q by (simp add: Let_def)
    then show ?thesis using Suc.IH k by fastforce
  qed
qed simp

end
