(* ===== verification/ServoProps.thy ===== *)
theory ServoProps
  imports ServoRun
begin

section \<open>Properties of the servo's operations\<close>

text \<open>
  The operations of the servo as data, so that a property can speak of all of them; the orders
  a servo reads from the frames; and the properties: what every operation keeps, that the
  orders are those that were asked for, what the receiver accepts and where it runs out of its
  array, and what waiting for an angle reports.
\<close>

subsection \<open>All operations\<close>

datatype servo_op =
    Ping u8
  | ResetUserData u8
  | ReadData u8 u8 "u8 list" u8
  | WriteData u8 u8 "u8 list" u8
  | WheelMove u8 u8 u16 u16
  | WheelStop u8
  | WheelKeepMove u8 bool u16
  | WheelMoveTime u8 bool u16 u16
  | WheelMoveNCircle u8 bool u16 u16
  | SetServoAngle u8 real u16 u16 bool
  | SetServoAngleByInterval u8 real u16 u16 u16 u16 bool
  | SetServoAngleByVelocity u8 real real u16 u16 u16 bool
  | SetServoAngleMTurn u8 real u32 u16 bool
  | SetServoAngleMTurnByInterval u8 real u32 u16 u16 u16 bool
  | SetServoAngleMTurnByVelocity u8 real real u16 u16 u16 bool
  | QueryServoAngle u8
  | QueryServoAngleMTurn u8
  | DampingMode u8 u16

fun servo_run :: "rounding \<Rightarrow> rounding \<Rightarrow> real \<Rightarrow> servo_op \<Rightarrow> servo_t \<Rightarrow> (u8 \<times> servo_t) res" where
  "servo_run fl fd j (Ping i) st = FSUS_Ping st i"
| "servo_run fl fd j (ResetUserData i) st = FSUS_ResetUserData st i"
| "servo_run fl fd j (ReadData i a v n) st = bind_res (FSUS_ReadData st i a v n) (\<lambda>(c, v', n', st'). Inr (c, st'))"
| "servo_run fl fd j (WriteData i a v n) st = FSUS_WriteData st i a v n"
| "servo_run fl fd j (WheelMove i m s v) st = FSUS_WheelMove st i m s v"
| "servo_run fl fd j (WheelStop i) st = FSUS_WheelStop st i"
| "servo_run fl fd j (WheelKeepMove i cw s) st = FSUS_WheelKeepMove st i cw s"
| "servo_run fl fd j (WheelMoveTime i cw s t) st = FSUS_WheelMoveTime st i cw s t"
| "servo_run fl fd j (WheelMoveNCircle i cw s n) st = FSUS_WheelMoveNCircle st i cw s n"
| "servo_run fl fd j (SetServoAngle i a t p w) st = FSUS_SetServoAngle fl fd j st i a t p w"
| "servo_run fl fd j (SetServoAngleByInterval i a t ta td p w) st = FSUS_SetServoAngleByInterval fl fd j st i a t ta td p w"
| "servo_run fl fd j (SetServoAngleByVelocity i a v ta td p w) st = FSUS_SetServoAngleByVelocity fl fd j st i a v ta td p w"
| "servo_run fl fd j (SetServoAngleMTurn i a t p w) st = FSUS_SetServoAngleMTurn fl fd j st i a t p w"
| "servo_run fl fd j (SetServoAngleMTurnByInterval i a t ta td p w) st =
     FSUS_SetServoAngleMTurnByInterval fl fd j st i a t ta td p w"
| "servo_run fl fd j (SetServoAngleMTurnByVelocity i a v ta td p w) st =
     FSUS_SetServoAngleMTurnByVelocity fl fd j st i a v ta td p w"
| "servo_run fl fd j (QueryServoAngle i) st = bind_res (FSUS_QueryServoAngle fl fd st i) (\<lambda>(c, a, st'). Inr (c, st'))"
| "servo_run fl fd j (QueryServoAngleMTurn i) st =
     bind_res (FSUS_QueryServoAngleMTurn fl fd st i) (\<lambda>(c, a, st'). Inr (c, st'))"
| "servo_run fl fd j (DampingMode i p) st = FSUS_DampingMode st i p"

text \<open>The operations that may query the angle over several turns.\<close>

fun asks_mturn :: "servo_op \<Rightarrow> bool" where
  "asks_mturn (QueryServoAngleMTurn i) = True"
| "asks_mturn (SetServoAngleMTurn i a t p w) = w"
| "asks_mturn (SetServoAngleMTurnByInterval i a t ta td p w) = w"
| "asks_mturn (SetServoAngleMTurnByVelocity i a v ta td p w) = w"
| "asks_mturn op = False"

definition grown :: "bool \<Rightarrow> servo_t \<Rightarrow> servo_t \<Rightarrow> bool" where
  "grown mt st st' \<longleftrightarrow> length (tx_buf st') = length (tx_buf st) \<and> fs_junk st' = fs_junk st \<and>
     fs_held st \<le> fs_held st' \<and> (\<not> mt \<longrightarrow> fs_held st' = fs_held st)"

lemma kept_grown: "kept st st' \<Longrightarrow> grown mt st st'"
  by (simp add: kept_def grown_def)

lemma then_wait_grown:
  assumes "then_wait fl fd j i a mt w m = Inr (c, st')" "m = request st cmd content"
  shows "grown (mt \<and> w) st st' \<and> c \<le> 7"
proof -
  obtain d st1 where m: "request st cmd content = Inr (d, st1)" using assms by (auto simp: then_wait_def)
  then have k: "kept st st1" "d \<in> recv_codes" using request_keeps by blast+
  consider "c = d" "st' = st1" | "w" "wait_loop fl fd i a mt FSUS_WAIT_COUNT_MAX j st1 = Inr (c, st')"
    using assms m by (auto simp: then_wait_def FSUS_Wait_def split: if_splits)
  then show ?thesis
  proof cases
    case 1
    then show ?thesis using k kept_grown by (auto simp: recv_codes_def fs_codes)
  next
    case 2
    then show ?thesis using k wait_keeps [OF 2(2)] by (auto simp: kept_def grown_def fs_codes)
  qed
qed

lemma request_grown: "request st cmd content = Inr (c, st') \<Longrightarrow> grown mt st st' \<and> c \<le> 7"
  using request_keeps kept_grown by (fastforce simp: recv_codes_def fs_codes)

lemma ask_grown: "ask st cmd content = Inr (c, p, st') \<Longrightarrow> grown mt st st' \<and> c \<le> 7"
  using ask_keeps kept_grown by (fastforce simp: recv_codes_def fs_codes)

lemma exchange_grown:
  assumes "FSUS_SendPackage st cmd n content = Inr st1" "FSUS_RecvPackage st1 = Inr (c, p, st2)"
  shows "grown mt st st2 \<and> c \<le> 7"
  using send_keeps [OF assms(1)] recv_package_keeps [OF assms(2)] kept_trans kept_grown
  by (fastforce simp: recv_codes_def fs_codes)

lemmas wheel_defs = FSUS_WheelMove_def FSUS_WheelStop_def FSUS_WheelKeepMove_def FSUS_WheelMoveTime_def
  FSUS_WheelMoveNCircle_def FSUS_DampingMode_def
lemmas angle_defs = FSUS_SetServoAngle_def FSUS_SetServoAngleByInterval_def FSUS_SetServoAngleByVelocity_def
  FSUS_SetServoAngleMTurn_def FSUS_SetServoAngleMTurnByInterval_def FSUS_SetServoAngleMTurnByVelocity_def

lemma servo_run_grown: "servo_run fl fd j op st = Inr (c, st') \<Longrightarrow> grown (asks_mturn op) st st' \<and> c \<le> 7"
proof (cases op)
  case (Ping i)
  then show "servo_run fl fd j op st = Inr (c, st') \<Longrightarrow> ?thesis"
    by (auto simp: FSUS_Ping_def fs_codes dest!: ask_grown split: if_splits)
next
  case (ResetUserData i)
  then show "servo_run fl fd j op st = Inr (c, st') \<Longrightarrow> ?thesis"
    by (auto simp: FSUS_ResetUserData_def fs_codes dest!: ask_grown split: if_splits)
next
  case (ReadData i a v n)
  then show "servo_run fl fd j op st = Inr (c, st') \<Longrightarrow> ?thesis"
    by (auto simp: FSUS_ReadData_def split: if_splits dest: exchange_grown)
next
  case (WriteData i a v n)
  then show "servo_run fl fd j op st = Inr (c, st') \<Longrightarrow> ?thesis"
    by (auto simp: FSUS_WriteData_def fs_codes split: if_splits dest: exchange_grown)
next
  case (QueryServoAngle i)
  then show "servo_run fl fd j op st = Inr (c, st') \<Longrightarrow> ?thesis"
    by (auto simp: FSUS_QueryServoAngle_def fs_codes dest!: ask_grown split: if_splits)
next
  case (QueryServoAngleMTurn i)
  then show "servo_run fl fd j op st = Inr (c, st') \<Longrightarrow> ?thesis"
    using query_mturn_keeps [of fl fd st i c _ st'] query_mturn_code [of fl fd st i c _ st'] by (auto simp: grown_def)
qed (auto simp: wheel_defs angle_defs Let_def dest!: request_grown then_wait_grown)

text \<open>
  C31: every operation of the servo that returns leaves the transmit buffer and the record in
  shape, answers one of the eight status codes, and gives the mutex back as often as it took it;
  only the operations that query the angle over several turns can keep it.
\<close>

theorem servo_ops_keep:
  assumes "servo_ok st" and "servo_run fl fd junk op st = Inr (c, st')"
  shows "servo_ok st' \<and> c \<le> FSUS_STATUS_ID_NOT_MATCH \<and> fs_held st \<le> fs_held st' \<and>
    (\<not> asks_mturn op \<longrightarrow> fs_held st' = fs_held st)"
  using servo_run_grown [OF assms(2)] assms(1) by (auto simp: grown_def servo_ok_def fs_codes)

definition demo_servo :: servo_t where
  "demo_servo = \<lparr>fs_rx = [], rx_sem = 0, fs_arrivals = [], fs_held = 0, fs_refused = [], fs_stack = [],
     fs_junk = \<lparr>pk_header = 0, pk_cmdId = 0, pk_size = 0, pk_content = replicate 50 0, pk_checksum = 0, pk_status = 0\<rparr>,
     tx_buf = replicate 55 0, fs_sent = []\<rparr>"

lemma demo_servo_ok: "servo_ok demo_servo" "granted demo_servo" "garbage demo_servo = 0" "stream demo_servo = []"
  by (simp_all add: demo_servo_def servo_ok_def granted_def garbage_def stream_def)

lemma request_sends:
  assumes "servo_ok st" "granted st" "length content \<le> 50"
  shows "\<exists>st'. request st cmd content = Inr (FSUS_STATUS_SUCCESS, st') \<and> servo_ok st' \<and> fs_held st' = fs_held st \<and>
    fs_sent st' = fs_sent st @ [frame_with (garbage st) FSUS_PACK_REQUEST_HEADER cmd content] \<and>
    fs_stack st' = tl (fs_stack st) \<and> stream st' = stream st \<and>
    fs_refused st' = (if fs_held st > 0 then fs_refused st else tl (fs_refused st))"
proof -
  let ?st = "st\<lparr>fs_held := fs_held st + 1, fs_refused := if fs_held st > 0 then fs_refused st else tl (fs_refused st)\<rparr>"
  have "servo_ok ?st" using assms(1) by (simp add: servo_ok_def)
  then obtain t where t: "length t = 55" "FSUS_SendPackage ?st cmd (of_nat (length content)) content =
     Inr (?st\<lparr>fs_stack := tl (fs_stack st), tx_buf := t,
       fs_sent := fs_sent st @ [frame_with (garbage st) FSUS_PACK_REQUEST_HEADER cmd content]\<rparr>)"
    using send_ok [of ?st content cmd] assms(3) by (auto simp: garbage_def)
  then show ?thesis
    using assms by (simp add: request_def fs_take_eq fs_release_def servo_ok_def stream_def)
qed

theorem servo_ops_keep_witness:
  "\<exists>st'. servo_run id id 0 (WheelMoveTime 0 True 500 3800) demo_servo = Inr (FSUS_STATUS_SUCCESS, st') \<and>
     servo_ok st' \<and> fs_held st' = fs_held demo_servo"
proof -
  obtain st' where r: "servo_run id id 0 (WheelMoveTime 0 True 500 3800) demo_servo = Inr (FSUS_STATUS_SUCCESS, st')"
    using request_sends [OF demo_servo_ok(1,2), of "[0, 0x83, lo16 500, hi16 500, lo16 3800, hi16 3800]" FSUS_CMD_SPIN]
    by (auto simp: wheel_defs wheel_method_def)
  then show ?thesis using servo_ops_keep [OF demo_servo_ok(1) r] by auto
qed

subsection \<open>The orders the servo reads\<close>

datatype order =
    Spin u8 u8 u16 u16
  | Rotate u8 int u16 u16
  | RotateInterval u8 int u16 u16 u16 u16
  | RotateVelocity u8 int u16 u16 u16 u16
  | Turn u8 int u32 u16
  | TurnInterval u8 int u32 u16 u16 u16
  | TurnVelocity u8 int u16 u16 u16 u16
  | Damp u8 u16

definition le16 :: "u8 list \<Rightarrow> nat \<Rightarrow> u16" where
  "le16 c k = join16 (c ! (k + 1)) (c ! k)"

definition le32 :: "u8 list \<Rightarrow> nat \<Rightarrow> u32" where
  "le32 c k = join32 (c ! (k + 3)) (c ! (k + 2)) (c ! (k + 1)) (c ! k)"

definition order_of :: "u8 \<times> u8 list \<Rightarrow> order option" where
  "order_of f =
     (let c = snd f in
      if fst f = 7 \<and> length c = 6 then Some (Spin (c ! 0) (c ! 1) (le16 c 2) (le16 c 4))
      else if fst f = 8 \<and> length c = 7 then Some (Rotate (c ! 0) (sint (le16 c 1)) (le16 c 3) (le16 c 5))
      else if fst f = 9 \<and> length c = 3 then Some (Damp (c ! 0) (le16 c 1))
      else if fst f = 11 \<and> length c = 11
      then Some (RotateInterval (c ! 0) (sint (le16 c 1)) (le16 c 3) (le16 c 5) (le16 c 7) (le16 c 9))
      else if fst f = 12 \<and> length c = 11
      then Some (RotateVelocity (c ! 0) (sint (le16 c 1)) (le16 c 3) (le16 c 5) (le16 c 7) (le16 c 9))
      else if fst f = 13 \<and> length c = 11 then Some (Turn (c ! 0) (sint (le32 c 1)) (le32 c 5) (le16 c 9))
      else if fst f = 14 \<and> length c = 15
      then Some (TurnInterval (c ! 0) (sint (le32 c 1)) (le32 c 5) (le16 c 9) (le16 c 11) (le16 c 13))
      else if fst f = 15 \<and> length c = 13
      then Some (TurnVelocity (c ! 0) (sint (le32 c 1)) (le16 c 5) (le16 c 7) (le16 c 9) (le16 c 11))
      else None)"

text \<open>
  What is asked for: angles in tenths of a degree, limited to half a turn or 1024 turns,
  velocities to 1 to 750 degrees per second, acceleration times to at least 20 ms.
\<close>

definition tenths :: "rounding \<Rightarrow> real \<Rightarrow> real \<Rightarrow> int" where
  "tenths fl m a = trunc (fl (10 * max (- m) (min m a)))"

fun wanted :: "rounding \<Rightarrow> servo_op \<Rightarrow> order option" where
  "wanted fl (WheelMove i m s v) = Some (Spin i m s v)"
| "wanted fl (WheelStop i) = Some (Spin i 0 0 0)"
| "wanted fl (WheelKeepMove i cw s) = Some (Spin i (if cw then 0x81 else 0x01) s 0)"
| "wanted fl (WheelMoveTime i cw s t) = Some (Spin i (if cw then 0x83 else 0x03) s t)"
| "wanted fl (WheelMoveNCircle i cw s n) = Some (Spin i (if cw then 0x82 else 0x02) s n)"
| "wanted fl (SetServoAngle i a t p w) = (if w then None else Some (Rotate i (tenths fl 180 a) t p))"
| "wanted fl (SetServoAngleByInterval i a t ta td p w) =
     (if w then None else Some (RotateInterval i (tenths fl 180 a) t (max 20 ta) (max 20 td) p))"
| "wanted fl (SetServoAngleByVelocity i a v ta td p w) =
     (if w then None else Some (RotateVelocity i (tenths fl 180 a)
        (word_of_int (trunc (fl (10 * max 1 (min 750 v))))) (max 20 ta) (max 20 td) p))"
| "wanted fl (SetServoAngleMTurn i a t p w) =
     (if w \<or> t > 4096000 then None else Some (Turn i (tenths fl 368640 a) t p))"
| "wanted fl (SetServoAngleMTurnByInterval i a t ta td p w) =
     (if w then None else Some (TurnInterval i (tenths fl 368640 a) (min 4096000 t) (max 20 ta) (max 20 td) p))"
| "wanted fl (SetServoAngleMTurnByVelocity i a v ta td p w) =
     (if w then None else Some (TurnVelocity i (tenths fl 368640 a)
        (word_of_int (trunc (fl (10 * max 1 (min 750 v))))) (max 20 ta) (max 20 td) p))"
| "wanted fl (DampingMode i p) = Some (Damp i p)"
| "wanted fl op = None"

text \<open>Single-precision rounding is monotonic and exact on the integers up to 2^24.\<close>

definition float_ok :: "rounding \<Rightarrow> bool" where
  "float_ok fl \<longleftrightarrow> mono fl \<and> (\<forall>n :: int. \<bar>n\<bar> \<le> 2 ^ 24 \<longrightarrow> fl (of_int n) = of_int n)"

lemma float_bound:
  assumes "float_ok fl" "of_int m \<le> x" "x \<le> of_int n" "\<bar>m\<bar> \<le> 2 ^ 24" "\<bar>n\<bar> \<le> 2 ^ 24"
  shows "m \<le> trunc (fl x) \<and> trunc (fl x) \<le> n"
proof -
  have "fl (of_int m) \<le> fl x" "fl x \<le> fl (of_int n)" using assms by (auto simp: float_ok_def dest: monoD)
  then have "of_int m \<le> fl x" "fl x \<le> of_int n" using assms by (auto simp: float_ok_def)
  then show ?thesis by (auto simp: trunc_def le_floor_iff floor_le_iff le_ceiling_iff ceiling_le_iff)
qed

lemma limit_eq: "0 \<le> m \<Longrightarrow> limit (- m) m a = max (- m) (min m a)"
  by (auto simp: limit_def)

lemma limit_velocity_eq: "limit_velocity v = max 1 (min 750 v)"
  by (auto simp: limit_velocity_def)

lemma at_least_20_eq: "at_least_20 t = max 20 t"
  by (auto simp: at_least_20_def max_def not_less)

lemma tenths_bound:
  assumes "float_ok fl" "0 \<le> m" "10 * m \<le> 2 ^ 24"
  shows "\<bar>tenths fl (of_int m) a\<bar> \<le> 10 * m"
proof -
  have "of_int (- (10 * m)) \<le> 10 * max (- of_int m) (min (of_int m) a)"
    "10 * max (- of_int m) (min (of_int m) a) \<le> (of_int (10 * m) :: real)"
    using assms(2) by (auto simp: max_def min_def)
  then show ?thesis unfolding tenths_def using float_bound [OF assms(1)] assms by (smt (verit, best))
qed

lemma velocity_bound:
  assumes "float_ok fl"
  shows "10 \<le> trunc (fl (10 * max 1 (min 750 v))) \<and> trunc (fl (10 * max 1 (min 750 v))) \<le> 7500"
  by (rule float_bound [OF assms]) auto

lemma sint_u16: "\<bar>n\<bar> \<le> 1800 \<Longrightarrow> sint (word_of_int n :: u16) = n"
  by (simp add: signed_take_bit_int_eq_self sint_sbintrunc')

lemma sint_u32: "\<bar>n\<bar> \<le> 3686400 \<Longrightarrow> sint (word_of_int n :: u32) = n"
  by (simp add: signed_take_bit_int_eq_self sint_sbintrunc')

lemma float_rotation:
  assumes "float_ok fl"
  shows "float_int16 (fl (10 * limit (- 180) 180 a)) = Inr (word_of_int (tenths fl 180 a)) \<and>
    sint (word_of_int (tenths fl 180 a) :: u16) = tenths fl 180 a"
proof -
  have "\<bar>tenths fl 180 a\<bar> \<le> 1800" using tenths_bound [OF assms, of 180 a] by simp
  then show ?thesis by (auto simp: float_int16_def limit_eq tenths_def [symmetric] sint_u16 abs_le_iff)
qed

lemma float_turn:
  assumes "float_ok fl"
  shows "float_int32 (fl (10 * limit (- 368640) 368640 a)) = Inr (word_of_int (tenths fl 368640 a)) \<and>
    sint (word_of_int (tenths fl 368640 a) :: u32) = tenths fl 368640 a"
proof -
  have "\<bar>tenths fl 368640 a\<bar> \<le> 3686400" using tenths_bound [OF assms, of 368640 a] by simp
  then show ?thesis by (auto simp: float_int32_def limit_eq tenths_def [symmetric] sint_u32 abs_le_iff)
qed

lemma float_velocity:
  assumes "float_ok fl"
  shows "float_uint16 (fl (10 * limit_velocity v)) = Inr (word_of_int (trunc (fl (10 * max 1 (min 750 v)))))"
  using velocity_bound [OF assms, of v] by (simp add: float_uint16_def limit_velocity_eq)

text \<open>One request and the order read from it.\<close>

definition ordered :: "order \<Rightarrow> servo_t \<Rightarrow> (u8 \<times> servo_t) res \<Rightarrow> bool" where
  "ordered ord st m \<longleftrightarrow> (\<exists>st' f. m = Inr (FSUS_STATUS_SUCCESS, st') \<and> fs_sent st' = fs_sent st @ [f] \<and>
     Option.bind (servo_reads f) order_of = (if garbage st = 0 then Some ord else None))"

lemma request_ordered:
  assumes "servo_ok st" "granted st" "length content \<le> 50" "order_of (cmd, content) = Some ord"
  shows "ordered ord st (request st cmd content)"
  using request_sends [OF assms(1-3), of cmd] assms(3,4) by (auto simp: ordered_def servo_reads_frame)

lemma then_wait_ordered: "ordered ord st m \<Longrightarrow> ordered ord st (then_wait fl fd j i a mt False m)"
  by (auto simp: ordered_def then_wait_def)

lemmas order_simps = order_of_def le16_def le32_def Let_def

lemmas order_cmds = FSUS_CMD_SPIN_def FSUS_CMD_ROTATE_def FSUS_CMD_DAMPING_def FSUS_CMD_SET_SERVO_ANGLE_BY_INTERVAL_def
  FSUS_CMD_SET_SERVO_ANGLE_BY_VELOCITY_def FSUS_CMD_SET_SERVO_ANGLE_MTURN_def
  FSUS_CMD_SET_SERVO_ANGLE_MTURN_BY_INTERVAL_def FSUS_CMD_SET_SERVO_ANGLE_MTURN_BY_VELOCITY_def

lemma wheel_orders:
  assumes "servo_ok st" "granted st"
  shows "ordered (Spin i m s v) st (FSUS_WheelMove st i m s v)" "ordered (Damp i p) st (FSUS_DampingMode st i p)"
  unfolding FSUS_WheelMove_def FSUS_DampingMode_def
  by (rule request_ordered [OF assms]; simp add: order_simps order_cmds)+

lemma rotate_orders:
  assumes "servo_ok st" "granted st" and f: "float_ok fl"
  shows "ordered (Rotate i (tenths fl 180 a) t p) st (FSUS_SetServoAngle fl fd j st i a t p False)"
    "ordered (RotateInterval i (tenths fl 180 a) t (max 20 ta) (max 20 td) p) st
       (FSUS_SetServoAngleByInterval fl fd j st i a t ta td p False)"
    "ordered (RotateVelocity i (tenths fl 180 a) (word_of_int (trunc (fl (10 * max 1 (min 750 v))))) (max 20 ta) (max 20 td) p) st
       (FSUS_SetServoAngleByVelocity fl fd j st i a v ta td p False)"
  unfolding FSUS_SetServoAngle_def FSUS_SetServoAngleByInterval_def FSUS_SetServoAngleByVelocity_def Let_def
    conjunct1 [OF float_rotation [OF f]] float_velocity [OF f] bind_res_Inr at_least_20_eq
  by (rule then_wait_ordered, rule request_ordered [OF assms(1,2)];
      simp add: order_simps order_cmds conjunct2 [OF float_rotation [OF f]])+

lemma turn_orders:
  assumes "servo_ok st" "granted st" and f: "float_ok fl"
  shows "t \<le> 4096000 \<Longrightarrow> ordered (Turn i (tenths fl 368640 a) t p) st (FSUS_SetServoAngleMTurn fl fd j st i a t p False)"
    "ordered (TurnInterval i (tenths fl 368640 a) (min 4096000 t) (max 20 ta) (max 20 td) p) st
       (FSUS_SetServoAngleMTurnByInterval fl fd j st i a t ta td p False)"
    "ordered (TurnVelocity i (tenths fl 368640 a) (word_of_int (trunc (fl (10 * max 1 (min 750 v))))) (max 20 ta) (max 20 td) p) st
       (FSUS_SetServoAngleMTurnByVelocity fl fd j st i a v ta td p False)"
proof -
  have m: "(if t > 4096000 then 4096000 else t) = min 4096000 t" by (auto simp: min_def)
  show "ordered (TurnInterval i (tenths fl 368640 a) (min 4096000 t) (max 20 ta) (max 20 td) p) st
       (FSUS_SetServoAngleMTurnByInterval fl fd j st i a t ta td p False)"
    unfolding FSUS_SetServoAngleMTurnByInterval_def Let_def m conjunct1 [OF float_turn [OF f]] bind_res_Inr at_least_20_eq
    by (rule then_wait_ordered, rule request_ordered [OF assms(1,2)];
        simp add: order_simps order_cmds conjunct2 [OF float_turn [OF f]])
  show "ordered (TurnVelocity i (tenths fl 368640 a) (word_of_int (trunc (fl (10 * max 1 (min 750 v))))) (max 20 ta) (max 20 td) p) st
       (FSUS_SetServoAngleMTurnByVelocity fl fd j st i a v ta td p False)"
    unfolding FSUS_SetServoAngleMTurnByVelocity_def Let_def conjunct1 [OF float_turn [OF f]] float_velocity [OF f]
      bind_res_Inr at_least_20_eq
    by (rule then_wait_ordered, rule request_ordered [OF assms(1,2)];
        simp add: order_simps order_cmds conjunct2 [OF float_turn [OF f]])
  show "ordered (Turn i (tenths fl 368640 a) t p) st (FSUS_SetServoAngleMTurn fl fd j st i a t p False)" if "t \<le> 4096000"
  proof -
    have n: "\<not> t > 4096000" using that by simp
    show ?thesis
      unfolding FSUS_SetServoAngleMTurn_def Let_def if_not_P [OF n] conjunct1 [OF float_turn [OF f]] bind_res_Inr
      by (rule then_wait_ordered, rule request_ordered [OF assms(1,2)];
          simp add: order_simps order_cmds conjunct2 [OF float_turn [OF f]])
  qed
qed


lemma id_float_ok: "float_ok id"
  by (simp add: float_ok_def mono_def)


text \<open>
  Too long an interval replaces the angle in \<open>FSUS_SetServoAngleMTurn\<close>: the servo is sent to
  4096000 degrees, whatever angle was asked for.
\<close>

lemma turn_interval_replaces_angle:
  assumes "servo_ok st" "granted st" "t > 4096000" "fl 40960000 = 40960000"
  shows "ordered (Turn i 40960000 t p) st (FSUS_SetServoAngleMTurn fl fd j st i a t p False)"
proof -
  have "float_int32 (fl (10 * (if t > 4096000 then 4096000 else limit (- 368640) 368640 a))) = Inr 40960000"
    using assms(3,4) by (simp add: float_int32_def trunc_def)
  then show ?thesis
    unfolding FSUS_SetServoAngleMTurn_def Let_def
    by (simp only: bind_res_Inr) (rule then_wait_ordered, rule request_ordered [OF assms(1,2)];
      simp add: order_simps order_cmds)
qed

subsection \<open>Answers\<close>

lemma recv_package_result:
  "fs_feed (garbage st) (recv_start (fs_junk st)) (stream st) = Inr (c, p) \<Longrightarrow>
   \<exists>st'. FSUS_RecvPackage st = Inr (c, p, st') \<and> same_servo (st\<lparr>fs_stack := tl (fs_stack st)\<rparr>) st'"
  using recv_loop_result(1) [of "garbage st" "recv_start (fs_junk st)" "st\<lparr>fs_stack := tl (fs_stack st)\<rparr>" c p]
  by (simp add: recv_package_feed)

lemma recv_package_fault:
  "FSUS_RecvPackage st = Inl e \<longleftrightarrow> fs_feed (garbage st) (recv_start (fs_junk st)) (stream st) = Inl e"
  using recv_loop_result(2) [of "garbage st" "recv_start (fs_junk st)" "st\<lparr>fs_stack := tl (fs_stack st)\<rparr>" e]
  by (simp add: recv_package_feed)

text \<open>The value of the unset variable when the answer is checked, after the request has been sent.\<close>

definition garbage2 :: "servo_t \<Rightarrow> u8" where
  "garbage2 st = garbage (st\<lparr>fs_stack := tl (fs_stack st)\<rparr>)"

lemma ask_feed:
  assumes s: "servo_ok st" "granted st" "length req \<le> 50"
    and f: "fs_feed (garbage2 st) (recv_start (fs_junk st)) (stream st) = Inr (c, p)"
  shows "\<exists>st'. ask st cmd req = Inr (c, p, st') \<and> fs_held st' = fs_held st"
proof -
  let ?st = "st\<lparr>fs_held := fs_held st + 1, fs_refused := if fs_held st > 0 then fs_refused st else tl (fs_refused st)\<rparr>"
  have "servo_ok ?st" using s(1) by (simp add: servo_ok_def)
  then obtain u where u: "FSUS_SendPackage ?st cmd (of_nat (length req)) req =
     Inr (?st\<lparr>fs_stack := tl (fs_stack st), tx_buf := u,
       fs_sent := fs_sent st @ [frame_with (garbage st) FSUS_PACK_REQUEST_HEADER cmd req]\<rparr>)" (is "_ = Inr ?st2")
    using send_ok [of ?st req cmd] s(3) by (auto simp: garbage_def)
  have "garbage ?st2 = garbage2 st" "fs_junk ?st2 = fs_junk st" "stream ?st2 = stream st" "fs_held ?st2 = fs_held st + 1"
    by (simp_all add: garbage2_def garbage_def stream_def)
  then obtain st3 where "FSUS_RecvPackage ?st2 = Inr (c, p, st3)" "fs_held st3 = fs_held st + 1"
    using recv_package_result [of ?st2 c p] f by (auto simp: same_servo_def)
  then have "ask st cmd req = Inr (c, p, fs_release st3)" "fs_held (fs_release st3) = fs_held st"
    using u s(2) by (simp_all add: ask_def fs_take_eq fs_release_def)
  then show ?thesis by blast
qed

text \<open>
  C16: the answer to a query of the angle is found behind any bytes that do not start a frame,
  however it is spread over interrupts. If the unset variable \<open>checksum\<close> was not zero the answer
  is rejected; an answer that names another servo is reported as such; otherwise the angle is
  the transmitted number of tenths of a degree. The mutex is given back in all cases.
\<close>

theorem servo_query_reads_angle:
  assumes "servo_ok st" "granted st" "5 \<notin> set noise"
    and "stream st = noise @ framed FSUS_PACK_RESPONSE_HEADER FSUS_CMD_READ_ANGLE [i', lo16 x, hi16 x] @ rest"
  shows "\<exists>st'. fs_held st' = fs_held st \<and> FSUS_QueryServoAngle fl fd st i = Inr
    (if garbage2 st \<noteq> 0 then (FSUS_STATUS_CHECKSUM_ERROR, None, st')
     else if i' \<noteq> i then (FSUS_STATUS_ID_NOT_MATCH, None, st')
     else (FSUS_STATUS_SUCCESS, Some (fl (fd (of_int (sint x) / 10))), st'))"
proof -
  have "FSUS_CMD_READ_ANGLE \<le> 17" by (simp add: FSUS_CMD_READ_ANGLE_def)
  then obtain p where p: "fs_feed (garbage2 st) (recv_start (fs_junk st)) (stream st) =
      Inr (if garbage2 st = 0 then FSUS_STATUS_SUCCESS else FSUS_STATUS_CHECKSUM_ERROR, p)"
      "take 3 (pk_content p) = [i', lo16 x, hi16 x]" "length (pk_content p) = 50"
    using feed_frame [of "fs_junk st" FSUS_CMD_READ_ANGLE "[i', lo16 x, hi16 x]" noise "garbage2 st" rest] assms
    by (auto simp: servo_ok_def eval_nat_numeral)
  have n: "pk_content p ! 0 = i'" "pk_content p ! 1 = lo16 x" "pk_content p ! 2 = hi16 x"
    using arg_cong [OF p(2), of "\<lambda>l. l ! 0"] arg_cong [OF p(2), of "\<lambda>l. l ! 1"] arg_cong [OF p(2), of "\<lambda>l. l ! 2"] by simp_all
  obtain st' where "ask st FSUS_CMD_READ_ANGLE [i] =
      Inr (if garbage2 st = 0 then FSUS_STATUS_SUCCESS else FSUS_STATUS_CHECKSUM_ERROR, p, st')" "fs_held st' = fs_held st"
    using ask_feed [OF assms(1,2) _ p(1), of "[i]"] by auto
  then show ?thesis using n by (intro exI [of _ st']) (simp add: FSUS_QueryServoAngle_def fs_codes)
qed

theorem servo_query_reads_angle_witness:
  "\<exists>st st' v. FSUS_QueryServoAngle id id st 3 = Inr (FSUS_STATUS_SUCCESS, Some v, st') \<and> v = 45.5 \<and>
     fs_arrivals st = [Some ([0, 5, 0x1c, 10], 3), Some ([3, 3, 0xC7, 0x01], 0), Some ([249], 0)]"
proof -
  define st where "st = demo_servo\<lparr>fs_arrivals := [Some ([0, 5, 0x1c, 10], 3), Some ([3, 3, 0xC7, 0x01], 0), Some ([249], 0)]\<rparr>"
  have st: "servo_ok st" "granted st" "garbage2 st = 0" "5 \<notin> set [0 :: u8]"
    using demo_servo_ok by (simp_all add: st_def servo_ok_def granted_def garbage2_def garbage_def demo_servo_def)
  have "stream st = [0] @ framed FSUS_PACK_RESPONSE_HEADER FSUS_CMD_READ_ANGLE [3, lo16 455, hi16 455] @ []"
    by (simp add: st_def stream_def demo_servo_def frame_with_def FSUS_CMD_READ_ANGLE_def lo16_def hi16_def
        fs_headers)
  from servo_query_reads_angle [OF st(1,2,4) this, of id id 3] obtain st'
    where "FSUS_QueryServoAngle id id st 3 = Inr (FSUS_STATUS_SUCCESS, Some 45.5, st')"
    using st(3) by auto
  then show ?thesis by (intro exI [of _ st] exI [of _ st'] exI [of _ "45.5"]) (simp add: st_def)
qed

text \<open>
  C30: the receiver writes outside of \<open>content\<close> when an answer has the length zero and more than 50
  bytes follow, and this is its only fault: if receiving faults at all, such an answer was in
  the bytes that came.
\<close>

theorem servo_recv_overflow:
  assumes "servo_ok st"
  shows "(FSUS_RecvPackage st = Inl e \<longrightarrow> e = OutOfBounds \<and>
      (\<exists>pre cmd post. stream st = pre @ [5, 0x1c, cmd, 0] @ post \<and> 50 < length post)) \<and>
    (\<forall>noise cmd post. stream st = noise @ [5, 0x1c, cmd, 0] @ post \<and> 5 \<notin> set noise \<and> cmd \<le> FSUS_CMD_NUM \<and>
      50 < length post \<longrightarrow> FSUS_RecvPackage st = Inl OutOfBounds)"
proof -
  have l: "length (pk_content (fs_junk st)) = 50" using assms by (simp add: servo_ok_def)
  have "FSUS_RecvPackage st = Inl e \<Longrightarrow> e = OutOfBounds \<and>
      (\<exists>pre cmd post. stream st = pre @ [5, 0x1c, cmd, 0] @ post \<and> 50 < length post)"
    using feed_fault [OF _ hist_start [OF l], of "garbage st" "stream st" e] by (simp add: recv_package_fault)
  moreover have "FSUS_RecvPackage st = Inl OutOfBounds"
    if "stream st = noise @ [5, 0x1c, cmd, 0] @ post \<and> 5 \<notin> set noise \<and> cmd \<le> FSUS_CMD_NUM \<and> 50 < length post"
    for noise cmd post
    using feed_empty_answer [OF l, of cmd noise post "garbage st"] that by (simp add: recv_package_fault FSUS_CMD_NUM_def)
  ultimately show ?thesis by blast
qed

theorem servo_recv_overflow_witness:
  "\<exists>st. servo_ok st \<and> length (fs_rx st) = 55 \<and> FSUS_RecvPackage st = Inl OutOfBounds"
proof -
  define st where "st = demo_servo\<lparr>fs_rx := [] @ [5, 0x1c, 1, 0] @ replicate 51 0\<rparr>"
  have ok: "servo_ok st" by (simp add: st_def servo_ok_def demo_servo_def)
  have "stream st = [] @ [5, 0x1c, 1, 0] @ replicate 51 0" by (simp add: st_def stream_def demo_servo_def)
  moreover have "(1 :: u8) \<le> FSUS_CMD_NUM" "length (replicate 51 (0 :: u8)) > 50" "5 \<notin> set ([] :: u8 list)"
    by (simp_all add: FSUS_CMD_NUM_def)
  ultimately have "FSUS_RecvPackage st = Inl OutOfBounds"
    using servo_recv_overflow [OF ok, of OutOfBounds] by blast
  then show ?thesis using ok by (intro exI [of _ st]) (simp add: st_def)
qed

subsection \<open>Waiting for a servo that does not answer\<close>

definition silent :: "servo_t \<Rightarrow> bool" where
  "silent st \<longleftrightarrow> fs_rx st = [] \<and> set (fs_arrivals st) \<subseteq> {None}"

lemma recv_loop_silent:
  "silent st \<Longrightarrow> \<exists>st'. recv_loop g r st = Inr (FSUS_STATUS_TIMEOUT, rc_pkg r, st') \<and> silent st' \<and> same_servo st st'"
proof (induction g r st rule: recv_loop.induct)
  case (1 g r st)
  show ?case
  proof (cases "rx_sem st > 0")
    case True
    then have "\<exists>st'. recv_loop g r (st\<lparr>rx_sem := rx_sem st - 1\<rparr>) = Inr (FSUS_STATUS_TIMEOUT, rc_pkg r, st') \<and>
        silent st' \<and> same_servo (st\<lparr>rx_sem := rx_sem st - 1\<rparr>) st'"
      using 1 by (auto simp: silent_def)
    then show ?thesis using True 1(4) by (subst recv_loop.simps) (auto simp: silent_def same_servo_def)
  next
    case False
    then show ?thesis using 1(4)
      by (subst recv_loop.simps) (auto simp: silent_def same_servo_def split: list.split option.split)
  qed
qed

lemma recv_package_silent:
  assumes "silent st"
  shows "\<exists>p st'. FSUS_RecvPackage st = Inr (FSUS_STATUS_TIMEOUT, p, st') \<and> silent st' \<and>
    same_servo (st\<lparr>fs_stack := tl (fs_stack st)\<rparr>) st'"
  using recv_loop_silent [of "st\<lparr>fs_stack := tl (fs_stack st)\<rparr>" "garbage st" "recv_start (fs_junk st)"] assms
  by (auto simp: recv_package_feed silent_def)

definition lonely :: "servo_t \<Rightarrow> bool" where
  "lonely st \<longleftrightarrow> servo_ok st \<and> silent st \<and> fs_refused st = []"

lemma ask_silent:
  assumes "lonely st" "length req \<le> 50"
  shows "\<exists>p st'. ask st cmd req = Inr (FSUS_STATUS_TIMEOUT, p, st') \<and> lonely st' \<and>
     length (fs_sent st') = length (fs_sent st) + 1"
proof -
  let ?st = "st\<lparr>fs_held := fs_held st + 1\<rparr>"
  have "servo_ok ?st" using assms(1) by (simp add: servo_ok_def lonely_def)
  then obtain u f where u: "FSUS_SendPackage ?st cmd (of_nat (length req)) req =
     Inr (?st\<lparr>fs_stack := tl (fs_stack st), tx_buf := u, fs_sent := fs_sent st @ [f]\<rparr>)" (is "_ = Inr ?st2") "length u = 55"
    using send_ok [of ?st req cmd] assms(2) by auto
  have "silent ?st2" using assms(1) by (simp add: lonely_def silent_def)
  then obtain p st3 where r: "FSUS_RecvPackage ?st2 = Inr (FSUS_STATUS_TIMEOUT, p, st3)" "silent st3"
      "same_servo (?st2\<lparr>fs_stack := tl (fs_stack ?st2)\<rparr>) st3"
    using recv_package_silent by blast
  have "fs_take st = (True, ?st)"
    using assms(1) by (cases st) (simp add: fs_take_eq granted_def lonely_def)
  then have "ask st cmd req = Inr (FSUS_STATUS_TIMEOUT, p, fs_release st3)"
    using u r by (simp add: ask_def)
  moreover have "lonely (fs_release st3)" "length (fs_sent (fs_release st3)) = length (fs_sent st) + 1"
    using assms(1) r u by (auto simp: lonely_def silent_def same_servo_def servo_ok_def fs_release_def)
  ultimately show ?thesis by blast
qed

lemma query_silent:
  assumes "lonely st"
  shows "\<exists>st'. FSUS_QueryServoAngle fl fd st i = Inr (FSUS_STATUS_TIMEOUT, None, st') \<and> lonely st' \<and>
     length (fs_sent st') = length (fs_sent st) + 1"
  using ask_silent [OF assms, of "[i]" FSUS_CMD_READ_ANGLE] by (auto simp: FSUS_QueryServoAngle_def fs_codes simp del: bind_res_eq_Inr)

lemma wait_silent:
  assumes "\<not> \<bar>fl (tg - a)\<bar> \<le> FSUS_ANGLE_DEADAREA" "lonely st"
  shows "\<exists>st'. wait_loop fl fd i tg False n a st = Inr (FSUS_STATUS_FAIL, st') \<and> length (fs_sent st') = length (fs_sent st) + n"
  using assms(2)
proof (induction n arbitrary: st)
  case (Suc n)
  obtain st1 where "FSUS_QueryServoAngle fl fd st i = Inr (FSUS_STATUS_TIMEOUT, None, st1)" "lonely st1"
      "length (fs_sent st1) = length (fs_sent st) + 1"
    using query_silent [OF Suc.prems] by blast
  then show ?case using Suc.IH [of st1] assms(1) by auto
qed simp

text \<open>The other loop that waits for an angle never ends in this situation.\<close>

lemma waitUntilServoIDLE_never:
  assumes "lonely st" "\<not> near_angle fl nextAngle cur"
  shows "waitUntilServoIDLE fl fd i nextAngle cur st = None"
proof -
  have "lonely st \<longrightarrow> near_angle fl nextAngle cur" if "waitUntilServoIDLE fl fd i nextAngle cur st = Some y" for y
  proof (rule waitUntilServoIDLE.raw_induct
      [where P = "\<lambda>fl fd i nx cur st y. lonely st \<longrightarrow> near_angle fl nx cur", OF _ that])
    fix w fl fd i nx cur st y
    assume ih: "\<And>fl fd i nx cur st y. w fl fd i nx cur st = Some y \<Longrightarrow> lonely st \<longrightarrow> near_angle fl nx cur"
      and s: "(case FSUS_QueryServoAngle fl fd st i of Inl e \<Rightarrow> Some (Inl e) | Inr q \<Rightarrow>
          (let curAngle = (case fst (snd q) of None \<Rightarrow> cur | Some v \<Rightarrow> v) in
           if near_angle fl nx curAngle then Some (Inr (curAngle, snd (snd q)))
           else w fl fd i nx curAngle (snd (snd q)))) = Some y"
    show "lonely st \<longrightarrow> near_angle fl nx cur"
    proof
      assume "lonely st"
      then obtain st1 where "FSUS_QueryServoAngle fl fd st i = Inr (FSUS_STATUS_TIMEOUT, None, st1)" "lonely st1"
        using query_silent by blast
      then show "near_angle fl nx cur" using ih [of fl fd i nx cur st1 y] s by (auto split: if_splits)
    qed
  qed
  then show ?thesis using assms by (metis not_Some_eq)
qed



subsection \<open>The recorded messages\<close>

text \<open>The first frame in a recorded message: behind three bytes, as long as its length byte says.\<close>

definition frame_in :: "u8 list \<Rightarrow> u8 list" where
  "frame_in m = take (5 + unat (m ! 6)) (drop 3 m)"

lemma recorded_reads:
  "servo_reads (frame_in (recorded 0x90 0x01 0x2C 0x01 0xEA)) \<noteq> None"
  "servo_reads (frame_in (recorded 0x01 0x00 0x2C 0x01 0xBE)) = None"
  "servo_reads (frame_in (recorded 0x01 0x00 0x01 0x00 0x2E)) \<noteq> None"
  by (simp_all add: servo_reads_def frame_in_def recorded_def)

lemma raw_write_simps [simp]:
  "servo_ok (raw_write m st) = servo_ok st" "granted (raw_write m st) = granted st"
  "garbage (raw_write m st) = garbage st" "fs_sent (raw_write m st) = fs_sent st @ [m]"
  by (simp_all add: raw_write_def servo_ok_def granted_def garbage_def)



end
