(* ===== verification/Gripper.thy ===== *)
theory Gripper
  imports RobotManager ServoProps
begin

section \<open>The mission as the gripper sees it\<close>

text \<open>
  The robot manager calls \<open>mypick\<close> and \<open>myup\<close>, the two gripper functions on \<open>servo1\<close>; its model
  records the calls as events. Here the events are carried out by the servo's functions, and
  the orders the servo reads are compared with the mission.
\<close>

subsection \<open>Carrying out the events\<close>

fun grip :: "rb_event \<Rightarrow> servo_t \<Rightarrow> servo_t res" where
  "grip Pick st = My_FSUS_pick st"
| "grip Up st = My_FSUS_up st"
| "grip Power_on st = Inr st"
| "grip Power_off st = Inr st"

fun grip_all :: "rb_event list \<Rightarrow> servo_t \<Rightarrow> servo_t res" where
  "grip_all [] st = Inr st"
| "grip_all (e # es) st = bind_res (grip e st) (grip_all es)"

definition orders_read :: "u8 list list \<Rightarrow> order list" where
  "orders_read fs = List.map_filter (\<lambda>f. Option.bind (servo_reads f) order_of) fs"

fun grip_order :: "rb_event \<Rightarrow> order option" where
  "grip_order Pick = Some (Spin 0 0x03 500 3800)"
| "grip_order Up = Some (Spin 0 0x83 500 3800)"
| "grip_order e = None"

text \<open>Nobody else holds the mutex, and the unset variable is always zero.\<close>

definition servo_calm :: "servo_t \<Rightarrow> bool" where
  "servo_calm st \<longleftrightarrow> servo_ok st \<and> fs_refused st = [] \<and> set (fs_stack st) \<subseteq> {0}"

lemma servo_calm_simps:
  "servo_calm st \<Longrightarrow> granted st" "servo_calm st \<Longrightarrow> garbage st = 0" "servo_calm (raw_write m st) = servo_calm st"
  by (auto simp: servo_calm_def granted_def garbage_def raw_write_def servo_ok_def split: list.split)

lemma orders_read_append [simp]: "orders_read (fs @ gs) = orders_read fs @ orders_read gs"
  by (simp add: orders_read_def map_filter_def)

lemma recorded_no_order: "servo_reads (recorded a b c d s) = None"
  by (simp add: servo_reads_def recorded_def)

lemma wheel_calm:
  assumes "servo_calm st"
  shows "\<exists>c st' f. FSUS_WheelMoveTime st 0 cw 500 3800 = Inr (c, st') \<and> servo_calm st' \<and> fs_sent st' = fs_sent st @ [f] \<and>
     orders_read [f] = [Spin 0 (wheel_method 3 cw) 500 3800]"
proof -
  have s: "servo_ok st" "granted st" "garbage st = 0" using assms servo_calm_simps by (auto simp: servo_calm_def)
  let ?c = "[0, wheel_method 3 cw, lo16 500, hi16 500, lo16 3800, hi16 3800]"
  obtain st' where st': "FSUS_WheelMoveTime st 0 cw 500 3800 = Inr (FSUS_STATUS_SUCCESS, st')" "servo_ok st'"
      "fs_sent st' = fs_sent st @ [framed FSUS_PACK_REQUEST_HEADER FSUS_CMD_SPIN ?c]" "fs_stack st' = tl (fs_stack st)"
      "fs_refused st' = (if fs_held st > 0 then fs_refused st else tl (fs_refused st))"
    using request_sends [OF s(1,2), of ?c FSUS_CMD_SPIN] s(3) by (auto simp: wheel_defs)
  have "set (tl (fs_stack st)) \<subseteq> set (fs_stack st)" by (cases "fs_stack st") auto
  then have "servo_calm st'" using assms st'(2,4,5) by (auto simp: servo_calm_def)
  moreover have "orders_read [framed FSUS_PACK_REQUEST_HEADER FSUS_CMD_SPIN ?c] = [Spin 0 (wheel_method 3 cw) 500 3800]"
    by (simp add: orders_read_def map_filter_def servo_reads_frame order_simps order_cmds)
  ultimately show ?thesis using st'(1,3) by blast
qed

lemma grip_calm:
  assumes "servo_calm st"
  shows "\<exists>st' fs. grip e st = Inr st' \<and> servo_calm st' \<and> fs_sent st' = fs_sent st @ fs \<and>
    orders_read fs = List.map_filter grip_order [e]"
proof -
  have g: "\<exists>st' fs. bind_res (FSUS_WheelMoveTime (raw_write a (raw_write b st)) 0 cw 500 3800) (\<lambda>(c, st3). Inr st3) = Inr st' \<and>
      servo_calm st' \<and> fs_sent st' = fs_sent st @ fs \<and> orders_read fs = [Spin 0 (wheel_method 3 cw) 500 3800]"
    if "servo_reads a = None" "servo_reads b = None" for a b cw
  proof -
    obtain c st' f where w: "FSUS_WheelMoveTime (raw_write a (raw_write b st)) 0 cw 500 3800 = Inr (c, st')"
        "servo_calm st'" "fs_sent st' = fs_sent (raw_write a (raw_write b st)) @ [f]"
        "orders_read [f] = [Spin 0 (wheel_method 3 cw) 500 3800]"
      using wheel_calm [of "raw_write a (raw_write b st)" cw] assms servo_calm_simps(3) by auto
    have "orders_read [b, a] = []" using that by (simp add: orders_read_def map_filter_def)
    then have "orders_read ([b, a] @ [f]) = [Spin 0 (wheel_method 3 cw) 500 3800]" using w(4) by (simp only: orders_read_append) simp
    then show ?thesis using w by (intro exI [of _ st'] exI [of _ "[b, a, f]"]) simp
  qed
  show ?thesis
    using g [of "recorded 0x01 0x00 0x2C 0x01 0xBE" "recorded 0x90 0x01 0x2C 0x01 0xEA" False]
      g [of "recorded 0x01 0x00 0x01 0x00 0x2E" "recorded 0x01 0x00 0x01 0x00 0x2E" True] recorded_no_order assms
    by (cases e) (simp_all add: My_FSUS_pick_def My_FSUS_up_def Let_def wheel_method_def map_filter_def orders_read_def
        del: bind_res_eq_Inr)
qed

lemma grip_all_calm:
  assumes "servo_calm st"
  shows "\<exists>st' fs. grip_all es st = Inr st' \<and> servo_calm st' \<and> fs_sent st' = fs_sent st @ fs \<and>
    orders_read fs = List.map_filter grip_order es"
  using assms
proof (induction es arbitrary: st)
  case Nil
  then show ?case by (auto simp: orders_read_def map_filter_def)
next
  case (Cons e es)
  obtain st1 fs1 where 1: "grip e st = Inr st1" "servo_calm st1" "fs_sent st1 = fs_sent st @ fs1"
      "orders_read fs1 = List.map_filter grip_order [e]"
    using grip_calm [OF Cons.prems] by blast
  obtain st2 fs2 where 2: "grip_all es st1 = Inr st2" "servo_calm st2" "fs_sent st2 = fs_sent st1 @ fs2"
      "orders_read fs2 = List.map_filter grip_order es"
    using Cons.IH [OF 1(2)] by blast
  have "orders_read (fs1 @ fs2) = List.map_filter grip_order (e # es)"
    using 1(4) 2(4) by (simp add: map_filter_def)
  moreover have "grip_all (e # es) st = Inr st2" "fs_sent st2 = fs_sent st @ (fs1 @ fs2)" using 1 2 by simp_all
  ultimately show ?case using 2(2) by blast
qed



end
