(* ===== verification/RingBuffer.thy ===== *)
theory RingBuffer
  imports Cyclic
begin

section \<open>The ring buffer of the motor driver (rt-thread/components/drivers/ipc/ringbuffer.c)\<close>

text \<open>
  The interrupt handler of the motor driver hands the ids of the motors that reported to the
  driver thread through an \<open>rt_ringbuffer\<close>. Two mirror bits tell a full buffer from an empty
  one. The indices are 31-bit fields and \<open>buffer_size\<close> is a signed 32-bit number, so
  \<open>buffer_size - write_index\<close> is a signed difference that the comparison with the unsigned
  \<open>length\<close> converts; \<open>u32_of\<close> is this conversion. The object pointer is never null here
  (\<open>RT_ASSERT\<close>); the array is the list \<open>buffer_ptr\<close>.
\<close>

subsection \<open>Data and operations\<close>

record rt_ringbuffer =
  buffer_ptr :: "u8 list"
  read_mirror :: bool
  read_index :: nat
  write_mirror :: bool
  write_index :: nat
  buffer_size :: int

datatype rt_ringbuffer_state = RT_RINGBUFFER_EMPTY | RT_RINGBUFFER_FULL | RT_RINGBUFFER_HALFFULL

definition u32_of :: "int \<Rightarrow> nat" where
  "u32_of x = nat (x mod 2 ^ 32)"

definition u31_of :: "nat \<Rightarrow> nat" where
  "u31_of n = n mod 2 ^ 31"

definition rt_ringbuffer_status :: "rt_ringbuffer \<Rightarrow> rt_ringbuffer_state" where
  "rt_ringbuffer_status rb =
     (if read_index rb = write_index rb then
        (if read_mirror rb = write_mirror rb then RT_RINGBUFFER_EMPTY else RT_RINGBUFFER_FULL)
      else RT_RINGBUFFER_HALFFULL)"

definition RT_ALIGN_SIZE :: int where "RT_ALIGN_SIZE = 8"

definition RT_ALIGN_DOWN :: "int \<Rightarrow> int \<Rightarrow> int" where
  "RT_ALIGN_DOWN sz align = sz AND NOT (align - 1)"

definition rt_ringbuffer_init :: "rt_ringbuffer \<Rightarrow> u8 list \<Rightarrow> int \<Rightarrow> rt_ringbuffer res" where
  "rt_ringbuffer_init rb pool sz =
     (if sz > 0 then
        Inr (rb\<lparr>read_mirror := False, read_index := 0, write_mirror := False, write_index := 0,
               buffer_ptr := pool, buffer_size := RT_ALIGN_DOWN sz RT_ALIGN_SIZE\<rparr>)
      else Inl BusyLoop)"

definition rt_ringbuffer_data_len :: "rt_ringbuffer \<Rightarrow> nat" where
  "rt_ringbuffer_data_len rb =
     (case rt_ringbuffer_status rb of
        RT_RINGBUFFER_EMPTY \<Rightarrow> 0
      | RT_RINGBUFFER_FULL \<Rightarrow> u32_of (buffer_size rb)
      | RT_RINGBUFFER_HALFFULL \<Rightarrow>
          (let wi = write_index rb; ri = read_index rb in
           if wi > ri then wi - ri else u32_of (buffer_size rb - (int ri - int wi))))"

definition rt_ringbuffer_space_len :: "rt_ringbuffer \<Rightarrow> nat" where
  "rt_ringbuffer_space_len rb = u32_of (buffer_size rb - int (rt_ringbuffer_data_len rb))"

text \<open>
  The copies shared by \<open>rt_ringbuffer_put\<close> and \<open>rt_ringbuffer_put_force\<close>: behind the write
  index when the data ends before the array's end, otherwise up to the end and the rest from
  the start, which flips the write mirror.
\<close>

definition copy_into :: "rt_ringbuffer \<Rightarrow> u8 list \<Rightarrow> nat \<Rightarrow> rt_ringbuffer res" where
  "copy_into rb ptr len =
     (let room = u32_of (buffer_size rb - int (write_index rb)) in
      if room > len then
        bind_res (memcpy (buffer_ptr rb) (write_index rb) ptr 0 len) (\<lambda>b.
        Inr (rb\<lparr>buffer_ptr := b, write_index := u31_of (write_index rb + len)\<rparr>))
      else
        bind_res (memcpy (buffer_ptr rb) (write_index rb) ptr 0 room) (\<lambda>b1.
        bind_res (memcpy b1 0 ptr room (len - room)) (\<lambda>b2.
        Inr (rb\<lparr>buffer_ptr := b2, write_mirror := \<not> write_mirror rb,
               write_index := u31_of (len - room)\<rparr>))))"

definition rt_ringbuffer_put :: "rt_ringbuffer \<Rightarrow> u8 list \<Rightarrow> nat \<Rightarrow> (nat \<times> rt_ringbuffer) res" where
  "rt_ringbuffer_put rb ptr len0 =
     (let sz = rt_ringbuffer_space_len rb in
      if sz = 0 then Inr (0, rb)
      else let len = (if sz < len0 then sz else len0) in
           bind_res (copy_into rb ptr len) (\<lambda>rb'. Inr (len, rb')))"

definition rt_ringbuffer_put_force ::
    "rt_ringbuffer \<Rightarrow> u8 list \<Rightarrow> nat \<Rightarrow> (nat \<times> rt_ringbuffer) res" where
  "rt_ringbuffer_put_force rb ptr0 len0 =
     (let space_length = rt_ringbuffer_space_len rb; bs = u32_of (buffer_size rb);
          (ptr, len) = (if len0 > bs then (drop (len0 - bs) ptr0, bs) else (ptr0, len0));
          wraps = (\<not> u32_of (buffer_size rb - int (write_index rb)) > len)
      in bind_res (copy_into rb ptr len) (\<lambda>rb1.
         if len > space_length then
           Inr (len, rb1\<lparr>read_mirror :=
                           (if wraps \<and> write_index rb1 \<le> read_index rb1 then \<not> read_mirror rb1
                            else read_mirror rb1),
                         read_index := write_index rb1\<rparr>)
         else Inr (len, rb1)))"

definition rt_ringbuffer_get ::
    "rt_ringbuffer \<Rightarrow> u8 list \<Rightarrow> nat \<Rightarrow> (nat \<times> u8 list \<times> rt_ringbuffer) res" where
  "rt_ringbuffer_get rb dst len0 =
     (let sz = rt_ringbuffer_data_len rb in
      if sz = 0 then Inr (0, dst, rb)
      else
        let len = (if sz < len0 then sz else len0);
            room = u32_of (buffer_size rb - int (read_index rb)) in
        if room > len then
          bind_res (memcpy dst 0 (buffer_ptr rb) (read_index rb) len) (\<lambda>d.
          Inr (len, d, rb\<lparr>read_index := u31_of (read_index rb + len)\<rparr>))
        else
          bind_res (memcpy dst 0 (buffer_ptr rb) (read_index rb) room) (\<lambda>d1.
          bind_res (memcpy d1 room (buffer_ptr rb) 0 (len - room)) (\<lambda>d2.
          Inr (len, d2, rb\<lparr>read_mirror := \<not> read_mirror rb,
                           read_index := u31_of (len - room)\<rparr>))))"

text \<open>\<open>rt_ringbuffer_peek\<close> also consumes what it shows; the pointer is an offset into the array.\<close>

definition rt_ringbuffer_peek :: "rt_ringbuffer \<Rightarrow> nat \<times> nat option \<times> rt_ringbuffer" where
  "rt_ringbuffer_peek rb =
     (let sz = rt_ringbuffer_data_len rb; room = u32_of (buffer_size rb - int (read_index rb)) in
      if sz = 0 then (0, None, rb)
      else if room > sz
      then (sz, Some (read_index rb), rb\<lparr>read_index := u31_of (read_index rb + sz)\<rparr>)
      else (room, Some (read_index rb), rb\<lparr>read_mirror := \<not> read_mirror rb, read_index := 0\<rparr>))"

definition write_char :: "rt_ringbuffer \<Rightarrow> u8 \<Rightarrow> rt_ringbuffer res" where
  "write_char rb ch =
     (if write_index rb < length (buffer_ptr rb)
      then Inr (rb\<lparr>buffer_ptr := (buffer_ptr rb)[write_index rb := ch]\<rparr>) else Inl OutOfBounds)"

definition rt_ringbuffer_putchar :: "rt_ringbuffer \<Rightarrow> u8 \<Rightarrow> (nat \<times> rt_ringbuffer) res" where
  "rt_ringbuffer_putchar rb ch =
     (if rt_ringbuffer_space_len rb = 0 then Inr (0, rb)
      else bind_res (write_char rb ch) (\<lambda>rb1.
        Inr (1, if int (write_index rb1) = buffer_size rb1 - 1
                then rb1\<lparr>write_mirror := \<not> write_mirror rb1, write_index := 0\<rparr>
                else rb1\<lparr>write_index := u31_of (write_index rb1 + 1)\<rparr>)))"

definition rt_ringbuffer_putchar_force :: "rt_ringbuffer \<Rightarrow> u8 \<Rightarrow> (nat \<times> rt_ringbuffer) res" where
  "rt_ringbuffer_putchar_force rb ch =
     (let full = (rt_ringbuffer_status rb = RT_RINGBUFFER_FULL) in
      bind_res (write_char rb ch) (\<lambda>rb1.
        Inr (1, if int (write_index rb1) = buffer_size rb1 - 1
                then (let rb2 = rb1\<lparr>write_mirror := \<not> write_mirror rb1, write_index := 0\<rparr> in
                      if full then rb2\<lparr>read_mirror := \<not> read_mirror rb2, read_index := write_index rb2\<rparr>
                      else rb2)
                else (let rb2 = rb1\<lparr>write_index := u31_of (write_index rb1 + 1)\<rparr> in
                      if full then rb2\<lparr>read_index := write_index rb2\<rparr> else rb2))))"

definition rt_ringbuffer_getchar :: "rt_ringbuffer \<Rightarrow> u8 \<Rightarrow> (nat \<times> u8 \<times> rt_ringbuffer) res" where
  "rt_ringbuffer_getchar rb ch =
     (if rt_ringbuffer_data_len rb = 0 then Inr (0, ch, rb)
      else if read_index rb < length (buffer_ptr rb) then
        Inr (1, buffer_ptr rb ! read_index rb,
             if int (read_index rb) = buffer_size rb - 1
             then rb\<lparr>read_mirror := \<not> read_mirror rb, read_index := 0\<rparr>
             else rb\<lparr>read_index := u31_of (read_index rb + 1)\<rparr>)
      else Inl OutOfBounds)"

definition rt_ringbuffer_reset :: "rt_ringbuffer \<Rightarrow> rt_ringbuffer" where
  "rt_ringbuffer_reset rb =
     rb\<lparr>read_mirror := False, read_index := 0, write_mirror := False, write_index := 0\<rparr>"

text \<open>
  \<open>rt_ringbuffer_create\<close>: \<open>obj\<close> is the block \<open>rt_malloc\<close> gives for the object and what it
  happens to hold, \<open>pool n\<close> the one for \<open>n\<close> bytes; \<open>None\<close> is a failed allocation.
\<close>

definition rt_ringbuffer_create ::
    "rt_ringbuffer option \<Rightarrow> (nat \<Rightarrow> u8 list option) \<Rightarrow> int \<Rightarrow> rt_ringbuffer option res" where
  "rt_ringbuffer_create obj pool sz0 =
     (if sz0 > 0 then
        let sz = RT_ALIGN_DOWN sz0 RT_ALIGN_SIZE in
        (case obj of
           None \<Rightarrow> Inr None
         | Some rb \<Rightarrow>
             (case pool (nat sz) of
                None \<Rightarrow> Inr None
              | Some p \<Rightarrow> bind_res (rt_ringbuffer_init rb p sz) (\<lambda>rb'. Inr (Some rb'))))
      else Inl BusyLoop)"

text \<open>\<open>rt_ringbuffer_destroy\<close> frees both blocks: no buffer is left.\<close>

definition rt_ringbuffer_destroy :: "rt_ringbuffer option \<Rightarrow> rt_ringbuffer option res" where
  "rt_ringbuffer_destroy rb = (case rb of None \<Rightarrow> Inl BusyLoop | Some _ \<Rightarrow> Inr None)"

subsection \<open>Invariant and contents\<close>

definition ring_inv :: "rt_ringbuffer \<Rightarrow> bool" where
  "ring_inv rb \<longleftrightarrow>
     buffer_size rb = int (length (buffer_ptr rb)) \<and> length (buffer_ptr rb) < 2 ^ 31 \<and>
     read_index rb < length (buffer_ptr rb) \<and> write_index rb < length (buffer_ptr rb) \<and>
     (if read_mirror rb = write_mirror rb then read_index rb \<le> write_index rb
      else write_index rb \<le> read_index rb)"

definition used :: "rt_ringbuffer \<Rightarrow> nat" where
  "used rb = (if read_mirror rb = write_mirror rb then write_index rb - read_index rb
              else length (buffer_ptr rb) - (read_index rb - write_index rb))"

definition ring_data :: "rt_ringbuffer \<Rightarrow> u8 list" where
  "ring_data rb = ring (buffer_ptr rb) (read_index rb) (used rb)"

lemma length_ring_data [simp]: "length (ring_data rb) = used rb"
  by (simp add: ring_data_def)

lemma used_le_size: "ring_inv rb \<Longrightarrow> used rb \<le> length (buffer_ptr rb)"
  by (auto simp: ring_inv_def used_def)

lemma ring_inv_size: "ring_inv rb \<Longrightarrow> buffer_size rb = int (length (buffer_ptr rb))"
  by (simp add: ring_inv_def)

lemma ring_inv_lt: "ring_inv rb \<Longrightarrow> length (buffer_ptr rb) < 2 ^ 31"
  by (simp add: ring_inv_def)

lemma u32_of_nat [simp]: "n < 2 ^ 32 \<Longrightarrow> u32_of (int n) = n"
  by (simp add: u32_of_def)

lemma u31_of_nat: "n < 2 ^ 31 \<Longrightarrow> u31_of n = n"
  by (simp add: u31_of_def)

lemma u32_of_diff:
  assumes "m \<le> n" and "n < 2 ^ 31"
  shows "u32_of (int n - int m) = n - m"
proof -
  have "u32_of (int (n - m)) = n - m"
    using assms by (intro u32_of_nat) simp
  with assms show ?thesis by (simp add: of_nat_diff)
qed

lemma data_len_used:
  assumes "ring_inv rb"
  shows "rt_ringbuffer_data_len rb = used rb"
proof -
  let ?n = "length (buffer_ptr rb)" and ?r = "read_index rb" and ?w = "write_index rb"
  have n: "buffer_size rb = int ?n" "?n < 2 ^ 31" "?r < ?n" "?w < ?n"
    using assms by (auto simp: ring_inv_def)
  have "u32_of (int ?n - int (?r - ?w)) = ?n - (?r - ?w)"
    using n by (intro u32_of_diff) auto
  then have half: "?w \<le> ?r \<Longrightarrow> u32_of (int ?n - (int ?r - int ?w)) = ?n - (?r - ?w)"
    by (simp add: of_nat_diff)
  have full: "u32_of (int ?n) = ?n" using n by (intro u32_of_nat) simp
  consider "?r = ?w" | "?r < ?w" | "?w < ?r" by linarith
  then show ?thesis
    using assms by cases (simp_all add: rt_ringbuffer_data_len_def rt_ringbuffer_status_def
        used_def n(1) full half, auto simp: ring_inv_def split: if_splits)
qed

lemma space_len_free:
  assumes "ring_inv rb"
  shows "rt_ringbuffer_space_len rb = length (buffer_ptr rb) - used rb"
  unfolding rt_ringbuffer_space_len_def data_len_used [OF assms] ring_inv_size [OF assms]
  by (rule u32_of_diff [OF used_le_size [OF assms] ring_inv_lt [OF assms]])

lemma room_write:
  assumes "ring_inv rb"
  shows "u32_of (buffer_size rb - int (write_index rb)) = length (buffer_ptr rb) - write_index rb"
  unfolding ring_inv_size [OF assms]
  by (rule u32_of_diff) (use assms in \<open>simp_all add: ring_inv_def\<close>)

lemma room_read:
  assumes "ring_inv rb"
  shows "u32_of (buffer_size rb - int (read_index rb)) = length (buffer_ptr rb) - read_index rb"
  unfolding ring_inv_size [OF assms]
  by (rule u32_of_diff) (use assms in \<open>simp_all add: ring_inv_def\<close>)

text \<open>The write index is the read index advanced by the bytes in use, cyclically.\<close>

lemma write_index_eq:
  assumes "ring_inv rb"
  shows "write_index rb = (read_index rb + used rb) mod length (buffer_ptr rb)"
proof (cases "read_mirror rb = write_mirror rb")
  case True
  with assms show ?thesis by (simp add: ring_inv_def used_def)
next
  case False
  with assms have "read_index rb + used rb = write_index rb + length (buffer_ptr rb)"
    "write_index rb < length (buffer_ptr rb)"
    by (auto simp: ring_inv_def used_def)
  then show ?thesis by simp
qed

subsection \<open>Moving the indices\<close>

lemma mod_once: "a < 2 * (n::nat) \<Longrightarrow> a mod n = (if a < n then a else a - n)"
  by (simp add: le_mod_geq)

lemma mod_next:
  assumes "p < n" and "n < 2 ^ 31"
  shows "(p + 1) mod n = (if n \<le> p + 1 then 0 else u31_of (p + 1))"
  using assms by (cases "n = p + 1") (auto simp: u31_of_def)

text \<open>Advancing a mirrored index by at most the array's length.\<close>

lemma put_advance:
  assumes inv: "ring_inv rb" and len: "length xs \<le> length (buffer_ptr rb)"
    and rb': "rb' = rb\<lparr>buffer_ptr := ring_put (buffer_ptr rb) (write_index rb) xs,
        write_mirror := (write_mirror rb \<noteq> (length (buffer_ptr rb) \<le> write_index rb + length xs)),
        write_index := (write_index rb + length xs) mod length (buffer_ptr rb)\<rparr>"
    and fits: "used rb + length xs \<le> length (buffer_ptr rb)"
  shows "ring_inv rb'" and "ring_data rb' = ring_data rb @ xs"
proof -
  let ?B = "buffer_ptr rb" and ?N = "length (buffer_ptr rb)"
  let ?p = "write_index rb" and ?q = "read_index rb" and ?R = "ring_put (buffer_ptr rb) (write_index rb) xs"
  have p: "?p < ?N" and q: "?q < ?N" using inv by (auto simp: ring_inv_def)
  have lR: "length ?R = ?N" using p len by simp
  have w': "write_index rb' = (if ?p + length xs < ?N then ?p + length xs else ?p + length xs - ?N)"
    using p len by (simp add: rb' mod_once)
  have acc: "buffer_ptr rb' = ?R" "read_index rb' = ?q" "read_mirror rb' = read_mirror rb"
    "buffer_size rb' = buffer_size rb"
    "write_mirror rb' = (write_mirror rb \<noteq> (?N \<le> ?p + length xs))"
    by (simp_all add: rb')
  show inv': "ring_inv rb'"
    using inv fits len p q lR unfolding ring_inv_def acc w' used_def
    by (auto split: if_splits)
  have used': "used rb' = used rb + length xs"
    using inv fits len p q lR unfolding used_def acc w' ring_inv_def
    by (auto split: if_splits)
  have "ring ?R ?q (used rb) = ring_data rb"
    using ring_ring_put_old [OF q fits write_index_eq [OF inv]] by (simp add: ring_data_def)
  moreover have "ring ?R (?q + used rb) (length xs) = xs"
  proof -
    have "ring ?R (?q + used rb) (length xs) = ring ?R ((?q + used rb) mod length ?R) (length xs)"
      by (simp only: ring_mod)
    also have "\<dots> = ring ?R ?p (length xs)"
      by (simp only: lR write_index_eq [OF inv, symmetric])
    finally show ?thesis using ring_ring_put_new [OF p len] by simp
  qed
  ultimately show "ring_data rb' = ring_data rb @ xs"
    unfolding ring_data_def acc used' by (simp add: ring_append [symmetric])
qed

definition lastn :: "nat \<Rightarrow> 'a list \<Rightarrow> 'a list" where
  "lastn n xs = drop (length xs - n) xs"

lemma lastn_all [simp]: "length xs \<le> n \<Longrightarrow> lastn n xs = xs"
  by (simp add: lastn_def)

lemma length_lastn [simp]: "length (lastn n xs) = min n (length xs)"
  by (auto simp: lastn_def)

lemma lastn_append: "n \<le> length ys \<Longrightarrow> lastn n (xs @ ys) = lastn n ys"
  by (simp add: lastn_def)

lemma lastn_append_lastn: "lastn n (xs @ lastn n ys) = lastn n (xs @ ys)"
  by (cases "length ys \<le> n") (simp_all add: lastn_append)

text \<open>
  A forced write of more than the free bytes leaves the reader at the new write position, in
  the other mirror: the buffer holds the newest bytes and is full.
\<close>

lemma put_overrun:
  assumes inv: "ring_inv rb" and len: "length xs \<le> length (buffer_ptr rb)"
    and over: "length (buffer_ptr rb) < used rb + length xs"
    and acc: "buffer_ptr rb' = ring_put (buffer_ptr rb) (write_index rb) xs"
      "write_index rb' = (write_index rb + length xs) mod length (buffer_ptr rb)"
      "read_index rb' = write_index rb'" "read_mirror rb' \<noteq> write_mirror rb'"
      "buffer_size rb' = buffer_size rb"
  shows "ring_inv rb'" and "ring_data rb' = lastn (length (buffer_ptr rb)) (ring_data rb @ xs)"
proof -
  let ?B = "buffer_ptr rb" and ?N = "length (buffer_ptr rb)" and ?L = "length xs"
  let ?p = "write_index rb" and ?q = "read_index rb" and ?R = "ring_put (buffer_ptr rb) (write_index rb) xs"
  have p: "?p < ?N" and q: "?q < ?N" using inv by (auto simp: ring_inv_def)
  then have N: "0 < ?N" by linarith
  have lR: "length ?R = ?N" using p len by simp
  show "ring_inv rb'"
    using inv N unfolding ring_inv_def acc(1,2,3,5) lR using acc(4) by auto
  have u: "used rb' = ?N"
    using acc(3,4) by (auto simp: used_def acc(1) lR)
  let ?w = "(?p + ?L) mod ?N"
  have w: "?w < ?N" using N by simp
  have "ring ?R ?w ?N = ring ?R ?w (?N - ?L) @ ring ?R (?w + (?N - ?L)) ?L"
    using len by (simp only: ring_append le_add_diff_inverse2)
  also have "ring ?R ?w (?N - ?L) = ring ?B ?w (?N - ?L)"
  proof (rule ring_ring_put_old [OF w])
    show "?N - ?L + length xs \<le> ?N" using len by simp
    have "(?w + (?N - ?L)) mod ?N = (?p + ?L + (?N - ?L)) mod ?N" by (simp only: mod_add_left_eq)
    also have "?p + ?L + (?N - ?L) = ?p + ?N" using len by simp
    finally show "?p = (?w + (?N - ?L)) mod ?N" using p by simp
  qed
  also have "\<dots> = ring ?B (?q + (used rb + ?L - ?N)) (?N - ?L)"
  proof -
    have "?w = (?q + used rb + ?L) mod ?N" by (simp only: write_index_eq [OF inv] mod_add_left_eq)
    also have "?q + used rb + ?L = ?q + (used rb + ?L - ?N) + ?N" using over by simp
    finally have "?w = (?q + (used rb + ?L - ?N)) mod ?N" by simp
    then show ?thesis by (simp only: ring_mod)
  qed
  also have "\<dots> = drop (used rb + ?L - ?N) (ring_data rb)"
  proof -
    have "used rb + ?L - ?N \<le> used rb" "used rb - (used rb + ?L - ?N) = ?N - ?L"
      using len over used_le_size [OF inv] by auto
    then show ?thesis by (simp add: ring_data_def drop_ring)
  qed
  also have "ring ?R (?w + (?N - ?L)) ?L = xs"
  proof -
    have "(?w + (?N - ?L)) mod ?N = (?p + ?L + (?N - ?L)) mod ?N" by (simp only: mod_add_left_eq)
    also have "?p + ?L + (?N - ?L) = ?p + ?N" using len by simp
    finally have "(?w + (?N - ?L)) mod length ?R = ?p" using p lR by simp
    then have "ring ?R (?w + (?N - ?L)) ?L = ring ?R ?p ?L" by (metis ring_mod)
    with ring_ring_put_new [OF p len] show ?thesis by simp
  qed
  finally have "ring ?R ?w ?N = drop (used rb + ?L - ?N) (ring_data rb) @ xs" .
  moreover have "used rb + ?L - ?N - used rb = 0" using len by simp
  ultimately show "ring_data rb' = lastn ?N (ring_data rb @ xs)"
    unfolding ring_data_def [of rb'] u acc(1,2,3) by (simp add: lastn_def)
qed

lemma copy_into_eq:
  assumes inv: "ring_inv rb" and len: "n \<le> length (buffer_ptr rb)" "n \<le> length ptr"
  shows "copy_into rb ptr n = Inr (rb\<lparr>
      buffer_ptr := ring_put (buffer_ptr rb) (write_index rb) (take n ptr),
      write_mirror := (write_mirror rb \<noteq> (length (buffer_ptr rb) \<le> write_index rb + n)),
      write_index := (write_index rb + n) mod length (buffer_ptr rb)\<rparr>)"
proof -
  let ?B = "buffer_ptr rb" and ?N = "length (buffer_ptr rb)" and ?p = "write_index rb"
  have p: "?p < ?N" and N: "?N < 2 ^ 31" using inv by (auto simp: ring_inv_def)
  note room = room_write [OF inv]
  show ?thesis
  proof (cases "n < ?N - ?p")
    case True
    then have "ring_put ?B ?p (take n ptr) = blit ?B ?p (take n ptr)"
      using len by (simp add: ring_put_def Let_def min_absorb1)
    moreover have "memcpy ?B ?p ptr 0 n = Inr (blit ?B ?p (take n ptr))"
      using True len by (subst memcpy_ok) auto
    moreover have "u31_of (?p + n) = ?p + n" "(?p + n) mod ?N = ?p + n"
      using True N by (simp_all add: u31_of_def)
    moreover have "(write_mirror rb \<noteq> (?N \<le> ?p + n)) = write_mirror rb" using True by auto
    ultimately show ?thesis
      using True unfolding copy_into_def room by (simp add: Let_def)
  next
    case False
    define l where "l = ?N - ?p"
    have l: "l \<le> n" "?p + l = ?N" "l \<le> ?N" using False p by (simp_all add: l_def)
    have rp: "ring_put ?B ?p (take n ptr) =
        blit (blit ?B ?p (take l ptr)) 0 (take (n - l) (drop l ptr))"
      using l len by (simp add: ring_put_def Let_def min_absorb2 drop_take flip: l_def)
    have m1: "memcpy ?B ?p ptr 0 l = Inr (blit ?B ?p (take l ptr))"
      using l len by (subst memcpy_ok) auto
    have m2: "memcpy (blit ?B ?p (take l ptr)) 0 ptr l (n - l) =
        Inr (blit (blit ?B ?p (take l ptr)) 0 (take (n - l) (drop l ptr)))"
      using l len by (subst memcpy_ok) auto
    have "(?p + n) mod ?N = n - l"
      using l p len by (subst mod_once) auto
    moreover have "u31_of (n - l) = n - l"
      using len N by (simp add: u31_of_def)
    moreover have "(write_mirror rb \<noteq> (?N \<le> ?p + n)) = (\<not> write_mirror rb)"
      using l by auto
    ultimately show ?thesis
      using l unfolding copy_into_def room l_def [symmetric] rp by (simp add: Let_def m1 m2)
  qed
qed

subsection \<open>What the operations do\<close>

lemma put_spec:
  assumes inv: "ring_inv rb" and src: "n \<le> length ptr"
  defines "m \<equiv> min n (length (buffer_ptr rb) - used rb)"
  shows "\<exists>rb'. rt_ringbuffer_put rb ptr n = Inr (m, rb') \<and> ring_inv rb' \<and>
    buffer_size rb' = buffer_size rb \<and> ring_data rb' = ring_data rb @ take m ptr"
proof (cases "length (buffer_ptr rb) - used rb = 0")
  case True
  with assms show ?thesis by (simp add: rt_ringbuffer_put_def space_len_free)
next
  case False
  have m: "m \<le> length (buffer_ptr rb)" "m \<le> length ptr" "used rb + m \<le> length (buffer_ptr rb)"
    using src used_le_size [OF inv] by (auto simp: m_def)
  have "(if length (buffer_ptr rb) - used rb < n then length (buffer_ptr rb) - used rb else n) = m"
    by (auto simp: m_def)
  then have "rt_ringbuffer_put rb ptr n = bind_res (copy_into rb ptr m) (\<lambda>rb'. Inr (m, rb'))"
    using False by (simp add: rt_ringbuffer_put_def space_len_free [OF inv] Let_def)
  moreover note copy_into_eq [OF inv m(1,2)]
  moreover have "length (take m ptr) \<le> length (buffer_ptr rb)" "length (take m ptr) = m"
    "used rb + length (take m ptr) \<le> length (buffer_ptr rb)" using m by auto
  moreover note put_advance [OF inv this(1) _ this(3), OF refl]
  ultimately show ?thesis by simp
qed

lemma put_force_spec:
  assumes inv: "ring_inv rb"
  defines "N \<equiv> length (buffer_ptr rb)"
  shows "\<exists>rb'. rt_ringbuffer_put_force rb ptr (length ptr) = Inr (min (length ptr) N, rb') \<and>
    ring_inv rb' \<and> buffer_size rb' = buffer_size rb \<and>
    ring_data rb' = lastn N (ring_data rb @ ptr)"
proof -
  let ?xs = "lastn N ptr"
  have N: "N < 2 ^ 31" using ring_inv_lt [OF inv] by (simp add: N_def)
  have bs: "u32_of (buffer_size rb) = N"
    using N unfolding ring_inv_size [OF inv] N_def [symmetric] by (intro u32_of_nat) simp
  have pl: "(if N < length ptr then (drop (length ptr - N) ptr, N) else (ptr, length ptr)) =
      (?xs, length ?xs)" by (auto simp: lastn_def)
  have len: "length ?xs \<le> length (buffer_ptr rb)" by (simp add: N_def)
  have p: "write_index rb < length (buffer_ptr rb)" using inv by (auto simp: ring_inv_def)
  let ?rb1 = "rb\<lparr>buffer_ptr := ring_put (buffer_ptr rb) (write_index rb) ?xs,
      write_mirror := (write_mirror rb \<noteq> (length (buffer_ptr rb) \<le> write_index rb + length ?xs)),
      write_index := (write_index rb + length ?xs) mod length (buffer_ptr rb)\<rparr>"
  have ci: "copy_into rb ?xs (length ?xs) = Inr ?rb1"
    using copy_into_eq [OF inv len, of ?xs] by simp
  show ?thesis
  proof (cases "length ?xs > length (buffer_ptr rb) - used rb")
    case False
    then have fits: "used rb + length ?xs \<le> length (buffer_ptr rb)"
      using used_le_size [OF inv] by linarith
    have "ring_data rb = [] \<or> used rb + length ptr \<le> N"
      using fits by (auto simp: N_def min_def simp flip: length_0_conv split: if_splits)
    then have "lastn N (ring_data rb @ ptr) = ring_data rb @ ?xs"
      by auto
    moreover have "rt_ringbuffer_put_force rb ptr (length ptr) = Inr (length ?xs, ?rb1)"
      unfolding rt_ringbuffer_put_force_def Let_def bs pl prod.case ci space_len_free [OF inv]
      using False by (simp only: bind_res_Inr if_False simp_thms)
    ultimately show ?thesis
      using put_advance [OF inv len refl fits] by (intro exI [of _ ?rb1]) (simp add: min.commute)
  next
    case True
    define rb2 where "rb2 = ?rb1\<lparr>read_mirror :=
        (if \<not> length (buffer_ptr rb) - write_index rb > length ?xs \<and>
           write_index ?rb1 \<le> read_index ?rb1 then \<not> read_mirror ?rb1 else read_mirror ?rb1),
        read_index := write_index ?rb1\<rparr>"
    have over: "length (buffer_ptr rb) < used rb + length ?xs" using True by linarith
    have w: "write_index ?rb1 = (if write_index rb + length ?xs < length (buffer_ptr rb)
        then write_index rb + length ?xs else write_index rb + length ?xs - length (buffer_ptr rb))"
      using p len by (simp add: mod_once)
    have "read_mirror rb2 \<noteq> write_mirror rb2"
      using inv over p len unfolding rb2_def w by (auto simp: ring_inv_def used_def split: if_splits)
    then have fin: "ring_inv rb2" "ring_data rb2 = lastn N (ring_data rb @ ?xs)"
      using put_overrun [OF inv len over, of rb2] by (simp_all add: rb2_def N_def)
    note lastn_append_lastn [of N "ring_data rb" ptr]
    moreover have "rt_ringbuffer_put_force rb ptr (length ptr) = Inr (length ?xs, rb2)"
      using True unfolding rt_ringbuffer_put_force_def Let_def bs pl prod.case ci
        space_len_free [OF inv] room_write [OF inv] rb2_def by simp
    ultimately show ?thesis
      using fin by (intro exI [of _ rb2]) (simp add: rb2_def min.commute)
  qed
qed

text \<open>Writing one byte is writing a block of one byte.\<close>

lemma ring_put_one: "p < length B \<Longrightarrow> ring_put B p [c] = B[p := c]"
  by (simp add: ring_put_def Let_def blit_def upd_conv_take_nth_drop)

lemma putchar_force_eq:
  assumes inv: "ring_inv rb"
  shows "rt_ringbuffer_putchar_force rb c = rt_ringbuffer_put_force rb [c] 1"
proof -
  let ?B = "buffer_ptr rb" and ?N = "length (buffer_ptr rb)" and ?p = "write_index rb"
  have p: "?p < ?N" and N: "?N < 2 ^ 31" "1 \<le> ?N" using inv by (auto simp: ring_inv_def)
  have bs: "u32_of (buffer_size rb) = ?N"
    using N unfolding ring_inv_size [OF inv] by (intro u32_of_nat) simp
  have ci: "copy_into rb [c] 1 = Inr (rb\<lparr>buffer_ptr := ?B[?p := c],
      write_mirror := (write_mirror rb \<noteq> (?N \<le> ?p + 1)), write_index := (?p + 1) mod ?N\<rparr>)"
    using copy_into_eq [OF inv N(2), of "[c]"] p by (simp add: ring_put_one del: One_nat_def)
  have full: "rt_ringbuffer_status rb = RT_RINGBUFFER_FULL \<longleftrightarrow> ?N - used rb < 1"
    using inv used_le_size [OF inv] by (auto simp: rt_ringbuffer_status_def used_def ring_inv_def
        split: if_splits)
  have wc: "write_char rb c = Inr (rb\<lparr>buffer_ptr := ?B[?p := c]\<rparr>)"
    using p by (simp add: write_char_def)
  have at_end: "int ?p = buffer_size rb - 1 \<longleftrightarrow> ?N \<le> ?p + 1"
    using p unfolding ring_inv_size [OF inv] by auto
  have pl: "(if ?N < 1 then (drop (1 - ?N) [c], ?N) else ([c], 1)) = ([c], 1)"
    by (rule if_not_P) (use N in linarith)
  have mir: "(write_mirror rb \<noteq> (?N \<le> ?p + 1)) = (if ?N \<le> ?p + 1 then \<not> write_mirror rb else write_mirror rb)"
    by auto
  show ?thesis
  proof (cases "?N \<le> ?p + 1")
    case True
    then have e: "(?p + 1) mod ?N = 0" "\<not> 1 < ?N - ?p" using mod_next [OF p N(1)] by auto
    show ?thesis
      using True N unfolding rt_ringbuffer_putchar_force_def rt_ringbuffer_put_force_def Let_def bs pl
        prod.case full wc ci at_end e room_write [OF inv] space_len_free [OF inv] mir
      by (simp add: at_end del: One_nat_def)
  next
    case False
    then have e: "(?p + 1) mod ?N = ?p + 1" "1 < ?N - ?p" "u31_of (?p + 1) = ?p + 1"
      using N by (auto simp: u31_of_def)
    show ?thesis
      using False N e unfolding rt_ringbuffer_putchar_force_def rt_ringbuffer_put_force_def Let_def bs pl
        prod.case full wc ci at_end room_write [OF inv] space_len_free [OF inv] mir
      by (simp add: at_end del: One_nat_def)
  qed
qed

lemma putchar_eq:
  assumes inv: "ring_inv rb"
  shows "rt_ringbuffer_putchar rb c = rt_ringbuffer_put rb [c] 1"
proof -
  let ?B = "buffer_ptr rb" and ?N = "length (buffer_ptr rb)" and ?p = "write_index rb"
  have p: "?p < ?N" and N: "?N < 2 ^ 31" "1 \<le> ?N" using inv by (auto simp: ring_inv_def)
  have ci: "copy_into rb [c] 1 = Inr (rb\<lparr>buffer_ptr := ?B[?p := c],
      write_mirror := (write_mirror rb \<noteq> (?N \<le> ?p + 1)), write_index := (?p + 1) mod ?N\<rparr>)"
    using copy_into_eq [OF inv N(2), of "[c]"] p by (simp add: ring_put_one del: One_nat_def)
  have wc: "write_char rb c = Inr (rb\<lparr>buffer_ptr := ?B[?p := c]\<rparr>)"
    using p by (simp add: write_char_def)
  have at_end: "int ?p = buffer_size rb - 1 \<longleftrightarrow> ?N \<le> ?p + 1"
    using p unfolding ring_inv_size [OF inv] by auto
  note mod_next [OF p N(1)]
  moreover have "\<not> rt_ringbuffer_space_len rb < 1" if "rt_ringbuffer_space_len rb \<noteq> 0" using that by simp
  ultimately show ?thesis
    unfolding rt_ringbuffer_putchar_def rt_ringbuffer_put_def Let_def wc
    by (auto simp: ci at_end simp del: One_nat_def)
qed

lemma read_advance:
  assumes inv: "ring_inv rb" and n: "n \<le> used rb"
    and rb': "rb' = rb\<lparr>
        read_mirror := (read_mirror rb \<noteq> (length (buffer_ptr rb) \<le> read_index rb + n)),
        read_index := (read_index rb + n) mod length (buffer_ptr rb)\<rparr>"
  shows "ring_inv rb'" and "ring_data rb' = drop n (ring_data rb)"
proof -
  let ?N = "length (buffer_ptr rb)" and ?q = "read_index rb"
  have q: "?q < ?N" using inv by (auto simp: ring_inv_def)
  have u: "used rb \<le> ?N" by (rule used_le_size [OF inv])
  have q': "read_index rb' = (if ?q + n < ?N then ?q + n else ?q + n - ?N)"
    using q u n by (simp add: rb' mod_once)
  have acc: "buffer_ptr rb' = buffer_ptr rb" "write_index rb' = write_index rb"
    "write_mirror rb' = write_mirror rb" "buffer_size rb' = buffer_size rb"
    "read_mirror rb' = (read_mirror rb \<noteq> (?N \<le> ?q + n))"
    by (simp_all add: rb')
  show "ring_inv rb'"
    using inv n q u unfolding ring_inv_def acc q' used_def by (auto split: if_splits)
  have used': "used rb' = used rb - n"
    using inv n q u unfolding used_def acc q' ring_inv_def by (auto split: if_splits)
  have "ring (buffer_ptr rb) (read_index rb') (used rb - n) =
      ring (buffer_ptr rb) (?q + n) (used rb - n)"
    by (simp add: rb')
  then show "ring_data rb' = drop n (ring_data rb)"
    unfolding ring_data_def acc used' drop_ring [OF n] .
qed

lemma get_spec:
  assumes inv: "ring_inv rb" and dst: "n \<le> length dst"
  defines "m \<equiv> min n (used rb)"
  shows "\<exists>rb'. rt_ringbuffer_get rb dst n = Inr (m, take m (ring_data rb) @ drop m dst, rb') \<and>
    ring_inv rb' \<and> buffer_size rb' = buffer_size rb \<and> ring_data rb' = drop m (ring_data rb)"
proof (cases "used rb = 0")
  case True
  with assms show ?thesis by (simp add: rt_ringbuffer_get_def data_len_used)
next
  case False
  let ?B = "buffer_ptr rb" and ?N = "length (buffer_ptr rb)" and ?q = "read_index rb"
  have q: "?q < ?N" and N: "?N < 2 ^ 31" using inv by (auto simp: ring_inv_def)
  have m: "m \<le> used rb" "m \<le> length dst" "m \<le> ?N"
    using dst used_le_size [OF inv] by (auto simp: m_def)
  have len: "(if used rb < n then used rb else n) = m" by (auto simp: m_def)
  define l where "l = min m (?N - ?q)"
  have l: "l \<le> m" "?q + l \<le> ?N" "m - l \<le> ?N" using q m by (auto simp: l_def)
  let ?rb' = "rb\<lparr>read_mirror := (read_mirror rb \<noteq> (?N \<le> ?q + m)),
                read_index := (?q + m) mod ?N\<rparr>"
  let ?d = "blit dst 0 (take l (drop ?q ?B))"
  have "take m (ring_data rb) @ drop m dst = take l (drop ?q ?B) @ take (m - l) ?B @ drop m dst"
    unfolding ring_data_def take_ring [OF m(1)] ring_read [OF q m(3) l_def, symmetric] by simp
  also have "\<dots> = blit ?d l (take (m - l) ?B)" using m l by (simp add: blit_def)
  finally have res: "take m (ring_data rb) @ drop m dst = blit ?d l (take (m - l) ?B)" .
  have m1: "memcpy dst 0 ?B ?q l = Inr ?d" using m l by (subst memcpy_ok) auto
  have m2: "memcpy ?d l ?B 0 (m - l) = Inr (blit ?d l (take (m - l) ?B))"
    using m l by (subst memcpy_ok) auto
  have "rt_ringbuffer_get rb dst n = Inr (m, take m (ring_data rb) @ drop m dst, ?rb')"
  proof (cases "m < ?N - ?q")
    case True
    then have e: "l = m" "u31_of (?q + m) = ?q + m" "(?q + m) mod ?N = ?q + m"
      using N by (auto simp: l_def u31_of_def)
    then have "(read_mirror rb \<noteq> (?N \<le> ?q + m)) = read_mirror rb" using True by auto
    with True e m1 res \<open>used rb \<noteq> 0\<close> show ?thesis
      unfolding rt_ringbuffer_get_def Let_def data_len_used [OF inv] len room_read [OF inv] by simp
  next
    case wrap: False
    then have e: "?N - ?q = l" "u31_of (m - l) = m - l"
      using N m by (auto simp: l_def u31_of_def)
    have i: "(?q + m) mod ?N = m - l" using wrap q m e by (subst mod_once) auto
    have "(read_mirror rb \<noteq> (?N \<le> ?q + m)) = (\<not> read_mirror rb)" using wrap by auto
    with wrap show ?thesis
      unfolding rt_ringbuffer_get_def Let_def data_len_used [OF inv] len room_read [OF inv] i res
      using l \<open>used rb \<noteq> 0\<close> by (simp add: e m1 m2 del: take_all take_all_iff)
  qed
  with read_advance [OF inv m(1) refl] show ?thesis by (intro exI [of _ ?rb']) simp
qed

lemma getchar_spec:
  assumes inv: "ring_inv rb"
  shows "ring_data rb = [] \<Longrightarrow> rt_ringbuffer_getchar rb c = Inr (0, c, rb)"
    and "ring_data rb = b # bs \<Longrightarrow> \<exists>rb'. rt_ringbuffer_getchar rb c = Inr (1, b, rb') \<and>
      ring_inv rb' \<and> buffer_size rb' = buffer_size rb \<and> ring_data rb' = bs"
proof -
  show "ring_data rb = [] \<Longrightarrow> rt_ringbuffer_getchar rb c = Inr (0, c, rb)"
    using length_ring_data [of rb] by (simp add: rt_ringbuffer_getchar_def data_len_used [OF inv])
next
  assume d: "ring_data rb = b # bs"
  then have u: "1 \<le> used rb" using length_ring_data [of rb] by simp
  let ?N = "length (buffer_ptr rb)" and ?q = "read_index rb"
  have q: "?q < ?N" and N: "?N < 2 ^ 31" using inv by (auto simp: ring_inv_def)
  let ?rb' = "rb\<lparr>read_mirror := (read_mirror rb \<noteq> (?N \<le> ?q + 1)), read_index := (?q + 1) mod ?N\<rparr>"
  have "b = ring_data rb ! 0" using d by simp
  then have b: "buffer_ptr rb ! ?q = b"
    using u q by (simp add: ring_data_def nth_ring)
  have at_end: "int ?q = buffer_size rb - 1 \<longleftrightarrow> ?N \<le> ?q + 1"
    using q unfolding ring_inv_size [OF inv] by auto
  from mod_next [OF q N] have "rt_ringbuffer_getchar rb c = Inr (1, b, ?rb')"
    using u q unfolding rt_ringbuffer_getchar_def data_len_used [OF inv] at_end
    by (auto simp: b)
  with read_advance [OF inv u refl] d show "\<exists>rb'. rt_ringbuffer_getchar rb c = Inr (1, b, rb') \<and>
      ring_inv rb' \<and> buffer_size rb' = buffer_size rb \<and> ring_data rb' = bs"
    by (intro exI [of _ ?rb']) simp
qed

text \<open>
  \<open>rt_ringbuffer_peek\<close> hands out the part of the data that lies in one piece, and consumes it.
\<close>

lemma peek_spec:
  assumes inv: "ring_inv rb"
  defines "m \<equiv> min (used rb) (length (buffer_ptr rb) - read_index rb)"
  shows "\<exists>rb'. rt_ringbuffer_peek rb =
      (m, if used rb = 0 then None else Some (read_index rb), rb') \<and> ring_inv rb' \<and>
    take m (drop (read_index rb) (buffer_ptr rb)) = take m (ring_data rb) \<and>
    ring_data rb' = drop m (ring_data rb)"
proof -
  let ?B = "buffer_ptr rb" and ?N = "length (buffer_ptr rb)" and ?q = "read_index rb"
  have q: "?q < ?N" and N: "?N < 2 ^ 31" using inv by (auto simp: ring_inv_def)
  have m: "m \<le> used rb" "m \<le> ?N" "m = min m (?N - ?q)"
    using used_le_size [OF inv] by (auto simp: m_def)
  let ?rb' = "rb\<lparr>read_mirror := (read_mirror rb \<noteq> (?N \<le> ?q + m)), read_index := (?q + m) mod ?N\<rparr>"
  have piece: "take m (drop ?q ?B) = take m (ring_data rb)"
    using ring_read [OF q m(2,3)] by (simp add: ring_data_def take_ring [OF m(1)])
  consider "used rb = 0" | "0 < used rb" "used rb < ?N - ?q" | "0 < used rb" "?N - ?q \<le> used rb"
    by linarith
  then have "rt_ringbuffer_peek rb = (m, if used rb = 0 then None else Some ?q, ?rb')"
  proof cases
    case 1
    moreover have "(read_mirror rb \<noteq> (?N \<le> ?q)) = read_mirror rb" using q by auto
    ultimately show ?thesis
      using q by (simp add: rt_ringbuffer_peek_def data_len_used [OF inv] m_def)
  next
    case 2
    then have "m = used rb" "u31_of (?q + m) = ?q + m" "(read_mirror rb \<noteq> (?N \<le> ?q + m)) = read_mirror rb"
      using N by (auto simp: m_def u31_of_def)
    with 2 show ?thesis
      unfolding rt_ringbuffer_peek_def Let_def data_len_used [OF inv] room_read [OF inv] by simp
  next
    case 3
    then have "m = ?N - ?q" "?q + m = ?N" "(read_mirror rb \<noteq> (?N \<le> ?q + m)) = (\<not> read_mirror rb)"
      using q by (auto simp: m_def)
    with 3 show ?thesis
      unfolding rt_ringbuffer_peek_def Let_def data_len_used [OF inv] room_read [OF inv] by simp
  qed
  with piece read_advance [OF inv m(1) refl] show ?thesis by (intro exI [of _ ?rb']) simp
qed

lemma reset_spec:
  "ring_inv rb \<Longrightarrow> ring_inv (rt_ringbuffer_reset rb) \<and> ring_data (rt_ringbuffer_reset rb) = [] \<and>
    buffer_size (rt_ringbuffer_reset rb) = buffer_size rb"
  by (auto simp: ring_inv_def rt_ringbuffer_reset_def ring_data_def used_def ring_def)

lemma align_down_8: "RT_ALIGN_DOWN sz RT_ALIGN_SIZE = sz - sz mod 8"
proof -
  have "NOT sz AND (sz AND 7) = 0"
    by (rule bit_eqI) (auto simp: bit_and_iff bit_not_iff)
  then have "sz - (sz AND 7) = sz AND NOT (sz AND 7)"
    by (rule disjunctive_diff_eq_and_not)
  also have "\<dots> = sz AND NOT 7"
    by (rule bit_eqI) (auto simp: bit_and_iff bit_or_iff bit_not_iff)
  finally have "sz AND NOT 7 = sz - (sz AND 7)" by simp
  moreover have "sz AND 7 = sz mod 8"
    using take_bit_eq_mask [of 3 sz] by (simp add: take_bit_eq_mod mask_eq_exp_minus_1)
  ultimately show ?thesis by (simp add: RT_ALIGN_DOWN_def RT_ALIGN_SIZE_def)
qed

text \<open>
  Creating a buffer of a positive multiple of 8 bytes gives an empty one of this size, or
  null when an allocation fails; a size below 8 is rounded down to 0 and fails the assertion
  of \<open>rt_ringbuffer_init\<close>.
\<close>

lemma create_spec:
  assumes "8 dvd sz" and "0 < sz" and "sz < 2 ^ 31" and "\<And>n p. pool n = Some p \<Longrightarrow> length p = n"
  shows "rt_ringbuffer_create obj pool sz = Inr None \<or>
    (\<exists>rb. rt_ringbuffer_create obj pool sz = Inr (Some rb) \<and> ring_inv rb \<and> ring_data rb = [] \<and>
      buffer_size rb = sz)"
proof (cases obj)
  case None
  with assms show ?thesis by (simp add: rt_ringbuffer_create_def)
next
  case (Some rb)
  have sz: "RT_ALIGN_DOWN sz RT_ALIGN_SIZE = sz" using assms(1) by (simp add: align_down_8)
  show ?thesis
  proof (cases "pool (nat sz)")
    case None
    with Some assms sz show ?thesis by (simp add: rt_ringbuffer_create_def)
  next
    case (Some p)
    with assms have p: "length p = nat sz" by auto
    have c: "rt_ringbuffer_create obj pool sz = Inr (Some (rb\<lparr>read_mirror := False, read_index := 0,
        write_mirror := False, write_index := 0, buffer_ptr := p, buffer_size := sz\<rparr>))"
      using Some \<open>obj = Some rb\<close> assms(2)
      by (simp add: rt_ringbuffer_create_def rt_ringbuffer_init_def sz)
    have "nat sz < 2 ^ 31" using assms(2,3) by simp
    then show ?thesis
      using assms(2) by (simp add: c p ring_inv_def ring_data_def used_def ring_def)
  qed
qed

lemma create_small: "0 < sz \<Longrightarrow> sz < 8 \<Longrightarrow> pool 0 = Some p \<Longrightarrow>
    rt_ringbuffer_create (Some rb) pool sz = Inl BusyLoop"
  by (simp add: rt_ringbuffer_create_def rt_ringbuffer_init_def align_down_8)

subsection \<open>Refinement of a bounded queue\<close>

datatype ring_op =
    Put "u8 list" | Put_force "u8 list" | Putchar u8 | Putchar_force u8 | Get nat | Getchar | Ring_reset

text \<open>One call: the value it returns, the bytes it delivers, the buffer.\<close>

fun ring_step :: "rt_ringbuffer \<Rightarrow> ring_op \<Rightarrow> ((nat \<times> u8 list) \<times> rt_ringbuffer) res" where
  "ring_step rb (Put xs) =
     bind_res (rt_ringbuffer_put rb xs (length xs)) (\<lambda>(n, rb'). Inr ((n, []), rb'))"
| "ring_step rb (Put_force xs) =
     bind_res (rt_ringbuffer_put_force rb xs (length xs)) (\<lambda>(n, rb'). Inr ((n, []), rb'))"
| "ring_step rb (Putchar c) =
     bind_res (rt_ringbuffer_putchar rb c) (\<lambda>(n, rb'). Inr ((n, []), rb'))"
| "ring_step rb (Putchar_force c) =
     bind_res (rt_ringbuffer_putchar_force rb c) (\<lambda>(n, rb'). Inr ((n, []), rb'))"
| "ring_step rb (Get n) =
     bind_res (rt_ringbuffer_get rb (replicate n 0) n) (\<lambda>(m, d, rb'). Inr ((m, take m d), rb'))"
| "ring_step rb Getchar =
     bind_res (rt_ringbuffer_getchar rb 0) (\<lambda>(m, c, rb'). Inr ((m, take m [c]), rb'))"
| "ring_step rb Ring_reset = Inr ((0, []), rt_ringbuffer_reset rb)"

fun ring_run :: "rt_ringbuffer \<Rightarrow> ring_op list \<Rightarrow> ((nat \<times> u8 list) list \<times> rt_ringbuffer) res" where
  "ring_run rb [] = Inr ([], rb)"
| "ring_run rb (p # ps) =
     bind_res (ring_step rb p) (\<lambda>(r, rb').
     bind_res (ring_run rb' ps) (\<lambda>(rs, rb''). Inr (r # rs, rb'')))"

text \<open>
  The same calls on a queue that holds at most \<open>c\<close> bytes; a forced write drops the oldest.
\<close>

fun bounded_step :: "nat \<Rightarrow> u8 list \<Rightarrow> ring_op \<Rightarrow> (nat \<times> u8 list) \<times> u8 list" where
  "bounded_step c q (Put xs) = (let m = min (length xs) (c - length q) in ((m, []), q @ take m xs))"
| "bounded_step c q (Put_force xs) = ((min (length xs) c, []), lastn c (q @ xs))"
| "bounded_step c q (Putchar b) = (if length q < c then ((1, []), q @ [b]) else ((0, []), q))"
| "bounded_step c q (Putchar_force b) = ((1, []), lastn c (q @ [b]))"
| "bounded_step c q (Get n) = ((min n (length q), take n q), drop n q)"
| "bounded_step c q Getchar = ((min 1 (length q), take 1 q), drop 1 q)"
| "bounded_step c q Ring_reset = ((0, []), [])"

fun bounded_run :: "nat \<Rightarrow> u8 list \<Rightarrow> ring_op list \<Rightarrow> (nat \<times> u8 list) list \<times> u8 list" where
  "bounded_run c q [] = ([], q)"
| "bounded_run c q (p # ps) =
     (let (r, q') = bounded_step c q p; (rs, q'') = bounded_run c q' ps in (r # rs, q''))"

lemma ring_step_refines:
  assumes inv: "ring_inv rb"
  defines "N \<equiv> nat (buffer_size rb)"
  shows "\<exists>rb'. ring_step rb p = Inr (fst (bounded_step N (ring_data rb) p), rb') \<and> ring_inv rb' \<and>
    buffer_size rb' = buffer_size rb \<and> ring_data rb' = snd (bounded_step N (ring_data rb) p)"
proof -
  have N: "N = length (buffer_ptr rb)" using ring_inv_size [OF inv] by (simp add: N_def)
  have pos: "1 \<le> N" using inv by (auto simp: N ring_inv_def)
  note u = used_le_size [OF inv]
  show ?thesis
  proof (cases p)
    case (Put xs)
    from put_spec [OF inv order_refl, of xs] show ?thesis by (auto simp: Put N Let_def)
  next
    case (Put_force xs)
    from put_force_spec [OF inv, of xs] show ?thesis by (auto simp: Put_force N)
  next
    case (Putchar c)
    from put_spec [OF inv, of 1 "[c]"] show ?thesis
      using u by (auto simp: Putchar N putchar_eq [OF inv] min_def simp del: One_nat_def)
  next
    case (Putchar_force c)
    from put_force_spec [OF inv, of "[c]"] show ?thesis
      using pos by (auto simp: Putchar_force N putchar_force_eq [OF inv] min_def)
  next
    case (Get n)
    from get_spec [OF inv, of n "replicate n 0"] show ?thesis
      by (auto simp: Get min_def drop_Cons' split: if_splits)
  next
    case Getchar
    show ?thesis
    proof (cases "ring_data rb")
      case Nil
      with getchar_spec(1) [OF inv] inv show ?thesis by (simp add: Getchar flip: length_ring_data)
    next
      case (Cons b bs)
      with getchar_spec(2) [OF inv Cons, of 0] length_ring_data [of rb] show ?thesis
        by (auto simp: Getchar)
    qed
  next
    case Ring_reset
    with reset_spec [OF inv] show ?thesis by simp
  qed
qed

subsection \<open>Interface: a queue between an interrupt handler and a thread\<close>

text \<open>
  What the motor driver relies on: pushing keeps everything while there is room and otherwise
  drops the oldest byte, popping gives the bytes back in order.
\<close>

locale byte_queue =
  fixes push :: "'q \<Rightarrow> u8 \<Rightarrow> (nat \<times> 'q) res"
    and pop :: "'q \<Rightarrow> u8 \<Rightarrow> (nat \<times> u8 \<times> 'q) res"
    and items :: "'q \<Rightarrow> u8 list"
    and ok :: "'q \<Rightarrow> bool"
    and cap :: "'q \<Rightarrow> nat"
  assumes push_law: "ok q \<Longrightarrow> \<exists>q'. push q c = Inr (1, q') \<and> ok q' \<and> cap q' = cap q \<and>
      items q' = lastn (cap q) (items q @ [c])"
    and pop_empty: "ok q \<Longrightarrow> items q = [] \<Longrightarrow> pop q c = Inr (0, c, q)"
    and pop_law: "ok q \<Longrightarrow> items q = b # bs \<Longrightarrow>
      \<exists>q'. pop q c = Inr (1, b, q') \<and> ok q' \<and> cap q' = cap q \<and> items q' = bs"
begin

lemma push_room:
  assumes "ok q" and "length (items q) < cap q"
  shows "\<exists>q'. push q c = Inr (1, q') \<and> ok q' \<and> cap q' = cap q \<and> items q' = items q @ [c]"
  using push_law [OF assms(1), of c] assms(2) by simp

fun feed :: "'q \<Rightarrow> u8 list \<Rightarrow> 'q res" where
  "feed q [] = Inr q"
| "feed q (c # cs) = bind_res (push q c) (\<lambda>(_, q'). feed q' cs)"

text \<open>However many bytes are pushed, the queue then holds the newest ones in order.\<close>

lemma feed_keeps_newest:
  assumes "ok q" and "length (items q) \<le> cap q"
  shows "\<exists>q'. feed q cs = Inr q' \<and> ok q' \<and> items q' = lastn (cap q) (items q @ cs)"
  using assms
proof (induction cs arbitrary: q)
  case Nil
  then show ?case by simp
next
  case (Cons c cs)
  from push_law [OF Cons.prems(1), of c] obtain q1 where q1: "push q c = Inr (1, q1)" "ok q1"
    "cap q1 = cap q" "items q1 = lastn (cap q) (items q @ [c])" by auto
  have "lastn n (lastn n xs @ ys) = lastn n (xs @ ys)" for n and xs ys :: "u8 list"
    by (cases "length xs \<le> n") (auto simp: lastn_def add.commute)
  then have "lastn (cap q) (lastn (cap q) (items q @ [c]) @ cs) = lastn (cap q) (items q @ c # cs)"
    by simp
  with Cons.IH [OF q1(2)] q1 show ?case by simp
qed

end

interpretation ringq: byte_queue rt_ringbuffer_putchar_force rt_ringbuffer_getchar ring_data ring_inv
    "\<lambda>rb. nat (buffer_size rb)"
proof
  fix rb c b bs
  show "ring_inv rb \<Longrightarrow> \<exists>q'. rt_ringbuffer_putchar_force rb c = Inr (1, q') \<and> ring_inv q' \<and>
      nat (buffer_size q') = nat (buffer_size rb) \<and>
      ring_data q' = lastn (nat (buffer_size rb)) (ring_data rb @ [c])"
    using ring_step_refines [of rb "Putchar_force c"] by auto
  show "ring_inv rb \<Longrightarrow> ring_data rb = [] \<Longrightarrow> rt_ringbuffer_getchar rb c = Inr (0, c, rb)"
    by (rule getchar_spec(1))
  show "ring_inv rb \<Longrightarrow> ring_data rb = b # bs \<Longrightarrow> \<exists>q'. rt_ringbuffer_getchar rb c = Inr (1, b, q') \<and>
      ring_inv q' \<and> nat (buffer_size q') = nat (buffer_size rb) \<and> ring_data q' = bs"
    using getchar_spec(2) [of rb b bs c] by auto
qed

text \<open>
  C24: Whatever sequence of calls is made on a well-formed \<open>rt_ringbuffer\<close>, each call returns
  without a fault and gives the count and the bytes that a queue of \<open>buffer_size\<close> bytes
  gives: \<open>put\<close> and \<open>putchar\<close> store what fits, \<open>put_force\<close> and \<open>putchar_force\<close> store everything
  and drop the oldest bytes, \<open>get\<close> and \<open>getchar\<close> deliver the bytes in the order they were
  stored. The two mirror bits always tell the full buffer from the empty one.
\<close>

theorem ring_run_refines_bounded_queue:
  assumes "ring_inv rb"
  shows "\<exists>rb'. ring_run rb ps = Inr (fst (bounded_run (nat (buffer_size rb)) (ring_data rb) ps), rb') \<and>
    ring_inv rb' \<and> ring_data rb' = snd (bounded_run (nat (buffer_size rb)) (ring_data rb) ps)"
  using assms
proof (induction ps arbitrary: rb)
  case Nil
  then show ?case by simp
next
  case (Cons p ps)
  from ring_step_refines [OF Cons.prems, of p] obtain rb1 where
    step: "ring_step rb p = Inr (fst (bounded_step (nat (buffer_size rb)) (ring_data rb) p), rb1)"
    "ring_inv rb1" "buffer_size rb1 = buffer_size rb"
    "ring_data rb1 = snd (bounded_step (nat (buffer_size rb)) (ring_data rb) p)" by auto
  from Cons.IH [OF step(2)] step show ?case
    by (auto simp: Let_def split: prod.splits)
qed

definition small_ring :: rt_ringbuffer where
  "small_ring = \<lparr>buffer_ptr = [13, 14, 11, 12], read_mirror = False, read_index = 2,
     write_mirror = True, write_index = 1, buffer_size = 4\<rparr>"

lemma small_ring_inv: "ring_inv small_ring"
  by (simp add: ring_inv_def small_ring_def)

theorem ring_run_refines_bounded_queue_witness:
  "ring_inv small_ring \<and>
   (\<exists>rb'. ring_run small_ring [Putchar_force 21, Putchar 22, Put_force [31, 32], Getchar, Get 9] =
     Inr ([(1, []), (0, []), (2, []), (1, [13]), (3, [21, 31, 32])], rb') \<and> ring_data rb' = [])"
proof -
  have d: "ring_data small_ring = [11, 12, 13]"
    by (simp add: ring_data_def small_ring_def used_def ring_def upt_rec)
  have s: "nat (buffer_size small_ring) = 4" by (simp add: small_ring_def)
  have r: "bounded_run 4 [11, 12, 13] [Putchar_force 21, Putchar 22, Put_force [31, 32], Getchar, Get 9] =
      ([(1, []), (0, []), (2, []), (1, [13]), (3, [21, 31, 32])], [])"
    by (simp add: lastn_def Let_def)
  from ring_run_refines_bounded_queue [OF small_ring_inv,
      of "[Putchar_force 21, Putchar 22, Put_force [31, 32], Getchar, Get 9]"]
  show ?thesis
    using small_ring_inv unfolding d s r fst_conv snd_conv by blast
qed

end
