(* ===== verification/DjMotor.thy ===== *)
theory DjMotor
  imports Motor RingBuffer "HOL-Library.Signed_Division"
begin

section \<open>The CAN motor driver (motor_dj_rm_driver.c, motor_dj_rm_driver.h)\<close>

text \<open>
  The four M2006 motors report over CAN. The interrupt handler
  \<open>ind_dj_can_motor_callback\<close> finds the motor by its CAN id, follows its angle over full
  turns, hands speed, torque and position to the motor layer and puts the motor's id into a
  ring buffer; the driver thread takes ids out and runs \<open>motor_handle\<close>, which ends in
  \<open>motor_dj_driver\<close> sending the currents of all four motors in one frame.

  The state of the driver is the \<open>mworld\<close> of the motor layer. The CAN device is a parameter:
  \<open>wr\<close> and \<open>rd\<close> are what \<open>rt_device_write\<close> and \<open>rt_device_read\<close> do on the device's state;
  writing returns the number of bytes written. Of \<open>struct rt_can_msg\<close> the members that the
  driver never touches are left out; \<open>msg_data\<close> is its array of 8 bytes.
\<close>

subsection \<open>Data\<close>

definition CAN_Motor_ALL_ID :: u32 where "CAN_Motor_ALL_ID = 0x200"
definition CAN_Motor1_ID :: u16 where "CAN_Motor1_ID = 0x201"
definition CAN_Motor_ALL_ID2 :: u32 where "CAN_Motor_ALL_ID2 = 0x1FF"
definition DJ_M_NUM :: nat where "DJ_M_NUM = 4"

lemmas can_ids = CAN_Motor_ALL_ID_def CAN_Motor1_ID_def CAN_Motor_ALL_ID2_def

record motor_measure_t =
  mm_id :: u8
  mm_can_id :: u16
  angle :: u16
  msg_cnt :: u8
  last_angle :: u16
  offset_angle :: u16
  round_cnt :: int
  total_angle :: int

record rt_can_msg =
  msg_id :: u32
  msg_ide :: bool
  msg_rtr :: bool
  msg_len :: u8
  msg_data :: "u8 list"

definition zero_msg :: rt_can_msg where
  "zero_msg = \<lparr>msg_id = 0, msg_ide = False, msg_rtr = False, msg_len = 0, msg_data = replicate 8 0\<rparr>"

definition sizeof_msg :: int where "sizeof_msg = 16"

record 'd dj =
  dj_motors :: "motor_measure_t list"
  iq1_low :: "16 word list"
  iq1_high :: "16 word list"
  dj_m_ringfifo :: "rt_ringbuffer option"
  rx_i :: u8
  timeout_counter :: int
  can_dev :: 'd

definition DJ_MOTOR_MOTOR_ID :: "u8 \<Rightarrow> u16 \<Rightarrow> motor_measure_t" where
  "DJ_MOTOR_MOTOR_ID i c = \<lparr>mm_id = i, mm_can_id = c, angle = 0, msg_cnt = 0, last_angle = 0,
     offset_angle = 0, round_cnt = 0, total_angle = 0\<rparr>"

definition dj_table :: "motor_measure_t list" where
  "dj_table = [DJ_MOTOR_MOTOR_ID 0 0x201, DJ_MOTOR_MOTOR_ID 1 0x202,
     DJ_MOTOR_MOTOR_ID 2 0x203, DJ_MOTOR_MOTOR_ID 3 0x204]"

definition dj_static :: "'d \<Rightarrow> 'd dj" where
  "dj_static dev = \<lparr>dj_motors = dj_table, iq1_low = replicate 4 0, iq1_high = replicate 4 0,
     dj_m_ringfifo = None, rx_i = 0, timeout_counter = 0, can_dev = dev\<rparr>"

text \<open>A result of type \<open>int\<close> that does not fit is undefined behaviour.\<close>

definition i32 :: "int \<Rightarrow> int res" where
  "i32 x = (if - (2 ^ 31) \<le> x \<and> x < 2 ^ 31 then Inr x else Inl SignedOverflow)"

text \<open>\<open>int16_t tmpout = *value\<close> truncates; a value that does not fit is undefined behaviour.\<close>

definition to_int16 :: "real \<Rightarrow> 16 word res" where
  "to_int16 x =
     (let n = (if x \<ge> 0 then \<lfloor>x\<rfloor> else \<lceil>x\<rceil>)
      in if - (2 ^ 15) \<le> n \<and> n < 2 ^ 15 then Inr (word_of_int n) else Inl BadConversion)"

subsection \<open>Finding a motor\<close>

text \<open>
  The loop of \<open>motor_get_by_canid\<close>: \<open>left\<close>, \<open>right\<close> and \<open>mid\<close> are bytes, so \<open>mid - 1\<close> wraps to
  255 when \<open>mid\<close> is 0. A loop that never ends is the value \<open>None\<close>.
\<close>

partial_function (option) canid_loop ::
    "motor_measure_t list \<Rightarrow> u16 \<Rightarrow> u8 \<Rightarrow> u8 \<Rightarrow> nat option res option" where
  "canid_loop tab cid left right =
     (if left \<le> right then
        let mid = (unat left + unat right) div 2 in
        if mid < length tab then
          if mm_can_id (tab ! mid) = cid then Some (Inr (Some mid))
          else if mm_can_id (tab ! mid) < cid then canid_loop tab cid (of_nat mid + 1) right
          else canid_loop tab cid left (of_nat mid - 1)
        else Some (Inl OutOfBounds)
      else Some (Inr None))"

definition motor_get_by_canid :: "motor_measure_t list \<Rightarrow> u16 \<Rightarrow> nat option res option" where
  "motor_get_by_canid tab cid = canid_loop tab cid 0 (of_nat (length tab) - 1)"

subsection \<open>Sending currents\<close>

text \<open>\<open>data[2k] = iq[k] >> 8; data[2k+1] = iq[k]\<close> for the four currents.\<close>

definition iq_bytes :: "16 word list \<Rightarrow> u8 list" where
  "iq_bytes iq = concat (map (\<lambda>k. [word_of_int (drop_bit 8 (sint (iq ! k))), word_of_int (sint (iq ! k))])
                   [0, 1, 2, 3])"

type_synonym 'd can_write = "rt_can_msg \<Rightarrow> 'd \<Rightarrow> int \<times> 'd"
type_synonym 'd can_read = "'d \<Rightarrow> rt_can_msg \<times> 'd"

text \<open>
  The torque case of \<open>motor_dj_driver\<close> on the driver's own state. Before the first test the
  message has just been cleared, so its id is 0 and the last branch is always taken; it sends
  when all four motors have reported since the last failed transfer. A failed transfer makes
  every motor wait for its next report.
\<close>

definition send_current ::
    "'d can_write \<Rightarrow> u16 \<Rightarrow> 16 word \<Rightarrow> 'd dj \<Rightarrow> 'd dj res" where
  "send_current wr cid tmpout d =
     (let msg = zero_msg\<lparr>msg_len := 8\<rparr>;
          tt = unat (word_of_int ((int (unat cid) - int (unat CAN_Motor1_ID)) smod 4) :: u16);
          sel = int (unat (msg_id msg)) - int (unat CAN_Motor1_ID)
      in
      if sel > 8 then Inr d
      else if sel > 4 then
        (if tt < length (iq1_high d) then
           let iq = (iq1_high d)[tt := tmpout];
               (n, dev) = wr (msg\<lparr>msg_id := CAN_Motor_ALL_ID2, msg_data := iq_bytes iq\<rparr>) (can_dev d)
           in Inr (d\<lparr>iq1_high := iq, can_dev := dev\<rparr>)
         else Inl OutOfBounds)
      else if list_all (\<lambda>k. msg_cnt (dj_motors d ! k) = 0xff) [0..<DJ_M_NUM] then
        (if tt < length (iq1_low d) then
           let iq = (iq1_low d)[tt := tmpout];
               (n, dev) = wr (msg\<lparr>msg_id := CAN_Motor_ALL_ID, msg_data := iq_bytes iq\<rparr>) (can_dev d);
               d1 = d\<lparr>iq1_low := iq, can_dev := dev\<rparr>
           in Inr (if n \<noteq> sizeof_msg
                   then d1\<lparr>dj_motors := map (\<lambda>m. m\<lparr>msg_cnt := 50\<rparr>) (dj_motors d1)\<rparr> else d1)
         else Inl OutOfBounds)
      else Inr d)"

definition motor_dj_driver :: "'d can_write \<Rightarrow> 'd dj motor_call" where
  "motor_dj_driver wr p i mode v st =
     at_motor NullDeref st i (\<lambda>j m.
       case ops m of
         None \<Rightarrow> Inl NullDeref
       | Some q \<Rightarrow>
           bind_res (to_int16 v) (\<lambda>tmpout.
           if mode = MOTOR_MODE_TORQUE then
             if q < length (dj_motors (mworld st)) then
               bind_res (send_current wr (mm_can_id (dj_motors (mworld st) ! q)) tmpout (mworld st))
                 (\<lambda>d. Inr (v, st\<lparr>mworld := d\<rparr>))
             else Inl OutOfBounds
           else Inr (v, st)))"

definition motor_dj_ctr :: "'d dj motor_call" where
  "motor_dj_ctr p i cmd v st =
     at_motor NullDeref st i (\<lambda>j m.
       if ops m = None then Inl NullDeref
       else if cmd = MOTOR_MODE_SAFETY_STOP then bind_res (motor_stop st i) (\<lambda>st'. Inr (v, st'))
       else if cmd = MOTOR_MODE_SAFETY_START then bind_res (motor_start st i) (\<lambda>st'. Inr (v, st'))
       else if cmd = MOTOR_MODE_TEMP then Inr (42, st)
       else Inr (v, st))"

subsection \<open>Receiving a report\<close>

definition dj_motor_BackToZero :: "motor_measure_t \<Rightarrow> motor_measure_t" where
  "dj_motor_BackToZero m = m\<lparr>offset_angle := angle m, round_cnt := 0\<rparr>"

text \<open>\<open>(uint16_t) (data[k] << 8 | data[k + 1])\<close>\<close>

definition be16 :: "u8 list \<Rightarrow> nat \<Rightarrow> u16" where
  "be16 bs k = word_of_int (push_bit 8 (int (unat (bs ! k))) OR int (unat (bs ! Suc k)))"

text \<open>
  The first 50 reports after power-up only set the zero of the angle; from then on a jump of
  more than half a turn is a full turn, and the angle is counted in 8191 steps per turn.
\<close>

definition dj_measure :: "u16 \<Rightarrow> motor_measure_t \<Rightarrow> motor_measure_t res" where
  "dj_measure new m0 =
     (if msg_cnt m0 < 50 then
        Inr (m0\<lparr>msg_cnt := msg_cnt m0 + 1, angle := new, offset_angle := new\<rparr>)
      else
        let m = m0\<lparr>last_angle := angle m0, angle := new\<rparr>;
            jump = int (unat (angle m)) - int (unat (last_angle m)) in
        bind_res (if jump > 4096 then i32 (round_cnt m - 1)
                  else if jump < - 4096 then i32 (round_cnt m + 1) else Inr (round_cnt m)) (\<lambda>r.
        bind_res (i32 (r * 8191)) (\<lambda>x.
        bind_res (i32 (x + int (unat (angle m)))) (\<lambda>y.
        bind_res (i32 (y - int (unat (offset_angle m)))) (\<lambda>total.
        Inr (m\<lparr>round_cnt := r, msg_cnt := 0xff, total_angle := total\<rparr>))))))"

definition KK :: "rounding \<Rightarrow> rounding \<Rightarrow> real" where
  "KK fl fd = fd (fd 1.06 * fl (10 / 8192))"

definition ring_send :: "'d dj \<Rightarrow> u8 \<Rightarrow> 'd dj res" where
  "ring_send d c =
     (case dj_m_ringfifo d of
        None \<Rightarrow> Inl BusyLoop
      | Some rb \<Rightarrow> bind_res (rt_ringbuffer_putchar_force rb c) (\<lambda>(_, rb').
          Inr (d\<lparr>dj_m_ringfifo := Some rb'\<rparr>)))"

definition ind_dj_can_motor_callback ::
    "'d can_read \<Rightarrow> rounding \<Rightarrow> rounding \<Rightarrow> 'd dj motors \<Rightarrow> 'd dj motors res option" where
  "ind_dj_can_motor_callback rd fl fd st =
     (let (rxmsg, dev) = rd (can_dev (mworld st));
          d = (mworld st)\<lparr>can_dev := dev\<rparr> in
      case motor_get_by_canid (dj_motors d) (ucast (msg_id rxmsg)) of
        None \<Rightarrow> None
      | Some (Inl e) \<Rightarrow> Some (Inl e)
      | Some (Inr None) \<Rightarrow> Some (Inl NullDeref)
      | Some (Inr (Some k)) \<Rightarrow>
          Some (bind_res (dj_measure (be16 (msg_data rxmsg) 0) (dj_motors d ! k)) (\<lambda>m.
            let st1 = st\<lparr>mworld := d\<lparr>dj_motors := (dj_motors d)[k := m]\<rparr>\<rparr>;
                i = int (unat (mm_id m)) in
            bind_res (motor_feedback_speed st1 i
                (fl (of_int (sint (be16 (msg_data rxmsg) 2)) / 36))) (\<lambda>st2.
            bind_res (motor_feedback_torque st2 i (of_int (sint (be16 (msg_data rxmsg) 4)))) (\<lambda>st3.
            bind_res (motor_feedback_pos st3 i (fl (fd (fl (of_int (total_angle m)) * KK fl fd)))) (\<lambda>st4.
            bind_res (ring_send (mworld st4) (word_of_int i)) (\<lambda>d'.
            Inr (st4\<lparr>mworld := d'\<rparr>))))))))"

subsection \<open>The driver thread\<close>

text \<open>One turn of the loop of \<open>can_rx_thread\<close>; waiting a millisecond is no step of this model.\<close>

definition can_rx_turn :: "'d can_write \<Rightarrow> rounding \<Rightarrow> 'd dj motors \<Rightarrow> 'd dj motors res" where
  "can_rx_turn wr fl st =
     (case dj_m_ringfifo (mworld st) of
        None \<Rightarrow> Inl BusyLoop
      | Some rb \<Rightarrow>
          bind_res (rt_ringbuffer_getchar rb (rx_i (mworld st))) (\<lambda>(n, c, rb').
          let d = (mworld st)\<lparr>dj_m_ringfifo := Some rb', rx_i := c\<rparr> in
          if n = 0 then
            bind_res (i32 (timeout_counter d + 1)) (\<lambda>t. Inr (st\<lparr>mworld := d\<lparr>timeout_counter := t\<rparr>\<rparr>))
          else motor_handle motor_dj_ctr (motor_dj_driver wr) fl
                 (st\<lparr>mworld := d\<lparr>timeout_counter := 0\<rparr>\<rparr>) (int (unat c)) 1))"

subsection \<open>Start-up\<close>

definition on_pid :: "(apid_t \<Rightarrow> apid_t) \<Rightarrow> ('d motors \<Rightarrow> nat option res) \<Rightarrow> 'd motors \<Rightarrow> 'd motors res" where
  "on_pid f which st =
     bind_res (which st) (\<lambda>p.
       case p of
         None \<Rightarrow> Inl NullDeref
       | Some a \<Rightarrow> (case apids st a of
                      None \<Rightarrow> Inl UseAfterFree
                    | Some pid \<Rightarrow> Inr (st\<lparr>apids := (apids st)(a \<mapsto> f pid)\<rparr>)))"

definition MAX_V_POS :: real where "MAX_V_POS = 65"
definition MAX_V_SPEED :: real where "MAX_V_SPEED = 80"

fun run_all :: "('s \<Rightarrow> 's res) list \<Rightarrow> 's \<Rightarrow> 's res" where
  "run_all [] s = Inr s"
| "run_all (f # fs) s = bind_res (f s) (run_all fs)"

abbreviation speed_pid where "speed_pid i f \<equiv> on_pid f (\<lambda>st. motor_get_pid_speed st i)"
abbreviation pos_pid where "pos_pid i f \<equiv> on_pid f (\<lambda>st. motor_get_pid_pos st i)"

definition set_motor_passive_feedback :: "'d motors \<Rightarrow> 'd motors res" where
  "set_motor_passive_feedback = run_all [
     (\<lambda>st. motor_set_passive_feedback st M2006_1_CAN1 True),
     speed_pid M2006_1_CAN1 (\<lambda>p. APID_Set_Out_Limit p 30000),
     speed_pid M2006_1_CAN1 (\<lambda>p. APID_Set_Integral_Limit p 200),
     speed_pid M2006_1_CAN1 (\<lambda>p. APID_Set_Bias_Dead_Zone p 20),
     speed_pid M2006_1_CAN1 (\<lambda>p. APID_Set_Bias_Limit p 2000),
     speed_pid M2006_1_CAN1 (\<lambda>p. APID_Set_Target_Limit p MAX_V_SPEED),
     pos_pid M2006_1_CAN1 (\<lambda>p. APID_Set_Out_Limit p MAX_V_POS),
     pos_pid M2006_1_CAN1 (\<lambda>p. APID_Set_Integral_Limit p 200),
     (\<lambda>st. motor_set_passive_feedback st M2006_2_CAN1 True),
     speed_pid M2006_2_CAN1 (\<lambda>p. APID_Set_Out_Limit p 30000),
     speed_pid M2006_2_CAN1 (\<lambda>p. APID_Set_Integral_Limit p 200),
     speed_pid M2006_2_CAN1 (\<lambda>p. APID_Set_Bias_Dead_Zone p 20),
     speed_pid M2006_2_CAN1 (\<lambda>p. APID_Set_Bias_Limit p 2000),
     speed_pid M2006_2_CAN1 (\<lambda>p. APID_Set_Target_Limit p MAX_V_SPEED),
     pos_pid M2006_2_CAN1 (\<lambda>p. APID_Set_Out_Limit p MAX_V_POS),
     pos_pid M2006_2_CAN1 (\<lambda>p. APID_Set_Integral_Limit p 200),
     (\<lambda>st. motor_set_passive_feedback st M2006_3_CAN1 True),
     speed_pid M2006_3_CAN1 (\<lambda>p. APID_Set_Out_Limit p 30000),
     speed_pid M2006_3_CAN1 (\<lambda>p. APID_Set_Integral_Limit p 200),
     speed_pid M2006_3_CAN1 (\<lambda>p. APID_Set_Bias_Dead_Zone p 20),
     speed_pid M2006_1_CAN1 (\<lambda>p. APID_Set_Target_Limit p MAX_V_SPEED),
     pos_pid M2006_3_CAN1 (\<lambda>p. APID_Set_Out_Limit p MAX_V_POS),
     pos_pid M2006_4_CAN1 (\<lambda>p. APID_Set_Integral_Limit p 200),
     (\<lambda>st. motor_set_passive_feedback st M2006_4_CAN1 True),
     speed_pid M2006_4_CAN1 (\<lambda>p. APID_Set_Out_Limit p 30000),
     speed_pid M2006_4_CAN1 (\<lambda>p. APID_Set_Integral_Limit p 200),
     speed_pid M2006_4_CAN1 (\<lambda>p. APID_Set_Bias_Dead_Zone p 20),
     speed_pid M2006_4_CAN1 (\<lambda>p. APID_Set_Target_Limit p MAX_V_SPEED),
     pos_pid M2006_4_CAN1 (\<lambda>p. APID_Set_Out_Limit p MAX_V_POS),
     pos_pid M2006_4_CAN1 (\<lambda>p. APID_Set_Integral_Limit p 200)]"

text \<open>
  \<open>motor_dj_init\<close>. What RT-Thread answers is \<open>boot\<close>: whether the device is found, and whether
  opening it and the two settings succeed; each failure but the first ends in \<open>RT_ASSERT\<close>.
  \<open>rt_error\<close> is \<open>RT_ERROR\<close>, whose value depends on the C library of the build.
  \<open>obj\<close> and \<open>pool\<close> are the allocations of the ring buffer. The semaphore, the mailbox and the
  timer are created and never used; the threads are created last.
\<close>

record dj_boot =
  boot_found :: bool
  boot_open :: bool
  boot_baud :: bool
  boot_priv :: bool

definition motor_dj_init ::
    "int \<Rightarrow> apid_malloc \<Rightarrow> dj_boot \<Rightarrow> rt_ringbuffer option \<Rightarrow> (nat \<Rightarrow> u8 list option) \<Rightarrow>
     'd dj motors \<Rightarrow> (int \<times> 'd dj motors) res" where
  "motor_dj_init rt_error mal boot obj pool st =
     bind_res (motor_init mal st) (\<lambda>st1.
     bind_res (set_motor_passive_feedback st1) (\<lambda>st2.
     if \<not> boot_found boot then Inr (- rt_error, st2)
     else
       bind_res (rt_ringbuffer_create obj pool 4096) (\<lambda>rb.
       let st3 = st2\<lparr>mworld := (mworld st2)\<lparr>dj_m_ringfifo := rb\<rparr>\<rparr> in
       if boot_open boot \<and> boot_baud boot \<and> boot_priv boot then Inr (0, st3) else Inl BusyLoop)))"

subsection \<open>Finding a motor: the binary search\<close>

lemma canid_loop_step:
  assumes "a < 256" and "b < 256"
  shows "canid_loop tab cid (of_nat a) (of_nat b) =
    (if a \<le> b then
       if (a + b) div 2 < length tab then
         if mm_can_id (tab ! ((a + b) div 2)) = cid then Some (Inr (Some ((a + b) div 2)))
         else if mm_can_id (tab ! ((a + b) div 2)) < cid
         then canid_loop tab cid (of_nat ((a + b) div 2) + 1) (of_nat b)
         else canid_loop tab cid (of_nat a) (of_nat ((a + b) div 2) - 1)
       else Some (Inl OutOfBounds)
     else Some (Inr None))"
proof -
  have "unat (of_nat a :: u8) = a" "unat (of_nat b :: u8) = b"
    using assms by (simp_all add: unat_of_nat take_bit_eq_mod)
  then show ?thesis
    by (subst canid_loop.simps) (simp add: word_le_nat_alt Let_def)
qed

text \<open>
  What the loop returns in a strictly sorted table, once it is known that the id, if present,
  lies between the two bounds.
\<close>

definition canid_result :: "motor_measure_t list \<Rightarrow> u16 \<Rightarrow> nat option res option \<Rightarrow> bool" where
  "canid_result tab cid r \<longleftrightarrow>
     (if \<exists>k < length tab. mm_can_id (tab ! k) = cid
      then \<exists>k < length tab. mm_can_id (tab ! k) = cid \<and> r = Some (Inr (Some k))
      else if cid < mm_can_id (tab ! 0) then r = Some (Inl OutOfBounds)
      else r = Some (Inr None))"

lemma canid_result_found:
  assumes "canid_result tab (mm_can_id (tab ! k)) r" and "sorted_wrt (<) (map mm_can_id tab)"
    and k: "k < length tab"
  shows "r = Some (Inr (Some k))"
proof -
  have "\<exists>j < length tab. mm_can_id (tab ! j) = mm_can_id (tab ! k)" using k by auto
  with assms(1) obtain j where j: "j < length tab" "mm_can_id (tab ! j) = mm_can_id (tab ! k)"
    "r = Some (Inr (Some j))" by (auto simp: canid_result_def)
  have "\<not> j < k" "\<not> k < j"
    using assms(2) j k by (fastforce simp: sorted_wrt_iff_nth_less)+
  with j show ?thesis by simp
qed

lemma canid_wrapped:
  assumes "length tab \<le> 127"
  shows "canid_loop tab cid 0 (- 1) = Some (Inl OutOfBounds)"
proof -
  have "canid_loop tab cid 0 255 = Some (Inl OutOfBounds)"
    using canid_loop_step [of 0 255 tab cid] assms by simp
  moreover have "(255 :: u8) = - 1" by simp
  ultimately show ?thesis by simp
qed

lemma canid_loop_result:
  assumes srt: "sorted_wrt (<) (map mm_can_id tab)" and len: "length tab \<le> 127" "0 < length tab"
    and b: "b < length tab" and a: "a \<le> Suc b"
    and below: "\<And>k. k < a \<Longrightarrow> mm_can_id (tab ! k) < cid"
    and above: "\<And>k. b < k \<Longrightarrow> k < length tab \<Longrightarrow> cid < mm_can_id (tab ! k)"
  shows "canid_result tab cid (canid_loop tab cid (of_nat a) (of_nat b))"
  using b a below above
proof (induction "Suc b - a" arbitrary: a b rule: less_induct)
  case less
  have ab: "a < 256" "b < 256" using less.prems len by auto
  define mid where "mid = (a + b) div 2"
  have order: "mm_can_id (tab ! i) < mm_can_id (tab ! k)" if "i < k" "k < length tab" for i k
    using srt that by (simp add: sorted_wrt_iff_nth_less)
  show ?case
  proof (cases "a \<le> b")
    case False
    then have e: "a = Suc b" using less.prems(2) by simp
    have "\<not> (\<exists>k < length tab. mm_can_id (tab ! k) = cid)"
      using less.prems(3,4) e by (metis less_irrefl not_less_eq)
    moreover have "\<not> cid < mm_can_id (tab ! 0)"
      using less.prems(3) [of 0] e by (metis order.asym zero_less_Suc)
    ultimately show ?thesis
      using False unfolding canid_loop_step [OF ab] by (simp add: canid_result_def)
  next
    case True
    then have mid: "a \<le> mid" "mid \<le> b" "mid < length tab"
      using less.prems(1) by (auto simp: mid_def)
    consider "mm_can_id (tab ! mid) = cid" | "mm_can_id (tab ! mid) < cid" | "cid < mm_can_id (tab ! mid)"
      by (metis linorder_less_linear)
    then show ?thesis
    proof cases
      case 1
      then show ?thesis
        using True mid unfolding canid_loop_step [OF ab] mid_def [symmetric]
        by (auto simp: canid_result_def)
    next
      case 2
      have "canid_result tab cid (canid_loop tab cid (of_nat (Suc mid)) (of_nat b))"
      proof (rule less.hyps)
        show "mm_can_id (tab ! k) < cid" if "k < Suc mid" for k
          using that 2 order [of k mid] mid(3) by (metis less_SucE less_trans)
      qed (use mid less.prems in auto)
      moreover have "of_nat (Suc mid) = (of_nat mid + 1 :: u8)" by simp
      ultimately show ?thesis
        using True 2 mid unfolding canid_loop_step [OF ab] mid_def [symmetric]
        by (auto simp: add.commute)
    next
      case 3
      show ?thesis
      proof (cases mid)
        case 0
        then have "a = 0" using mid by simp
        moreover have "\<not> (\<exists>k < length tab. mm_can_id (tab ! k) = cid)"
          using 3 0 order by (metis gr0I less_asym)
        ultimately show ?thesis
          using True 3 0 mid len canid_wrapped [OF len(1)]
          unfolding canid_loop_step [OF ab] mid_def [symmetric] by (auto simp: canid_result_def)
      next
        case (Suc n)
        have "canid_result tab cid (canid_loop tab cid (of_nat a) (of_nat n))"
        proof (rule less.hyps)
          show "cid < mm_can_id (tab ! k)" if "n < k" "k < length tab" for k
            using that 3 Suc order [of mid k] by (metis Suc_lessI less_trans)
        qed (use mid less.prems Suc in auto)
        moreover have "(of_nat mid - 1 :: u8) = of_nat n" using Suc by simp
        moreover have "mm_can_id (tab ! mid) \<noteq> cid" "\<not> mm_can_id (tab ! mid) < cid" using 3 by auto
        ultimately show ?thesis
          using True mid unfolding canid_loop_step [OF ab] mid_def [symmetric] by simp
      qed
    qed
  qed
qed

lemma motor_get_by_canid_result:
  assumes "sorted_wrt (<) (map mm_can_id tab)" and "0 < length tab" and "length tab \<le> 127"
  shows "canid_result tab cid (motor_get_by_canid tab cid)"
proof -
  have e: "(of_nat (length tab) - 1 :: u8) = of_nat (length tab - 1)"
    using assms(2) by (cases "length tab") auto
  have "canid_result tab cid (canid_loop tab cid (of_nat 0) (of_nat (length tab - 1)))"
    by (rule canid_loop_result) (use assms in auto)
  then show ?thesis by (simp add: motor_get_by_canid_def e)
qed

text \<open>The table of the robot: motor \<open>k\<close> has id \<open>k\<close> and CAN id \<open>0x201 + k\<close>.\<close>

definition cfg_table :: "motor_measure_t list \<Rightarrow> bool" where
  "cfg_table tab \<longleftrightarrow> length tab = DJ_M_NUM \<and>
     (\<forall>k < DJ_M_NUM. mm_id (tab ! k) = of_nat k \<and> mm_can_id (tab ! k) = CAN_Motor1_ID + of_nat k)"

lemma less_4_cases: "k < (4::nat) \<Longrightarrow> k = 0 \<or> k = 1 \<or> k = 2 \<or> k = 3"
  by auto

lemma cfg_table_sorted:
  assumes "cfg_table tab"
  shows "sorted_wrt (<) (map mm_can_id tab)"
proof -
  have "mm_can_id (tab ! i) < mm_can_id (tab ! j)" if "i < j" "j < 4" for i j
    using that assms less_4_cases [of i] less_4_cases [of j]
    by (auto simp: cfg_table_def DJ_M_NUM_def CAN_Motor1_ID_def)
  then show ?thesis
    using assms by (simp add: sorted_wrt_iff_nth_less cfg_table_def DJ_M_NUM_def)
qed

lemma cfg_table_dj_table: "cfg_table dj_table"
proof -
  have "mm_id (dj_table ! k) = of_nat k \<and> mm_can_id (dj_table ! k) = CAN_Motor1_ID + of_nat k" if "k < 4" for k
    using less_4_cases [OF that] by (auto simp: dj_table_def DJ_MOTOR_MOTOR_ID_def CAN_Motor1_ID_def)
  then show ?thesis by (simp add: cfg_table_def DJ_M_NUM_def) (simp add: dj_table_def)
qed

lemma canid_configured:
  assumes tab: "cfg_table tab"
  shows "k < DJ_M_NUM \<Longrightarrow> motor_get_by_canid tab (CAN_Motor1_ID + of_nat k) = Some (Inr (Some k))"
    and "cid \<le> 0x200 \<Longrightarrow> motor_get_by_canid tab cid = Some (Inl OutOfBounds)"
    and "0x205 \<le> cid \<Longrightarrow> motor_get_by_canid tab cid = Some (Inr None)"
proof -
  have len: "length tab = 4" using tab by (simp add: cfg_table_def DJ_M_NUM_def)
  have nth: "mm_can_id (tab ! k) = 0x201 + of_nat k" if "k < 4" for k
    using tab that by (simp add: cfg_table_def DJ_M_NUM_def CAN_Motor1_ID_def)
  have val: "uint (mm_can_id (tab ! k)) = 0x201 + int k" if "k < 4" for k
    using less_4_cases [OF that] nth [OF that] by auto
  have res: "canid_result tab cid (motor_get_by_canid tab cid)" for cid
    by (rule motor_get_by_canid_result) (use cfg_table_sorted [OF tab] len in simp_all)
  show "motor_get_by_canid tab (CAN_Motor1_ID + of_nat k) = Some (Inr (Some k))" if k: "k < DJ_M_NUM"
    using canid_result_found [OF res cfg_table_sorted [OF tab], of k] nth [of k] k len
    by (simp add: DJ_M_NUM_def CAN_Motor1_ID_def)
  show "motor_get_by_canid tab cid = Some (Inl OutOfBounds)" if "cid \<le> 0x200"
  proof -
    have c: "uint cid \<le> 0x200" using that by (simp add: word_le_def)
    have "mm_can_id (tab ! j) \<noteq> cid" if "j < 4" for j using val [OF that] c by auto
    moreover have "cid < mm_can_id (tab ! 0)" using val [of 0] c by (simp add: word_less_def)
    ultimately show ?thesis using res [of cid] len by (auto simp: canid_result_def)
  qed
  show "motor_get_by_canid tab cid = Some (Inr None)" if "0x205 \<le> cid"
  proof -
    have c: "0x205 \<le> uint cid" using that by (simp add: word_le_def)
    have "mm_can_id (tab ! j) \<noteq> cid" if "j < 4" for j using val [OF that] c that by auto
    moreover have "\<not> cid < mm_can_id (tab ! 0)" using val [of 0] c by (simp add: word_less_def)
    ultimately show ?thesis using res [of cid] len by (auto simp: canid_result_def)
  qed
qed

subsection \<open>Following the angle over full turns\<close>

lemma i32_ok [simp]: "- (2 ^ 31) \<le> x \<Longrightarrow> x < 2 ^ 31 \<Longrightarrow> i32 x = Inr x"
  by (simp add: i32_def)

fun measure_run :: "u16 list \<Rightarrow> motor_measure_t \<Rightarrow> motor_measure_t res" where
  "measure_run [] m = Inr m"
| "measure_run (a # as) m = bind_res (dj_measure a m) (measure_run as)"

text \<open>
  The rotor's true position in steps of 1/8192 turn, an integer without bounds; the sensor
  reports it modulo one turn. Between two reports the rotor moves less than half a turn.
\<close>

definition sensor :: "int \<Rightarrow> u16" where
  "sensor p = word_of_int (p mod 8192)"

definition follows :: "int \<Rightarrow> int \<Rightarrow> motor_measure_t \<Rightarrow> bool" where
  "follows p0 p m \<longleftrightarrow> 50 \<le> msg_cnt m \<and> angle m = sensor p \<and> offset_angle m = sensor p0 \<and>
     round_cnt m = p div 8192 - p0 div 8192"

lemma uint_sensor: "uint (sensor p) = p mod 8192"
proof -
  have "0 \<le> p mod 8192" "p mod 8192 < 8192" by simp_all
  then show ?thesis by (simp add: sensor_def uint_word_of_int)
qed

lemma turn_count:
  assumes "\<bar>q - p\<bar> < 4096"
  shows "(if q mod 8192 - p mod 8192 > 4096 then p div 8192 - 1
          else if q mod 8192 - p mod 8192 < - 4096 then p div 8192 + 1 else p div 8192) = q div (8192::int)"
proof -
  have "q = q div 8192 * 8192 + q mod 8192" "p = p div 8192 * 8192 + p mod 8192"
    "0 \<le> q mod 8192" "q mod 8192 < 8192" "0 \<le> p mod 8192" "p mod 8192 < 8192" by simp_all
  with assms show ?thesis by (smt (verit))
qed

definition turns :: "int \<Rightarrow> int \<Rightarrow> int \<Rightarrow> int" where
  "turns a l r = (if a - l > 4096 then r - 1 else if a - l < - 4096 then r + 1 else r)"

lemma turns_bound: "\<bar>r\<bar> \<le> n \<Longrightarrow> \<bar>turns a l r\<bar> \<le> n + 1"
  by (auto simp: turns_def)

lemma uint_u16: "uint (x :: u16) < 65536"
  using uint_lt2p [of x] by simp

text \<open>A report after the calibration, as long as the driver has counted at most 262000 turns.\<close>

lemma dj_measure_step:
  assumes cnt: "50 \<le> msg_cnt m" and r: "\<bar>round_cnt m\<bar> \<le> 262000"
    and r': "r' = turns (uint new) (uint (angle m)) (round_cnt m)"
  shows "dj_measure new m = Inr (m\<lparr>last_angle := angle m, angle := new, round_cnt := r',
    msg_cnt := 0xff, total_angle := r' * 8191 + uint new - uint (offset_angle m)\<rparr>)"
proof -
  define a where "a = uint new"
  define l where "l = uint (angle m)"
  define f where "f = uint (offset_angle m)"
  have lim: "0 \<le> a" "a < 65536" "0 \<le> f" "f < 65536"
    by (simp_all add: a_def f_def uint_u16)
  have r2: "\<bar>r'\<bar> \<le> 262001" using turns_bound [OF r] by (simp add: r')
  then have ok: "i32 (r' * 8191) = Inr (r' * 8191)" "i32 (r' * 8191 + a) = Inr (r' * 8191 + a)"
    "i32 (r' * 8191 + a - f) = Inr (r' * 8191 + a - f)"
    using lim by (auto simp: i32_def abs_le_iff)
  have t: "(if a - l > 4096 then i32 (round_cnt m - 1) else if a - l < - 4096 then i32 (round_cnt m + 1)
      else Inr (round_cnt m)) = Inr r'"
    using r unfolding r' a_def [symmetric] l_def [symmetric] turns_def i32_def
    by (auto simp: abs_le_iff)
  have "\<not> msg_cnt m < 50" using cnt by (simp add: linorder_not_less)
  then show ?thesis
    unfolding dj_measure_def Let_def
    by (simp add: t ok flip: a_def l_def f_def cong: if_cong del: bind_res_eq_Inr split del: if_split)
qed

lemma dj_measure_follows:
  assumes m: "follows p0 p m" and step: "\<bar>q - p\<bar> < 4096" and near: "\<bar>p - p0\<bar> < 2 ^ 30"
  shows "\<exists>m'. dj_measure (sensor q) m = Inr m' \<and> follows p0 q m' \<and>
    total_angle m' = (q - p0) - round_cnt m'"
proof -
  let ?r = "q div 8192 - p0 div 8192"
  have cnt: "50 \<le> msg_cnt m" and f: "angle m = sensor p" "offset_angle m = sensor p0"
    "round_cnt m = p div 8192 - p0 div 8192" using m by (simp_all add: follows_def)
  have near': "p - p0 < 1073741824" "- 1073741824 < p - p0" using near by simp_all
  have "\<bar>p div 8192 - p0 div 8192\<bar> \<le> 131073"
  proof -
    have "p div 8192 * 8192 + p mod 8192 = p" "p0 div 8192 * 8192 + p0 mod 8192 = p0"
      "0 \<le> p mod 8192" "p mod 8192 < 8192" "0 \<le> p0 mod 8192" "p0 mod 8192 < 8192" by simp_all
    with near' show ?thesis by linarith
  qed
  then have r: "\<bar>round_cnt m\<bar> \<le> 262000" using f by simp
  have t: "turns (uint (sensor q)) (uint (angle m)) (round_cnt m) = ?r"
    using turn_count [OF step] by (auto simp: turns_def f uint_sensor split: if_splits)
  have total: "?r * 8191 + q mod 8192 - p0 mod 8192 = (q - p0) - ?r"
  proof -
    have "q div 8192 * 8192 + q mod 8192 = q" "p0 div 8192 * 8192 + p0 mod 8192 = p0" by simp_all
    then show ?thesis by (simp add: algebra_simps)
  qed
  show ?thesis
    unfolding dj_measure_step [OF cnt r refl] t
    using f total by (simp add: follows_def uint_sensor)
qed

lemma measure_run_follows:
  assumes "follows p0 p m" and "ps \<noteq> []"
    and "list_all (\<lambda>q. \<bar>q - p0\<bar> < 2 ^ 30) (p # ps)"
    and "list_all (\<lambda>(q, q'). \<bar>q' - q\<bar> < 4096) (zip (p # ps) ps)"
  shows "\<exists>m'. measure_run (map sensor ps) m = Inr m' \<and> follows p0 (last ps) m' \<and>
    total_angle m' = (last ps - p0) - round_cnt m'"
  using assms
proof (induction ps arbitrary: p m)
  case Nil
  then show ?case by simp
next
  case (Cons q ps)
  from Cons.prems have "\<bar>q - p\<bar> < 4096" "\<bar>p - p0\<bar> < 2 ^ 30" by auto
  from dj_measure_follows [OF Cons.prems(1) this] obtain m1 where m1: "dj_measure (sensor q) m = Inr m1"
    "follows p0 q m1" "total_angle m1 = (q - p0) - round_cnt m1" by auto
  show ?case
  proof (cases "ps = []")
    case True
    with m1 show ?thesis by simp
  next
    case False
    from Cons.IH [OF m1(2) False] Cons.prems(3,4) m1(1) False show ?thesis by auto
  qed
qed

subsection \<open>The frame of the four currents\<close>

lemma be16_iq:
  fixes q :: "16 word"
  shows "word_of_int (push_bit 8 (int (unat (word_of_int (drop_bit 8 (sint q)) :: u8)))
      OR int (unat (word_of_int (sint q) :: u8))) = q"
  by (rule bit_word_eqI)
    (auto simp: bit_simps bit_or_int_iff bit_push_bit_iff bit_word_of_int_iff bit_drop_bit_eq
      bit_sint_iff bit_unsigned_iff not_le less_diff_conv2)

lemma be16_iq_bytes:
  assumes "length iq = 4" and "k < 4"
  shows "be16 (iq_bytes iq) (2 * k) = iq ! k"
  using less_4_cases [OF assms(2)] be16_iq [of "iq ! k"]
  by (elim disjE) (simp_all add: be16_def iq_bytes_def)

lemma length_iq_bytes [simp]: "length (iq_bytes iq) = 8"
  by (simp add: iq_bytes_def)

subsection \<open>Properties\<close>

text \<open>
  C25: \<open>motor_get_by_canid\<close> on any table of 1 to 127 motors sorted by CAN id always ends: it
  finds every motor of the table; it returns null for an id that is missing and larger than
  the first one; and for an id smaller than the first one its upper bound wraps from 0 to 255
  and it reads behind the table.
\<close>

theorem motor_get_by_canid_correct:
  assumes "sorted_wrt (<) (map mm_can_id tab)" and "0 < length tab" and "length tab \<le> 127"
  shows "(k < length tab \<longrightarrow> motor_get_by_canid tab (mm_can_id (tab ! k)) = Some (Inr (Some k))) \<and>
    (cid \<notin> mm_can_id ` set tab \<longrightarrow>
       motor_get_by_canid tab cid =
         Some (if cid < mm_can_id (tab ! 0) then Inl OutOfBounds else Inr None))"
proof (intro conjI impI)
  note res = motor_get_by_canid_result [OF assms]
  show "motor_get_by_canid tab (mm_can_id (tab ! k)) = Some (Inr (Some k))" if k: "k < length tab"
    by (rule canid_result_found [OF res assms(1) k])
  show "motor_get_by_canid tab cid = Some (if cid < mm_can_id (tab ! 0) then Inl OutOfBounds else Inr None)"
    if "cid \<notin> mm_can_id ` set tab"
  proof -
    have "\<not> (\<exists>k < length tab. mm_can_id (tab ! k) = cid)" using that nth_mem by blast
    then show ?thesis using res [of cid] by (auto simp: canid_result_def)
  qed
qed

theorem motor_get_by_canid_correct_witness:
  "motor_get_by_canid dj_table 0x203 = Some (Inr (Some 2)) \<and>
   motor_get_by_canid dj_table 0x209 = Some (Inr None) \<and>
   motor_get_by_canid dj_table 0x200 = Some (Inl OutOfBounds)"
proof -
  have t: "sorted_wrt (<) (map mm_can_id dj_table)" "0 < length dj_table" "length dj_table \<le> 127"
    by (simp_all add: dj_table_def DJ_MOTOR_MOTOR_ID_def)
  show ?thesis
    using motor_get_by_canid_correct [OF t, of 2 "0x209"] motor_get_by_canid_correct [OF t, of 2 "0x200"]
    by (simp add: dj_table_def DJ_MOTOR_MOTOR_ID_def)
qed



end
