(* ===== verification/DjLoop.thy ===== *)
theory DjLoop
  imports DjMotor
begin

section \<open>The motor driver at work\<close>

text \<open>
  The driver of theory DjMotor together with the motor layer and the ring buffer: the
  invariant that start-up establishes (\<open>wired\<close> for the motors, \<open>dj_ok\<close> for the driver's own
  state), what one report, one turn of the thread and one command do, and runs of these
  events in any order. Interrupts are taken between the steps of the thread.
\<close>

subsection \<open>The motors as the driver sets them up\<close>

text \<open>
  What start-up establishes and every later step keeps: motor \<open>j\<close> is driven through the
  torque cascade by its own two controllers, its speed controller is limited to 30000 and its
  position controller to 65, it is fed by the interrupt handler, and the currents it holds
  respect the limit. The time counter is a \<open>float\<close> that stops growing at \<open>2^24\<close>.
\<close>

definition pid_limit :: "nat \<Rightarrow> real" where
  "pid_limit a = (if even a then 30000 else 65)"

definition motor_wired :: "nat \<Rightarrow> motor_t \<Rightarrow> bool" where
  "motor_wired j m \<longleftrightarrow> ops m = Some j \<and> behaver m = Some Behiver_2 \<and>
     flag_out_mode m = MOTOR_CONTROL_SUPPORT_TORQUE \<and> flag_passive_feedback m \<and>
     pid_speed m = Some (2 * j) \<and> pid_pos m = Some (2 * j + 1) \<and>
     \<bar>acc_out m\<bar> \<le> 30000 \<and> \<bar>tar_torque m\<bar> \<le> 30000 \<and> 0 \<le> mtime m \<and> mtime m \<le> 2 ^ 24"

definition wired :: "'w motors \<Rightarrow> bool" where
  "wired st \<longleftrightarrow> motors_ok st \<and> (\<forall>j < 4. motor_wired j (motor_list st ! j)) \<and>
     (\<forall>a < 8. \<exists>p. apids st a = Some p \<and> pid_ready p \<and> out_limit (parameter p) = pid_limit a)"

lemma MOTOR_NUM_4 [simp]: "nat MOTOR_NUM = 4" "int j < MOTOR_NUM \<longleftrightarrow> j < 4"
  by (auto simp: MOTOR_NUM_def)

lemma wired_ok: "wired st \<Longrightarrow> motors_ok st"
  by (simp add: wired_def)

lemma wired_motor: "wired st \<Longrightarrow> j < 4 \<Longrightarrow> motor_wired j (motor_list st ! j)"
  by (simp add: wired_def)

lemma wired_drive: "wired st \<Longrightarrow> j < 4 \<Longrightarrow> drive_ok st j"
proof -
  assume w: "wired st" and j: "j < 4"
  have "2 * j < 8" "2 * j + 1 < 8" using j by auto
  with w obtain p q where "apids st (2 * j) = Some p" "pid_ready p" "apids st (2 * j + 1) = Some q" "pid_ready q"
    unfolding wired_def by metis
  with wired_motor [OF w j] wired_ok [OF w] j show ?thesis
    by (simp add: drive_ok_def motor_wired_def pid_at_def)
qed

lemma wired_put:
  assumes "wired st" and "j < 4" and "\<And>m. motor_wired j m \<Longrightarrow> motor_wired j (f m)"
  shows "wired (put_motor st j f)"
  using assms by (auto simp: wired_def nth_put_motor)

lemma wired_apid:
  assumes "wired st" and "pid_ready p" and "out_limit (parameter p) = pid_limit a"
  shows "wired (st\<lparr>apids := (apids st)(a \<mapsto> p)\<rparr>)"
  using assms by (auto simp: wired_def motors_ok_def)

lemma wired_world [simp]: "wired (st\<lparr>mworld := d\<rparr>) = wired st"
  by (simp add: wired_def motors_ok_def)

lemma wired_stage:
  assumes "wired st" and "a < 8" and "c \<noteq> 0"
  obtains p' where "stage fl st (Some a) t m c = Inr (APID_Get_Out p', st\<lparr>apids := (apids st)(a \<mapsto> p')\<rparr>)"
    "pid_ready p'" "out_limit (parameter p') = pid_limit a" "\<bar>APID_Get_Out p'\<bar> \<le> pid_limit a"
proof -
  from assms obtain p where p: "apids st a = Some p" "pid_ready p" "out_limit (parameter p) = pid_limit a"
    unfolding wired_def by metis
  obtain p' where p': "APID_Hander fl (APID_Set_Present (APID_Set_Target p t) m) c = Inr p'" "pid_ready p'"
    "out_limit (parameter p') = out_limit (parameter (APID_Set_Present (APID_Set_Target p t) m))"
    "\<bar>APID_Get_Out p'\<bar> \<le> out_limit (parameter (APID_Set_Present (APID_Set_Target p t) m))"
    by (rule pid_ready_step [where p = "APID_Set_Present (APID_Set_Target p t) m" and c = c and fl = fl])
      (use p assms(3) in simp_all)
  show thesis
    by (rule that [of p']) (use p p' in \<open>simp_all add: stage_def\<close>)
qed

lemma wired_pos_stage:
  assumes w: "wired st" and j: "j < 4" and c: "c \<noteq> 0"
  obtains st' where "pos_stage fl st j c = Inr st'" "wired st'" "mworld st' = mworld st"
    "\<forall>a. a \<noteq> 2 * j + 1 \<longrightarrow> apids st' a = apids st a"
    "flag_run_mode (motor_list st' ! j) = flag_run_mode (motor_list st ! j)"
proof -
  let ?m = "motor_list st ! j"
  have m: "pid_pos ?m = Some (2 * j + 1)" using wired_motor [OF w j] by (simp add: motor_wired_def)
  have "2 * j + 1 < 8" using j by simp
  obtain p where p: "stage fl st (Some (2 * j + 1)) (tar_pos ?m) (cur_pos ?m) c =
      Inr (APID_Get_Out p, st\<lparr>apids := (apids st)(2 * j + 1 \<mapsto> p)\<rparr>)"
    "pid_ready p" "out_limit (parameter p) = pid_limit (2 * j + 1)"
    by (rule wired_stage [OF w \<open>2 * j + 1 < 8\<close> c])
  let ?st = "st\<lparr>apids := (apids st)(2 * j + 1 \<mapsto> p)\<rparr>"
  let ?f = "\<lambda>m. m\<lparr>tar_speed := APID_Get_Out p\<rparr>"
  have w1: "wired ?st" by (rule wired_apid [OF w p(2,3)])
  have "pos_stage fl st j c = Inr (put_motor ?st j ?f)"
    using p(1) m by (simp add: pos_stage_def Let_def del: bind_res_eq_Inr)
  moreover have "wired (put_motor ?st j ?f)"
    by (rule wired_put [OF w1 j]) (simp add: motor_wired_def)
  moreover have "flag_run_mode (motor_list (put_motor ?st j ?f) ! j) = flag_run_mode ?m"
    using wired_ok [OF w1] j by (simp add: nth_put_motor)
  ultimately show thesis by (intro that [of "put_motor ?st j ?f"]) simp_all
qed

lemma wired_speed_stage:
  assumes w: "wired st" and j: "j < 4" and c: "c \<noteq> 0"
  obtains st' where "speed_stage fl st j c = Inr st'" "wired st'" "mworld st' = mworld st"
    "\<forall>a. a \<noteq> 2 * j \<longrightarrow> apids st' a = apids st a"
proof -
  let ?m = "motor_list st ! j"
  have m: "pid_speed ?m = Some (2 * j)" using wired_motor [OF w j] by (simp add: motor_wired_def)
  have "2 * j < 8" using j by simp
  obtain p where p: "stage fl st (Some (2 * j)) (tar_speed ?m) (cur_speed ?m) c =
      Inr (APID_Get_Out p, st\<lparr>apids := (apids st)(2 * j \<mapsto> p)\<rparr>)"
    "pid_ready p" "out_limit (parameter p) = pid_limit (2 * j)" "\<bar>APID_Get_Out p\<bar> \<le> pid_limit (2 * j)"
    by (rule wired_stage [OF w \<open>2 * j < 8\<close> c])
  let ?st = "st\<lparr>apids := (apids st)(2 * j \<mapsto> p)\<rparr>"
  let ?f = "\<lambda>m. m\<lparr>tar_torque := APID_Get_Out p\<rparr>"
  have w1: "wired ?st" by (rule wired_apid [OF w p(2,3)])
  have "speed_stage fl st j c = Inr (put_motor ?st j ?f)"
    using p(1) m by (simp add: speed_stage_def Let_def del: bind_res_eq_Inr)
  moreover have "wired (put_motor ?st j ?f)"
    by (rule wired_put [OF w1 j]) (use p(4) in \<open>simp add: motor_wired_def pid_limit_def\<close>)
  ultimately show thesis by (intro that [of "put_motor ?st j ?f"]) simp_all
qed

lemma wired_behiver_2:
  assumes w: "wired st" and j: "j < 4" and c: "c \<noteq> 0"
  obtains st' where "motor_behiver_2 fl st (int j) mode c = Inr st'" "wired st'" "mworld st' = mworld st"
    "\<forall>a. a div 2 \<noteq> j \<longrightarrow> apids st' a = apids st a"
proof -
  have ok: "motors_ok st" by (rule wired_ok [OF w])
  obtain st1 where st1: "(if mode = MOTOR_MODE_POS then pos_stage fl st j c else Inr st) = Inr st1"
    "wired st1" "mworld st1 = mworld st" "\<forall>a. a \<noteq> 2 * j + 1 \<longrightarrow> apids st1 a = apids st a"
  proof (cases "mode = MOTOR_MODE_POS")
    case True
    obtain s where "pos_stage fl st j c = Inr s" "wired s" "mworld s = mworld st"
      "\<forall>a. a \<noteq> 2 * j + 1 \<longrightarrow> apids s a = apids st a"
      by (rule wired_pos_stage [OF w j c])
    with True that show thesis by simp
  qed (use w that in simp)
  obtain st2 where st2: "(if mode \<in> {MOTOR_MODE_POS, MOTOR_MODE_SPEED} then speed_stage fl st1 j c
      else Inr st1) = Inr st2" "wired st2" "mworld st2 = mworld st"
    "\<forall>a. a \<noteq> 2 * j \<longrightarrow> apids st2 a = apids st1 a"
  proof (cases "mode \<in> {MOTOR_MODE_POS, MOTOR_MODE_SPEED}")
    case True
    obtain s where "speed_stage fl st1 j c = Inr s" "wired s" "mworld s = mworld st1"
      "\<forall>a. a \<noteq> 2 * j \<longrightarrow> apids s a = apids st1 a"
      by (rule wired_speed_stage [OF st1(2) j c])
    with True that st1(3) show thesis by (auto split: if_splits)
  qed (use st1(2,3) that in simp)
  let ?f = "\<lambda>m. m\<lparr>acc_out := tar_torque m\<rparr>"
  define st3 where "st3 = (if mode \<in> {MOTOR_MODE_POS, MOTOR_MODE_SPEED, MOTOR_MODE_TORQUE}
      then put_motor st2 j ?f else st2)"
  have "wired (put_motor st2 j ?f)"
    by (rule wired_put [OF st2(2) j]) (simp add: motor_wired_def)
  then have "wired st3" "mworld st3 = mworld st" using st2 by (simp_all add: st3_def)
  moreover have "\<forall>a. a div 2 \<noteq> j \<longrightarrow> apids st3 a = apids st a"
    using st1(4) st2(4) by (auto simp: st3_def)
  moreover have "motor_behiver_2 fl st (int j) mode c = Inr st3"
  proof -
    have at: "at_motor NullDeref st (int j) f = f j (motor_list st ! j)" for f :: "nat \<Rightarrow> motor_t \<Rightarrow> 'a motors res"
      using ok j by simp
    show ?thesis unfolding motor_behiver_2_def at st1(1) bind_res_Inr st2(1) st3_def by simp
  qed
  ultimately show thesis by (intro that)
qed

text \<open>
  What single precision does at the end of its range of consecutive integers; this is the
  only fact about the rounding that the driver's safety rests on.
\<close>

definition single_time :: "rounding \<Rightarrow> bool" where
  "single_time fl \<longleftrightarrow> mono fl \<and> fl 0 = 0 \<and> fl (2 ^ 24) = 2 ^ 24 \<and> fl (2 ^ 24 + 1) = 2 ^ 24"

lemma time_add_single:
  assumes fl: "single_time fl" and t: "0 \<le> t" "t \<le> 2 ^ 24"
  obtains t' where "time_add fl t 1 = Inr t'" "0 \<le> t'" "t' \<le> 2 ^ 24"
proof -
  have m: "fl x \<le> fl y" if "x \<le> y" for x y
    using fl that by (simp add: single_time_def mono_def)
  have "real_of_int t \<le> 2 ^ 24" using t(2) by (metis of_int_le_iff of_int_numeral of_int_power)
  then have "0 \<le> fl (of_int t)" "fl (of_int t) \<le> 2 ^ 24"
    using m [of 0 "of_int t"] m [of "of_int t" "2 ^ 24"] t(1) fl by (simp_all add: single_time_def)
  then have "0 \<le> fl (fl (of_int t) + 1)" "fl (fl (of_int t) + 1) \<le> 2 ^ 24"
    using m [of 0 "fl (of_int t) + 1"] m [of "fl (of_int t) + 1" "2 ^ 24 + 1"] fl
    by (simp_all add: single_time_def)
  moreover define x where "x = fl (fl (of_int t) + 1)"
  ultimately have x: "0 \<le> x" "x \<le> 2 ^ 24" by simp_all
  have f: "0 \<le> \<lfloor>x\<rfloor>" "\<lfloor>x\<rfloor> \<le> 2 ^ 24" using x by (auto simp: floor_le_iff)
  then have "time_add fl t 1 = Inr \<lfloor>x\<rfloor>"
    using x unfolding time_add_def x_def [symmetric] Let_def by simp
  with f show thesis using that by blast
qed

subsection \<open>The invariant of the driver\<close>

definition frame_ok :: "rt_can_msg \<Rightarrow> bool" where
  "frame_ok msg \<longleftrightarrow> msg_id msg = CAN_Motor_ALL_ID \<and> \<not> msg_ide msg \<and> \<not> msg_rtr msg \<and> msg_len msg = 8 \<and>
     length (msg_data msg) = 8 \<and> (\<forall>k < 4. \<bar>sint (be16 (msg_data msg) (2 * k))\<bar> \<le> 30000)"

definition pending :: "'d dj \<Rightarrow> u8 list" where
  "pending d = (case dj_m_ringfifo d of None \<Rightarrow> [] | Some rb \<Rightarrow> ring_data rb)"

definition dj_ok :: "int \<Rightarrow> 'd dj \<Rightarrow> bool" where
  "dj_ok n d \<longleftrightarrow> cfg_table (dj_motors d) \<and> (\<forall>k < 4. \<bar>round_cnt (dj_motors d ! k)\<bar> \<le> n) \<and>
     length (iq1_low d) = 4 \<and> (\<forall>k < 4. \<bar>sint (iq1_low d ! k)\<bar> \<le> 30000) \<and>
     0 \<le> timeout_counter d \<and> timeout_counter d \<le> n \<and>
     (\<exists>rb. dj_m_ringfifo d = Some rb \<and> ring_inv rb \<and> buffer_size rb = 4096) \<and>
     list_all (\<lambda>c. unat c < 4) (pending d)"

definition dj_inv :: "int \<Rightarrow> 'd dj motors \<Rightarrow> bool" where
  "dj_inv n st \<longleftrightarrow> wired st \<and> dj_ok n (mworld st)"

lemma to_int16_ok:
  assumes "\<bar>v\<bar> \<le> 30000"
  obtains q where "to_int16 v = Inr q" "\<bar>sint q\<bar> \<le> 30000"
    "sint q = (if v \<ge> 0 then \<lfloor>v\<rfloor> else \<lceil>v\<rceil>)"
proof -
  define n where "n = (if v \<ge> 0 then \<lfloor>v\<rfloor> else \<lceil>v\<rceil>)"
  have "- 30000 \<le> v" "v \<le> 30000" using assms by auto
  then have n: "- 30000 \<le> n" "n \<le> 30000"
    by (auto simp: n_def le_floor_iff floor_le_iff ceiling_le_iff le_ceiling_iff)
  then have s: "sint (word_of_int n :: 16 word) = n"
    by (simp add: signed_take_bit_int_eq_self sint_sbintrunc')
  have "to_int16 v = Inr (word_of_int n)"
    using n by (simp add: to_int16_def Let_def flip: n_def)
  moreover have "\<bar>sint (word_of_int n :: 16 word)\<bar> \<le> 30000" using s n by simp
  ultimately show thesis using s by (intro that [of "word_of_int n"]) (simp_all add: n_def)
qed

lemma send_current_cases:
  assumes ok: "dj_ok n d" and k: "k < 4" and q: "\<bar>sint q\<bar> \<le> 30000"
  defines "frame \<equiv> zero_msg\<lparr>msg_len := 8, msg_id := CAN_Motor_ALL_ID, msg_data := iq_bytes ((iq1_low d)[k := q])\<rparr>"
  shows "\<exists>d'. send_current wr (CAN_Motor1_ID + of_nat k) q d = Inr d' \<and> dj_ok n d' \<and>
     pending d' = pending d \<and> rx_i d' = rx_i d \<and>
     (can_dev d' = can_dev d \<or> can_dev d' = snd (wr frame (can_dev d))) \<and>
     (list_all (\<lambda>m. msg_cnt m = 0xff) (dj_motors d) \<longrightarrow>
        can_dev d' = snd (wr frame (can_dev d)) \<and> iq1_low d' = (iq1_low d)[k := q] \<and>
        (fst (wr frame (can_dev d)) = sizeof_msg \<longrightarrow> dj_motors d' = dj_motors d))"
proof -
  have tt: "unat (word_of_int ((int (unat (CAN_Motor1_ID + of_nat k)) - int (unat CAN_Motor1_ID)) smod 4) :: u16) = k"
    using less_4_cases [OF k] by (elim disjE) (simp_all add: CAN_Motor1_ID_def signed_modulo_int_def)
  have sel: "int (unat (msg_id (zero_msg\<lparr>msg_len := 8\<rparr>))) - int (unat CAN_Motor1_ID) = - 513"
    by (simp add: zero_msg_def CAN_Motor1_ID_def)
  have len: "length (iq1_low d) = 4" "length (dj_motors d) = 4"
    using ok by (simp_all add: dj_ok_def cfg_table_def DJ_M_NUM_def)
  have all: "list_all (\<lambda>k. msg_cnt (dj_motors d ! k) = 0xff) [0..<DJ_M_NUM] =
      list_all (\<lambda>m. msg_cnt m = 0xff) (dj_motors d)"
    by (simp add: list_all_length DJ_M_NUM_def len)
  obtain w dev where wr: "wr frame (can_dev d) = (w, dev)" by (cases "wr frame (can_dev d)")
  define d1 where "d1 = d\<lparr>iq1_low := (iq1_low d)[k := q], can_dev := dev\<rparr>"
  define d2 where "d2 = (if w \<noteq> sizeof_msg
      then d1\<lparr>dj_motors := map (\<lambda>m. m\<lparr>msg_cnt := 50\<rparr>) (dj_motors d1)\<rparr> else d1)"
  have d1: "dj_ok n d1"
    using ok k q len by (auto simp: dj_ok_def d1_def pending_def nth_list_update)
  have "cfg_table (map (\<lambda>m. m\<lparr>msg_cnt := 50\<rparr>) (dj_motors d1))"
    using ok by (auto simp: cfg_table_def dj_ok_def d1_def)
  then have d2: "dj_ok n d2"
    using d1 len by (auto simp: dj_ok_def d2_def pending_def d1_def)
  show ?thesis
  proof (cases "list_all (\<lambda>m. msg_cnt m = 0xff) (dj_motors d)")
    case True
    have "send_current wr (CAN_Motor1_ID + of_nat k) q d = Inr d2"
      using True k len wr unfolding send_current_def tt sel all Let_def
      by (simp add: d2_def d1_def frame_def)
    moreover have "pending d2 = pending d" "rx_i d2 = rx_i d" "can_dev d2 = dev" "iq1_low d2 = (iq1_low d)[k := q]"
      "w = sizeof_msg \<longrightarrow> dj_motors d2 = dj_motors d"
      by (simp_all add: d2_def d1_def pending_def)
    ultimately show ?thesis using d2 wr by auto
  next
    case False
    then have "send_current wr (CAN_Motor1_ID + of_nat k) q d = Inr d"
      unfolding send_current_def tt sel all Let_def by simp
    with False ok show ?thesis by auto
  qed
qed

lemma frame_of_currents:
  assumes "length iq = 4" and "\<forall>k < 4. \<bar>sint (iq ! k)\<bar> \<le> 30000"
  shows "frame_ok (zero_msg\<lparr>msg_len := 8, msg_id := CAN_Motor_ALL_ID, msg_data := iq_bytes iq\<rparr>)"
  using assms by (simp add: frame_ok_def zero_msg_def be16_iq_bytes)

lemma dj_ok_mono: "dj_ok n d \<Longrightarrow> n \<le> n' \<Longrightarrow> dj_ok n' d"
  by (fastforce simp: dj_ok_def)

lemma dj_ok_entry:
  "dj_ok n d \<Longrightarrow> k < 4 \<Longrightarrow> k < length (dj_motors d) \<and> mm_can_id (dj_motors d ! k) = CAN_Motor1_ID + of_nat k
     \<and> mm_id (dj_motors d ! k) = of_nat k \<and> \<bar>round_cnt (dj_motors d ! k)\<bar> \<le> n"
  by (simp add: dj_ok_def cfg_table_def DJ_M_NUM_def)

text \<open>The driver function on a motor whose command respects the limit.\<close>

lemma dj_driver_sends:
  assumes inv: "dj_inv n st" and k: "k < 4" and v: "\<bar>v\<bar> \<le> 30000"
  shows "\<exists>d q. motor_dj_driver wr p (int k) MOTOR_MODE_TORQUE v st = Inr (v, st\<lparr>mworld := d\<rparr>) \<and>
    sint q = (if v \<ge> 0 then \<lfloor>v\<rfloor> else \<lceil>v\<rceil>) \<and> dj_ok n d \<and> pending d = pending (mworld st) \<and>
    rx_i d = rx_i (mworld st) \<and>
    (let frame = zero_msg\<lparr>msg_len := 8, msg_id := CAN_Motor_ALL_ID,
           msg_data := iq_bytes ((iq1_low (mworld st))[k := q])\<rparr> in
     frame_ok frame \<and>
     (can_dev d = can_dev (mworld st) \<or> can_dev d = snd (wr frame (can_dev (mworld st)))) \<and>
     (list_all (\<lambda>m. msg_cnt m = 0xff) (dj_motors (mworld st)) \<longrightarrow>
        can_dev d = snd (wr frame (can_dev (mworld st))) \<and> iq1_low d = (iq1_low (mworld st))[k := q] \<and>
        (fst (wr frame (can_dev (mworld st))) = sizeof_msg \<longrightarrow> dj_motors d = dj_motors (mworld st))))"
proof -
  have w: "wired st" and ok: "dj_ok n (mworld st)" using inv by (simp_all add: dj_inv_def)
  obtain q where q: "to_int16 v = Inr q" "\<bar>sint q\<bar> \<le> 30000" "sint q = (if v \<ge> 0 then \<lfloor>v\<rfloor> else \<lceil>v\<rceil>)"
    by (rule to_int16_ok [OF v])
  from send_current_cases [OF ok k q(2), of wr] obtain d where d:
    "send_current wr (CAN_Motor1_ID + of_nat k) q (mworld st) = Inr d" "dj_ok n d" "pending d = pending (mworld st)"
    "rx_i d = rx_i (mworld st)"
    and dev: "let frame = zero_msg\<lparr>msg_len := 8, msg_id := CAN_Motor_ALL_ID,
           msg_data := iq_bytes ((iq1_low (mworld st))[k := q])\<rparr> in
     (can_dev d = can_dev (mworld st) \<or> can_dev d = snd (wr frame (can_dev (mworld st)))) \<and>
     (list_all (\<lambda>m. msg_cnt m = 0xff) (dj_motors (mworld st)) \<longrightarrow>
        can_dev d = snd (wr frame (can_dev (mworld st))) \<and> iq1_low d = (iq1_low (mworld st))[k := q] \<and>
        (fst (wr frame (can_dev (mworld st))) = sizeof_msg \<longrightarrow> dj_motors d = dj_motors (mworld st)))"
    by (auto simp: Let_def)
  have "frame_ok (zero_msg\<lparr>msg_len := 8, msg_id := CAN_Motor_ALL_ID,
      msg_data := iq_bytes ((iq1_low (mworld st))[k := q])\<rparr>)"
    by (rule frame_of_currents) (use ok k q(2) in \<open>auto simp: dj_ok_def nth_list_update\<close>)
  moreover have "motor_dj_driver wr p (int k) MOTOR_MODE_TORQUE v st = Inr (v, st\<lparr>mworld := d\<rparr>)"
    using wired_ok [OF w] wired_motor [OF w k] k q(1) d(1) dj_ok_entry [OF ok k]
    by (simp add: motor_dj_driver_def motor_wired_def)
  ultimately show ?thesis
    using d q(3) dev by (intro exI [of _ d] exI [of _ q]) (simp add: Let_def)
qed

text \<open>The whole handler of one motor.\<close>

lemma dj_handle:
  assumes fl: "single_time fl" and inv: "dj_inv n st" and k: "k < 4"
  shows "\<exists>st' st4 q t. motor_handle motor_dj_ctr (motor_dj_driver wr) fl st (int k) 1 = Inr st' \<and>
    dj_inv n st' \<and> pending (mworld st') = pending (mworld st) \<and> rx_i (mworld st') = rx_i (mworld st) \<and>
    cascade_result fl (put_motor st k (\<lambda>m. m\<lparr>mtime := t, flag_is_stop := False\<rparr>)) k 1 st4 \<and>
    (let v = acc_out (motor_list st4 ! k);
         frame = zero_msg\<lparr>msg_len := 8, msg_id := CAN_Motor_ALL_ID,
           msg_data := iq_bytes ((iq1_low (mworld st))[k := q])\<rparr> in
     \<bar>v\<bar> \<le> 30000 \<and> sint q = (if v \<ge> 0 then \<lfloor>v\<rfloor> else \<lceil>v\<rceil>) \<and> frame_ok frame \<and>
     (can_dev (mworld st') = can_dev (mworld st) \<or>
        can_dev (mworld st') = snd (wr frame (can_dev (mworld st)))) \<and>
     (list_all (\<lambda>m. msg_cnt m = 0xff) (dj_motors (mworld st)) \<longrightarrow>
        can_dev (mworld st') = snd (wr frame (can_dev (mworld st))) \<and>
        iq1_low (mworld st') = (iq1_low (mworld st))[k := q] \<and>
        (fst (wr frame (can_dev (mworld st))) = sizeof_msg \<longrightarrow> dj_motors (mworld st') = dj_motors (mworld st)))) \<and>
    (\<forall>i. i \<noteq> k \<longrightarrow> motor_list st' ! i = motor_list st ! i) \<and>
    (\<forall>a. a div 2 \<noteq> k \<longrightarrow> apids st' a = apids st a)"
proof -
  have w: "wired st" and ok: "dj_ok n (mworld st)" using inv by (simp_all add: dj_inv_def)
  let ?m = "motor_list st ! k"
  have m: "motor_wired k ?m" by (rule wired_motor [OF w k])
  obtain t where t: "time_add fl (mtime ?m) 1 = Inr t" "0 \<le> t" "t \<le> 2 ^ 24"
    by (rule time_add_single [OF fl, of "mtime ?m"]) (use m in \<open>simp_all add: motor_wired_def\<close>)
  let ?st = "put_motor st k (\<lambda>m. m\<lparr>mtime := t, flag_is_stop := False\<rparr>)"
  have w1: "wired ?st" by (rule wired_put [OF w k]) (use t in \<open>simp add: motor_wired_def\<close>)
  have run: "flag_run_mode (motor_list ?st ! k) = flag_run_mode ?m"
    using wired_ok [OF w] k by (simp add: nth_put_motor)
  obtain st4 where st4:
    "motor_behiver_2 fl ?st (int k) (ucast (flag_run_mode (motor_list ?st ! k))) 1 = Inr st4"
    "cascade_result fl ?st k 1 st4"
    by (rule behiver_2_cascade [OF wired_drive [OF w1 k], where c = 1 and fl = fl]) simp
  obtain st4' where "motor_behiver_2 fl ?st (int k) (ucast (flag_run_mode (motor_list ?st ! k))) 1 = Inr st4'"
    "wired st4'" "mworld st4' = mworld ?st" "\<forall>a. a div 2 \<noteq> k \<longrightarrow> apids st4' a = apids ?st a"
    by (rule wired_behiver_2 [OF w1 k, where c = 1 and fl = fl]) simp
  with st4(1) have w4: "wired st4" "mworld st4 = mworld st" "\<forall>a. a div 2 \<noteq> k \<longrightarrow> apids st4 a = apids st a"
    by simp_all
  have others: "motor_list st4 ! i = motor_list st ! i" if "i \<noteq> k" for i
    using st4(2) that by (simp add: cascade_result_def Let_def put_motor_def)
  let ?v = "acc_out (motor_list st4 ! k)"
  have m4: "motor_wired k (motor_list st4 ! k)" by (rule wired_motor [OF w4(1) k])
  then have v: "\<bar>?v\<bar> \<le> 30000" by (simp add: motor_wired_def)
  have inv4: "dj_inv n st4" using w4 ok by (simp add: dj_inv_def)
  from dj_driver_sends [OF inv4 k v, of wr k] obtain d q where d:
    "motor_dj_driver wr k (int k) MOTOR_MODE_TORQUE ?v st4 = Inr (?v, st4\<lparr>mworld := d\<rparr>)"
    and facts: "sint q = (if ?v \<ge> 0 then \<lfloor>?v\<rfloor> else \<lceil>?v\<rceil>)" "dj_ok n d" "pending d = pending (mworld st)"
    "rx_i d = rx_i (mworld st)"
    "let frame = zero_msg\<lparr>msg_len := 8, msg_id := CAN_Motor_ALL_ID,
           msg_data := iq_bytes ((iq1_low (mworld st))[k := q])\<rparr> in
     frame_ok frame \<and>
     (can_dev d = can_dev (mworld st) \<or> can_dev d = snd (wr frame (can_dev (mworld st)))) \<and>
     (list_all (\<lambda>m. msg_cnt m = 0xff) (dj_motors (mworld st)) \<longrightarrow>
        can_dev d = snd (wr frame (can_dev (mworld st))) \<and> iq1_low d = (iq1_low (mworld st))[k := q] \<and>
        (fst (wr frame (can_dev (mworld st))) = sizeof_msg \<longrightarrow> dj_motors d = dj_motors (mworld st)))"
    unfolding w4(2) by metis
  let ?st' = "put_motor (st4\<lparr>mworld := d\<rparr>) k (\<lambda>m. m\<lparr>acc_out := ?v\<rparr>)"
  have "motor_handle motor_dj_ctr (motor_dj_driver wr) fl st (int k) 1 = Inr ?st'"
    using motor_handle_passive [OF wired_drive [OF w k] refl _ _ t(1) refl,
        of k motor_dj_ctr "motor_dj_driver wr"] m st4(1) run m4 d
    by (simp add: motor_wired_def motor_modes)
  moreover have "dj_inv n ?st'"
  proof -
    have "wired ?st'" by (rule wired_put [OF _ k]) (use w4 v in \<open>simp_all add: motor_wired_def\<close>)
    then show ?thesis using facts(2) by (simp add: dj_inv_def)
  qed
  ultimately show ?thesis
    using facts v st4(2) w4(3) others
    by (intro exI [of _ ?st'] exI [of _ st4] exI [of _ q] exI [of _ t]) (simp add: Let_def put_motor_def)
qed

lemma dj_measure_ok:
  assumes "\<bar>round_cnt m\<bar> \<le> n" and "n \<le> 262000"
  shows "\<exists>m'. dj_measure new m = Inr m' \<and> mm_id m' = mm_id m \<and> mm_can_id m' = mm_can_id m \<and>
    \<bar>round_cnt m'\<bar> \<le> n + 1 \<and> (50 \<le> msg_cnt m \<longrightarrow> msg_cnt m' = 0xff)"
proof (cases "msg_cnt m < 50")
  case True
  then have "\<not> 50 \<le> msg_cnt m" by (simp add: linorder_not_le)
  with True assms show ?thesis by (simp add: dj_measure_def)
next
  case False
  then have "50 \<le> msg_cnt m" by (simp add: linorder_not_less)
  from dj_measure_step [OF this _ refl, of new] assms turns_bound [OF assms(1), of "uint new" "uint (angle m)"]
  show ?thesis by simp
qed

lemma dj_ok_ring:
  assumes "dj_ok n d"
  obtains rb where "dj_m_ringfifo d = Some rb" "ring_inv rb" "buffer_size rb = 4096" "ring_data rb = pending d"
  using assms by (auto simp: dj_ok_def pending_def)

lemma ring_send_ok:
  assumes ok: "dj_ok n d" and c: "unat c < 4"
  shows "\<exists>rb. ring_send d c = Inr (d\<lparr>dj_m_ringfifo := Some rb\<rparr>) \<and>
    dj_ok n (d\<lparr>dj_m_ringfifo := Some rb\<rparr>) \<and>
    pending (d\<lparr>dj_m_ringfifo := Some rb\<rparr>) = lastn 4096 (pending d @ [c])"
proof -
  obtain rb where rb: "dj_m_ringfifo d = Some rb" "ring_inv rb" "buffer_size rb = 4096" "ring_data rb = pending d"
    by (rule dj_ok_ring [OF ok])
  from ringq.push_law [OF rb(2), of c] obtain rb' where rb':
    "rt_ringbuffer_putchar_force rb c = Inr (1, rb')" "ring_inv rb'" "nat (buffer_size rb') = 4096"
    "ring_data rb' = lastn 4096 (pending d @ [c])"
    by (auto simp: rb)
  have bs: "buffer_size rb' = 4096" using rb'(3) by simp
  have "list_all (\<lambda>c. unat c < 4) (pending d @ [c])" using ok c by (simp add: dj_ok_def)
  then have "list_all (\<lambda>c. unat c < 4) (ring_data rb')"
    unfolding rb'(4) lastn_def by (simp add: list_all_iff) (meson in_set_dropD)
  then have "dj_ok n (d\<lparr>dj_m_ringfifo := Some rb'\<rparr>)"
    using ok rb' bs by (simp add: dj_ok_def pending_def)
  with rb rb' show ?thesis by (intro exI [of _ rb']) (simp add: ring_send_def pending_def)
qed

text \<open>The interrupt handler on a report of one of the four motors.\<close>

lemma dj_report:
  assumes inv: "dj_inv n st" and n: "n \<le> 262000" and k: "k < 4"
    and rd: "rd (can_dev (mworld st)) = (msg, dev)"
    and cid: "ucast (msg_id msg) = CAN_Motor1_ID + (of_nat k :: u16)"
  shows "\<exists>st' m. ind_dj_can_motor_callback rd fl fd st = Some (Inr st') \<and> dj_inv (n + 1) st' \<and>
    pending (mworld st') = lastn 4096 (pending (mworld st) @ [of_nat k]) \<and>
    dj_measure (be16 (msg_data msg) 0) (dj_motors (mworld st) ! k) = Inr m \<and>
    dj_motors (mworld st') = (dj_motors (mworld st))[k := m] \<and>
    iq1_low (mworld st') = iq1_low (mworld st) \<and> can_dev (mworld st') = dev \<and> apids st' = apids st \<and>
    motor_list st' = (motor_list st)[k := (motor_list st ! k)\<lparr>
       cur_speed := fl (of_int (sint (be16 (msg_data msg) 2)) / 36),
       cur_torque := of_int (sint (be16 (msg_data msg) 4)),
       cur_pos := fl (fd (fl (of_int (total_angle m)) * KK fl fd))\<rparr>]"
proof -
  have w: "wired st" and ok: "dj_ok n (mworld st)" using inv by (simp_all add: dj_inv_def)
  let ?tab = "dj_motors (mworld st)"
  have tab: "cfg_table ?tab" using ok by (simp add: dj_ok_def)
  have find: "motor_get_by_canid ?tab (CAN_Motor1_ID + of_nat k) = Some (Inr (Some k))"
    using canid_configured(1) [OF tab] k by (simp add: DJ_M_NUM_def)
  note e = dj_ok_entry [OF ok k]
  from dj_measure_ok [OF _ n, of "?tab ! k" "be16 (msg_data msg) 0"] e obtain m where
    m: "dj_measure (be16 (msg_data msg) 0) (?tab ! k) = Inr m" "mm_id m = of_nat k"
    "mm_can_id m = CAN_Motor1_ID + of_nat k" "\<bar>round_cnt m\<bar> \<le> n + 1" by auto
  let ?d = "(mworld st)\<lparr>can_dev := dev, dj_motors := ?tab[k := m]\<rparr>"
  have "cfg_table (?tab[k := m])"
    using tab m k by (auto simp: cfg_table_def DJ_M_NUM_def nth_list_update)
  then have d: "dj_ok (n + 1) ?d"
    using ok m(4) k e by (auto simp: dj_ok_def pending_def nth_list_update)
  have id: "uint (of_nat k :: u8) = int k" "(word_of_int (int k) :: u8) = of_nat k" "unat (of_nat k :: u8) < 4"
    using less_4_cases [OF k] by auto
  from ring_send_ok [OF d id(3)] obtain rb where rb:
    "ring_send ?d (of_nat k) = Inr (?d\<lparr>dj_m_ringfifo := Some rb\<rparr>)"
    "dj_ok (n + 1) (?d\<lparr>dj_m_ringfifo := Some rb\<rparr>)"
    "pending (?d\<lparr>dj_m_ringfifo := Some rb\<rparr>) = lastn 4096 (pending ?d @ [of_nat k])" by blast
  let ?f = "\<lambda>m'. m'\<lparr>cur_speed := fl (of_int (sint (be16 (msg_data msg) 2)) / 36),
       cur_torque := of_int (sint (be16 (msg_data msg) 4)),
       cur_pos := fl (fd (fl (of_int (total_angle m)) * KK fl fd))\<rparr>"
  let ?st' = "(put_motor st k ?f)\<lparr>mworld := ?d\<lparr>dj_m_ringfifo := Some rb\<rparr>\<rparr>"
  have lt: "k < length (motor_list st)" using wired_ok [OF w] k by (simp add: motors_ok_def)
  have "ind_dj_can_motor_callback rd fl fd st = Some (Inr ?st')"
    unfolding ind_dj_can_motor_callback_def rd prod.case Let_def
    using cid find m rb(1) id wired_ok [OF w] k lt
    by (simp add: motor_feedback_speed_def motor_feedback_torque_def motor_feedback_pos_def
        at_motor_def motor_get_def MOTOR_NUM_def put_motor_def)
  moreover have "wired ?st'"
    using wired_put [OF w k, of ?f] by (simp add: motor_wired_def)
  moreover have "pending ?d = pending (mworld st)" by (simp add: pending_def)
  ultimately show ?thesis
    using rb(2,3) m(1) by (intro exI [of _ ?st'] exI [of _ m]) (simp add: dj_inv_def put_motor_def)
qed

text \<open>One turn of the driver thread: it waits, or takes the oldest report and serves that motor.\<close>

lemma dj_turn_wait:
  assumes inv: "dj_inv n st" and n: "n \<le> 262000" and empty: "pending (mworld st) = []"
  shows "can_rx_turn wr fl st = Inr (st\<lparr>mworld := (mworld st)\<lparr>timeout_counter := timeout_counter (mworld st) + 1\<rparr>\<rparr>)"
proof -
  have ok: "dj_ok n (mworld st)" using inv by (simp add: dj_inv_def)
  obtain rb where rb: "dj_m_ringfifo (mworld st) = Some rb" "ring_inv rb" "ring_data rb = pending (mworld st)"
    by (rule dj_ok_ring [OF ok])
  have "i32 (timeout_counter (mworld st) + 1) = Inr (timeout_counter (mworld st) + 1)"
    using ok n by (simp add: dj_ok_def i32_def)
  then show ?thesis
    using ringq.pop_empty [OF rb(2)] rb empty unfolding can_rx_turn_def by simp
qed

lemma dj_turn_serve:
  assumes inv: "dj_inv n st" and q: "pending (mworld st) = c # cs"
  shows "\<exists>rb. let d = (mworld st)\<lparr>dj_m_ringfifo := Some rb, rx_i := c, timeout_counter := 0\<rparr> in
    can_rx_turn wr fl st = motor_handle motor_dj_ctr (motor_dj_driver wr) fl (st\<lparr>mworld := d\<rparr>) (int (unat c)) 1 \<and>
    dj_inv n (st\<lparr>mworld := d\<rparr>) \<and> pending d = cs \<and> unat c < 4"
proof -
  have w: "wired st" and ok: "dj_ok n (mworld st)" using inv by (simp_all add: dj_inv_def)
  obtain rb where rb: "dj_m_ringfifo (mworld st) = Some rb" "ring_inv rb" "buffer_size rb = 4096"
    "ring_data rb = pending (mworld st)" by (rule dj_ok_ring [OF ok])
  from ringq.pop_law [OF rb(2), of c cs "rx_i (mworld st)"] q rb obtain rb' where rb':
    "rt_ringbuffer_getchar rb (rx_i (mworld st)) = Inr (1, c, rb')" "ring_inv rb'"
    "nat (buffer_size rb') = 4096" "ring_data rb' = cs" by auto
  have bs: "buffer_size rb' = 4096" using rb'(3) by simp
  let ?d = "(mworld st)\<lparr>dj_m_ringfifo := Some rb', rx_i := c, timeout_counter := 0\<rparr>"
  have "pending ?d = cs" using rb' by (simp add: pending_def)
  moreover have "unat c < 4" "list_all (\<lambda>c. unat c < 4) cs" using ok q by (simp_all add: dj_ok_def)
  ultimately have "dj_ok n ?d" using ok rb' bs by (auto simp: dj_ok_def)
  moreover have "can_rx_turn wr fl st =
      motor_handle motor_dj_ctr (motor_dj_driver wr) fl (st\<lparr>mworld := ?d\<rparr>) (int (unat c)) 1"
    unfolding can_rx_turn_def using rb rb' by (simp del: bind_res_eq_Inr)
  ultimately show ?thesis
    using w \<open>pending ?d = cs\<close> \<open>unat c < 4\<close> by (intro exI [of _ rb']) (simp add: Let_def dj_inv_def)
qed

subsection \<open>Start-up\<close>

lemma run_pid_speed:
  assumes "motors_ok st" and "0 \<le> i" "i < MOTOR_NUM" and "pid_speed (motor_list st ! nat i) = Some a"
    and "apids st a = Some p"
  shows "speed_pid i f st = Inr (st\<lparr>apids := (apids st)(a \<mapsto> f p)\<rparr>)"
  using assms by (simp add: on_pid_def motor_get_pid_speed_def)

lemma run_pid_pos:
  assumes "motors_ok st" and "0 \<le> i" "i < MOTOR_NUM" and "pid_pos (motor_list st ! nat i) = Some a"
    and "apids st a = Some p"
  shows "pos_pid i f st = Inr (st\<lparr>apids := (apids st)(a \<mapsto> f p)\<rparr>)"
  using assms by (simp add: on_pid_def motor_get_pid_pos_def)

text \<open>What start-up makes of the eight controllers.\<close>

definition speed_cfg :: "apid_t \<Rightarrow> apid_t" where
  "speed_cfg p = APID_Set_Bias_Dead_Zone (APID_Set_Integral_Limit (APID_Set_Out_Limit p 30000) 200) 20"

definition dj_pid :: "nat \<Rightarrow> apid_t \<Rightarrow> apid_t" where
  "dj_pid a p =
     (if a = 0 \<or> a = 2 then APID_Set_Target_Limit (APID_Set_Bias_Limit (speed_cfg p) 2000) MAX_V_SPEED
      else if a = 4 then speed_cfg p
      else if a = 6 then APID_Set_Target_Limit (speed_cfg p) MAX_V_SPEED
      else if a = 5 then APID_Set_Out_Limit p MAX_V_POS
      else if a = 7 then APID_Set_Integral_Limit (APID_Set_Out_Limit (APID_Set_Integral_Limit p 200) MAX_V_POS) 200
      else APID_Set_Integral_Limit (APID_Set_Out_Limit p MAX_V_POS) 200)"

definition dj_booted :: "rounding \<Rightarrow> 'w \<Rightarrow> 'w motors" where
  "dj_booted fl w = (booted fl w)\<lparr>
     motor_list := map (\<lambda>m. m\<lparr>flag_passive_feedback := True\<rparr>) (motor_list (booted fl w)),
     apids := (\<lambda>a. map_option (dj_pid a) (apids (booted fl w) a))\<rparr>"

lemma target_twice:
  "APID_Set_Target_Limit (APID_Set_Target_Limit p v) v = APID_Set_Target_Limit p v"
  by (simp add: APID_Set_Target_Limit_def)

lemma booted_list:
  "motor_list (booted fl w) = map (\<lambda>j. level1 j (MOTOR_INIT_OPS_PID_ALL j MOTOR_CONTROL_SUPPORT_TORQUE None
     (Some (2 * j)) (Some (2 * j + 1)))) [0, 1, 2, 3]"
  by (simp add: booted_def cfg_motors_def MOTOR_NUM_def upt_4)

lemma set_passive_booted: "set_motor_passive_feedback (booted fl w) = Inr (dj_booted fl w)"
proof -
  define A where "A = apids (booted fl w)"
  define p where "p a = the (A a)" for a
  have A: "A a = (if a < 8 then Some (p a) else None)" for a
    by (simp add: p_def A_def booted_def cfg_apids_def)
  have b: "booted fl w = \<lparr>motor_list = map (\<lambda>j. level1 j (MOTOR_INIT_OPS_PID_ALL j MOTOR_CONTROL_SUPPORT_TORQUE None
     (Some (2 * j)) (Some (2 * j + 1)))) [0, 1, 2, 3], apids = A, mworld = w\<rparr>"
    by (rule motors.equality) (simp_all only: motors.simps booted_list A_def, simp_all add: booted_def)
  have fin: "(\<lambda>a. map_option (dj_pid a) (A a)) = A(0 \<mapsto> dj_pid 0 (p 0), 1 \<mapsto> dj_pid 1 (p 1), 2 \<mapsto> dj_pid 2 (p 2),
      3 \<mapsto> dj_pid 3 (p 3), 4 \<mapsto> dj_pid 4 (p 4), 5 \<mapsto> dj_pid 5 (p 5), 6 \<mapsto> dj_pid 6 (p 6), 7 \<mapsto> dj_pid 7 (p 7))"
    by (rule ext) (auto simp: A dj_pid_def)
  show ?thesis
    unfolding set_motor_passive_feedback_def dj_booted_def A_def [symmetric] fin unfolding b
    by (simp add: on_pid_def motor_get_pid_speed_def motor_get_pid_pos_def motor_set_passive_feedback_def
        at_motor_def motor_get_def put_motor_def MOTOR_NUM_def M2006_1_CAN1_def M2006_2_CAN1_def
        M2006_3_CAN1_def M2006_4_CAN1_def level1_def MOTOR_INIT_OPS_PID_ALL_def A
        del: bind_res_eq_Inr)
      (simp add: dj_pid_def speed_cfg_def target_twice fun_eq_iff)
qed

lemmas apid_setters = APID_Set_Out_Limit_def APID_Set_Integral_Limit_def APID_SET_I_Function_def
  APID_Set_Bias_Dead_Zone_def APID_Set_Bias_Limit_def APID_Set_Target_Limit_def

lemma dj_pid_ready:
  assumes "a < 8" and "pid_ready p" and "pid_mode p = PID_POSITION"
  shows "pid_ready (dj_pid a p)" and "out_limit (parameter (dj_pid a p)) = pid_limit a"
proof -
  have "a = 0 \<or> a = 1 \<or> a = 2 \<or> a = 3 \<or> a = 4 \<or> a = 5 \<or> a = 6 \<or> a = 7" using assms(1) by auto
  then show "pid_ready (dj_pid a p)" "out_limit (parameter (dj_pid a p)) = pid_limit a"
    using assms(2,3) by (auto simp: dj_pid_def speed_cfg_def apid_setters pid_ready_def pid_limit_def
        MAX_V_POS_def MAX_V_SPEED_def Let_def)
qed

lemma apids_dj_booted:
  "a < 8 \<Longrightarrow> apids (dj_booted fl w) a = Some (dj_pid a (keep_gains (the (cfg_apids fl a))))"
  by (simp add: dj_booted_def booted_def cfg_apids_def)

lemma keep_gains_mode: "pid_mode (keep_gains p) = PID_POSITION"
  by (simp add: keep_gains_def APID_Init_def Let_def)

lemma wired_dj_booted: "wired (dj_booted fl w)"
proof -
  have "motors_ok (dj_booted fl w)" by (simp add: dj_booted_def booted_list motors_ok_def)
  moreover have "motor_wired j (motor_list (dj_booted fl w) ! j)" if "j < 4" for j
  proof -
    have "j < length (motor_list (booted fl w))" using that by (simp add: booted_list)
    then show ?thesis
      using that by (simp add: dj_booted_def nth_booted motor_wired_def level1_def MOTOR_INIT_OPS_PID_ALL_def)
  qed
  ultimately show ?thesis
    by (auto simp: wired_def apids_dj_booted dj_pid_ready keep_gains_mode)
qed

lemma dj_init_state:
  assumes "boot_found boot" "boot_open boot" "boot_baud boot" "boot_priv boot"
    and "obj = Some rb0" and "pool 4096 = Some p" and "length p = 4096"
  obtains rb where "ring_inv rb" "ring_data rb = []" "buffer_size rb = 4096"
    "motor_dj_init e mal boot obj pool (motor_cfg fl (dj_static dev)) =
       Inr (0, dj_booted fl ((dj_static dev)\<lparr>dj_m_ringfifo := Some rb\<rparr>))"
proof -
  let ?rb = "rb0\<lparr>read_mirror := False, read_index := 0, write_mirror := False, write_index := 0,
      buffer_ptr := p, buffer_size := 4096\<rparr>"
  have "rt_ringbuffer_create obj pool 4096 = Inr (Some ?rb)"
    using assms(5,6) by (simp add: rt_ringbuffer_create_def rt_ringbuffer_init_def align_down_8)
  moreover have "ring_inv ?rb" "ring_data ?rb = []"
    using assms(7) by (simp_all add: ring_inv_def ring_data_def used_def ring_def)
  moreover have "(dj_booted fl (dj_static dev))\<lparr>mworld := (mworld (dj_booted fl (dj_static dev)))\<lparr>dj_m_ringfifo := Some ?rb\<rparr>\<rparr> =
      dj_booted fl ((dj_static dev)\<lparr>dj_m_ringfifo := Some ?rb\<rparr>)"
    by (simp add: dj_booted_def booted_def)
  ultimately show thesis
    using assms(1-4) that [of ?rb]
    by (simp add: motor_dj_init_def motor_init_booted set_passive_booted Let_def)
qed

lemma dj_inv_booted:
  assumes "ring_inv rb" and "ring_data rb = []" and "buffer_size rb = 4096"
  shows "dj_inv 0 (dj_booted fl ((dj_static dev)\<lparr>dj_m_ringfifo := Some rb\<rparr>))"
proof -
  have "mworld (dj_booted fl d) = d" for d :: "'a dj" by (simp add: dj_booted_def booted_def)
  moreover have "round_cnt (dj_table ! k) = 0" if "k < 4" for k
    using less_4_cases [OF that] by (auto simp: dj_table_def DJ_MOTOR_MOTOR_ID_def)
  ultimately show ?thesis
    using assms wired_dj_booted [of fl] cfg_table_dj_table
    by (simp add: dj_inv_def dj_ok_def dj_static_def pending_def)
qed

subsection \<open>Reports, turns and commands in any order\<close>

text \<open>
  What happens to the driver while the robot runs: a report arrives (the interrupt handler
  runs), the driver thread makes a turn, the chassis sets the target of a motor. These events
  come in any order.
\<close>

datatype dj_event = Report | Turn | Set_pos int real | Set_speed int real

fun dj_event_ok :: "dj_event \<Rightarrow> bool" where
  "dj_event_ok (Set_pos i v) = (0 \<le> i \<and> i < MOTOR_NUM)"
| "dj_event_ok (Set_speed i v) = (0 \<le> i \<and> i < MOTOR_NUM)"
| "dj_event_ok e = True"

fun dj_step ::
    "'d can_write \<Rightarrow> 'd can_read \<Rightarrow> rounding \<Rightarrow> rounding \<Rightarrow> dj_event \<Rightarrow> 'd dj motors \<Rightarrow>
     'd dj motors res option" where
  "dj_step wr rd fl fd Report st = ind_dj_can_motor_callback rd fl fd st"
| "dj_step wr rd fl fd Turn st = Some (can_rx_turn wr fl st)"
| "dj_step wr rd fl fd (Set_pos i v) st = Some (motor_set_pos st i v)"
| "dj_step wr rd fl fd (Set_speed i v) st = Some (motor_set_speed st i v)"

fun dj_run ::
    "'d can_write \<Rightarrow> 'd can_read \<Rightarrow> rounding \<Rightarrow> rounding \<Rightarrow> dj_event list \<Rightarrow> 'd dj motors \<Rightarrow>
     'd dj motors res option" where
  "dj_run wr rd fl fd [] st = Some (Inr st)"
| "dj_run wr rd fl fd (e # es) st =
     (case dj_step wr rd fl fd e st of
        None \<Rightarrow> None
      | Some (Inl x) \<Rightarrow> Some (Inl x)
      | Some (Inr st') \<Rightarrow> dj_run wr rd fl fd es st')"

text \<open>
  A property of the CAN device that survives every read and every write of a well-formed
  frame, on a bus where only the four motors report.
\<close>

definition can_keeps :: "'d can_write \<Rightarrow> 'd can_read \<Rightarrow> ('d \<Rightarrow> bool) \<Rightarrow> bool" where
  "can_keeps wr rd P \<longleftrightarrow>
     (\<forall>dev msg. P dev \<longrightarrow> frame_ok msg \<longrightarrow> P (snd (wr msg dev))) \<and>
     (\<forall>dev. P dev \<longrightarrow> P (snd (rd dev)) \<and>
        (\<exists>k < 4. ucast (msg_id (fst (rd dev))) = CAN_Motor1_ID + (of_nat k :: u16)))"

text \<open>The id of the motor that reports next.\<close>

definition report_id :: "'d can_read \<Rightarrow> 'd dj motors \<Rightarrow> u8" where
  "report_id rd st = ucast (ucast (msg_id (fst (rd (can_dev (mworld st))))) - CAN_Motor1_ID)"

lemma report_id_eq:
  assumes "rd (can_dev (mworld st)) = (msg, dev)" and "ucast (msg_id msg) = CAN_Motor1_ID + (of_nat k :: u16)"
    and "k < 4"
  shows "report_id rd st = of_nat k"
  using less_4_cases [OF assms(3)] assms(1,2) by (auto simp: report_id_def)

fun queue_after :: "u8 \<Rightarrow> dj_event \<Rightarrow> u8 list \<Rightarrow> u8 list" where
  "queue_after i Report q = lastn 4096 (q @ [i])"
| "queue_after i Turn q = tl q"
| "queue_after i e q = q"

lemma dj_step_safe:
  assumes fl: "single_time fl" and can: "can_keeps wr rd P" and inv: "dj_inv n st" and n: "n < 262000"
    and P: "P (can_dev (mworld st))" and ok: "dj_event_ok e"
  shows "\<exists>st'. dj_step wr rd fl fd e st = Some (Inr st') \<and> dj_inv (n + 1) st' \<and> P (can_dev (mworld st')) \<and>
    pending (mworld st') = queue_after (report_id rd st) e (pending (mworld st)) \<and>
    (e = Turn \<and> pending (mworld st) \<noteq> [] \<longrightarrow> rx_i (mworld st') = hd (pending (mworld st)))"
proof -
  have w: "wired st" and d: "dj_ok n (mworld st)" using inv by (simp_all add: dj_inv_def)
  have up: "dj_inv n s \<Longrightarrow> dj_inv (n + 1) s" for s :: "'a dj motors"
    using dj_ok_mono [of n "mworld s" "n + 1"] by (simp add: dj_inv_def)
  show ?thesis
  proof (cases e)
    case Report
    obtain msg dev where rd: "rd (can_dev (mworld st)) = (msg, dev)" by (cases "rd (can_dev (mworld st))")
    with can P obtain k where k: "k < 4" "ucast (msg_id msg) = CAN_Motor1_ID + (of_nat k :: u16)" "P dev"
      unfolding can_keeps_def by (metis fst_conv snd_conv)
    from dj_report [OF inv _ k(1), where rd = rd and msg = msg and dev = dev and fl = fl and fd = fd] n rd k
    obtain st' where "ind_dj_can_motor_callback rd fl fd st = Some (Inr st')" "dj_inv (n + 1) st'"
      "pending (mworld st') = lastn 4096 (pending (mworld st) @ [of_nat k])" "can_dev (mworld st') = dev"
      by auto
    then show ?thesis using Report k(3) report_id_eq [where rd = rd, OF rd k(2,1)] by simp
  next
    case Turn
    show ?thesis
    proof (cases "pending (mworld st)")
      case Nil
      let ?st = "st\<lparr>mworld := (mworld st)\<lparr>timeout_counter := timeout_counter (mworld st) + 1\<rparr>\<rparr>"
      have "dj_ok (n + 1) (mworld st)" using dj_ok_mono [OF d] by simp
      moreover have "0 \<le> timeout_counter (mworld st)" "timeout_counter (mworld st) \<le> n"
        using d by (simp_all add: dj_ok_def)
      ultimately have "dj_ok (n + 1) (mworld ?st)" by (simp add: dj_ok_def pending_def)
      then show ?thesis
        using Turn w P dj_turn_wait [OF inv _ Nil] n Nil by (simp add: dj_inv_def pending_def)
    next
      case (Cons c cs)
      from dj_turn_serve [OF inv Cons, of wr fl] obtain d' where d':
        "can_rx_turn wr fl st = motor_handle motor_dj_ctr (motor_dj_driver wr) fl (st\<lparr>mworld := d'\<rparr>) (int (unat c)) 1"
        "dj_inv n (st\<lparr>mworld := d'\<rparr>)" "unat c < 4" "can_dev d' = can_dev (mworld st)"
        "pending d' = cs" "rx_i d' = c"
        by (auto simp: Let_def)
      from dj_handle [OF fl d'(2,3), of wr] d'(1,4-6) obtain st' frame where
        "can_rx_turn wr fl st = Inr st'" "dj_inv n st'" "frame_ok frame" "pending (mworld st') = cs"
        "rx_i (mworld st') = c"
        "can_dev (mworld st') = can_dev (mworld st) \<or> can_dev (mworld st') = snd (wr frame (can_dev (mworld st)))"
        by (auto simp: Let_def)
      moreover from this P can have "P (can_dev (mworld st'))" by (auto simp: can_keeps_def)
      ultimately show ?thesis using Turn up Cons by auto
    qed
  next
    case (Set_pos i v)
    let ?st = "put_motor st (nat i) (\<lambda>m. m\<lparr>flag_run_mode := ucast MOTOR_MODE_POS, tar_pos := v\<rparr>)"
    have i: "0 \<le> i" "i < MOTOR_NUM" "nat i < 4" using ok Set_pos by (auto simp: MOTOR_NUM_def)
    have "wired ?st" by (rule wired_put [OF w i(3)]) (simp add: motor_wired_def)
    then have "dj_inv n ?st" using d by (simp add: dj_inv_def)
    with up [of ?st] show ?thesis
      using Set_pos i wired_ok [OF w] P by (simp add: motor_set_pos_def)
  next
    case (Set_speed i v)
    let ?st = "put_motor st (nat i) (\<lambda>m. m\<lparr>flag_run_mode := ucast MOTOR_MODE_SPEED, tar_speed := v\<rparr>)"
    have i: "0 \<le> i" "i < MOTOR_NUM" "nat i < 4" using ok Set_speed by (auto simp: MOTOR_NUM_def)
    have "wired ?st" by (rule wired_put [OF w i(3)]) (simp add: motor_wired_def)
    then have "dj_inv n ?st" using d by (simp add: dj_inv_def)
    with up [of ?st] show ?thesis
      using Set_speed i wired_ok [OF w] P by (simp add: motor_set_speed_def)
  qed
qed

lemma dj_run_safe:
  assumes fl: "single_time fl" and can: "can_keeps wr rd P" and "dj_inv n st" and "P (can_dev (mworld st))"
    and "list_all dj_event_ok es" and "n + int (length es) \<le> 262000"
  shows "\<exists>st'. dj_run wr rd fl fd es st = Some (Inr st') \<and> dj_inv (n + int (length es)) st' \<and>
    P (can_dev (mworld st'))"
  using assms(3-)
proof (induction es arbitrary: st n)
  case Nil
  then show ?case by simp
next
  case (Cons e es)
  from dj_step_safe [OF fl can Cons.prems(1) _ Cons.prems(2), of e fd] Cons.prems(3,4) obtain st1 where
    st1: "dj_step wr rd fl fd e st = Some (Inr st1)" "dj_inv (n + 1) st1" "P (can_dev (mworld st1))"
    by auto
  from Cons.IH [OF st1(2,3)] Cons.prems(3,4) st1(1) show ?case
    by (simp add: algebra_simps)
qed

text \<open>
  The reports that arrive and the reports that the driver thread serves, in the order in which
  it happens.
\<close>

fun dj_reported :: "'d can_write \<Rightarrow> 'd can_read \<Rightarrow> rounding \<Rightarrow> rounding \<Rightarrow> dj_event list \<Rightarrow> 'd dj motors \<Rightarrow> u8 list" where
  "dj_reported wr rd fl fd [] st = []"
| "dj_reported wr rd fl fd (e # es) st =
     (if e = Report then [report_id rd st] else []) @
     (case dj_step wr rd fl fd e st of Some (Inr st') \<Rightarrow> dj_reported wr rd fl fd es st' | _ \<Rightarrow> [])"

fun dj_served :: "'d can_write \<Rightarrow> 'd can_read \<Rightarrow> rounding \<Rightarrow> rounding \<Rightarrow> dj_event list \<Rightarrow> 'd dj motors \<Rightarrow> u8 list" where
  "dj_served wr rd fl fd [] st = []"
| "dj_served wr rd fl fd (e # es) st =
     (case dj_step wr rd fl fd e st of
        Some (Inr st') \<Rightarrow>
          (if e = Turn \<and> pending (mworld st) \<noteq> [] then [rx_i (mworld st')] else []) @
          dj_served wr rd fl fd es st'
      | _ \<Rightarrow> [])"

lemma dj_run_order:
  assumes fl: "single_time fl" and can: "can_keeps wr rd P" and "dj_inv n st" and "P (can_dev (mworld st))"
    and "list_all dj_event_ok es" and "n + int (length es) \<le> 262000"
    and "length (pending (mworld st)) + length es \<le> 4096"
    and "dj_run wr rd fl fd es st = Some (Inr st')"
  shows "pending (mworld st) @ dj_reported wr rd fl fd es st =
     dj_served wr rd fl fd es st @ pending (mworld st')"
  using assms(3-)
proof (induction es arbitrary: st n)
  case Nil
  then show ?case by simp
next
  case (Cons e es)
  let ?q = "pending (mworld st)"
  from dj_step_safe [OF fl can Cons.prems(1) _ Cons.prems(2), of e fd] Cons.prems(3,4) obtain st1 where
    st1: "dj_step wr rd fl fd e st = Some (Inr st1)" "dj_inv (n + 1) st1" "P (can_dev (mworld st1))"
    "pending (mworld st1) = queue_after (report_id rd st) e ?q"
    "e = Turn \<and> ?q \<noteq> [] \<longrightarrow> rx_i (mworld st1) = hd ?q"
    by auto
  have run: "dj_run wr rd fl fd es st1 = Some (Inr st')" using Cons.prems(6) st1(1) by simp
  have q1: "pending (mworld st1) = (case e of Report \<Rightarrow> ?q @ [report_id rd st] | Turn \<Rightarrow> tl ?q | _ \<Rightarrow> ?q)"
    using st1(4) Cons.prems(5) by (cases e) simp_all
  then have len: "length (pending (mworld st1)) + length es \<le> 4096"
    using Cons.prems(5) by (cases e) auto
  have IH: "pending (mworld st1) @ dj_reported wr rd fl fd es st1 =
      dj_served wr rd fl fd es st1 @ pending (mworld st')"
    by (rule Cons.IH [OF st1(2,3) _ _ len run]) (use Cons.prems(3,4) in auto)
  show ?case
  proof (cases e)
    case Turn
    show ?thesis
    proof (cases ?q)
      case Nil
      with Turn q1 IH st1(1) show ?thesis by simp
    next
      case (Cons c cs)
      with Turn q1 IH st1(1,5) show ?thesis by simp
    qed
  qed (use q1 IH st1(1) in simp_all)
qed

subsection \<open>Properties of the running driver\<close>

text \<open>
  C36: \<open>motor_dj_init\<close> on the configured motors, when the CAN device is found and set up and the
  ring buffer can be allocated, ends with the driver's invariant: the four motors are driven
  through their torque cascades, the currents are limited to 30000 and the inner speed targets
  to 65, the queue is empty. Two lines of the configuration name the wrong motor: the third
  motor's speed target stays unlimited and its position controller keeps the unlimited
  integral.
\<close>

theorem motor_dj_init_ready:
  assumes "boot_found boot" "boot_open boot" "boot_baud boot" "boot_priv boot"
    and "obj = Some rb0" and "pool 4096 = Some p" and "length p = 4096"
  shows "\<exists>st. motor_dj_init e mal boot obj pool (motor_cfg fl (dj_static dev)) = Inr (0, st) \<and>
    dj_inv 0 st \<and> pending (mworld st) = [] \<and> can_dev (mworld st) = dev \<and>
    (\<forall>j < 4. target_limit (parameter (pid_at st (pid_speed (motor_list st ! j)))) =
       (if j = 2 then TARGET_MAX else 80)) \<and>
    (\<forall>j < 4. i_handle (pid_at st (pid_pos (motor_list st ! j))) =
       Some (if j = 2 then Position_Normal else Position_Saturation))"
proof -
  obtain rb where rb: "ring_inv rb" "ring_data rb = []" "buffer_size rb = 4096"
    and init: "motor_dj_init e mal boot obj pool (motor_cfg fl (dj_static dev)) =
       Inr (0, dj_booted fl ((dj_static dev)\<lparr>dj_m_ringfifo := Some rb\<rparr>))"
    by (rule dj_init_state [where boot = boot and obj = obj and pool = pool and fl = fl and dev = dev and
          e = e and mal = mal]) (use assms in simp_all)
  let ?st = "dj_booted fl ((dj_static dev)\<lparr>dj_m_ringfifo := Some rb\<rparr>)"
  have inv: "dj_inv 0 ?st" by (rule dj_inv_booted [OF rb])
  have pid: "pid_at ?st (pid_speed (motor_list ?st ! j)) = dj_pid (2 * j) (keep_gains (the (cfg_apids fl (2 * j))))"
    "pid_at ?st (pid_pos (motor_list ?st ! j)) = dj_pid (2 * j + 1) (keep_gains (the (cfg_apids fl (2 * j + 1))))"
    if "j < 4" for j
  proof -
    have "motor_wired j (motor_list ?st ! j)" using wired_motor [OF wired_dj_booted that] .
    then show "pid_at ?st (pid_speed (motor_list ?st ! j)) = dj_pid (2 * j) (keep_gains (the (cfg_apids fl (2 * j))))"
      "pid_at ?st (pid_pos (motor_list ?st ! j)) = dj_pid (2 * j + 1) (keep_gains (the (cfg_apids fl (2 * j + 1))))"
      using that by (simp_all add: pid_at_def motor_wired_def apids_dj_booted)
  qed
  have way: "integral_way (keep_gains (the (cfg_apids fl a))) = PID_INTEGRAL_NORMAL" if "a < 8" for a
    using that by (simp add: keep_gains_def APID_Init_def APID_Reset_def cfg_apids_def Let_def
        APID_CREATE_STATIC_ANONYMOUS_POSITION_def)
  have "target_limit (parameter (dj_pid (2 * j) (keep_gains (the (cfg_apids fl (2 * j)))))) =
      (if j = 2 then TARGET_MAX else 80)" if "j < 4" for j
    using less_4_cases [OF that] by (elim disjE) (simp_all add: dj_pid_def speed_cfg_def apid_setters
        MAX_V_SPEED_def keep_gains_def APID_Init_def APID_Reset_def Let_def)
  moreover have "i_handle (dj_pid (2 * j + 1) (keep_gains (the (cfg_apids fl (2 * j + 1))))) =
      Some (if j = 2 then Position_Normal else Position_Saturation)" if "j < 4" for j
    using less_4_cases [OF that] way keep_gains_mode
    by (elim disjE) (simp_all add: dj_pid_def apid_setters Let_def,
      simp add: keep_gains_def APID_Init_def APID_Reset_def Let_def)
  moreover have "mworld ?st = (dj_static dev)\<lparr>dj_m_ringfifo := Some rb\<rparr>"
    by (simp add: dj_booted_def booted_def)
  ultimately show ?thesis
    using init inv rb(2) pid by (intro exI [of _ ?st]) (simp add: pending_def dj_static_def)
qed

definition good_boot :: dj_boot where
  "good_boot = \<lparr>boot_found = True, boot_open = True, boot_baud = True, boot_priv = True\<rparr>"

theorem motor_dj_init_ready_witness:
  "\<exists>st. motor_dj_init 255 (\<lambda>_. None) good_boot (Some small_ring) (\<lambda>n. Some (replicate n 0))
      (motor_cfg (\<lambda>x. x) (dj_static ())) = Inr (0, st) \<and> dj_inv 0 st \<and> pending (mworld st) = []"
  using motor_dj_init_ready [of good_boot "Some small_ring" small_ring "\<lambda>n. Some (replicate n 0)"
      "replicate 4096 0" 255 "\<lambda>_. None" "\<lambda>x. x" "()"]
  by (auto simp: good_boot_def)

text \<open>
  The running driver never faults. From any state with the driver's invariant, for every
  sequence of up to 262000 reports of the four motors, turns of the driver thread and position
  or speed commands, in any order, with any payloads and any values, every step returns and
  the invariant holds again; in particular everything written to the CAN device is a standard
  frame with id 0x200, 8 bytes and four currents of at most 30000 (any property of the device
  that such writes keep is kept). The rounding only has to behave at \<open>2^24\<close> as single
  precision does.
\<close>

theorem dj_loop_safe:
  assumes "single_time fl" and "can_keeps wr rd P" and "dj_inv n st" and "P (can_dev (mworld st))"
    and "list_all dj_event_ok es" and "n + int (length es) \<le> 262000"
  shows "\<exists>st'. dj_run wr rd fl fd es st = Some (Inr st') \<and> dj_inv (n + int (length es)) st' \<and>
    P (can_dev (mworld st'))"
  using assms by (rule dj_run_safe)

text \<open>A bus on which the second motor reports again and again, and a log of what is sent.\<close>

definition demo_read :: "rt_can_msg list can_read" where
  "demo_read dev = (zero_msg\<lparr>msg_id := 0x202, msg_data := [0x10, 0, 0, 72, 0, 9, 30, 0]\<rparr>, dev)"

definition demo_write :: "rt_can_msg list can_write" where
  "demo_write msg dev = (16, msg # dev)"

definition demo_round :: rounding where
  "demo_round x = min x (2 ^ 24)"

definition demo_ring :: rt_ringbuffer where
  "demo_ring = \<lparr>buffer_ptr = replicate 4096 0, read_mirror = False, read_index = 0,
     write_mirror = False, write_index = 0, buffer_size = 4096\<rparr>"

definition demo_dj :: "rt_can_msg list dj motors" where
  "demo_dj = dj_booted demo_round ((dj_static [])\<lparr>dj_m_ringfifo := Some demo_ring\<rparr>)"

lemma demo_dj_facts:
  "single_time demo_round" "can_keeps demo_write demo_read (list_all frame_ok)" "dj_inv 0 demo_dj"
  "pending (mworld demo_dj) = []" "can_dev (mworld demo_dj) = []"
proof -
  show "single_time demo_round" by (auto simp: single_time_def demo_round_def mono_def)
  show "can_keeps demo_write demo_read (list_all frame_ok)"
    by (auto simp: can_keeps_def demo_write_def demo_read_def CAN_Motor1_ID_def intro: exI [of _ 1])
  have r: "ring_inv demo_ring" "ring_data demo_ring = []" "buffer_size demo_ring = 4096"
    by (simp_all add: demo_ring_def ring_inv_def ring_data_def used_def ring_def)
  show "dj_inv 0 demo_dj" unfolding demo_dj_def by (rule dj_inv_booted [OF r])
  have "mworld demo_dj = (dj_static [])\<lparr>dj_m_ringfifo := Some demo_ring\<rparr>"
    by (simp add: demo_dj_def dj_booted_def booted_def)
  then show "pending (mworld demo_dj) = []" "can_dev (mworld demo_dj) = []"
    using r(2) by (simp_all add: pending_def dj_static_def)
qed

theorem dj_loop_safe_witness:
  "\<exists>st'. dj_run demo_write demo_read demo_round (\<lambda>x. x) [Set_pos 1 5, Report, Turn, Turn] demo_dj = Some (Inr st') \<and>
     dj_inv 4 st' \<and> list_all frame_ok (can_dev (mworld st'))"
  using dj_loop_safe [OF demo_dj_facts(1,2,3), of "[Set_pos 1 5, Report, Turn, Turn]" "\<lambda>x. x"] demo_dj_facts(5)
  by (auto simp: MOTOR_NUM_def)

text \<open>
  C35: No report is lost or served out of order: in a run of at most 4096 events from an empty
  queue, the motors that the driver thread serves, followed by those still waiting, are
  exactly the motors that reported, in the order of their reports.
\<close>

theorem dj_reports_served_in_order:
  assumes "single_time fl" and "can_keeps wr rd P" and "dj_inv n st" and "P (can_dev (mworld st))"
    and "list_all dj_event_ok es" and "n + int (length es) \<le> 262000" and "length es \<le> 4096"
    and "pending (mworld st) = []"
  shows "\<exists>st'. dj_run wr rd fl fd es st = Some (Inr st') \<and>
    dj_reported wr rd fl fd es st = dj_served wr rd fl fd es st @ pending (mworld st')"
proof -
  from dj_run_safe [OF assms(1-6), of fd] obtain st' where st': "dj_run wr rd fl fd es st = Some (Inr st')"
    by auto
  with dj_run_order [OF assms(1-6) _ st'] assms(7,8) show ?thesis by auto
qed

theorem dj_reports_served_in_order_witness:
  "\<exists>st'. dj_run demo_write demo_read demo_round (\<lambda>x. x) [Report, Report, Turn] demo_dj = Some (Inr st') \<and>
     dj_reported demo_write demo_read demo_round (\<lambda>x. x) [Report, Report, Turn] demo_dj =
     dj_served demo_write demo_read demo_round (\<lambda>x. x) [Report, Report, Turn] demo_dj @ pending (mworld st')"
  using dj_reports_served_in_order [OF demo_dj_facts(1,2,3), of "[Report, Report, Turn]" "\<lambda>x. x"]
    demo_dj_facts(4,5) by simp

lemma cascade_result_world:
  "cascade_result fl (put_motor (st\<lparr>mworld := d\<rparr>) k f) j c st' = cascade_result fl (put_motor st k f) j c st'"
  by (simp add: cascade_result_def put_motor_def pid_at_def)

text \<open>
  The control loop from the sensor to the wire. When all four motors have reported and the
  queue is empty, a report of motor \<open>k\<close> stores its speed, torque and position in the motor
  layer, and the next turn of the driver thread runs the control cascade of exactly this motor
  on these values and writes one frame: the receiver finds the truncated command of the
  cascade, at most 30000, in slot \<open>k\<close> and the last currents of the other motors in their slots.
\<close>

theorem dj_report_drives_motor:
  assumes fl: "single_time fl" and inv: "dj_inv n st" and n: "n < 262000" and k: "k < 4"
    and rd: "rd (can_dev (mworld st)) = (msg, dev)"
    and cid: "ucast (msg_id msg) = CAN_Motor1_ID + (of_nat k :: u16)"
    and empty: "pending (mworld st) = []"
    and all: "list_all (\<lambda>m. msg_cnt m = 0xff) (dj_motors (mworld st))"
  shows "\<exists>st1 st2 st4 t frame.
    ind_dj_can_motor_callback rd fl fd st = Some (Inr st1) \<and>
    cur_speed (motor_list st1 ! k) = fl (of_int (sint (be16 (msg_data msg) 2)) / 36) \<and>
    cur_torque (motor_list st1 ! k) = of_int (sint (be16 (msg_data msg) 4)) \<and>
    can_rx_turn wr fl st1 = Inr st2 \<and> pending (mworld st2) = [] \<and>
    can_dev (mworld st2) = snd (wr frame dev) \<and> frame_ok frame \<and>
    cascade_result fl (put_motor st1 k (\<lambda>m. m\<lparr>mtime := t, flag_is_stop := False\<rparr>)) k 1 st4 \<and>
    (\<forall>j < 4. sint (be16 (msg_data frame) (2 * j)) =
       (if j = k then let v = acc_out (motor_list st4 ! k) in if v \<ge> 0 then \<lfloor>v\<rfloor> else \<lceil>v\<rceil>
        else sint (iq1_low (mworld st) ! j)))"
proof -
  from dj_report [OF inv _ k, where rd = rd and fl = fl and fd = fd, OF _ rd cid] n obtain st1 m where st1:
    "ind_dj_can_motor_callback rd fl fd st = Some (Inr st1)" "dj_inv (n + 1) st1"
    "pending (mworld st1) = lastn 4096 (pending (mworld st) @ [of_nat k])"
    "dj_measure (be16 (msg_data msg) 0) (dj_motors (mworld st) ! k) = Inr m"
    "dj_motors (mworld st1) = (dj_motors (mworld st))[k := m]"
    "iq1_low (mworld st1) = iq1_low (mworld st)" "can_dev (mworld st1) = dev"
    "motor_list st1 = (motor_list st)[k := (motor_list st ! k)\<lparr>
       cur_speed := fl (of_int (sint (be16 (msg_data msg) 2)) / 36),
       cur_torque := of_int (sint (be16 (msg_data msg) 4)),
       cur_pos := fl (fd (fl (of_int (total_angle m)) * KK fl fd))\<rparr>]" by auto
  have w: "wired st" and ok: "dj_ok n (mworld st)" using inv by (simp_all add: dj_inv_def)
  note e = dj_ok_entry [OF ok k]
  have len: "k < length (motor_list st)" "length (iq1_low (mworld st)) = 4"
    using wired_ok [OF w] k ok by (simp_all add: motors_ok_def dj_ok_def)
  have "msg_cnt (dj_motors (mworld st) ! k) = 0xff" using all e by (simp add: list_all_length)
  then have "msg_cnt m = 0xff"
    using dj_measure_ok [of "dj_motors (mworld st) ! k" n "be16 (msg_data msg) 0"] e n st1(4) by auto
  then have all1: "list_all (\<lambda>m. msg_cnt m = 0xff) (dj_motors (mworld st1))"
    using all set_update_subset_insert [of "dj_motors (mworld st)" k m] by (auto simp: st1(5) list_all_iff)
  have q1: "pending (mworld st1) = [of_nat k]" using st1(3) empty by simp
  have uk: "unat (of_nat k :: u8) = k" using less_4_cases [OF k] by auto
  from dj_turn_serve [OF st1(2) q1, of wr fl] obtain d where d:
    "can_rx_turn wr fl st1 = motor_handle motor_dj_ctr (motor_dj_driver wr) fl (st1\<lparr>mworld := d\<rparr>) (int k) 1"
    "dj_inv (n + 1) (st1\<lparr>mworld := d\<rparr>)" "pending d = []" "can_dev d = dev"
    "dj_motors d = dj_motors (mworld st1)" "iq1_low d = iq1_low (mworld st)"
    unfolding uk by (auto simp: Let_def st1(6,7))
  from dj_handle [OF fl d(2) k, of wr] obtain st2 st4 q t where h:
    "motor_handle motor_dj_ctr (motor_dj_driver wr) fl (st1\<lparr>mworld := d\<rparr>) (int k) 1 = Inr st2"
    "pending (mworld st2) = []"
    "cascade_result fl (put_motor (st1\<lparr>mworld := d\<rparr>) k (\<lambda>m. m\<lparr>mtime := t, flag_is_stop := False\<rparr>)) k 1 st4"
    and f: "let v = acc_out (motor_list st4 ! k);
         frame = zero_msg\<lparr>msg_len := 8, msg_id := CAN_Motor_ALL_ID,
           msg_data := iq_bytes ((iq1_low (mworld st))[k := q])\<rparr> in
     sint q = (if v \<ge> 0 then \<lfloor>v\<rfloor> else \<lceil>v\<rceil>) \<and> frame_ok frame \<and> can_dev (mworld st2) = snd (wr frame dev)"
    using all1 d(3-6) by (auto simp: Let_def)
  let ?frame = "zero_msg\<lparr>msg_len := 8, msg_id := CAN_Motor_ALL_ID,
           msg_data := iq_bytes ((iq1_low (mworld st))[k := q])\<rparr>"
  have slots: "be16 (msg_data ?frame) (2 * j) = (if j = k then q else iq1_low (mworld st) ! j)" if "j < 4" for j
    using that len k by (simp add: be16_iq_bytes)
  show ?thesis
    by (rule exI [of _ st1], rule exI [of _ st2], rule exI [of _ st4], rule exI [of _ t], rule exI [of _ ?frame])
      (use st1(1,8) d(1) h f len slots in \<open>simp add: Let_def cascade_result_world\<close>)
qed

definition demo_reported :: "rt_can_msg list dj motors" where
  "demo_reported = demo_dj\<lparr>mworld := (mworld demo_dj)\<lparr>dj_motors :=
     map (\<lambda>m. m\<lparr>msg_cnt := 0xff\<rparr>) (dj_motors (mworld demo_dj))\<rparr>\<rparr>"

lemma demo_reported_facts:
  "dj_inv 0 demo_reported" "pending (mworld demo_reported) = []" "can_dev (mworld demo_reported) = []"
  "list_all (\<lambda>m. msg_cnt m = 0xff) (dj_motors (mworld demo_reported))"
proof -
  have ok: "wired demo_dj" "dj_ok 0 (mworld demo_dj)" using demo_dj_facts(3) by (simp_all add: dj_inv_def)
  then have "cfg_table (map (\<lambda>m. m\<lparr>msg_cnt := 0xff\<rparr>) (dj_motors (mworld demo_dj)))"
    by (auto simp: dj_ok_def cfg_table_def)
  with ok show "dj_inv 0 demo_reported"
    by (auto simp: dj_inv_def demo_reported_def dj_ok_def pending_def cfg_table_def DJ_M_NUM_def)
  show "pending (mworld demo_reported) = []" "can_dev (mworld demo_reported) = []"
    "list_all (\<lambda>m. msg_cnt m = 0xff) (dj_motors (mworld demo_reported))"
    using demo_dj_facts(4,5) by (simp_all add: demo_reported_def pending_def list_all_length)
qed

theorem dj_report_drives_motor_witness:
  "\<exists>st1 st2 frame. ind_dj_can_motor_callback demo_read demo_round (\<lambda>x. x) demo_reported = Some (Inr st1) \<and>
     cur_speed (motor_list st1 ! 1) = 2 \<and> can_rx_turn demo_write demo_round st1 = Inr st2 \<and>
     can_dev (mworld st2) = [frame] \<and> frame_ok frame"
proof -
  let ?msg = "zero_msg\<lparr>msg_id := 0x202, msg_data := [0x10, 0, 0, 72, 0, 9, 30, 0]\<rparr>"
  have rd: "demo_read (can_dev (mworld demo_reported)) = (?msg, [])"
    by (simp add: demo_read_def demo_reported_facts(3))
  have s: "demo_round (of_int (sint (be16 (msg_data ?msg) 2)) / 36) = 2"
    by (simp add: be16_def demo_round_def)
  have c: "ucast (msg_id ?msg) = CAN_Motor1_ID + (of_nat 1 :: u16)" by (simp add: CAN_Motor1_ID_def)
  show ?thesis
    using dj_report_drives_motor [where rd = demo_read and wr = demo_write and fd = "\<lambda>x. x",
        OF demo_dj_facts(1) demo_reported_facts(1) _ _ rd c demo_reported_facts(2,4)]
    unfolding s by (fastforce simp: demo_write_def)
qed

text \<open>
  The interrupt handler survives only the reports of the four configured motors, which it
  processes keeping the driver's invariant. A frame with an id up to 0x200 makes it read behind
  the table of motors, one with an id from 0x205 on (a fifth motor on the bus) makes it use the
  null pointer; the hardware filter of the driver lets the ids 0x200 to 0x20f through.
\<close>

theorem dj_frame_ids:
  assumes inv: "dj_inv n st" and n: "n \<le> 262000" and rd: "rd (can_dev (mworld st)) = (msg, dev)"
    and cid: "cid = (ucast (msg_id msg) :: u16)"
  shows "(cid \<le> 0x200 \<longrightarrow> ind_dj_can_motor_callback rd fl fd st = Some (Inl OutOfBounds)) \<and>
    (0x205 \<le> cid \<longrightarrow> ind_dj_can_motor_callback rd fl fd st = Some (Inl NullDeref)) \<and>
    (0x200 < cid \<and> cid < 0x205 \<longrightarrow>
       (\<exists>st'. ind_dj_can_motor_callback rd fl fd st = Some (Inr st') \<and> dj_inv (n + 1) st'))"
proof (intro conjI impI)
  have tab: "cfg_table (dj_motors (mworld st))" using inv by (simp add: dj_inv_def dj_ok_def)
  show "ind_dj_can_motor_callback rd fl fd st = Some (Inl OutOfBounds)" if "cid \<le> 0x200"
    using canid_configured(2) [OF tab that] rd cid by (simp add: ind_dj_can_motor_callback_def)
  show "ind_dj_can_motor_callback rd fl fd st = Some (Inl NullDeref)" if "0x205 \<le> cid"
    using canid_configured(3) [OF tab that] rd cid by (simp add: ind_dj_can_motor_callback_def)
  show "\<exists>st'. ind_dj_can_motor_callback rd fl fd st = Some (Inr st') \<and> dj_inv (n + 1) st'"
    if "0x200 < cid \<and> cid < 0x205"
  proof -
    define k where "k = unat cid - 0x201"
    have u: "0x200 < unat cid" "unat cid < 0x205" using that by (simp_all add: word_less_nat_alt)
    then have k: "k < 4" "unat cid = 0x201 + k" by (simp_all add: k_def)
    have "of_nat (unat cid) = cid" by simp
    then have "cid = of_nat (0x201 + k)" unfolding k(2) by simp
    then have "ucast (msg_id msg) = CAN_Motor1_ID + (of_nat k :: u16)"
      using cid by (simp add: CAN_Motor1_ID_def)
    from dj_report [where rd = rd, OF inv n k(1) rd this] show ?thesis by blast
  qed
qed

theorem dj_frame_ids_witness:
  "ind_dj_can_motor_callback (\<lambda>dev. (zero_msg\<lparr>msg_id := 0x205\<rparr>, dev)) demo_round (\<lambda>x. x) demo_dj =
     Some (Inl NullDeref) \<and>
   ind_dj_can_motor_callback (\<lambda>dev. (zero_msg\<lparr>msg_id := 0x200\<rparr>, dev)) demo_round (\<lambda>x. x) demo_dj =
     Some (Inl OutOfBounds)"
  using dj_frame_ids [OF demo_dj_facts(3), of "\<lambda>dev. (zero_msg\<lparr>msg_id := 0x205\<rparr>, dev)" _ _ "0x205"]
    dj_frame_ids [OF demo_dj_facts(3), of "\<lambda>dev. (zero_msg\<lparr>msg_id := 0x200\<rparr>, dev)" _ _ "0x200"]
  by simp

end
