(* ===== verification/Drive.thy ===== *)
theory Drive
  imports Chassis DjLoop
begin

section \<open>The drive train: chassis, motor layer and CAN driver together\<close>

text \<open>
  The bank of motors of theory Chassis is here the one that the CAN driver of theories DjMotor
  and DjLoop works on. The chassis thread calls \<open>chassis_handle\<close>, other threads set a target,
  the CAN interrupt reports and the driver thread serves the reports; the theory shows that
  any interleaving of these keeps the invariants of all layers, and what a target of the
  chassis becomes on the wire.
\<close>

subsection \<open>A round of the chassis on the driver's motors\<close>

definition wheel :: "chassis_mai_data_t \<Rightarrow> nat \<Rightarrow> real" where
  "wheel d k = [motor1 d, motor2 d, motor3 d, motor4 d] ! k"

definition retarget :: "chassis_status \<Rightarrow> real \<Rightarrow> motor_t \<Rightarrow> motor_t" where
  "retarget mode v m =
     (case mode of
        CHASSIS_IDLE \<Rightarrow> m
      | CHASSIS_SPEED \<Rightarrow> m\<lparr>flag_run_mode := ucast MOTOR_MODE_SPEED, tar_speed := v\<rparr>
      | CHASSIS_POS \<Rightarrow> m\<lparr>flag_run_mode := ucast MOTOR_MODE_POS, tar_pos := v\<rparr>)"

lemma retarget_simps:
  "retarget CHASSIS_SPEED v = (\<lambda>m. m\<lparr>flag_run_mode := ucast MOTOR_MODE_SPEED, tar_speed := v\<rparr>)"
  "retarget CHASSIS_POS v = (\<lambda>m. m\<lparr>flag_run_mode := ucast MOTOR_MODE_POS, tar_pos := v\<rparr>)"
  by (simp_all add: fun_eq_iff retarget_def)

text \<open>What a bank looks like after each of its four motors got its value.\<close>

definition retargeted :: "chassis_status \<Rightarrow> (nat \<Rightarrow> real) \<Rightarrow> 'w motors \<Rightarrow> 'w motors \<Rightarrow> bool" where
  "retargeted mode v b b' \<longleftrightarrow> motors_ok b' \<and> apids b' = apids b \<and> mworld b' = mworld b \<and>
     (\<forall>k < 4. motor_list b' ! k = retarget mode (v k) (motor_list b ! k))"

lemma retargeted_wired: "retargeted mode v b b' \<Longrightarrow> wired b \<Longrightarrow> wired b'"
  by (auto simp: retargeted_def wired_def motor_wired_def retarget_def split: chassis_status.split)

lemma retargeted_inv: "retargeted mode v b b' \<Longrightarrow> dj_inv n b \<Longrightarrow> dj_inv n b'"
  using retargeted_wired [of mode v b b'] by (simp add: dj_inv_def retargeted_def)

lemma set_motors_retarget:
  assumes "motors_ok (bank st)"
  shows "\<exists>b. set_motors motor_set_pos st = Inr (st\<lparr>bank := b\<rparr>) \<and>
      retargeted CHASSIS_POS (wheel (mai_data st)) (bank st) b"
    and "\<exists>b. set_motors motor_set_speed st = Inr (st\<lparr>bank := b\<rparr>) \<and>
      retargeted CHASSIS_SPEED (wheel (mai_data st)) (bank st) b"
proof -
  let ?put = "\<lambda>mode k b. put_motor b k (retarget mode (wheel (mai_data st) k))"
  let ?all = "\<lambda>mode. ?put mode 3 (?put mode 2 (?put mode 1 (?put mode 0 (bank st))))"
  have "retargeted mode (wheel (mai_data st)) (bank st) (?all mode)" for mode
    using assms by (auto simp: retargeted_def nth_put_motor less_Suc_eq numeral_eq_Suc)
  moreover have "set_motors motor_set_pos st = Inr (st\<lparr>bank := ?all CHASSIS_POS\<rparr>)"
    "set_motors motor_set_speed st = Inr (st\<lparr>bank := ?all CHASSIS_SPEED\<rparr>)"
    using assms
    by (simp_all add: set_motors_def motor_set_pos_def motor_set_speed_def motor_ids retarget_simps wheel_def)
  ultimately show "\<exists>b. set_motors motor_set_pos st = Inr (st\<lparr>bank := b\<rparr>) \<and>
      retargeted CHASSIS_POS (wheel (mai_data st)) (bank st) b"
    "\<exists>b. set_motors motor_set_speed st = Inr (st\<lparr>bank := b\<rparr>) \<and>
      retargeted CHASSIS_SPEED (wheel (mai_data st)) (bank st) b"
    by blast+
qed

text \<open>The target that wheel \<open>k\<close> gets from the target of the chassis; the position offset is cleared first.\<close>

definition wheel_target :: "rounding \<Rightarrow> rounding \<Rightarrow> chassis_t \<Rightarrow> nat \<Rightarrow> real" where
  "wheel_target fl fd c k =
     (let g = mai_geometry fl fd;
          c0 = c\<lparr>coffset := (coffset c)\<lparr>cpos := \<lparr>x_m = 0, y_m = 0, z_rad = 0\<rparr>\<rparr>\<rparr>;
          d0 = \<lparr>ctype = CHASSIS_IDLE, motor1 = 0, motor2 = 0, motor3 = 0, motor4 = 0\<rparr>
      in wheel (case crun_status c of
           CHASSIS_IDLE \<Rightarrow> d0
         | CHASSIS_SPEED \<Rightarrow> speed_output fl fd g c0 d0
         | CHASSIS_POS \<Rightarrow> pos_output fl fd g c0 d0) k)"

definition drive_inv :: "int \<Rightarrow> 'd dj robot \<Rightarrow> bool" where
  "drive_inv n st \<longleftrightarrow> cops (chassis_mai st) = Some Ops_mai \<and> dj_inv n (bank st)"

lemma drive_inv_ready: "drive_inv n st \<Longrightarrow> mai_ready st"
  by (auto simp: drive_inv_def mai_ready_def dj_inv_def intro: wired_ok)

lemma chassis_round:
  assumes "mai_ready st"
  shows "\<exists>st'. chassis_handle fl fd False st = Inr (0, st') \<and> cops (chassis_mai st') = Some Ops_mai \<and>
    ctarget (chassis_mai st') = ctarget (chassis_mai st) \<and>
    crun_status (chassis_mai st') = crun_status (chassis_mai st) \<and>
    retargeted (crun_status (chassis_mai st)) (wheel_target fl fd (chassis_mai st)) (bank st) (bank st')"
proof -
  obtain st2 where st2: "bind_res (chassis_updata_speed fl fd st) (chassis_updata_pos fl fd) = Inr st2"
    "bank st2 = bank st" "cops (chassis_mai st2) = Some Ops_mai"
    "ctarget (chassis_mai st2) = ctarget (chassis_mai st)"
    "coffset (chassis_mai st2) = coffset (chassis_mai st)"
    "crun_status (chassis_mai st2) = crun_status (chassis_mai st)"
    by (rule chassis_measure [OF assms, of fl fd])
  obtain st1 where s1: "chassis_updata_speed fl fd st = Inr st1" "chassis_updata_pos fl fd st1 = Inr st2"
    using st2(1) by auto
  define st3 where "st3 = chassis_updata_offset st2"
  have b3: "motors_ok (bank st3)" "bank st3 = bank st" "cops (chassis_mai st3) = Some Ops_mai"
    "crun_status (chassis_mai st3) = crun_status (chassis_mai st)"
    "ctarget (chassis_mai st3) = ctarget (chassis_mai st)"
    using assms st2 by (simp_all add: st3_def chassis_updata_offset_def mai_ready_def)
  let ?mode = "crun_status (chassis_mai st)"
  define st4 where "st4 = module_mai fl fd True False ?mode st3"
  have m4: "module_mai fl fd True False ?mode st3 = st4" by (simp add: st4_def)
  have 4: "bank st4 = bank st" "chassis_mai st4 = chassis_mai st3"
    using b3(2) by (simp_all add: st4_def module_mai_def Let_def)
  have w: "wheel (mai_data st4) = wheel_target fl fd (chassis_mai st)" if "?mode \<noteq> CHASSIS_IDLE"
    using that st2 by (cases ?mode) (simp_all add: fun_eq_iff st4_def module_mai_def wheel_target_def wheel_def
      Let_def st3_def chassis_updata_offset_def speed_output_def pos_output_def)
  have h: "chassis_handle fl fd False st = bind_res (case ?mode of
        CHASSIS_IDLE \<Rightarrow> Inr st3
      | CHASSIS_SPEED \<Rightarrow> chassis_drv_set_speed fl fd st3
      | CHASSIS_POS \<Rightarrow> chassis_drv_set_pos fl fd st3) (\<lambda>st4. Inr (0, st4))"
    using s1 b3(4) by (simp add: chassis_handle_def Let_def st3_def cong: chassis_status.case_cong)
  show ?thesis
  proof (cases ?mode)
    case CHASSIS_IDLE
    have "retargeted ?mode (wheel_target fl fd (chassis_mai st)) (bank st) (bank st3)"
      using CHASSIS_IDLE b3 by (simp add: retargeted_def retarget_def)
    with CHASSIS_IDLE show ?thesis using h b3 by (intro exI [of _ st3]) simp
  next
    case CHASSIS_SPEED
    from set_motors_retarget(2) [of st4] obtain b where b: "set_motors motor_set_speed st4 = Inr (st4\<lparr>bank := b\<rparr>)"
      "retargeted CHASSIS_SPEED (wheel (mai_data st4)) (bank st) b" using b3 4 by auto
    then have "chassis_handle fl fd False st = Inr (0, st4\<lparr>bank := b\<rparr>)"
      using CHASSIS_SPEED h b3 4 m4 [unfolded CHASSIS_SPEED]
      by (simp add: chassis_drv_set_speed_def call_module_def call_driver_def driver_mai_def)
    then show ?thesis using b CHASSIS_SPEED w b3 4 by (intro exI [of _ "st4\<lparr>bank := b\<rparr>"]) simp
  next
    case CHASSIS_POS
    from set_motors_retarget(1) [of st4] obtain b where b: "set_motors motor_set_pos st4 = Inr (st4\<lparr>bank := b\<rparr>)"
      "retargeted CHASSIS_POS (wheel (mai_data st4)) (bank st) b" using b3 4 by auto
    then have "chassis_handle fl fd False st = Inr (0, st4\<lparr>bank := b\<rparr>)"
      using CHASSIS_POS h b3 4 m4 [unfolded CHASSIS_POS]
      by (simp add: chassis_drv_set_pos_def call_module_def call_driver_def driver_mai_def)
    then show ?thesis using b CHASSIS_POS w b3 4 by (intro exI [of _ "st4\<lparr>bank := b\<rparr>"]) simp
  qed
qed

subsection \<open>Every interleaving of the threads\<close>

datatype drive_event = Can dj_event | Chassis_round | Drive_pos chassis_pos_t | Drive_speed chassis_speed_t

fun drive_event_ok :: "drive_event \<Rightarrow> bool" where
  "drive_event_ok (Can e) = dj_event_ok e"
| "drive_event_ok e = True"

fun drive_step ::
    "'d can_write \<Rightarrow> 'd can_read \<Rightarrow> rounding \<Rightarrow> rounding \<Rightarrow> drive_event \<Rightarrow> 'd dj robot \<Rightarrow>
     'd dj robot res option" where
  "drive_step wr rd fl fd (Can e) st =
     map_option (\<lambda>r. bind_res r (\<lambda>b. Inr (st\<lparr>bank := b\<rparr>))) (dj_step wr rd fl fd e (bank st))"
| "drive_step wr rd fl fd Chassis_round st =
     Some (bind_res (chassis_handle fl fd False st) (\<lambda>(_, st'). Inr st'))"
| "drive_step wr rd fl fd (Drive_pos p) st = Some (Inr (chassis_set_pos st p))"
| "drive_step wr rd fl fd (Drive_speed v) st = Some (Inr (chassis_set_speed st v))"

fun drive_run ::
    "'d can_write \<Rightarrow> 'd can_read \<Rightarrow> rounding \<Rightarrow> rounding \<Rightarrow> drive_event list \<Rightarrow> 'd dj robot \<Rightarrow>
     'd dj robot res option" where
  "drive_run wr rd fl fd [] st = Some (Inr st)"
| "drive_run wr rd fl fd (e # es) st =
     (case drive_step wr rd fl fd e st of
        None \<Rightarrow> None
      | Some (Inl x) \<Rightarrow> Some (Inl x)
      | Some (Inr st') \<Rightarrow> drive_run wr rd fl fd es st')"

lemma drive_step_safe:
  assumes fl: "single_time fl" and can: "can_keeps wr rd P" and inv: "drive_inv n st" and n: "n < 262000"
    and P: "P (can_dev (mworld (bank st)))" and ok: "drive_event_ok e"
  shows "\<exists>st'. drive_step wr rd fl fd e st = Some (Inr st') \<and> drive_inv (n + 1) st' \<and>
    P (can_dev (mworld (bank st')))"
proof -
  have d: "dj_inv n (bank st)" "cops (chassis_mai st) = Some Ops_mai" using inv by (simp_all add: drive_inv_def)
  have up: "dj_inv n b \<Longrightarrow> dj_inv (n + 1) b" for b :: "'a dj motors"
    using dj_ok_mono [of n "mworld b" "n + 1"] by (simp add: dj_inv_def)
  show ?thesis
  proof (cases e)
    case (Can x)
    from dj_step_safe [OF fl can d(1) n P, of x fd] ok Can show ?thesis
      using d(2) by (auto simp: drive_inv_def)
  next
    case Chassis_round
    from chassis_round [OF drive_inv_ready [OF inv], of fl fd] obtain st' where st':
      "chassis_handle fl fd False st = Inr (0, st')" "cops (chassis_mai st') = Some Ops_mai"
      "retargeted (crun_status (chassis_mai st)) (wheel_target fl fd (chassis_mai st)) (bank st) (bank st')"
      by auto
    moreover have "mworld (bank st') = mworld (bank st)" using st'(3) by (simp add: retargeted_def)
    ultimately show ?thesis
      using Chassis_round P up [OF retargeted_inv [OF st'(3) d(1)]] by (simp add: drive_inv_def)
  qed (use P up [OF d(1)] d(2) in \<open>simp_all add: drive_inv_def chassis_set_pos_def chassis_set_speed_def\<close>)
qed

lemma drive_run_safe:
  assumes fl: "single_time fl" and can: "can_keeps wr rd P" and "drive_inv n st"
    and "P (can_dev (mworld (bank st)))" and "list_all drive_event_ok es" and "n + int (length es) \<le> 262000"
  shows "\<exists>st'. drive_run wr rd fl fd es st = Some (Inr st') \<and> drive_inv (n + int (length es)) st' \<and>
    P (can_dev (mworld (bank st')))"
  using assms(3-)
proof (induction es arbitrary: st n)
  case Nil
  then show ?case by simp
next
  case (Cons e es)
  from drive_step_safe [OF fl can Cons.prems(1) _ Cons.prems(2), of e fd] Cons.prems(3,4) obtain st1 where
    st1: "drive_step wr rd fl fd e st = Some (Inr st1)" "drive_inv (n + 1) st1" "P (can_dev (mworld (bank st1)))"
    by auto
  from Cons.IH [OF st1(2,3)] Cons.prems(3,4) st1(1) show ?case by (simp add: algebra_simps)
qed

subsection \<open>From the target of the chassis to the wire\<close>

text \<open>
  A CAN link as the driver expects it: reading takes the oldest message of the inbox, writing
  succeeds (it returns the size of the message) and the frame is sent.
\<close>

definition can_link ::
    "'d can_write \<Rightarrow> 'd can_read \<Rightarrow> ('d \<Rightarrow> rt_can_msg list) \<Rightarrow> ('d \<Rightarrow> rt_can_msg list) \<Rightarrow> bool" where
  "can_link wr rd inbox sent \<longleftrightarrow>
     (\<forall>dev m ms. inbox dev = m # ms \<longrightarrow> fst (rd dev) = m \<and> inbox (snd (rd dev)) = ms) \<and>
     (\<forall>dev. sent (snd (rd dev)) = sent dev) \<and>
     (\<forall>dev f. fst (wr f dev) = sizeof_msg \<and> inbox (snd (wr f dev)) = inbox dev \<and>
        sent (snd (wr f dev)) = sent dev @ [f])"

text \<open>
  The command of one wheel as a function of its target, its report and its two controllers:
  the reference for the cascade. \<open>pid_out\<close> is the output of one step of a controller.
\<close>

definition pid_out :: "rounding \<Rightarrow> apid_t \<Rightarrow> real \<Rightarrow> real \<Rightarrow> real" where
  "pid_out fl p t x =
     (case APID_Hander fl (APID_Set_Present (APID_Set_Target p t) x) 1 of
        Inl _ \<Rightarrow> 0 | Inr p' \<Rightarrow> APID_Get_Out p')"

definition report_pos :: "rounding \<Rightarrow> rounding \<Rightarrow> rt_can_msg \<Rightarrow> motor_measure_t \<Rightarrow> real" where
  "report_pos fl fd msg m =
     (case dj_measure (be16 (msg_data msg) 0) m of
        Inl _ \<Rightarrow> 0 | Inr m' \<Rightarrow> fl (fd (fl (of_int (total_angle m')) * KK fl fd)))"

definition motor_current ::
    "rounding \<Rightarrow> rounding \<Rightarrow> rt_can_msg \<Rightarrow> 'd dj motors \<Rightarrow> nat \<Rightarrow> real" where
  "motor_current fl fd msg st k =
     (let m = motor_list st ! k;
          v = fl (of_int (sint (be16 (msg_data msg) 2)) / 36);
          x = report_pos fl fd msg (dj_motors (mworld st) ! k)
      in pid_out fl (the (apids st (2 * k)))
           (if flag_run_mode m = 3 then pid_out fl (the (apids st (Suc (2 * k)))) (tar_pos m) x else tar_speed m) v)"

definition chop :: "real \<Rightarrow> int" where
  "chop v = (if v \<ge> 0 then \<lfloor>v\<rfloor> else \<lceil>v\<rceil>)"

definition current_frame :: "16 word list \<Rightarrow> rt_can_msg" where
  "current_frame iq = zero_msg\<lparr>msg_len := 8, msg_id := CAN_Motor_ALL_ID, msg_data := iq_bytes iq\<rparr>"

text \<open>A driver with nothing to do: the queue is empty and every motor has reported.\<close>

definition dj_idle :: "int \<Rightarrow> 'd dj motors \<Rightarrow> bool" where
  "dj_idle n st \<longleftrightarrow> dj_inv n st \<and> pending (mworld st) = [] \<and>
     list_all (\<lambda>m. msg_cnt m = 0xff) (dj_motors (mworld st))"

text \<open>What the driver knows about motor \<open>i\<close> alone.\<close>

definition motor_view :: "'d dj motors \<Rightarrow> nat \<Rightarrow> motor_t \<times> motor_measure_t \<times> apid_t option \<times> apid_t option" where
  "motor_view st i = (motor_list st ! i, dj_motors (mworld st) ! i, apids st (2 * i), apids st (Suc (2 * i)))"

lemma motor_current_view:
  "motor_view st k = motor_view st' k \<Longrightarrow> motor_current fl fd msg st k = motor_current fl fd msg st' k"
  by (simp add: motor_view_def motor_current_def Let_def cong: if_cong)

lemma cascade_current:
  assumes "cascade_result fl st k 1 st'" and m: "m = motor_list st ! k"
    and "flag_run_mode m \<in> {2, 3}" and "pid_speed m = Some (2 * k)" and "pid_pos m = Some (Suc (2 * k))"
  shows "acc_out (motor_list st' ! k) = pid_out fl (the (apids st (2 * k)))
    (if flag_run_mode m = 3 then pid_out fl (the (apids st (Suc (2 * k)))) (tar_pos m) (cur_pos m)
     else tar_speed m) (cur_speed m)"
proof (cases "flag_run_mode m = 3")
  case True
  then have "ucast (flag_run_mode m) = MOTOR_MODE_POS" by (simp add: motor_modes)
  with True show ?thesis
    using assms(1,4,5) unfolding cascade_result_def Let_def m [symmetric]
    by (clarsimp simp: pid_at_def pid_out_def motor_modes)
next
  case False
  with assms(3) have "flag_run_mode m = 2" "ucast (flag_run_mode m) = MOTOR_MODE_SPEED" by (simp_all add: motor_modes)
  then show ?thesis
    using assms(1,4,5) unfolding cascade_result_def Let_def m [symmetric]
    by (clarsimp simp: pid_at_def pid_out_def motor_modes)
qed

lemma dj_serve:
  assumes fl: "single_time fl" and link: "can_link wr rd inbox sent" and idle: "dj_idle n st"
    and n: "n < 262000" and k: "k < 4" and inb: "inbox (can_dev (mworld st)) = msg # ms"
    and cid: "ucast (msg_id msg) = CAN_Motor1_ID + (of_nat k :: u16)"
    and mode: "flag_run_mode (motor_list st ! k) \<in> {2, 3}"
  shows "\<exists>st2 q. dj_run wr rd fl fd [Report, Turn] st = Some (Inr st2) \<and> dj_idle (n + 1) st2 \<and>
    inbox (can_dev (mworld st2)) = ms \<and> iq1_low (mworld st2) = (iq1_low (mworld st))[k := q] \<and>
    sint q = chop (motor_current fl fd msg st k) \<and>
    sent (can_dev (mworld st2)) = sent (can_dev (mworld st)) @ [current_frame (iq1_low (mworld st2))] \<and>
    frame_ok (current_frame (iq1_low (mworld st2))) \<and>
    (\<forall>i. i \<noteq> k \<longrightarrow> motor_view st2 i = motor_view st i)"
proof -
  have inv: "dj_inv n st" and empty: "pending (mworld st) = []"
    and all: "list_all (\<lambda>m. msg_cnt m = 0xff) (dj_motors (mworld st))" using idle by (simp_all add: dj_idle_def)
  obtain dev where rd: "rd (can_dev (mworld st)) = (msg, dev)" and dev: "inbox dev = ms"
    "sent dev = sent (can_dev (mworld st))"
    using link inb unfolding can_link_def by (metis prod.collapse)
  from dj_report [OF inv _ k, where rd = rd and fl = fl and fd = fd, OF _ rd cid] n obtain st1 m where st1:
    "ind_dj_can_motor_callback rd fl fd st = Some (Inr st1)" "dj_inv (n + 1) st1"
    "pending (mworld st1) = lastn 4096 (pending (mworld st) @ [of_nat k])"
    "dj_measure (be16 (msg_data msg) 0) (dj_motors (mworld st) ! k) = Inr m"
    "dj_motors (mworld st1) = (dj_motors (mworld st))[k := m]"
    "iq1_low (mworld st1) = iq1_low (mworld st)" "can_dev (mworld st1) = dev" "apids st1 = apids st"
    "motor_list st1 = (motor_list st)[k := (motor_list st ! k)\<lparr>
       cur_speed := fl (of_int (sint (be16 (msg_data msg) 2)) / 36),
       cur_torque := of_int (sint (be16 (msg_data msg) 4)),
       cur_pos := fl (fd (fl (of_int (total_angle m)) * KK fl fd))\<rparr>]" by auto
  have w: "wired st" and ok: "dj_ok n (mworld st)" using inv by (simp_all add: dj_inv_def)
  note e = dj_ok_entry [OF ok k]
  have len: "k < length (motor_list st)" using wired_ok [OF w] k by (simp add: motors_ok_def)
  have "msg_cnt (dj_motors (mworld st) ! k) = 0xff" using all e by (simp add: list_all_length)
  then have "msg_cnt m = 0xff"
    using dj_measure_ok [of "dj_motors (mworld st) ! k" n "be16 (msg_data msg) 0"] e n st1(4) by auto
  then have all1: "list_all (\<lambda>m. msg_cnt m = 0xff) (dj_motors (mworld st1))"
    using all set_update_subset_insert [of "dj_motors (mworld st)" k m] by (auto simp: st1(5) list_all_iff)
  have q1: "pending (mworld st1) = [of_nat k]" using st1(3) empty by simp
  have uk: "unat (of_nat k :: u8) = k" using less_4_cases [OF k] by auto
  from dj_turn_serve [OF st1(2) q1, of wr fl] obtain d where d:
    "can_rx_turn wr fl st1 = motor_handle motor_dj_ctr (motor_dj_driver wr) fl (st1\<lparr>mworld := d\<rparr>) (int k) 1"
    "dj_inv (n + 1) (st1\<lparr>mworld := d\<rparr>)" "pending d = []" "can_dev d = dev"
    "dj_motors d = dj_motors (mworld st1)" "iq1_low d = iq1_low (mworld st)"
    unfolding uk by (auto simp: Let_def st1(6,7))
  from dj_handle [OF fl d(2) k, of wr] obtain st2 st4 q t where h:
    "motor_handle motor_dj_ctr (motor_dj_driver wr) fl (st1\<lparr>mworld := d\<rparr>) (int k) 1 = Inr st2"
    "dj_inv (n + 1) st2" "pending (mworld st2) = []"
    "cascade_result fl (put_motor st1 k (\<lambda>m. m\<lparr>mtime := t, flag_is_stop := False\<rparr>)) k 1 st4"
    "sint q = chop (acc_out (motor_list st4 ! k))" "iq1_low (mworld st2) = (iq1_low (mworld st))[k := q]"
    "frame_ok (current_frame (iq1_low (mworld st2)))"
    "can_dev (mworld st2) = snd (wr (current_frame (iq1_low (mworld st2))) dev)"
    "fst (wr (current_frame (iq1_low (mworld st2))) dev) = sizeof_msg \<longrightarrow>
       dj_motors (mworld st2) = dj_motors (mworld st1)"
    "\<forall>i. i \<noteq> k \<longrightarrow> motor_list st2 ! i = motor_list st1 ! i" "\<forall>a. a div 2 \<noteq> k \<longrightarrow> apids st2 a = apids st1 a"
    using all1 d(3-6) by (auto simp: Let_def current_frame_def chop_def cascade_result_world)
  have tab: "dj_motors (mworld st2) = (dj_motors (mworld st))[k := m]"
    using h(9) link st1(5) by (simp add: can_link_def)
  have "\<forall>i. i \<noteq> k \<longrightarrow> motor_view st2 i = motor_view st i"
    using h(10,11) st1(8,9) tab by (simp add: motor_view_def)
  moreover have "acc_out (motor_list st4 ! k) = motor_current fl fd msg st k"
  proof -
    let ?st = "put_motor st1 k (\<lambda>m. m\<lparr>mtime := t, flag_is_stop := False\<rparr>)"
    have m: "motor_list ?st ! k = (motor_list st ! k)\<lparr>mtime := t, flag_is_stop := False,
       cur_speed := fl (of_int (sint (be16 (msg_data msg) 2)) / 36),
       cur_torque := of_int (sint (be16 (msg_data msg) 4)),
       cur_pos := fl (fd (fl (of_int (total_angle m)) * KK fl fd))\<rparr>"
      using st1(9) len by (simp add: put_motor_def)
    show ?thesis
      by (subst cascade_current [OF h(4) refl])
        (use mode wired_motor [OF w k] st1(4,8) in
          \<open>simp_all add: m motor_current_def report_pos_def Let_def motor_wired_def cong: if_cong\<close>)
  qed
  moreover have "dj_idle (n + 1) st2"
    using h(2,3) tab all1 st1(5) by (simp add: dj_idle_def)
  moreover have "dj_run wr rd fl fd [Report, Turn] st = Some (Inr st2)"
    using st1(1) d(1) h(1) by simp
  moreover have "inbox (can_dev (mworld st2)) = ms"
    "sent (can_dev (mworld st2)) = sent (can_dev (mworld st)) @ [current_frame (iq1_low (mworld st2))]"
    using h(8) link dev by (simp_all add: can_link_def)
  ultimately show ?thesis using h(5-7) by auto
qed

text \<open>One report and one turn per motor: every motor served once.\<close>

fun serve_events :: "nat list \<Rightarrow> dj_event list" where
  "serve_events [] = []"
| "serve_events (k # ks) = Report # Turn # serve_events ks"

lemma dj_run_append:
  "dj_run wr rd fl fd (es @ fs) st =
     (case dj_run wr rd fl fd es st of
        None \<Rightarrow> None | Some (Inl x) \<Rightarrow> Some (Inl x) | Some (Inr st') \<Rightarrow> dj_run wr rd fl fd fs st')"
  by (induction es arbitrary: st) (simp_all split: option.split sum.split)

lemma serve_all:
  assumes fl: "single_time fl" and link: "can_link wr rd inbox sent"
    and "dj_idle n st" "n + int (length ks) \<le> 262000" "distinct ks"
    and "inbox (can_dev (mworld st)) = map msg ks"
    and "\<forall>k \<in> set ks. k < 4 \<and> ucast (msg_id (msg k)) = CAN_Motor1_ID + (of_nat k :: u16) \<and>
      flag_run_mode (motor_list st ! k) \<in> {2, 3}"
  shows "\<exists>st'. dj_run wr rd fl fd (serve_events ks) st = Some (Inr st') \<and> dj_idle (n + int (length ks)) st' \<and>
    (\<forall>k < 4. sint (iq1_low (mworld st') ! k) =
       (if k \<in> set ks then chop (motor_current fl fd (msg k) st k) else sint (iq1_low (mworld st) ! k))) \<and>
    (ks \<noteq> [] \<longrightarrow> (\<exists>fs. length fs + 1 = length ks \<and>
       sent (can_dev (mworld st')) = sent (can_dev (mworld st)) @ fs @ [current_frame (iq1_low (mworld st'))])) \<and>
    (ks \<noteq> [] \<longrightarrow> frame_ok (current_frame (iq1_low (mworld st'))))"
  using assms(3-)
proof (induction ks arbitrary: st n)
  case Nil
  then show ?case by (auto intro: exI [of _ st])
next
  case (Cons k ks)
  have k: "k < 4" "k \<notin> set ks" using Cons.prems by simp_all
  from dj_serve [OF fl link Cons.prems(1) _ k(1), of "msg k" "map msg ks" fd] Cons.prems obtain st1 q where st1:
    "dj_run wr rd fl fd [Report, Turn] st = Some (Inr st1)" "dj_idle (n + 1) st1"
    "inbox (can_dev (mworld st1)) = map msg ks" "iq1_low (mworld st1) = (iq1_low (mworld st))[k := q]"
    "sint q = chop (motor_current fl fd (msg k) st k)"
    "sent (can_dev (mworld st1)) = sent (can_dev (mworld st)) @ [current_frame (iq1_low (mworld st1))]"
    "frame_ok (current_frame (iq1_low (mworld st1)))"
    "\<forall>i. i \<noteq> k \<longrightarrow> motor_view st1 i = motor_view st i"
    by auto
  have v: "motor_view st1 j = motor_view st j" if "j \<in> set ks" for j using st1(8) k(2) that by metis
  then have "motor_list st1 ! j = motor_list st ! j" if "j \<in> set ks" for j
    using that by (simp add: motor_view_def)
  then have p: "\<forall>j \<in> set ks. j < 4 \<and> ucast (msg_id (msg j)) = CAN_Motor1_ID + (of_nat j :: u16) \<and>
      flag_run_mode (motor_list st1 ! j) \<in> {2, 3}"
    using Cons.prems(5) by simp
  from Cons.IH [OF st1(2) _ _ st1(3) p] Cons.prems(2,3) obtain st' where st':
    "dj_run wr rd fl fd (serve_events ks) st1 = Some (Inr st')" "dj_idle (n + 1 + int (length ks)) st'"
    "\<forall>j < 4. sint (iq1_low (mworld st') ! j) =
       (if j \<in> set ks then chop (motor_current fl fd (msg j) st1 j) else sint (iq1_low (mworld st1) ! j))"
    "ks \<noteq> [] \<Longrightarrow> \<exists>fs. length fs + 1 = length ks \<and>
       sent (can_dev (mworld st')) = sent (can_dev (mworld st1)) @ fs @ [current_frame (iq1_low (mworld st'))]"
    "ks \<noteq> [] \<Longrightarrow> frame_ok (current_frame (iq1_low (mworld st')))" by auto
  have len: "length (iq1_low (mworld st)) = 4"
    using Cons.prems(1) by (simp add: dj_idle_def dj_inv_def dj_ok_def)
  have "dj_run wr rd fl fd (serve_events (k # ks)) st = Some (Inr st')"
    using dj_run_append [of wr rd fl fd "[Report, Turn]" "serve_events ks" st] st1(1) st'(1) by simp
  moreover have "sint (iq1_low (mworld st') ! j) =
       (if j \<in> set (k # ks) then chop (motor_current fl fd (msg j) st j) else sint (iq1_low (mworld st) ! j))"
    if "j < 4" for j
    using st'(3) that st1(4,5) len k motor_current_view [OF v, of j fl fd "msg j"] by (auto simp: nth_list_update)
  moreover have "\<exists>fs. length fs + 1 = length (k # ks) \<and>
       sent (can_dev (mworld st')) = sent (can_dev (mworld st)) @ fs @ [current_frame (iq1_low (mworld st'))]"
  proof (cases "ks = []")
    case True
    with st'(1) st1(6) show ?thesis by simp
  next
    case False
    from st'(4) [OF this] obtain fs where "length fs + 1 = length ks"
      "sent (can_dev (mworld st')) = sent (can_dev (mworld st1)) @ fs @ [current_frame (iq1_low (mworld st'))]" by blast
    with st1(6) show ?thesis by (intro exI [of _ "current_frame (iq1_low (mworld st1)) # fs"]) simp
  qed
  moreover have "frame_ok (current_frame (iq1_low (mworld st')))"
    using st'(1,5) st1(7) by (cases "ks = []") simp_all
  ultimately show ?case using st'(2) by (intro exI [of _ st']) (simp add: algebra_simps)
qed

subsection \<open>The properties of the drive train\<close>


text \<open>The robot after start-up, with the driver's motors.\<close>

definition demo_chassis :: "'d dj motors \<Rightarrow> 'd dj robot" where
  "demo_chassis b = chassis_port_init \<lparr>chassis_mai = \<lparr>ctarget = zero_data, cpresent = zero_data,
       crun_status = CHASSIS_IDLE, cops = None, coffset = zero_data\<rparr>,
     mai_data = \<lparr>ctype = CHASSIS_IDLE, motor1 = 0, motor2 = 0, motor3 = 0, motor4 = 0\<rparr>,
     bank = b, ops_pos_x = 0, ops_pos_y = 0, ops_w_z = 0\<rparr>"

lemma demo_chassis_facts [simp]:
  "bank (demo_chassis b) = b" "drive_inv n (demo_chassis b) = dj_inv n b"
  by (simp_all add: demo_chassis_def chassis_port_init_def chassis_init_def drive_inv_def)


text \<open>
  The current of wheel \<open>k\<close> for a target: in position mode the position controller turns the
  target and the reported angle into the speed target, in speed mode the target is used; the
  speed controller turns that and the reported speed into the current.
\<close>

definition wheel_current ::
    "rounding \<Rightarrow> rounding \<Rightarrow> chassis_status \<Rightarrow> real \<Rightarrow> rt_can_msg \<Rightarrow> 'd dj motors \<Rightarrow> nat \<Rightarrow> real" where
  "wheel_current fl fd mode t msg b k =
     pid_out fl (the (apids b (2 * k)))
       (if mode = CHASSIS_POS
        then pid_out fl (the (apids b (Suc (2 * k)))) t (report_pos fl fd msg (dj_motors (mworld b) ! k)) else t)
       (fl (of_int (sint (be16 (msg_data msg) 2)) / 36))"

lemma retargeted_current:
  assumes "retargeted mode v b b'" and "k < 4" and "mode \<noteq> CHASSIS_IDLE"
  shows "motor_current fl fd msg b' k = wheel_current fl fd mode (v k) msg b k"
    and "flag_run_mode (motor_list b' ! k) \<in> {2, 3}"
  using assms by (cases mode; simp add: retargeted_def motor_current_def wheel_current_def Let_def retarget_def motor_modes)+

text \<open>
  C7: From the target of the robot to the wire. When the chassis has a speed or position
  target, all motors have reported and no report is waiting, then a round of the chassis
  thread followed by one report of each motor, in any order, and the turns of the driver
  thread that serve them puts four frames on the bus, and in the last one the receiver finds
  for each of the four wheels its own current: the inverse kinematics of the chassis target,
  passed with the wheel's report through that wheel's own controllers and truncated.
\<close>

theorem chassis_target_on_wire:
  assumes fl: "single_time fl" and link: "can_link wr rd inbox sent"
    and ops: "cops (chassis_mai st) = Some Ops_mai" and idle: "dj_idle n (bank st)" and n: "n + 4 \<le> 262000"
    and mode: "crun_status (chassis_mai st) \<noteq> CHASSIS_IDLE"
    and ks: "distinct ks" "set ks = {0, 1, 2, 3}"
    and inb: "inbox (can_dev (mworld (bank st))) = map msg ks"
    and ids: "\<forall>k < 4. ucast (msg_id (msg k)) = CAN_Motor1_ID + (of_nat k :: u16)"
  shows "\<exists>st' b fs frame. chassis_handle fl fd False st = Inr (0, st') \<and>
    dj_run wr rd fl fd (serve_events ks) (bank st') = Some (Inr b) \<and> dj_idle (n + 4) b \<and>
    sent (can_dev (mworld b)) = sent (can_dev (mworld (bank st))) @ fs @ [frame] \<and> length fs = 3 \<and> frame_ok frame \<and>
    (\<forall>k < 4. sint (be16 (msg_data frame) (2 * k)) = chop (wheel_current fl fd
       (crun_status (chassis_mai st)) (wheel_target fl fd (chassis_mai st) k) (msg k) (bank st) k))"
proof -
  let ?mode = "crun_status (chassis_mai st)" and ?v = "wheel_target fl fd (chassis_mai st)"
  have inv: "drive_inv n st" using ops idle by (simp add: drive_inv_def dj_idle_def)
  from chassis_round [OF drive_inv_ready [OF inv], of fl fd] obtain st' where st':
    "chassis_handle fl fd False st = Inr (0, st')" "retargeted ?mode ?v (bank st) (bank st')" by blast
  have w: "mworld (bank st') = mworld (bank st)" using st'(2) by (simp add: retargeted_def)
  have idle': "dj_idle n (bank st')"
    using idle retargeted_inv [OF st'(2)] w by (simp add: dj_idle_def)
  have len: "length ks = 4" using distinct_card [OF ks(1)] ks(2) by simp
  have in4: "k \<in> set ks \<longleftrightarrow> k < 4" for k using ks(2) by auto
  from serve_all [OF fl link idle' _ ks(1), of msg fd] n len inb ids w in4
    retargeted_current(2) [OF st'(2) _ mode] obtain b fs where b:
    "dj_run wr rd fl fd (serve_events ks) (bank st') = Some (Inr b)" "dj_idle (n + 4) b"
    "\<forall>k < 4. sint (iq1_low (mworld b) ! k) = chop (motor_current fl fd (msg k) (bank st') k)"
    "length fs = 3" "sent (can_dev (mworld b)) = sent (can_dev (mworld (bank st))) @ fs @ [current_frame (iq1_low (mworld b))]"
    "frame_ok (current_frame (iq1_low (mworld b)))"
    by (auto simp: in4)
  have "length (iq1_low (mworld b)) = 4" using b(2) by (simp add: dj_idle_def dj_inv_def dj_ok_def)
  then have "\<forall>k < 4. sint (be16 (msg_data (current_frame (iq1_low (mworld b)))) (2 * k)) =
      chop (wheel_current fl fd ?mode (?v k) (msg k) (bank st) k)"
    using b(3) retargeted_current(1) [OF st'(2) _ mode] by (simp add: current_frame_def be16_iq_bytes)
  then show ?thesis using st'(1) b by blast
qed

text \<open>A link with the reports of the four motors waiting, in the order 2, 0, 3, 1.\<close>

definition link_read :: "(rt_can_msg list \<times> rt_can_msg list) can_read" where
  "link_read dev = (case fst dev of [] \<Rightarrow> (zero_msg, dev) | m # ms \<Rightarrow> (m, ms, snd dev))"

definition link_write :: "(rt_can_msg list \<times> rt_can_msg list) can_write" where
  "link_write f dev = (sizeof_msg, fst dev, snd dev @ [f])"

definition link_msg :: "nat \<Rightarrow> rt_can_msg" where
  "link_msg k = zero_msg\<lparr>msg_id := 0x201 + of_nat k, msg_data := [0x10, 0, 0, 72, 0, 9, 30, 0]\<rparr>"

definition link_dj :: "(rt_can_msg list \<times> rt_can_msg list) dj motors" where
  "link_dj = dj_booted demo_round ((dj_static (map link_msg [2, 0, 3, 1], []))\<lparr>dj_m_ringfifo := Some demo_ring\<rparr>)"

definition link_reported :: "(rt_can_msg list \<times> rt_can_msg list) dj motors" where
  "link_reported = link_dj\<lparr>mworld := (mworld link_dj)\<lparr>dj_motors :=
     map (\<lambda>m. m\<lparr>msg_cnt := 0xff\<rparr>) (dj_motors (mworld link_dj))\<rparr>\<rparr>"

lemma link_facts:
  "can_link link_write link_read fst snd" "dj_idle 0 link_reported"
  "can_dev (mworld link_reported) = (map link_msg [2, 0, 3, 1], [])"
  "\<forall>k < 4. ucast (msg_id (link_msg k)) = CAN_Motor1_ID + (of_nat k :: u16)"
proof -
  show "can_link link_write link_read fst snd"
    by (auto simp: can_link_def link_write_def link_read_def split: list.split)
  have r: "ring_inv demo_ring" "ring_data demo_ring = []" "buffer_size demo_ring = 4096"
    by (simp_all add: demo_ring_def ring_inv_def ring_data_def used_def ring_def)
  have inv: "dj_inv 0 link_dj" unfolding link_dj_def by (rule dj_inv_booted [OF r])
  then have ok: "wired link_dj" "dj_ok 0 (mworld link_dj)" by (simp_all add: dj_inv_def)
  have w: "mworld link_dj = (dj_static (map link_msg [2, 0, 3, 1], []))\<lparr>dj_m_ringfifo := Some demo_ring\<rparr>"
    by (simp add: link_dj_def dj_booted_def booted_def)
  from ok have "cfg_table (map (\<lambda>m. m\<lparr>msg_cnt := 0xff\<rparr>) (dj_motors (mworld link_dj)))"
    by (auto simp: dj_ok_def cfg_table_def)
  with ok have "dj_inv 0 link_reported"
    by (auto simp: dj_inv_def link_reported_def dj_ok_def pending_def cfg_table_def DJ_M_NUM_def)
  moreover have "pending (mworld link_reported) = []"
    using r(2) by (simp add: link_reported_def pending_def w)
  ultimately show "dj_idle 0 link_reported" by (simp add: dj_idle_def link_reported_def list_all_length)
  show "can_dev (mworld link_reported) = (map link_msg [2, 0, 3, 1], [])"
    by (simp add: link_reported_def w dj_static_def)
  show "\<forall>k < 4. ucast (msg_id (link_msg k)) = CAN_Motor1_ID + (of_nat k :: u16)"
    by (auto simp: link_msg_def CAN_Motor1_ID_def dest: less_4_cases)
qed

theorem chassis_target_on_wire_witness:
  "\<exists>st' b fs frame. chassis_handle demo_round (\<lambda>x. x) False
       (chassis_set_pos (demo_chassis link_reported) \<lparr>x_m = 1, y_m = 2, z_rad = 0\<rparr>) = Inr (0, st') \<and>
     dj_run link_write link_read demo_round (\<lambda>x. x) (serve_events [2, 0, 3, 1]) (bank st') = Some (Inr b) \<and>
     snd (can_dev (mworld b)) = fs @ [frame] \<and> length fs = 3 \<and> frame_ok frame"
proof -
  let ?st = "chassis_set_pos (demo_chassis link_reported) \<lparr>x_m = 1, y_m = 2, z_rad = 0\<rparr>"
  have st: "cops (chassis_mai ?st) = Some Ops_mai" "bank ?st = link_reported"
    "crun_status (chassis_mai ?st) = CHASSIS_POS"
    by (simp_all add: chassis_set_pos_def demo_chassis_def chassis_port_init_def chassis_init_def)
  have ks: "distinct [2, 0, 3, 1::nat]" "set [2, 0, 3, 1::nat] = {0, 1, 2, 3}" by auto
  show ?thesis
    using chassis_target_on_wire [OF demo_dj_facts(1) link_facts(1) st(1) _ _ _ ks, of 0 link_msg "\<lambda>x. x"]
      link_facts(2-4) st(2,3) by (auto simp del: serve_events.simps)
qed

end
