(* ===== verification/Gpio.thy ===== *)
theory Gpio
  imports Prelude
begin

section \<open>Pins and power switches (drv_gpio.c, aboard_power_switch.c, main.c)\<close>

text \<open>
  The pin driver of the STM32 down to the registers: a port has an output data register, and a
  write goes through the set/reset register. The configuration of a pin (mode and pull) is
  what \<open>HAL_GPIO_Init\<close> is given; a pull that the driver leaves unset is \<open>None\<close>. On top of it
  the power switches of the board, their configuration at start and what \<open>main\<close> does.
\<close>

subsection \<open>The driver\<close>

datatype gpio_mode = GPIO_MODE_OUTPUT_PP | GPIO_MODE_OUTPUT_OD | GPIO_MODE_INPUT
datatype gpio_pull = GPIO_NOPULL | GPIO_PULLUP | GPIO_PULLDOWN

record gpio =
  odr :: "nat \<Rightarrow> u16"
  conf :: "nat \<Rightarrow> nat \<Rightarrow> (gpio_mode \<times> gpio_pull option) option"

definition GET_PIN :: "int \<Rightarrow> int \<Rightarrow> int" where
  "GET_PIN port no = 16 * port + no"

definition PIN_PORT :: "int \<Rightarrow> nat" where "PIN_PORT pin = nat (drop_bit 4 pin AND 15)"
definition PIN_NO :: "int \<Rightarrow> nat" where "PIN_NO pin = nat (pin AND 15)"
definition PIN_STPORT_MAX :: nat where "PIN_STPORT_MAX = 11"
definition PIN_STPIN :: "int \<Rightarrow> u16" where "PIN_STPIN pin = push_bit (PIN_NO pin) 1"

definition PIN_MODE_OUTPUT :: u8 where "PIN_MODE_OUTPUT = 0"
definition PIN_MODE_INPUT :: u8 where "PIN_MODE_INPUT = 1"
definition PIN_MODE_INPUT_PULLUP :: u8 where "PIN_MODE_INPUT_PULLUP = 2"
definition PIN_MODE_INPUT_PULLDOWN :: u8 where "PIN_MODE_INPUT_PULLDOWN = 3"
definition PIN_MODE_OUTPUT_OD :: u8 where "PIN_MODE_OUTPUT_OD = 4"

lemmas pin_modes = PIN_MODE_OUTPUT_def PIN_MODE_INPUT_def PIN_MODE_INPUT_PULLUP_def
  PIN_MODE_INPUT_PULLDOWN_def PIN_MODE_OUTPUT_OD_def

text \<open>The low half of the set/reset register sets bits of the output register, the high half clears them.\<close>

definition write_BSRR :: "u32 \<Rightarrow> u16 \<Rightarrow> u16" where
  "write_BSRR v r = (r AND NOT (ucast (drop_bit 16 v))) OR ucast v"

definition HAL_GPIO_WritePin :: "nat \<Rightarrow> u16 \<Rightarrow> bool \<Rightarrow> gpio \<Rightarrow> gpio" where
  "HAL_GPIO_WritePin port gpio_pin v g =
     g\<lparr>odr := (odr g)(port := write_BSRR (if v then ucast gpio_pin else push_bit 16 (ucast gpio_pin)) (odr g port))\<rparr>"

definition rt_pin_write :: "int \<Rightarrow> bool \<Rightarrow> gpio \<Rightarrow> gpio" where
  "rt_pin_write pin v g =
     (if PIN_PORT pin < PIN_STPORT_MAX then HAL_GPIO_WritePin (PIN_PORT pin) (PIN_STPIN pin) v g else g)"

definition rt_pin_mode :: "int \<Rightarrow> u8 \<Rightarrow> gpio \<Rightarrow> gpio" where
  "rt_pin_mode pin mode g =
     (if PIN_PORT pin \<ge> PIN_STPORT_MAX then g
      else
        let c = (if mode = PIN_MODE_OUTPUT then (GPIO_MODE_OUTPUT_PP, Some GPIO_NOPULL)
                 else if mode = PIN_MODE_INPUT then (GPIO_MODE_INPUT, Some GPIO_NOPULL)
                 else if mode = PIN_MODE_INPUT_PULLUP then (GPIO_MODE_INPUT, Some GPIO_PULLUP)
                 else if mode = PIN_MODE_INPUT_PULLDOWN then (GPIO_MODE_INPUT, Some GPIO_PULLDOWN)
                 else if mode = PIN_MODE_OUTPUT_OD then (GPIO_MODE_OUTPUT_OD, Some GPIO_NOPULL)
                 else (GPIO_MODE_OUTPUT_PP, None))
        in g\<lparr>conf := (conf g)(PIN_PORT pin := (conf g (PIN_PORT pin))(PIN_NO pin := Some c))\<rparr>)"

subsection \<open>The switches\<close>

definition SWITCH_24V_1 :: int where "SWITCH_24V_1 = GET_PIN 7 5"
definition SWITCH_24V_2 :: int where "SWITCH_24V_2 = GET_PIN 7 4"
definition SWITCH_24V_3 :: int where "SWITCH_24V_3 = GET_PIN 7 2"
definition SWITCH_24V_4 :: int where "SWITCH_24V_4 = GET_PIN 7 3"
definition SWITCH_5V_1 :: int where "SWITCH_5V_1 = GET_PIN 6 13"
definition LED0_PIN :: int where "LED0_PIN = GET_PIN 5 14"

definition power_on :: "int \<Rightarrow> gpio \<Rightarrow> gpio" where
  "power_on i g = rt_pin_write i True g"

definition power_off :: "int \<Rightarrow> gpio \<Rightarrow> gpio" where
  "power_off i g = rt_pin_write i False g"

definition power_init :: "gpio \<Rightarrow> gpio" where
  "power_init g0 =
     (let g1 = rt_pin_mode SWITCH_24V_1 PIN_MODE_OUTPUT g0;
          g2 = rt_pin_mode SWITCH_24V_2 PIN_MODE_OUTPUT g1;
          g3 = rt_pin_mode SWITCH_24V_3 PIN_MODE_OUTPUT g2;
          g4 = rt_pin_mode SWITCH_24V_4 PIN_MODE_OUTPUT g3;
          g5 = rt_pin_mode SWITCH_5V_1 PIN_MODE_OUTPUT g4;
          g6 = power_off SWITCH_24V_1 g5;
          g7 = power_off SWITCH_24V_2 g6;
          g8 = power_off SWITCH_24V_3 g7;
          g9 = power_off SWITCH_24V_4 g8
      in power_off SWITCH_5V_1 g9)"

text \<open>\<open>main\<close> up to its endless loop, and the two half rounds of that loop, which blink a LED.\<close>

definition main_start :: "gpio \<Rightarrow> gpio" where
  "main_start g0 =
     (let g1 = rt_pin_mode LED0_PIN PIN_MODE_OUTPUT g0;
          g2 = rt_pin_mode LED0_PIN PIN_MODE_OUTPUT g1;
          g3 = power_on SWITCH_24V_1 g2;
          g4 = power_on SWITCH_24V_2 g3;
          g5 = power_off SWITCH_24V_3 g4;
          g6 = power_on SWITCH_24V_4 g5;
          g7 = power_on SWITCH_5V_1 g6
      in power_off SWITCH_24V_4 g7)"

definition main_blink :: "bool \<Rightarrow> gpio \<Rightarrow> gpio" where
  "main_blink v g = rt_pin_write LED0_PIN v g"

subsection \<open>The other pins\<close>

definition lamp_pins :: "int list" where
  "lamp_pins = [GET_PIN 6 1, GET_PIN 6 3, GET_PIN 6 5, GET_PIN 6 7]"

definition OUTPUT_PP :: u8 where "OUTPUT_PP = 0"

text \<open>
  The start of the thread \<open>color_com\<close>: whether the serial device is found and opened and takes
  the handler are the arguments; the second result says whether the handler is installed.
\<close>

definition color_com :: "bool \<Rightarrow> bool \<Rightarrow> bool \<Rightarrow> gpio \<Rightarrow> gpio \<times> bool" where
  "color_com found opened indicate g =
     (fold (\<lambda>p. rt_pin_mode p OUTPUT_PP) lamp_pins g, if \<not> found then False else if \<not> opened then False else indicate)"

definition write_lamps :: "bool list \<Rightarrow> gpio \<Rightarrow> gpio" where
  "write_lamps vs g = fold (\<lambda>(p, v). rt_pin_write p v) (zip lamp_pins vs) g"

definition infrared_pins :: "int list" where
  "infrared_pins = [GET_PIN 8 9, GET_PIN 0 4, GET_PIN 2 1, GET_PIN 2 0, GET_PIN 2 4, GET_PIN 2 5, GET_PIN 0 5, GET_PIN 5 10]"

definition Infrared_Init :: "gpio \<Rightarrow> gpio" where
  "Infrared_Init g = fold (\<lambda>p. rt_pin_mode p PIN_MODE_INPUT_PULLDOWN) infrared_pins g"

subsection \<open>What a pin drives\<close>

text \<open>A pin of the chip, and the level it drives: none unless it is configured as an output.\<close>

definition pin_ok :: "int \<Rightarrow> bool" where
  "pin_ok p \<longleftrightarrow> 0 \<le> p \<and> p < 16 * int PIN_STPORT_MAX"

definition drives :: "gpio \<Rightarrow> int \<Rightarrow> bool option" where
  "drives g p =
     (if conf g (PIN_PORT p) (PIN_NO p) = Some (GPIO_MODE_OUTPUT_PP, Some GPIO_NOPULL)
      then Some (bit (odr g (PIN_PORT p)) (PIN_NO p)) else None)"

lemma pin_parts:
  assumes "pin_ok p"
  shows "PIN_PORT p = nat (p div 16)" "PIN_NO p = nat (p mod 16)" "PIN_PORT p < PIN_STPORT_MAX" "PIN_NO p < 16"
proof -
  have m: "x AND 15 = x mod 16" for x :: int
    using take_bit_eq_mask [of 4 x] by (simp add: take_bit_eq_mod mask_eq_exp_minus_1)
  have p: "0 \<le> p" "p < 176" using assms by (simp_all add: pin_ok_def PIN_STPORT_MAX_def)
  then have "p div 16 mod 16 = p div 16" by (intro mod_pos_pos_trivial) auto
  then show "PIN_PORT p = nat (p div 16)" by (simp add: PIN_PORT_def m drop_bit_eq_div)
  then show "PIN_PORT p < PIN_STPORT_MAX" using p by (simp add: PIN_STPORT_MAX_def)
  show "PIN_NO p = nat (p mod 16)" by (simp add: PIN_NO_def m)
  then show "PIN_NO p < 16" by simp
qed

lemma pin_inject:
  assumes "pin_ok p" and "pin_ok q"
  shows "PIN_PORT p = PIN_PORT q \<and> PIN_NO p = PIN_NO q \<longleftrightarrow> p = q"
proof -
  have nn: "0 \<le> p div 16" "0 \<le> q div 16" "0 \<le> p mod 16" "0 \<le> q mod 16"
    using assms by (simp_all add: pin_ok_def pos_imp_zdiv_nonneg_iff)
  have "p = q" if "p div 16 = q div 16" "p mod 16 = q mod 16"
    using that by (metis div_mult_mod_eq)
  then show ?thesis
    using nn by (auto simp: pin_parts(1,2) [OF assms(1)] pin_parts(1,2) [OF assms(2)] eq_nat_nat_iff)
qed

lemma bit_write:
  assumes "n < 16" and "k < 16"
  shows "bit (write_BSRR (if v then ucast (push_bit k 1 :: u16) else push_bit 16 (ucast (push_bit k 1 :: u16))) r) n =
    (if n = k then v else bit r n)"
  using assms by (auto simp: write_BSRR_def bit_simps)

lemma drives_write:
  assumes "pin_ok p" and "pin_ok q"
  shows "drives (rt_pin_write p v g) q = (if p = q then map_option (\<lambda>_. v) (drives g q) else drives g q)"
proof (cases "PIN_PORT p = PIN_PORT q")
  case True
  have b: "bit (odr (rt_pin_write p v g) (PIN_PORT q)) (PIN_NO q) =
      (if PIN_NO q = PIN_NO p then v else bit (odr g (PIN_PORT q)) (PIN_NO q))"
    using True pin_parts(3,4) [OF assms(1)] bit_write [OF pin_parts(4) [OF assms(2)] pin_parts(4) [OF assms(1)]]
    by (simp add: rt_pin_write_def HAL_GPIO_WritePin_def PIN_STPIN_def del: push_bit_of_1 split del: if_split)
  have "conf (rt_pin_write p v g) = conf g" by (simp add: rt_pin_write_def HAL_GPIO_WritePin_def)
  moreover have "PIN_NO q = PIN_NO p \<longleftrightarrow> p = q" using pin_inject [OF assms] True by metis
  ultimately show ?thesis unfolding drives_def b by simp
next
  case False
  then have "p \<noteq> q" by blast
  with False show ?thesis by (simp add: drives_def rt_pin_write_def HAL_GPIO_WritePin_def)
qed

lemma drives_mode:
  assumes "pin_ok p"
  shows "drives (rt_pin_mode p PIN_MODE_OUTPUT g) p = Some (bit (odr g (PIN_PORT p)) (PIN_NO p))"
  using pin_parts(3) [OF assms] by (simp add: drives_def rt_pin_mode_def)

lemma drives_mode_other:
  assumes "pin_ok p" and "pin_ok q" and "p \<noteq> q"
  shows "drives (rt_pin_mode p m g) q = drives g q"
proof -
  have "conf (rt_pin_mode p m g) (PIN_PORT q) (PIN_NO q) = conf g (PIN_PORT q) (PIN_NO q)"
    using pin_inject [OF assms(1,2)] assms(3) by (auto simp: rt_pin_mode_def Let_def)
  moreover have "odr (rt_pin_mode p m g) = odr g" by (simp add: rt_pin_mode_def Let_def)
  ultimately show ?thesis by (simp add: drives_def)
qed

subsection \<open>The board after start-up\<close>

lemmas switches = SWITCH_24V_1_def SWITCH_24V_2_def SWITCH_24V_3_def SWITCH_24V_4_def SWITCH_5V_1_def
  LED0_PIN_def GET_PIN_def

lemma pin_ok_used:
  "pin_ok SWITCH_24V_1" "pin_ok SWITCH_24V_2" "pin_ok SWITCH_24V_3" "pin_ok SWITCH_24V_4" "pin_ok SWITCH_5V_1"
  "pin_ok LED0_PIN" "list_all pin_ok lamp_pins" "list_all pin_ok infrared_pins"
  by (simp_all add: switches pin_ok_def PIN_STPORT_MAX_def lamp_pins_def infrared_pins_def)

text \<open>No pin of the board is used twice.\<close>

lemma pins_distinct:
  "distinct ([SWITCH_24V_1, SWITCH_24V_2, SWITCH_24V_3, SWITCH_24V_4, SWITCH_5V_1, LED0_PIN] @ lamp_pins @ infrared_pins)"
  by (simp add: switches lamp_pins_def infrared_pins_def)

lemmas drives_simps = drives_write [OF pin_ok_used(1) _] drives_write [OF pin_ok_used(2) _]
  drives_write [OF pin_ok_used(3) _] drives_write [OF pin_ok_used(4) _] drives_write [OF pin_ok_used(5) _]
  drives_write [OF pin_ok_used(6) _]

lemma switch_neq:
  "distinct [SWITCH_24V_1, SWITCH_24V_2, SWITCH_24V_3, SWITCH_24V_4, SWITCH_5V_1, LED0_PIN]"
  using pins_distinct by simp

lemma power_init_drives:
  "drives (power_init g) SWITCH_24V_1 = Some False" "drives (power_init g) SWITCH_24V_2 = Some False"
  "drives (power_init g) SWITCH_24V_3 = Some False" "drives (power_init g) SWITCH_24V_4 = Some False"
  "drives (power_init g) SWITCH_5V_1 = Some False"
  using switch_neq
  by (auto simp add: power_init_def power_off_def drives_simps drives_mode drives_mode_other pin_ok_used)

lemma main_start_drives:
  assumes "drives g SWITCH_24V_1 \<noteq> None" "drives g SWITCH_24V_2 \<noteq> None" "drives g SWITCH_24V_3 \<noteq> None"
    "drives g SWITCH_24V_4 \<noteq> None" "drives g SWITCH_5V_1 \<noteq> None"
  shows "drives (main_start g) SWITCH_24V_1 = Some True" "drives (main_start g) SWITCH_24V_2 = Some True"
  "drives (main_start g) SWITCH_24V_3 = Some False" "drives (main_start g) SWITCH_24V_4 = Some False"
  "drives (main_start g) SWITCH_5V_1 = Some True" "drives (main_start g) LED0_PIN \<noteq> None"
  using switch_neq assms
  by (auto simp add: main_start_def power_on_def power_off_def drives_simps drives_mode drives_mode_other pin_ok_used)

lemma drives_modes_other:
  "list_all pin_ok ps \<Longrightarrow> pin_ok q \<Longrightarrow> q \<notin> set ps \<Longrightarrow> drives (fold (\<lambda>p. rt_pin_mode p m) ps g) q = drives g q"
  by (induction ps arbitrary: g) (simp_all add: drives_mode_other)

lemma drives_writes_other:
  "list_all pin_ok ps \<Longrightarrow> pin_ok q \<Longrightarrow> q \<notin> set ps \<Longrightarrow>
   drives (fold (\<lambda>(p, v). rt_pin_write p v) (zip ps vs) g) q = drives g q"
  by (induction ps vs arbitrary: g rule: list_induct2') (simp_all add: drives_write)

text \<open>Configuring and writing the lamps leaves every other pin alone, and each lamp shows its value.\<close>

lemma lamps_other:
  assumes "pin_ok q" and "q \<notin> set lamp_pins"
  shows "drives (fst (color_com a b c g)) q = drives g q" "drives (write_lamps vs g) q = drives g q"
  using assms pin_ok_used(7)
  by (simp_all add: color_com_def write_lamps_def drives_modes_other drives_writes_other)

lemma infrared_other:
  "pin_ok q \<Longrightarrow> q \<notin> set infrared_pins \<Longrightarrow> drives (Infrared_Init g) q = drives g q"
  using pin_ok_used(8) by (simp add: Infrared_Init_def drives_modes_other)

lemma write_lamps_drives:
  assumes "\<forall>p \<in> set lamp_pins. drives g p \<noteq> None" and "length vs = 4"
  shows "map (drives (write_lamps vs g)) lamp_pins = map Some vs"
proof -
  obtain a b c d where vs: "vs = [a, b, c, d]" using assms(2) by (auto simp: length_Suc_conv numeral_eq_Suc)
  have "pin_ok (GET_PIN 6 1)" "pin_ok (GET_PIN 6 3)" "pin_ok (GET_PIN 6 5)" "pin_ok (GET_PIN 6 7)"
    using pin_ok_used(7) by (simp_all add: lamp_pins_def)
  moreover have "distinct [GET_PIN 6 1, GET_PIN 6 3, GET_PIN 6 5, GET_PIN 6 7]" by (simp add: GET_PIN_def)
  ultimately show ?thesis
    using assms(1) by (auto simp: vs write_lamps_def lamp_pins_def drives_write)
qed

end
