(* ===== verification/Board.thy ===== *)
theory Board
  imports Gpio RobotManager
begin

section \<open>The board during the mission\<close>

text \<open>
  Who writes the pins while the robot works: the manager switches the supply of the gripper
  (\<open>SWITCH_24V_4\<close>), the handler of the vision messages shows the color on the lamps, and
  \<open>main\<close> blinks a LED. Their writes interleave in any way.
\<close>

datatype board_event = Mgr rb_event | Color u8 | Blink bool

fun board_step :: "board_event \<Rightarrow> gpio \<Rightarrow> gpio" where
  "board_step (Mgr Power_on) g = power_on SWITCH_24V_4 g"
| "board_step (Mgr Power_off) g = power_off SWITCH_24V_4 g"
| "board_step (Mgr e) g = g"
| "board_step (Color c) g = write_lamps (lamps c) g"
| "board_step (Blink v) g = main_blink v g"

fun mgr_events :: "board_event list \<Rightarrow> rb_event list" where
  "mgr_events [] = []"
| "mgr_events (Mgr e # es) = e # mgr_events es"
| "mgr_events (e # es) = mgr_events es"

text \<open>The pins after start-up, whatever they were before; the threads may start in between.\<close>

definition boot_pins :: "gpio \<Rightarrow> gpio" where
  "boot_pins g = main_start (fst (color_com True True True (Infrared_Init (power_init g))))"

lemma switch_lamp:
  "q \<in> {SWITCH_24V_1, SWITCH_24V_2, SWITCH_24V_3, SWITCH_24V_4, SWITCH_5V_1, LED0_PIN} \<Longrightarrow>
   pin_ok q \<and> q \<notin> set lamp_pins \<and> q \<notin> set infrared_pins"
  using pins_distinct pin_ok_used by auto

lemma boot_pins_drives:
  "drives (boot_pins g) SWITCH_24V_1 = Some True" "drives (boot_pins g) SWITCH_24V_2 = Some True"
  "drives (boot_pins g) SWITCH_24V_3 = Some False" "drives (boot_pins g) SWITCH_24V_4 = Some False"
  "drives (boot_pins g) SWITCH_5V_1 = Some True"
proof -
  let ?g = "fst (color_com True True True (Infrared_Init (power_init g)))"
  have "drives ?g q = drives (power_init g) q"
    if "q \<in> {SWITCH_24V_1, SWITCH_24V_2, SWITCH_24V_3, SWITCH_24V_4, SWITCH_5V_1}" for q
    using switch_lamp [of q] that by (auto simp: lamps_other infrared_other)
  then show "drives (boot_pins g) SWITCH_24V_1 = Some True" "drives (boot_pins g) SWITCH_24V_2 = Some True"
    "drives (boot_pins g) SWITCH_24V_3 = Some False" "drives (boot_pins g) SWITCH_24V_4 = Some False"
    "drives (boot_pins g) SWITCH_5V_1 = Some True"
    using main_start_drives [of ?g] power_init_drives [of g] by (simp_all add: boot_pins_def)
qed

text \<open>The switch of the gripper follows the manager's last call, the other switches stay as they are.\<close>

fun supplied :: "bool \<Rightarrow> rb_event list \<Rightarrow> bool" where
  "supplied on [] = on"
| "supplied on (Power_on # es) = supplied True es"
| "supplied on (Power_off # es) = supplied False es"
| "supplied on (e # es) = supplied on es"

lemma board_step_others:
  assumes "q \<in> {SWITCH_24V_1, SWITCH_24V_2, SWITCH_24V_3, SWITCH_5V_1}"
  shows "drives (board_step e g) q = drives g q"
proof -
  have q: "pin_ok q" "q \<notin> set lamp_pins" "q \<noteq> SWITCH_24V_4" "q \<noteq> LED0_PIN"
    using switch_lamp [of q] assms switch_neq by auto
  show ?thesis
  proof (cases e)
    case (Mgr x)
    with q show ?thesis by (cases x) (auto simp: power_on_def power_off_def drives_simps)
  qed (use q in \<open>auto simp: main_blink_def drives_simps lamps_other\<close>)
qed

lemma board_supply:
  "drives g SWITCH_24V_4 = Some on \<Longrightarrow>
   drives (fold board_step bs g) SWITCH_24V_4 = Some (supplied on (mgr_events bs))"
proof (induction bs arbitrary: on g)
  case (Cons b bs)
  have q: "pin_ok SWITCH_24V_4" "SWITCH_24V_4 \<notin> set lamp_pins" "SWITCH_24V_4 \<noteq> LED0_PIN"
    using switch_lamp [of SWITCH_24V_4] switch_neq by auto
  show ?case
  proof (cases b)
    case (Mgr e)
    with Cons q show ?thesis
      by (cases e) (simp_all add: power_on_def power_off_def drives_simps)
  qed (use Cons q in \<open>auto simp: main_blink_def drives_simps lamps_other\<close>)
qed simp

lemma board_others:
  "q \<in> {SWITCH_24V_1, SWITCH_24V_2, SWITCH_24V_3, SWITCH_5V_1} \<Longrightarrow> drives (fold board_step bs g) q = drives g q"
  by (induction bs arbitrary: g) (simp_all add: board_step_others)

subsection \<open>The supply of the gripper during the mission\<close>

fun picks_supplied :: "bool \<Rightarrow> rb_event list \<Rightarrow> bool" where
  "picks_supplied on [] = True"
| "picks_supplied on (Power_on # es) = picks_supplied True es"
| "picks_supplied on (Power_off # es) = picks_supplied False es"
| "picks_supplied on (e # es) = (on \<and> picks_supplied on es)"

lemma picks_supplied_at:
  "picks_supplied on (es @ e # fs) \<Longrightarrow> e \<in> {Pick, Up} \<Longrightarrow> supplied on es"
  by (induction on es rule: supplied.induct) auto

lemma mission_log_supply:
  "picks_supplied False (mission_log t p)" "supplied False (mission_log t p) \<longleftrightarrow> t = Put_table"
  unfolding mission_log_def by (induction p) (simp_all add: take_events_def)

lemma mgr_events_append [simp]: "mgr_events (as @ bs) = mgr_events as @ mgr_events bs"
  by (induction as rule: mgr_events.induct) simp_all



end
