(* ===== verification/Spec2Isabelle.thy ===== *)
theory Spec2Isabelle
  imports Statemachine Varcmd Action Sbus Port ArmRun IpcRun Gripper Drive Board
begin

text \<open>
  \<^bold>\<open>A verification of the firmware of a construction robot\<close>

  The program is the firmware of a mecanum-wheeled robot with an arm and a gripper, in C on
  RT-Thread (STM32F4). Its own code is \<open>src/project/applications\<close>; the rest of the repository is
  the operating system, vendor libraries and generated configuration.

  \<^bold>\<open>Parts and how they interact.\<close> Modules exchange messages over a publish/subscribe bus
  (\<open>abus/\<close>), whose topics have byte FIFOs and subscriber lists. The line sensor thread
  (\<open>follow_line.c\<close>) publishes the line error and special points; the robot manager
  (\<open>robotManager/robotmanager.c\<close>) answers with speed commands, or, at a special point, walks a
  path table (\<open>map/\<close>), picks up and puts down; the chassis (\<open>chassis/\<close>) turns commands into wheel
  targets; the motor layer (\<open>motor.c\<close>) runs cascaded PID controllers (\<open>apid.c\<close>) and hands the
  result to the CAN driver (\<open>motor_dj_rm_driver.c\<close>), which gets its measurements from an
  interrupt through RT-Thread's ring buffer. Serial lines lead to a position sensor
  (\<open>drv_action.c\<close>), a remote control (\<open>bsp_sbus.c\<close>), two stepper drives of the arm
  (\<open>Emm_V5.c\<close>, \<open>drv_stepper_motor.c\<close>; the kinematics in \<open>arduino_main.cpp\<close> give it the pulses) and the servo of the gripper
  (\<open>FasionStar/fashion_star_uart_servo.c\<close>). A state machine library on a growable array
  (\<open>statemachine/\<close>) and a shell command for variables (\<open>apid_exfunc.c\<close>) stand beside. The supplies
  of the board are switched by pins (\<open>aboard_power_switch.c\<close>, \<open>main.c\<close>).

  \<^bold>\<open>Conventions.\<close> (Prelude) Integers have the width of the target. A C function that may do
  something undefined, or never return, has a result of type \<open>fault + 'a\<close>: an access outside
  an object, a null pointer, a freed block, overlapping copies, a shift by the width, a
  division by zero, a conversion or a signed operation out of range, an unset variable, a busy loop. Memory that
  the code shares by pointers is an explicit heap (Alist, Cvector, Motor); other state is a
  record with the fields of the source. Floating-point values are reals, every operation
  followed by a rounding \<open>fl\<close> (single) or \<open>fd\<close> (double) that is a parameter; a property that needs
  a law of the rounding has it as a hypothesis. What other threads do while a thread sleeps, and
  what arrives on a line, is a parameter or a step of a relation. Definitions compute.

  \<^bold>\<open>Theories.\<close>
  \<^item> Prelude, Cyclic, Bytes: outcomes, \<open>memcpy\<close>, words; cyclic buffers (shared by Afifo and
    RingBuffer); bytes of words, and the contract \<open>codec\<close> of a writer and a reader of frames
    (interpreted in Emm and ServoRun).
  \<^item> Afifo (\<open>abus/afifo\<close>): the byte FIFO with free-running 32-bit counters refines a bounded
    queue through the wrap-around; allocation rounds up to a power of two.
  \<^item> Alist (\<open>abus/alist.h\<close>): the intrusive lists on a heap refine sequences; the length function
    ends only on the empty list.
  \<^item> Abus (\<open>abus/abus_topic\<close>, \<open>abus_port.c\<close>): registration, subscription and publication with
    callbacks that may publish again (locale \<open>bus_callbacks\<close>); the robot's configuration.
  \<^item> Cvector, Statemachine (\<open>statemachine/\<close>): the array refines a stack where the code is right, and
    what insertion and removal do instead; transitions, runs and restarts of a machine.
  \<^item> Apid, Varcmd (\<open>apid.c\<close>, \<open>apid_exfunc.c\<close>): all PID modes; limits of a step, the closed form of
    the position mode; the variable command on bytes.
  \<^item> Action, Sbus: the two byte parsers, frames decoded, no access out of bounds.
  \<^item> SemMap (\<open>map/\<close>), Motor (\<open>motor\<close>, \<open>motor_cfg\<close>), Chassis (\<open>chassis/\<close>): maps and path tables; the
    controllers of the motors and what a period commands; forward and inverse kinematics.
  \<^item> RobotManager (\<open>robotManager/\<close>, \<open>color_com.c\<close>): the mission thread refines an abstract course of 39
    actions under every schedule of the other threads (locale \<open>other_threads\<close>), with the exact
    list of what it does to gripper and supply.
  \<^item> Port (\<open>follow_line.c\<close> and the callbacks): bus, manager and chassis put together; its main
    property is in this theory.
  \<^item> RingBuffer (\<open>rt-thread/components/drivers/ipc/ringbuffer.c\<close>), DjMotor, DjLoop
    (\<open>motor_dj_rm_driver\<close>): the ring buffer refines a bounded queue that drops its oldest bytes; the
    search by CAN id; the angle over full turns; interrupt, ring buffer, thread, controller
    and CAN frame as one loop with its invariant.
  \<^item> Drive: chassis, motor layer and CAN driver together: every interleaving of their threads
    keeps the invariants of all layers, and a target of the chassis becomes, per wheel, the
    current that the wheel's own controllers compute, in one frame on the wire.
  \<^item> Emm, Stepper, StepperRun (\<open>Emm_V5\<close>, \<open>drv_stepper_motor\<close>): the commands of the stepper drives
    and their reader; the two threads, the interrupt, the mutex and the semaphores as a step
    relation: with drives that answer as documented every command is served, and one bad
    answer stops the arm for ever.
  \<^item> Ipc, IpcSem, IpcMtx, IpcRun (\<open>rt-thread/src/ipc.c\<close> with \<open>scheduler_comm.c\<close>, \<open>thread.c\<close>, \<open>timer.c\<close>): semaphores and
    mutexes with priority inheritance; every run of threads and interrupts refines counters and
    locks (locale \<open>refined_steps\<close>), forgets no waiting thread and faults in no call; the lock of the
    specification is the mutex of Stepper. A release in the gap of the timer interrupt is lost.
  \<^item> Ieee, Arm, ArmGeo, ArmRun (\<open>arduino_main.cpp\<close>, \<open>robotarm/\<close>): floating-point numbers with infinities;
    the interpolation and the geometry of the arm; the computed angles are right, the
    position stays within reach, and through the commands of the stepper drives the end
    effector comes to within a tenth of a millimetre of its target.
  \<^item> Servo, ServoRun, ServoProps (\<open>FasionStar/\<close>): frames, receiver and operations of the servo; the
    receiver depends only on the bytes that come, not on their spread over interrupts; the
    orders read are those asked for; the receiver's only fault; what waiting reports.
  \<^item> Gripper: the gripper calls of the mission, carried out by the servo's functions.
  \<^item> Gpio, Board (\<open>drv_gpio.c\<close>, \<open>aboard_power_switch.c\<close>, \<open>main.c\<close>, \<open>color_com.c\<close>): pins down to the
    set/reset register, the switches at start, and the supply of the gripper during the
    mission, whoever else writes pins.

  \<^bold>\<open>Bounds and fuel.\<close> Loops are structural or have a termination proof, except where the code
  may run for ever: the search by CAN id, the loop \<open>waitUntilServoIDLE\<close> and the chain of inherited priorities are
  \<open>partial_function\<close>s whose value \<open>None\<close> means that they never return. The nesting of bus
  callbacks is bounded by 2, which the configuration of the robot cannot exceed (shown in
  Port); a relative movement gives up after 1001 periods and \<open>FSUS_Wait\<close> after 10000 queries
  because the code counts so; the manager's wait for its start takes the number of polls as
  fuel and has the value \<open>None\<close> while the start has not come. The counting of motor turns stays inside 32-bit integers for the 262000 reports the property
  speaks of, and the queue of the CAN driver holds 4096 of them.

  \<^bold>\<open>Not modelled.\<close> Creating threads and kernel objects, and logging, have no effect on the
  state that is modelled; where the code looks at their results these are arguments. Left out
  with a reason in the list of components: the generated I2C set-up (\<open>color.c\<close>), a thread with
  an empty body (\<open>robot_move_direct.c\<close>), the classes of the arm project that nothing calls, the board support, CMSIS, packages, HAL apart from writing a pin, and
  RT-Thread apart from its ring buffer, semaphores, mutexes and the pin driver. The scheduler's choice of a thread is
  any order of steps; serial devices have the documented effects the program relies on. Runs over
  mutexes do not nest them and have no time limit on them; Servo takes its mutex with one, and has
  the failing take as an outcome.
\<close>

section \<open>Properties that span components\<close>

text \<open>
  C4: From the line sensor to the chassis, across the bus. After \<open>abus_all_init\<close>, any number of
  rounds of the line sensor's thread, with any pin values, executes without a fault and
  without spinning: a special point is published and switches the manager into action mode,
  then the error is published, and while the manager follows the line its callback publishes
  the control message in turn, whose subscriber sets the chassis' target. The messages travel
  as bytes through the FIFOs, nested publications included (two levels of calls are enough);
  the result is that of calling the callbacks directly with the values, and the bus is left
  as it was.
\<close>

theorem line_sensor_drives_robot:
  fixes enc :: "real \<Rightarrow> u8 list" and dec :: "u8 list \<Rightarrow> real"
  assumes "\<forall>k\<in>{1..4}. length (block k) = 1024 \<and> alloc k sizeof_afifo = Some (fa k)"
    and "distinct (map fa [1, 2, 3, 4])"
    and "\<forall>x. length (enc x) = 4" and "\<forall>x. dec (enc (fl x)) = fl x" and "fl 0 = 0"
    and "length junk = unat sizeof_chassis_ctrl"
  shows "\<exists>s s'. abus_all_init lit block alloc (abus_zero w) = Inr (0, s) \<and>
    follow_line_rounds (port_call 2 enc dec fl junk) enc fl fd ps s = Some (Inr s') \<and>
    same_bus s s' \<and> fview s' = fview s \<and>
    mgr (world s') = fold (line_step fl fd (move_direction (infrared_package w))) ps (mgr w)"
proof -
  from assms(1,2) obtain s where s: "abus_all_init lit block alloc (abus_zero w) = Inr (0, s)"
    using boot_ok [where block = block and alloc = alloc and fa = fa and lit = lit and w = w] by blast
  note r = boot_fw_ready [where block = block and alloc = alloc and fa = fa, OF assms(1,2) s]
  from follow_line_rounds_ok [OF r(1) assms(3-6), of 0 fd ps] s r(2) show ?thesis
    by (auto simp: numeral_2_eq_2)
qed

text \<open>A number format with four fractional bits in one byte, for an example.\<close>

definition demo_fl :: "real \<Rightarrow> real" where
  "demo_fl x = real_of_int (sint (word_of_int \<lfloor>16 * x\<rfloor> :: u8)) / 16"

definition demo_enc :: "real \<Rightarrow> u8 list" where
  "demo_enc x = [word_of_int \<lfloor>16 * x\<rfloor>, 0, 0, 0]"

definition demo_dec :: "u8 list \<Rightarrow> real" where
  "demo_dec bs = real_of_int (sint (bs ! 0)) / 16"

lemma demo_format: "demo_dec (demo_enc (demo_fl x)) = demo_fl x" "demo_fl 0 = 0" "length (demo_enc x) = 4"
proof -
  have "\<lfloor>16 * (real_of_int k / 16)\<rfloor> = k" for k :: int by simp
  moreover have "word_of_int (sint w) = w" for w :: u8 by simp
  ultimately show "demo_dec (demo_enc (demo_fl x)) = demo_fl x"
    unfolding demo_fl_def demo_enc_def demo_dec_def by (simp only: nth_Cons_0)
qed (simp_all add: demo_fl_def demo_enc_def)

definition demo_firmware :: "unit firmware" where
  "demo_firmware = \<lparr>mgr = demo_rbmg\<lparr>rbmg_mode := LINE_MODE\<rparr>,
     infrared_package = \<lparr>infrared_data = replicate 8 0, is_spacial_point_flag = 0, move_direction = [0]\<rparr>,
     follow_error = 0\<rparr>"

theorem line_sensor_drives_robot_witness:
  "\<exists>s s'. abus_all_init length (\<lambda>_. replicate 1024 0) (\<lambda>k _. Some (100 + k)) (abus_zero demo_firmware) = Inr (0, s) \<and>
    follow_line_rounds (port_call 2 demo_enc demo_dec demo_fl (replicate 16 0)) demo_enc demo_fl (\<lambda>x. x)
      [replicate 8 True] s = Some (Inr s') \<and>
    cspeed (ctarget (chassis_mai (car (mgr (world s'))))) = \<lparr>x_m_s = 0, y_m_s = 1 / 4, z_rad_s = 0\<rparr>"
proof -
  have "\<exists>s s'. abus_all_init length (\<lambda>_. replicate 1024 0) (\<lambda>k _. Some (100 + k)) (abus_zero demo_firmware) = Inr (0, s) \<and>
    follow_line_rounds (port_call 2 demo_enc demo_dec demo_fl (replicate 16 0)) demo_enc demo_fl (\<lambda>x. x)
      [replicate 8 True] s = Some (Inr s') \<and> same_bus s s' \<and> fview s' = fview s \<and>
    mgr (world s') = fold (line_step demo_fl (\<lambda>x. x) (move_direction (infrared_package demo_firmware)))
      [replicate 8 True] (mgr demo_firmware)"
    by (rule line_sensor_drives_robot [where fa = "\<lambda>k. 100 + k"])
      (simp_all add: demo_format sizeof_chassis_ctrl_def del: replicate.simps)
  moreover have "cspeed (ctarget (chassis_mai (car (line_step demo_fl (\<lambda>x. x) [0] (replicate 8 True)
      (demo_rbmg\<lparr>rbmg_mode := LINE_MODE\<rparr>))))) = \<lparr>x_m_s = 0, y_m_s = 1 / 4, z_rad_s = 0\<rparr>"
    by (simp add: line_step_def GET_Infrared_Data_def Is_Spacial_point_def line_error_of_def
        RobotManager.rbmg_error_callback_def publish_ctrl_def apply_ctrl_def chassis_set_speed_def
        demo_fl_def Let_def nth_Cons' upt_rec numeral_eq_Suc)
  ultimately show ?thesis by (auto simp: demo_firmware_def)
qed

end
